(* ===== verification/Prelude.thy ===== *)
theory Prelude
  imports
    Complex_Main
    "HOL-Library.Char_ord"
    "HOL-Library.List_Lexorder"
    "HOL-Library.Product_Lexorder"
    "HOL-Library.Multiset"
    "HOL-Library.Word"
begin

text \<open>
  What every component shares: machine integers, byte strings, results, and the
  model of Rust's \<open>BTreeMap\<close> and \<open>BTreeSet\<close>.

  A Rust \<open>String\<close> is the list of its UTF-8 bytes, so \<open>len()\<close> is \<open>length\<close> and
  the derived \<open>Ord\<close> is the lexicographic order of \<^theory_text>\<open>List_Lexorder\<close>.
  A \<open>BTreeMap\<close> is the list of its entries in ascending key order: iteration,
  \<open>values()\<close> and \<open>keys()\<close> read the list from the left, and two maps are equal
  exactly when they hold the same entries.
\<close>

section \<open>Names\<close>

type_synonym u32 = "32 word"
type_synonym u64 = "64 word"
type_synonym usize = "64 word"

text \<open>A fallible operation on mutable state returns the state it leaves behind
  together with its result, so that what a failing call has already written stays
  visible.\<close>

type_synonym ('s, 'e, 'a) outcome = "'s \<times> ('e + 'a)"

type_synonym ('k, 'v) btree = "('k \<times> 'v) list"
type_synonym 'a btset = "'a list"

named_theorems btree_simps \<open>reading an ordered map after an operation on it\<close>
named_theorems btree_ok \<open>operations that keep the entries in key order\<close>

abbreviation is_ok :: "'e + 'a \<Rightarrow> bool" where
  "is_ok r \<equiv> \<not> isl r"

lemma is_ok_iff: "is_ok r \<longleftrightarrow> (\<exists>x. r = Inr x)"
  by (cases r) auto

section \<open>Ordered maps\<close>

definition bt_ok :: "('k::linorder, 'v) btree \<Rightarrow> bool" where
  "bt_ok m \<longleftrightarrow> sorted_wrt (<) (map fst m)"

definition bt_get :: "('k, 'v) btree \<Rightarrow> 'k \<Rightarrow> 'v option" where
  "bt_get m k = map_of m k"

definition bt_contains :: "('k, 'v) btree \<Rightarrow> 'k \<Rightarrow> bool" where
  "bt_contains m k \<longleftrightarrow> bt_get m k \<noteq> None"

definition bt_keys :: "('k, 'v) btree \<Rightarrow> 'k list" where
  "bt_keys m = map fst m"

definition bt_values :: "('k, 'v) btree \<Rightarrow> 'v list" where
  "bt_values m = map snd m"

fun bt_insert :: "'k::linorder \<Rightarrow> 'v \<Rightarrow> ('k, 'v) btree \<Rightarrow> ('k, 'v) btree" where
  "bt_insert k v [] = [(k, v)]"
| "bt_insert k v (e # m) =
     (if fst e < k then e # bt_insert k v m
      else if fst e = k then (k, v) # m
      else (k, v) # e # m)"

text \<open>\<open>entry(k).or_insert(v)\<close>: the first write wins.\<close>

definition bt_or_insert :: "'k::linorder \<Rightarrow> 'v \<Rightarrow> ('k, 'v) btree \<Rightarrow> ('k, 'v) btree" where
  "bt_or_insert k v m = (if bt_contains m k then m else bt_insert k v m)"

text \<open>\<open>*entry(k).or_insert(d) = f(..)\<close>: update in place, from a default.\<close>

definition bt_alter :: "'k::linorder \<Rightarrow> 'v \<Rightarrow> ('v \<Rightarrow> 'v) \<Rightarrow> ('k, 'v) btree \<Rightarrow> ('k, 'v) btree" where
  "bt_alter k d f m = bt_insert k (f (case bt_get m k of None \<Rightarrow> d | Some v \<Rightarrow> v)) m"

text \<open>\<open>extend\<close> and \<open>collect\<close>: insert in iteration order, later entries overwrite.\<close>

fun bt_extend :: "('k::linorder, 'v) btree \<Rightarrow> ('k \<times> 'v) list \<Rightarrow> ('k, 'v) btree" where
  "bt_extend m [] = m"
| "bt_extend m (e # es) = bt_extend (bt_insert (fst e) (snd e) m) es"

fun bs_insert :: "'a::linorder \<Rightarrow> 'a btset \<Rightarrow> 'a btset" where
  "bs_insert x [] = [x]"
| "bs_insert x (y # ys) =
     (if y < x then y # bs_insert x ys else if y = x then y # ys else x # y # ys)"

fun bs_extend :: "'a::linorder btset \<Rightarrow> 'a list \<Rightarrow> 'a btset" where
  "bs_extend s [] = s"
| "bs_extend s (x # xs) = bs_extend (bs_insert x s) xs"

abbreviation bs_of :: "'a::linorder list \<Rightarrow> 'a btset" where
  "bs_of xs \<equiv> bs_extend [] xs"

abbreviation bs_ok :: "'a::linorder btset \<Rightarrow> bool" where
  "bs_ok s \<equiv> sorted_wrt (<) s"

subsection \<open>Lookup after the operations\<close>

lemma bt_get_Nil [simp]: "bt_get [] k = None"
  by (simp add: bt_get_def)

lemma bt_get_Cons [simp]:
  "bt_get (e # m) k = (if fst e = k then Some (snd e) else bt_get m k)"
  by (cases e) (simp add: bt_get_def)

lemma bt_get_insert [simp, btree_simps]:
  "bt_get (bt_insert k v m) k' = (if k' = k then Some v else bt_get m k')"
  by (induction m) auto

lemma bt_contains_Nil [simp]: "\<not> bt_contains [] k"
  by (simp add: bt_contains_def)

lemma bt_contains_insert [simp, btree_simps]:
  "bt_contains (bt_insert k v m) k' \<longleftrightarrow> k' = k \<or> bt_contains m k'"
  by (simp add: bt_contains_def)

lemma bt_contains_keys: "bt_contains m k \<longleftrightarrow> k \<in> fst ` set m"
  by (simp add: bt_contains_def bt_get_def map_of_eq_None_iff)

lemma bt_contains_iff_Some: "bt_contains m k \<longleftrightarrow> (\<exists>v. bt_get m k = Some v)"
  by (simp add: bt_contains_def)

lemma bt_get_or_insert [simp, btree_simps]:
  "bt_get (bt_or_insert k v m) k' =
     (if k' = k then Some (case bt_get m k of None \<Rightarrow> v | Some w \<Rightarrow> w) else bt_get m k')"
  by (auto simp: bt_or_insert_def bt_contains_def split: option.splits)

lemma bt_contains_or_insert [simp, btree_simps]:
  "bt_contains (bt_or_insert k v m) k' \<longleftrightarrow> k' = k \<or> bt_contains m k'"
  by (auto simp: bt_or_insert_def)

lemma bt_or_insert_keeps: "bt_get m k = Some w \<Longrightarrow> bt_get (bt_or_insert k' v m) k = Some w"
  by auto

lemma bt_get_alter [simp, btree_simps]:
  "bt_get (bt_alter k d f m) k' =
     (if k' = k then Some (f (case bt_get m k of None \<Rightarrow> d | Some v \<Rightarrow> v)) else bt_get m k')"
  by (simp add: bt_alter_def)

lemma bt_get_extend: "bt_get (bt_extend m es) k = (case map_of (rev es) k of None \<Rightarrow> bt_get m k | Some v \<Rightarrow> Some v)"
  by (induction es arbitrary: m) (auto simp: map_add_def split: option.splits)

lemma bt_contains_extend: "bt_contains (bt_extend m es) k \<longleftrightarrow> bt_contains m k \<or> k \<in> fst ` set es"
  by (induction es arbitrary: m) auto

subsection \<open>Order of the entries\<close>

lemma bt_ok_Nil [simp, btree_ok]: "bt_ok []"
  by (simp add: bt_ok_def)

lemma bt_ok_Cons [simp]: "bt_ok (e # m) \<longleftrightarrow> (\<forall>k \<in> fst ` set m. fst e < k) \<and> bt_ok m"
  by (simp add: bt_ok_def)

lemma fst_set_bt_insert [simp]: "fst ` set (bt_insert k v m) = insert k (fst ` set m)"
  by (induction m) auto

lemma bt_ok_insert [btree_ok]: "bt_ok m \<Longrightarrow> bt_ok (bt_insert k v m)"
  by (induction m) fastforce+

lemma bt_ok_or_insert [btree_ok]: "bt_ok m \<Longrightarrow> bt_ok (bt_or_insert k v m)"
  by (simp add: bt_or_insert_def bt_ok_insert)

lemma bt_ok_alter [btree_ok]: "bt_ok m \<Longrightarrow> bt_ok (bt_alter k d f m)"
  by (simp add: bt_alter_def bt_ok_insert)

lemma bt_ok_extend [btree_ok]: "bt_ok m \<Longrightarrow> bt_ok (bt_extend m es)"
  by (induction es arbitrary: m) (auto simp: bt_ok_insert)

lemma bt_ok_distinct: "bt_ok m \<Longrightarrow> distinct (map fst m)"
  by (simp add: bt_ok_def strict_sorted_iff)

lemma bt_ok_keys: "bt_ok m \<Longrightarrow> sorted_wrt (<) (bt_keys m)"
  by (simp add: bt_ok_def bt_keys_def)

lemma bt_keys_iff: "k \<in> set (bt_keys m) \<longleftrightarrow> bt_contains m k"
  by (simp add: bt_keys_def bt_contains_keys)

lemma bt_get_in_set: "bt_get m k = Some v \<Longrightarrow> (k, v) \<in> set m"
  by (simp add: bt_get_def map_of_SomeD)

lemma bt_get_iff_in_set: "bt_ok m \<Longrightarrow> bt_get m k = Some v \<longleftrightarrow> (k, v) \<in> set m"
  by (simp add: bt_get_def bt_ok_distinct)

lemma bt_values_iff: "v \<in> set (bt_values m) \<longleftrightarrow> (\<exists>k. (k, v) \<in> set m)"
  by (force simp: bt_values_def)

lemma bt_valuesI: "bt_get m k = Some v \<Longrightarrow> v \<in> set (bt_values m)"
  by (auto simp: bt_values_iff dest: bt_get_in_set)

lemma bt_valuesE:
  assumes "bt_ok m" and "v \<in> set (bt_values m)"
  obtains k where "bt_get m k = Some v"
  using assms by (auto simp: bt_values_iff bt_get_iff_in_set)

lemma set_bt_insert: "bt_ok m \<Longrightarrow> set (bt_insert k v m) = insert (k, v) {e \<in> set m. fst e \<noteq> k}"
  by (induction m) (auto simp: image_iff)

text \<open>Two ordered maps with the same lookup are the same list of entries: equality of
  Rust maps is equality of the model.\<close>

lemma bt_ext:
  assumes "bt_ok m" and "bt_ok n" and "\<And>k. bt_get m k = bt_get n k"
  shows "m = n"
proof -
  have "set m = set n"
    using assms bt_get_iff_in_set by (metis subrelI subset_antisym)
  moreover have "inj_on fst (set m \<union> set n)"
    using assms(1) bt_ok_distinct \<open>set m = set n\<close> by (metis Un_absorb distinct_map)
  ultimately show ?thesis
    using assms(1,2) map_sorted_distinct_set_unique [of fst m n]
    by (simp add: bt_ok_def strict_sorted_iff)
qed

lemma bt_set_eq:
  assumes "bt_ok m" and "bt_ok n" and "set m = set n"
  shows "m = n"
  by (rule bt_ext [OF assms(1,2)]) (metis assms bt_get_iff_in_set not_None_eq)

subsection \<open>Ordered sets\<close>

lemma set_bs_insert [simp]: "set (bs_insert x s) = insert x (set s)"
  by (induction s) auto

lemma bs_ok_insert [btree_ok]: "bs_ok s \<Longrightarrow> bs_ok (bs_insert x s)"
  by (induction s) auto

lemma set_bs_extend [simp]: "set (bs_extend s xs) = set s \<union> set xs"
  by (induction xs arbitrary: s) auto

lemma bs_ok_extend [btree_ok]: "bs_ok s \<Longrightarrow> bs_ok (bs_extend s xs)"
  by (induction xs arbitrary: s) (auto simp: bs_ok_insert)

lemma bs_ok_distinct: "bs_ok s \<Longrightarrow> distinct s"
  by (simp add: strict_sorted_iff)

text \<open>\<open>sort()\<close> followed by \<open>dedup()\<close> gives the ascending list of the elements.\<close>

lemma strict_sorted_dedup: "sorted xs \<Longrightarrow> sorted_wrt (<) (remdups_adj xs)"
  by (induction xs rule: remdups_adj.induct) force+

lemma bs_insert_absorb: "bs_ok s \<Longrightarrow> x \<in> set s \<Longrightarrow> bs_insert x s = s"
  by (induction s) auto

end
