(* ===== verification/Rust_Text.thy ===== *)
theory Rust_Text
  imports Prelude
begin

text \<open>
  The operations of Rust's \<open>str\<close>, \<open>char\<close> and \<open>u8\<close> that the sources use, on UTF-8
  byte strings: blankness and control characters (for the code points the standard
  library classifies so, by their byte sequences), ASCII classes, prefixes, substrings,
  \<open>join\<close> and decimal \<open>to_string\<close>.
\<close>

abbreviation byte :: "char \<Rightarrow> nat" where
  "byte c \<equiv> of_char c"

section \<open>Whitespace and control characters\<close>

definition ascii_ws :: "char \<Rightarrow> bool" where
  "ascii_ws c \<longleftrightarrow> (9 \<le> byte c \<and> byte c \<le> 13) \<or> byte c = 32"

text \<open>U+0085 and U+00A0.\<close>

definition ws2 :: "char \<Rightarrow> char \<Rightarrow> bool" where
  "ws2 a b \<longleftrightarrow> byte a = 0xC2 \<and> (byte b = 0x85 \<or> byte b = 0xA0)"

text \<open>U+1680, U+2000 to U+200A, U+2028, U+2029, U+202F, U+205F and U+3000.\<close>

definition ws3 :: "char \<Rightarrow> char \<Rightarrow> char \<Rightarrow> bool" where
  "ws3 a b c \<longleftrightarrow>
     (byte a = 0xE1 \<and> byte b = 0x9A \<and> byte c = 0x80)
   \<or> (byte a = 0xE2 \<and> byte b = 0x80 \<and>
        ((0x80 \<le> byte c \<and> byte c \<le> 0x8A) \<or> byte c = 0xA8 \<or> byte c = 0xA9 \<or> byte c = 0xAF))
   \<or> (byte a = 0xE2 \<and> byte b = 0x81 \<and> byte c = 0x9F)
   \<or> (byte a = 0xE3 \<and> byte b = 0x80 \<and> byte c = 0x80)"

text \<open>\<open>s.trim().is_empty()\<close>: every character of \<open>s\<close> is whitespace.\<close>

fun blank :: "string \<Rightarrow> bool" where
  "blank [] = True"
| "blank (a # s) =
     (if ascii_ws a then blank s
      else case s of
        [] \<Rightarrow> False
      | b # s' \<Rightarrow>
          if ws2 a b then blank s'
          else (case s' of [] \<Rightarrow> False | c # s'' \<Rightarrow> ws3 a b c \<and> blank s''))"

text \<open>\<open>s.trim()\<close>: whitespace characters off the front, then off the reversed end.\<close>

fun trim_front :: "string \<Rightarrow> string" where
  "trim_front [] = []"
| "trim_front (a # s) =
     (if ascii_ws a then trim_front s
      else case s of
        [] \<Rightarrow> [a]
      | b # s' \<Rightarrow>
          if ws2 a b then trim_front s'
          else (case s' of [] \<Rightarrow> a # s | c # s'' \<Rightarrow> if ws3 a b c then trim_front s'' else a # s))"

fun trim_back :: "string \<Rightarrow> string" where
  "trim_back [] = []"
| "trim_back (a # s) =
     (if ascii_ws a then trim_back s
      else case s of
        [] \<Rightarrow> [a]
      | b # s' \<Rightarrow>
          if ws2 b a then trim_back s'
          else (case s' of [] \<Rightarrow> a # s | c # s'' \<Rightarrow> if ws3 c b a then trim_back s'' else a # s))"

definition trim :: "string \<Rightarrow> string" where
  "trim s = rev (trim_back (rev (trim_front s)))"

text \<open>\<open>s.chars().any(char::is_control)\<close>: U+0000 to U+001F, U+007F, U+0080 to U+009F.\<close>

fun has_control :: "string \<Rightarrow> bool" where
  "has_control [] = False"
| "has_control (a # s) =
     (byte a < 32 \<or> byte a = 127
      \<or> (case s of [] \<Rightarrow> False | b # _ \<Rightarrow> byte a = 0xC2 \<and> 0x80 \<le> byte b \<and> byte b \<le> 0x9F)
      \<or> has_control s)"

section \<open>ASCII classes\<close>

definition is_digit :: "char \<Rightarrow> bool" where
  "is_digit c \<longleftrightarrow> 48 \<le> byte c \<and> byte c \<le> 57"

definition is_lower :: "char \<Rightarrow> bool" where
  "is_lower c \<longleftrightarrow> 97 \<le> byte c \<and> byte c \<le> 122"

definition is_upper :: "char \<Rightarrow> bool" where
  "is_upper c \<longleftrightarrow> 65 \<le> byte c \<and> byte c \<le> 90"

definition is_alnum :: "char \<Rightarrow> bool" where
  "is_alnum c \<longleftrightarrow> is_digit c \<or> is_lower c \<or> is_upper c"

definition is_hexdigit :: "char \<Rightarrow> bool" where
  "is_hexdigit c \<longleftrightarrow> is_digit c \<or> (97 \<le> byte c \<and> byte c \<le> 102) \<or> (65 \<le> byte c \<and> byte c \<le> 70)"

text \<open>A lower-case hex digit: \<open>is_ascii_digit() || (b'a'..=b'f').contains(&b)\<close>.\<close>

definition is_lowhex :: "char \<Rightarrow> bool" where
  "is_lowhex c \<longleftrightarrow> is_digit c \<or> (97 \<le> byte c \<and> byte c \<le> 102)"

definition ascii_lower :: "char \<Rightarrow> char" where
  "ascii_lower c = (if is_upper c then char_of (byte c + 32) else c)"

definition eq_ignore_ascii_case :: "string \<Rightarrow> string \<Rightarrow> bool" where
  "eq_ignore_ascii_case a b \<longleftrightarrow> map ascii_lower a = map ascii_lower b"

section \<open>Prefixes, substrings, joins\<close>

definition starts_with :: "string \<Rightarrow> string \<Rightarrow> bool" where
  "starts_with s p \<longleftrightarrow> take (length p) s = p"

definition strip_prefix :: "string \<Rightarrow> string \<Rightarrow> string option" where
  "strip_prefix s p = (if starts_with s p then Some (drop (length p) s) else None)"

fun str_contains :: "string \<Rightarrow> string \<Rightarrow> bool" where
  "str_contains [] p \<longleftrightarrow> p = []"
| "str_contains (c # s) p \<longleftrightarrow> starts_with (c # s) p \<or> str_contains s p"

fun join :: "string \<Rightarrow> string list \<Rightarrow> string" where
  "join sep [] = []"
| "join sep [x] = x"
| "join sep (x # y # ys) = x @ sep @ join sep (y # ys)"

text \<open>Decimal digits, most significant first, as \<open>to_string\<close> writes them.\<close>

definition digit_char :: "nat \<Rightarrow> char" where
  "digit_char d = char_of (48 + d)"

fun dec :: "nat \<Rightarrow> string" where
  "dec n = (if n < 10 then [digit_char n] else dec (n div 10) @ [digit_char (n mod 10)])"

declare dec.simps [simp del]

section \<open>Facts about them\<close>

lemma starts_with_iff: "starts_with s p \<longleftrightarrow> (\<exists>t. s = p @ t)"
  unfolding starts_with_def by (metis append_eq_conv_conj append_take_drop_id)

lemma strip_prefix_Some: "strip_prefix s p = Some t \<longleftrightarrow> s = p @ t"
  by (auto simp: strip_prefix_def starts_with_iff)

lemma starts_with_refl [simp]: "starts_with s s"
  by (simp add: starts_with_def)

lemma starts_with_Nil [simp]: "starts_with s []"
  by (simp add: starts_with_def)

lemma str_contains_iff: "str_contains s p \<longleftrightarrow> (\<exists>u v. s = u @ p @ v)"
proof (induction s)
  case Nil
  then show ?case by auto
next
  case (Cons c s)
  show ?case
  proof
    assume "str_contains (c # s) p"
    then consider t where "c # s = [] @ p @ t" | u v where "c # s = (c # u) @ p @ v"
      using Cons.IH by (auto simp: starts_with_iff)
    then show "\<exists>u v. c # s = u @ p @ v" by cases blast+
  next
    assume "\<exists>u v. c # s = u @ p @ v"
    then obtain u v where uv: "c # s = u @ p @ v" by blast
    show "str_contains (c # s) p"
    proof (cases u)
      case Nil
      with uv have "starts_with (c # s) p" by (auto simp: starts_with_iff)
      then show ?thesis by simp
    next
      case (Cons d u')
      with uv have "s = u' @ p @ v" by simp
      with Cons.IH have "str_contains s p" by blast
      then show ?thesis by simp
    qed
  qed
qed

lemma str_contains_refl [simp]: "str_contains s s"
  by (auto simp: str_contains_iff intro: exI [of _ "[]"])

lemma starts_with_contains: "starts_with s p \<Longrightarrow> str_contains s p"
  by (auto simp: str_contains_iff starts_with_iff intro: exI [of _ "[]"])

lemma blank_Nil_iff: "\<not> blank s \<Longrightarrow> s \<noteq> []"
  by auto

lemma byte_digit_char: "d < 10 \<Longrightarrow> byte (digit_char d) = 48 + d"
  by (simp add: digit_char_def)

lemma digit_char_inj: "a < 10 \<Longrightarrow> b < 10 \<Longrightarrow> digit_char a = digit_char b \<Longrightarrow> a = b"
  using byte_digit_char by (metis add_left_imp_eq)

lemma dec_not_Nil [simp]: "dec n \<noteq> []"
  by (subst dec.simps) simp

lemma dec_single: "length (dec n) = 1 \<longleftrightarrow> n < 10"
  by (subst dec.simps) simp

lemma dec_inj: "dec m = dec n \<Longrightarrow> m = n"
proof (induction m arbitrary: n rule: less_induct)
  case (less m)
  show ?case
  proof (cases "m < 10")
    case True
    then have "n < 10" using less.prems dec_single by metis
    with True less.prems show ?thesis
      using digit_char_inj by (simp add: dec.simps [of m] dec.simps [of n])
  next
    case False
    then have n: "\<not> n < 10" using less.prems dec_single by metis
    with False less.prems have "dec (m div 10) = dec (n div 10)"
      and "digit_char (m mod 10) = digit_char (n mod 10)"
      by (simp_all add: dec.simps [of m] dec.simps [of n])
    then have "m div 10 = n div 10" and "m mod 10 = n mod 10"
      using less.IH [of "m div 10"] False digit_char_inj by simp_all
    then show ?thesis by (metis div_mult_mod_eq)
  qed
qed

lemma dec_digits: "c \<in> set (dec n) \<Longrightarrow> is_digit c"
proof (induction n rule: dec.induct)
  case (1 n)
  then show ?case
    by (subst (asm) dec.simps) (auto simp: is_digit_def byte_digit_char split: if_splits)
qed

text \<open>Joining with a separator is injective on nonempty lists of nonempty parts that do
  not contain it; in general it is not.\<close>

lemma join_Cons: "join sep (x # xs) = (if xs = [] then x else x @ sep @ join sep xs)"
  by (cases xs) auto

lemma append_sep_inj:
  "c \<notin> set a \<Longrightarrow> c \<notin> set b \<Longrightarrow> a @ c # r = b @ c # s \<longleftrightarrow> a = b \<and> r = s"
  by (induction a arbitrary: b) (case_tac b; auto)+

lemma join_inj:
  assumes "\<forall>x \<in> set xs. c \<notin> set x \<and> x \<noteq> []" and "\<forall>y \<in> set ys. c \<notin> set y \<and> y \<noteq> []"
    and "join [c] xs = join [c] ys"
  shows "xs = ys"
  using assms
proof (induction xs arbitrary: ys)
  case Nil
  then show ?case by (cases ys) (auto simp: join_Cons split: if_splits)
next
  case (Cons x xs)
  then obtain y ys' where ys: "ys = y # ys'" 
    by (cases ys) (auto simp: join_Cons split: if_splits)
  from Cons.prems ys have nx: "c \<notin> set x" and ny: "c \<notin> set y" by auto
  from Cons.prems(3) ys
  have eq: "(if xs = [] then x else x @ c # join [c] xs) = (if ys' = [] then y else y @ c # join [c] ys')"
    by (simp add: join_Cons split: if_splits)
  show ?case
  proof (cases "xs = []")
    case True
    with eq nx have "ys' = []" by (auto split: if_splits)
    with True eq ys show ?thesis by simp
  next
    case False
    with eq ny have "ys' \<noteq> []" by (auto split: if_splits)
    with False eq have "x = y \<and> join [c] xs = join [c] ys'"
      using append_sep_inj [OF nx ny] by simp
    then show ?thesis using Cons.IH [of ys'] Cons.prems ys by auto
  qed
qed

end
