(* ===== verification/Core_Types.thy ===== *)
theory Core_Types
  imports Rust_Text
begin

text \<open>
  The domain types of \<^verbatim>\<open>crates/chaosbox-core/src/lib.rs\<close>: spans, entities, relations,
  evidence, claims, decisions and inferences, their canonical storage names, and the
  deterministic identifiers. The SHA-256 hex digest of a byte string is a parameter
  \<open>H\<close>: it comes from the crates \<open>sha2\<close> and \<open>hex\<close>.
\<close>

section \<open>Floating point values and JSON documents\<close>

text \<open>
  A 64-bit float is a NaN, an infinity (with its sign) or a finite value. Every finite
  value is a rational, and comparing two finite values compares the rationals. No
  rounding arithmetic is modelled.
\<close>

datatype f64 = F64_NaN | F64_Inf bool | F64_Finite rat

fun f64_is_finite :: "f64 \<Rightarrow> bool" where
  "f64_is_finite (F64_Finite _) = True"
| "f64_is_finite _ = False"

instantiation f64 :: ord
begin

fun less_eq_f64 :: "f64 \<Rightarrow> f64 \<Rightarrow> bool" where
  "less_eq_f64 (F64_Finite a) (F64_Finite b) = (a \<le> b)"
| "less_eq_f64 F64_NaN _ = False"
| "less_eq_f64 _ F64_NaN = False"
| "less_eq_f64 (F64_Inf negative) (F64_Inf negative') = (negative \<or> \<not> negative')"
| "less_eq_f64 (F64_Inf negative) (F64_Finite _) = negative"
| "less_eq_f64 (F64_Finite _) (F64_Inf negative) = (\<not> negative)"

definition less_f64 :: "f64 \<Rightarrow> f64 \<Rightarrow> bool" where
  "less_f64 a b \<longleftrightarrow> a \<le> b \<and> \<not> b \<le> a"

instance ..

end

text \<open>The documents of \<open>serde_json::Value\<close>; a number is kept as its text.\<close>

datatype json =
    JNull
  | JBool bool
  | JNumber string
  | JString string
  | JArray "json list"
  | JObject "(string \<times> json) list"

section \<open>Deterministic identifiers\<close>

text \<open>The bytes that are hashed: every part is followed by a NUL byte.\<close>

abbreviation NUL :: char where
  "NUL \<equiv> CHR 0x00"

fun nul_frame :: "string list \<Rightarrow> string" where
  "nul_frame [] = []"
| "nul_frame (p # ps) = p @ [NUL] @ nul_frame ps"

definition sha256_hex :: "(string \<Rightarrow> string) \<Rightarrow> string list \<Rightarrow> string" where
  "sha256_hex H parts = H (nul_frame parts)"

definition deterministic_id :: "(string \<Rightarrow> string) \<Rightarrow> string \<Rightarrow> string list \<Rightarrow> string" where
  "deterministic_id H pre parts = pre @ '':'' @ take 12 (sha256_hex H parts)"

section \<open>Spans and entities\<close>

record source_span =
  sp_file :: string
  sp_start_line :: u32
  sp_start_col :: u32
  sp_end_line :: u32
  sp_end_col :: u32
  sp_byte_start :: u32
  sp_byte_end :: u32

definition span_point :: "string \<Rightarrow> u32 \<Rightarrow> u32 \<Rightarrow> u32 \<Rightarrow> source_span" where
  "span_point file line col b =
     \<lparr>sp_file = file, sp_start_line = line, sp_start_col = col,
      sp_end_line = line, sp_end_col = col, sp_byte_start = b, sp_byte_end = b\<rparr>"

datatype entity_kind =
  EK_File | EK_Module | EK_Symbol | EK_Definition | EK_Import | EK_Heading | EK_Link
| EK_CodeMention | EK_Rationale

text \<open>The derived \<open>Debug\<close> name, which enters the entity id.\<close>

fun entity_kind_debug :: "entity_kind \<Rightarrow> string" where
  "entity_kind_debug EK_File = ''File''"
| "entity_kind_debug EK_Module = ''Module''"
| "entity_kind_debug EK_Symbol = ''Symbol''"
| "entity_kind_debug EK_Definition = ''Definition''"
| "entity_kind_debug EK_Import = ''Import''"
| "entity_kind_debug EK_Heading = ''Heading''"
| "entity_kind_debug EK_Link = ''Link''"
| "entity_kind_debug EK_CodeMention = ''CodeMention''"
| "entity_kind_debug EK_Rationale = ''Rationale''"

text \<open>The serde \<open>snake_case\<close> name, which is stored.\<close>

fun entity_kind_name :: "entity_kind \<Rightarrow> string" where
  "entity_kind_name EK_File = ''file''"
| "entity_kind_name EK_Module = ''module''"
| "entity_kind_name EK_Symbol = ''symbol''"
| "entity_kind_name EK_Definition = ''definition''"
| "entity_kind_name EK_Import = ''import''"
| "entity_kind_name EK_Heading = ''heading''"
| "entity_kind_name EK_Link = ''link''"
| "entity_kind_name EK_CodeMention = ''code_mention''"
| "entity_kind_name EK_Rationale = ''rationale''"

record symbol_identity =
  sym_anchor :: string
  sym_context :: string
  sym_symbol :: string
  sym_local :: bool
  sym_roles :: u32

record entity =
  ent_id :: string
  ent_kind :: entity_kind
  ent_repo :: string
  ent_snapshot :: string
  ent_file :: string
  ent_name :: string
  ent_qualified_name :: string
  ent_span :: source_span
  ent_aliases :: "string list"
  ent_compiler :: "symbol_identity option"
  ent_text :: "string option"

definition entity_new ::
  "(string \<Rightarrow> string) \<Rightarrow> entity_kind \<Rightarrow> string \<Rightarrow> string \<Rightarrow> string \<Rightarrow> string \<Rightarrow> string \<Rightarrow> source_span \<Rightarrow> entity" where
  "entity_new H kind repo snapshot file name qualified_name sp =
     \<lparr>ent_id = deterministic_id H ''ent''
        [repo, snapshot, file, entity_kind_debug kind, qualified_name,
         dec (unat (sp_start_line sp)), dec (unat (sp_start_col sp))],
      ent_kind = kind, ent_repo = repo, ent_snapshot = snapshot, ent_file = file,
      ent_name = name, ent_qualified_name = qualified_name, ent_span = sp,
      ent_aliases = [], ent_compiler = None, ent_text = None\<rparr>"

section \<open>Relations\<close>

datatype relation_type =
  RT_Contains | RT_Defines | RT_Imports | RT_References | RT_Calls | RT_Implements
| RT_Inherits | RT_LinksTo | RT_Mentions

fun relation_type_debug :: "relation_type \<Rightarrow> string" where
  "relation_type_debug RT_Contains = ''Contains''"
| "relation_type_debug RT_Defines = ''Defines''"
| "relation_type_debug RT_Imports = ''Imports''"
| "relation_type_debug RT_References = ''References''"
| "relation_type_debug RT_Calls = ''Calls''"
| "relation_type_debug RT_Implements = ''Implements''"
| "relation_type_debug RT_Inherits = ''Inherits''"
| "relation_type_debug RT_LinksTo = ''LinksTo''"
| "relation_type_debug RT_Mentions = ''Mentions''"

fun relation_type_name :: "relation_type \<Rightarrow> string" where
  "relation_type_name RT_Contains = ''contains''"
| "relation_type_name RT_Defines = ''defines''"
| "relation_type_name RT_Imports = ''imports''"
| "relation_type_name RT_References = ''references''"
| "relation_type_name RT_Calls = ''calls''"
| "relation_type_name RT_Implements = ''implements''"
| "relation_type_name RT_Inherits = ''inherits''"
| "relation_type_name RT_LinksTo = ''links_to''"
| "relation_type_name RT_Mentions = ''mentions''"

datatype relation_scope = RS_File | RS_Module | RS_CrossFile

record relation =
  rel_id :: string
  rel_type :: relation_type
  rel_from :: string
  rel_to :: string
  rel_scope :: relation_scope
  rel_evidence_ids :: "string list"

definition relation_new ::
  "(string \<Rightarrow> string) \<Rightarrow> relation_type \<Rightarrow> string \<Rightarrow> string \<Rightarrow> relation_scope \<Rightarrow> string \<Rightarrow> relation" where
  "relation_new H ty f t scope build =
     \<lparr>rel_id = deterministic_id H ''rel'' [build, relation_type_debug ty, f, t],
      rel_type = ty, rel_from = f, rel_to = t, rel_scope = scope, rel_evidence_ids = []\<rparr>"

section \<open>Evidence, claims, decisions\<close>

datatype evidence_class = EC_Extracted | EC_Inferred | EC_Ambiguous

fun evidence_class_name :: "evidence_class \<Rightarrow> string" where
  "evidence_class_name EC_Extracted = ''extracted''"
| "evidence_class_name EC_Inferred = ''inferred''"
| "evidence_class_name EC_Ambiguous = ''ambiguous''"

record evidence =
  ev_id :: string
  ev_class :: evidence_class
  ev_supports :: bool
  ev_text :: string
  ev_span :: "source_span option"
  ev_snapshot :: string
  ev_source_file_version :: string
  ev_producer :: "string option"

record snapshot_file =
  sf_snapshot :: string
  sf_path :: string
  sf_sha256 :: string
  sf_bytes :: u64

record claim =
  cl_id :: string
  cl_relation_id :: string
  cl_supporting :: "string list"
  cl_contradicting :: "string list"
  cl_accepted :: bool

datatype decision_outcome =
  DO_Accepted | DO_Rejected | DO_Abstained | DO_Negative | DO_Failed string

datatype raw_answer =
    RA_Noul f64
  | RA_Choice string "(string, f64) btree" f64
  | RA_Score f64 "(string, f64) btree" f64 "f64 list"

record decision =
  dec_id :: string
  dec_candidate_id :: string
  dec_question_id :: string
  dec_outcome :: decision_outcome
  dec_evidence_class :: evidence_class
  dec_model_requested :: string
  dec_model_returned :: string
  dec_confidence :: "f64 option"
  dec_probability :: "f64 option"
  dec_cache_key :: string
  dec_reuse_key :: string
  dec_raw_answer :: "raw_answer option"

record inference_record =
  inf_reuse_key :: string
  inf_raw :: raw_answer
  inf_model_requested :: string
  inf_model_returned :: string

record candidate =
  cand_id :: string
  cand_rel_type :: relation_type
  cand_from_entity :: string
  cand_to_entity :: string
  cand_reason :: string
  cand_state_excerpt :: string

section \<open>The candidate catalog\<close>

definition CATALOG_VERSION :: string where
  "CATALOG_VERSION = ''catalog-v2''"

definition candidate_record :: "candidate \<Rightarrow> string" where
  "candidate_record c =
     cand_id c @ '':'' @ relation_type_name (cand_rel_type c) @ '':'' @ cand_from_entity c
     @ '':'' @ cand_to_entity c @ '':'' @ cand_reason c"

definition catalog_digest :: "(string \<Rightarrow> string) \<Rightarrow> candidate list \<Rightarrow> string" where
  "catalog_digest H candidates =
     sha256_hex H (sort (map candidate_record candidates) @ [CATALOG_VERSION])"

section \<open>Validation of model-returned values\<close>

datatype policy_error =
    UnknownPrivacy string
  | UnknownInference string
  | PrivateNeverExternal
  | LiveJevNeedsGrant

datatype validation_error =
    ProbabilityRange f64
  | ConfidenceRange f64
  | NonFinite
  | EmptyLabel
  | CrossBuildEdge string string
  | DuplicateMember string
  | Policy policy_error

definition check_probability :: "f64 \<Rightarrow> validation_error + unit" where
  "check_probability p =
     (if \<not> f64_is_finite p then Inl NonFinite
      else if \<not> (F64_Finite 0 \<le> p \<and> p \<le> F64_Finite 1) then Inl (ProbabilityRange p)
      else Inr ())"

definition check_confidence :: "f64 \<Rightarrow> validation_error + unit" where
  "check_confidence c =
     (if \<not> f64_is_finite c then Inl NonFinite
      else if \<not> (F64_Finite 0 \<le> c \<and> c \<le> F64_Finite 1) then Inl (ConfidenceRange c)
      else Inr ())"

definition check_label :: "string \<Rightarrow> validation_error + unit" where
  "check_label label = (if blank label then Inl EmptyLabel else Inr ())"

section \<open>Facts about identifiers and names\<close>

definition nul_free :: "string list \<Rightarrow> bool" where
  "nul_free ps \<longleftrightarrow> (\<forall>p \<in> set ps. NUL \<notin> set p)"

lemma nul_free_Cons [simp]: "nul_free (p # ps) \<longleftrightarrow> NUL \<notin> set p \<and> nul_free ps"
  by (simp add: nul_free_def)

lemma nul_free_Nil [simp]: "nul_free []"
  by (simp add: nul_free_def)

lemma nul_free_append [simp]: "nul_free (ps @ qs) \<longleftrightarrow> nul_free ps \<and> nul_free qs"
  by (auto simp: nul_free_def)

lemma nul_frame_append: "nul_frame (ps @ qs) = nul_frame ps @ nul_frame qs"
  by (induction ps) auto

lemma nul_frame_inj:
  assumes "nul_free ps" and "nul_free qs" and "nul_frame ps = nul_frame qs"
  shows "ps = qs"
  using assms
proof (induction ps arbitrary: qs)
  case Nil
  then show ?case by (cases qs) auto
next
  case (Cons p ps)
  then obtain q qs' where qs: "qs = q # qs'" by (cases qs) auto
  with Cons.prems have "p = q \<and> nul_frame ps = nul_frame qs'"
    by (intro append_sep_inj [THEN iffD1]) simp_all
  with Cons.IH [of qs'] Cons.prems qs show ?case by simp
qed

lemma deterministic_id_eq:
  "deterministic_id H pre ps = deterministic_id H pre qs
     \<longleftrightarrow> take 12 (H (nul_frame ps)) = take 12 (H (nul_frame qs))"
  by (simp add: deterministic_id_def sha256_hex_def)

lemma nul_not_digit: "\<not> is_digit NUL"
  by (simp add: is_digit_def)

lemma dec_nul_free [simp]: "NUL \<notin> set (dec n)"
  using dec_digits nul_not_digit by blast

lemma dec_unat_inj: "dec (unat a) = dec (unat b) \<longleftrightarrow> a = b"
  using dec_inj by (metis word_unat_eq_iff)

lemma entity_kind_debug_nul_free [simp]: "NUL \<notin> set (entity_kind_debug k)"
  by (cases k) simp_all

lemma entity_kind_debug_inj: "entity_kind_debug k = entity_kind_debug k' \<longleftrightarrow> k = k'"
  by (cases k; cases k') simp_all

lemma entity_kind_name_inj: "entity_kind_name k = entity_kind_name k' \<longleftrightarrow> k = k'"
  by (cases k; cases k') simp_all

lemma relation_type_debug_nul_free [simp]: "NUL \<notin> set (relation_type_debug t)"
  by (cases t) simp_all

lemma relation_type_debug_inj: "relation_type_debug t = relation_type_debug t' \<longleftrightarrow> t = t'"
  by (cases t; cases t') simp_all

lemma relation_type_name_inj: "relation_type_name t = relation_type_name t' \<longleftrightarrow> t = t'"
  by (cases t; cases t') simp_all

lemma evidence_class_name_inj: "evidence_class_name c = evidence_class_name c' \<longleftrightarrow> c = c'"
  by (cases c; cases c') simp_all

text \<open>The hash keeps these two messages apart. Full collision freedom is false of any
  digest, so a theorem asks it of the two messages it compares only.\<close>

definition distinguishes :: "(string \<Rightarrow> string) \<Rightarrow> string \<Rightarrow> string \<Rightarrow> bool" where
  "distinguishes h a b \<longleftrightarrow> (h a = h b \<longrightarrow> a = b)"

text \<open>What the identity of an entity is made of.\<close>

definition entity_parts :: "entity \<Rightarrow> string list" where
  "entity_parts e =
     [ent_repo e, ent_snapshot e, ent_file e, entity_kind_debug (ent_kind e), ent_qualified_name e,
      dec (unat (sp_start_line (ent_span e))), dec (unat (sp_start_col (ent_span e)))]"

lemma entity_new_id:
  "ent_id (entity_new H k r s f n q sp) =
     deterministic_id H ''ent'' (entity_parts (entity_new H k r s f n q sp))"
  by (simp add: entity_new_def entity_parts_def)

lemma entity_parts_new:
  "entity_parts (entity_new H k r s f n q sp) =
     [r, s, f, entity_kind_debug k, q, dec (unat (sp_start_line sp)), dec (unat (sp_start_col sp))]"
  by (simp add: entity_new_def entity_parts_def)

section \<open>Properties\<close>

text \<open>Entity identities are scoped: two entities built from different repositories,
  snapshots, files, kinds, qualified names or start positions get different ids, as long
  as the texts hold no NUL byte and the truncated digest does not collide on the two
  hashed messages. In particular ids never cross snapshots. (The short name, the end of
  the span and the byte offsets are not part of the identity.)\<close>

theorem entity_ids_scoped:
  assumes "nul_free [r, s, f, q]" and "nul_free [r', s', f', q']"
    and no_collision: "distinguishes (\<lambda>m. take 12 (H m))
      (nul_frame (entity_parts (entity_new H k r s f n q sp)))
      (nul_frame (entity_parts (entity_new H k' r' s' f' n' q' sp')))"
    and "(r, s, f, k, q, sp_start_line sp, sp_start_col sp)
       \<noteq> (r', s', f', k', q', sp_start_line sp', sp_start_col sp')"
  shows "ent_id (entity_new H k r s f n q sp) \<noteq> ent_id (entity_new H k' r' s' f' n' q' sp')"
proof
  assume "ent_id (entity_new H k r s f n q sp) = ent_id (entity_new H k' r' s' f' n' q' sp')"
  then have "nul_frame (entity_parts (entity_new H k r s f n q sp))
      = nul_frame (entity_parts (entity_new H k' r' s' f' n' q' sp'))"
    using no_collision by (simp add: distinguishes_def entity_new_id deterministic_id_eq)
  then have "entity_parts (entity_new H k r s f n q sp) = entity_parts (entity_new H k' r' s' f' n' q' sp')"
    using assms(1,2) by (intro nul_frame_inj) (simp_all add: entity_parts_new)
  then show False
    using assms(4) by (auto simp: entity_parts_new entity_kind_debug_inj dec_unat_inj)
qed

theorem entity_ids_scoped_witness:
  "ent_id (entity_new (\<lambda>m. m) EK_Symbol ''r'' ''s1'' ''a.rs'' ''foo'' ''a::foo'' (span_point ''a.rs'' 1 1 0))
   \<noteq> ent_id (entity_new (\<lambda>m. m) EK_Symbol ''r'' ''s2'' ''a.rs'' ''foo'' ''a::foo'' (span_point ''a.rs'' 1 1 0))"
  by (rule entity_ids_scoped) (simp_all add: entity_parts_new distinguishes_def)

text \<open>The catalog digest identifies the candidate set and not its order: for records
  without NUL bytes and a digest that does not collide on the two messages, two candidate
  lists have the same digest exactly when they hold the same records, each as often.\<close>

theorem catalog_digest_iff:
  assumes "nul_free (map candidate_record cs)" and "nul_free (map candidate_record ds)"
    and no_collision: "distinguishes H (nul_frame (sort (map candidate_record cs) @ [CATALOG_VERSION]))
      (nul_frame (sort (map candidate_record ds) @ [CATALOG_VERSION]))"
  shows "catalog_digest H cs = catalog_digest H ds
    \<longleftrightarrow> mset (map candidate_record cs) = mset (map candidate_record ds)"
proof
  assume "catalog_digest H cs = catalog_digest H ds"
  then have "nul_frame (sort (map candidate_record cs) @ [CATALOG_VERSION])
      = nul_frame (sort (map candidate_record ds) @ [CATALOG_VERSION])"
    using no_collision by (simp add: distinguishes_def catalog_digest_def sha256_hex_def)
  then have "sort (map candidate_record cs) @ [CATALOG_VERSION]
      = sort (map candidate_record ds) @ [CATALOG_VERSION]"
    using assms(1,2) by (intro nul_frame_inj) (auto simp: nul_free_def CATALOG_VERSION_def)
  then show "mset (map candidate_record cs) = mset (map candidate_record ds)"
    by (metis append_same_eq mset_sort)
next
  assume "mset (map candidate_record cs) = mset (map candidate_record ds)"
  then have "sort (map candidate_record cs) = sort (map candidate_record ds)"
    by (metis properties_for_sort mset_sort sorted_sort)
  then show "catalog_digest H cs = catalog_digest H ds"
    by (simp add: catalog_digest_def)
qed

definition sample_candidate :: "string \<Rightarrow> candidate" where
  "sample_candidate i = \<lparr>cand_id = i, cand_rel_type = RT_Calls, cand_from_entity = ''a'',
     cand_to_entity = ''b'', cand_reason = ''structural'', cand_state_excerpt = []\<rparr>"

theorem catalog_digest_iff_witness:
  "catalog_digest (\<lambda>m. m) [sample_candidate ''c1'', sample_candidate ''c2'']
   = catalog_digest (\<lambda>m. m) [sample_candidate ''c2'', sample_candidate ''c1'']"
proof -
  have "mset (map candidate_record [sample_candidate ''c1'', sample_candidate ''c2''])
      = mset (map candidate_record [sample_candidate ''c2'', sample_candidate ''c1''])"
    by (simp add: add_mset_commute)
  then show ?thesis
    by (subst catalog_digest_iff) (simp_all add: sample_candidate_def candidate_record_def distinguishes_def)
qed

text \<open>A model-returned probability is accepted exactly when it is a finite number in
  the closed unit interval; a NaN or an infinity is reported as non-finite and any other
  value with itself as the offender.\<close>

theorem check_probability_exact:
  "(check_probability p = Inr () \<longleftrightarrow> (\<exists>x. p = F64_Finite x \<and> 0 \<le> x \<and> x \<le> 1))
   \<and> (check_probability p = Inl NonFinite \<longleftrightarrow> (\<forall>x. p \<noteq> F64_Finite x))
   \<and> (check_probability p = Inl (ProbabilityRange p) \<longleftrightarrow> (\<exists>x. p = F64_Finite x \<and> (x < 0 \<or> 1 < x)))"
  by (cases p) (auto simp: check_probability_def)

end
