(* ===== verification/Ingestion_Policy.thy ===== *)
theory Ingestion_Policy
  imports Core_Types
begin

text \<open>
  \<open>EffectivePolicy\<close> of \<^verbatim>\<open>crates/chaosbox-core/src/lib.rs\<close>: what a run may read and
  whether its excerpts may leave the machine. The construction refuses unknown tokens, the
  gate for live inference is closed unless both the privacy class and the grant open it,
  and the digest enters every decision cache key.
\<close>

record effective_policy =
  ep_scope :: "string list"
  ep_privacy :: string
  ep_inference :: string
  ep_exclude :: "string list"

definition with_exclude :: "effective_policy \<Rightarrow> string list \<Rightarrow> effective_policy" where
  "with_exclude p exclude = p\<lparr>ep_exclude := exclude\<rparr>"

text \<open>\<open>scope.sort(); scope.dedup()\<close>.\<close>

definition effective_policy_new ::
  "string list \<Rightarrow> string \<Rightarrow> string \<Rightarrow> validation_error + effective_policy" where
  "effective_policy_new scope privacy inference =
     (if privacy \<noteq> ''local'' \<and> privacy \<noteq> ''private'' then Inl (Policy (UnknownPrivacy privacy))
      else if inference \<noteq> ''none'' \<and> inference \<noteq> ''typesafe-jev''
        then Inl (Policy (UnknownInference inference))
      else Inr \<lparr>ep_scope = remdups_adj (sort scope), ep_privacy = privacy,
                ep_inference = inference, ep_exclude = []\<rparr>)"

definition policy_digest :: "(string \<Rightarrow> string) \<Rightarrow> effective_policy \<Rightarrow> string" where
  "policy_digest H p =
     (let scope = join '','' (ep_scope p) in
      if ep_exclude p = [] then sha256_hex H [scope, ep_privacy p, ep_inference p]
      else let exclude = join '','' (ep_exclude p) in
        sha256_hex H [scope, ep_privacy p, ep_inference p, exclude])"

definition allows_live_jev :: "effective_policy \<Rightarrow> bool" where
  "allows_live_jev p \<longleftrightarrow> ep_privacy p = ''local'' \<and> ep_inference p = ''typesafe-jev''"

definition require_live_jev :: "effective_policy \<Rightarrow> validation_error + unit" where
  "require_live_jev p =
     (if allows_live_jev p then Inr ()
      else if ep_privacy p = ''private'' then Inl (Policy PrivateNeverExternal)
      else Inl (Policy LiveJevNeedsGrant))"

section \<open>Facts\<close>

lemma sort_dedup_strict: "sorted_wrt (<) (remdups_adj (sort xs))"
  by (simp add: strict_sorted_dedup)

lemma new_policy_cases:
  assumes "effective_policy_new scope privacy inference = Inr p"
  shows "ep_privacy p = privacy" and "ep_inference p = inference" and "ep_exclude p = []"
    and "privacy \<in> {''local'', ''private''}" and "inference \<in> {''none'', ''typesafe-jev''}"
    and "set (ep_scope p) = set scope" and "sorted_wrt (<) (ep_scope p)"
  using assms by (auto simp: effective_policy_new_def sort_dedup_strict split: if_splits)

text \<open>What the digest hashes.\<close>

definition policy_parts :: "effective_policy \<Rightarrow> string list" where
  "policy_parts p = [join '','' (ep_scope p), ep_privacy p, ep_inference p]
     @ (if ep_exclude p = [] then [] else [join '','' (ep_exclude p)])"

lemma policy_digest_parts: "policy_digest H p = H (nul_frame (policy_parts p))"
  by (simp add: policy_digest_def policy_parts_def sha256_hex_def)

text \<open>Directory and glob lists whose \<open>,\<close>-separated text determines them.\<close>

definition comma_safe :: "string list \<Rightarrow> bool" where
  "comma_safe xs \<longleftrightarrow> (\<forall>x \<in> set xs. CHR '','' \<notin> set x \<and> x \<noteq> [])"

lemma join_comma_inj: "comma_safe xs \<Longrightarrow> comma_safe ys \<Longrightarrow> join '','' xs = join '','' ys \<longleftrightarrow> xs = ys"
  using join_inj [of xs "CHR '',''" ys] by (auto simp: comma_safe_def)

lemma policy_parts_inj:
  assumes "comma_safe (ep_scope p)" "comma_safe (ep_exclude p)"
    and "comma_safe (ep_scope q)" "comma_safe (ep_exclude q)"
    and "policy_parts p = policy_parts q"
  shows "p = q"
  using assms by (auto simp: policy_parts_def join_comma_inj split: if_splits)

section \<open>Properties\<close>

text \<open>The policy fails closed: construction succeeds only for the two known privacy
  classes and the two known grants (with the scope sorted, free of duplicates and
  otherwise unchanged), and live inference is allowed only under the \<open>local\<close> class together
  with the explicit \<open>typesafe-jev\<close> grant. Every refusal of the gate is an error that says
  whether the class or the missing grant is the reason; no exclusion list opens it.\<close>

theorem policy_fails_closed:
  "(\<forall>p. effective_policy_new scope privacy inference = Inr p \<longrightarrow>
      privacy \<in> {''local'', ''private''} \<and> inference \<in> {''none'', ''typesafe-jev''}
      \<and> set (ep_scope p) = set scope \<and> sorted_wrt (<) (ep_scope p)
      \<and> (require_live_jev (with_exclude p globs) = Inr ()
           \<longleftrightarrow> privacy = ''local'' \<and> inference = ''typesafe-jev'')
      \<and> (require_live_jev (with_exclude p globs) = Inl (Policy PrivateNeverExternal)
           \<longleftrightarrow> privacy = ''private'')
      \<and> (require_live_jev (with_exclude p globs) = Inl (Policy LiveJevNeedsGrant)
           \<longleftrightarrow> privacy = ''local'' \<and> inference = ''none''))
   \<and> (isl (effective_policy_new scope privacy inference)
        \<longleftrightarrow> privacy \<notin> {''local'', ''private''} \<or> inference \<notin> {''none'', ''typesafe-jev''})"
  by (auto simp: effective_policy_new_def require_live_jev_def allows_live_jev_def with_exclude_def
      sort_dedup_strict)

theorem policy_fails_closed_witness:
  "\<exists>p. effective_policy_new [''src'', ''docs'', ''src''] ''local'' ''typesafe-jev'' = Inr p
     \<and> require_live_jev (with_exclude p []) = Inr ()"
  using policy_fails_closed [of "[''src'', ''docs'', ''src'']" "''local''" "''typesafe-jev''" "[]"]
  by (cases "effective_policy_new [''src'', ''docs'', ''src''] ''local'' ''typesafe-jev''") auto

text \<open>The digest covers the whole policy, so a changed policy never reuses a cached
  decision: for directories and globs that are nonempty and hold no comma, texts without
  NUL bytes, and a digest that does not collide on the two messages, equal digests mean
  equal scope, privacy class, grant and exclusions.\<close>

theorem policy_digest_covers:
  assumes "comma_safe (ep_scope p)" "comma_safe (ep_exclude p)"
    and "comma_safe (ep_scope q)" "comma_safe (ep_exclude q)"
    and "nul_free (policy_parts p)" "nul_free (policy_parts q)"
    and "distinguishes H (nul_frame (policy_parts p)) (nul_frame (policy_parts q))"
    and "policy_digest H p = policy_digest H q"
  shows "p = q"
proof -
  have "nul_frame (policy_parts p) = nul_frame (policy_parts q)"
    using assms(7,8) by (simp add: distinguishes_def policy_digest_parts)
  then have "policy_parts p = policy_parts q"
    using assms(5,6) nul_frame_inj by blast
  then show ?thesis using assms(1-4) policy_parts_inj by blast
qed

definition sample_policy :: "string list \<Rightarrow> effective_policy" where
  "sample_policy scope = \<lparr>ep_scope = scope, ep_privacy = ''local'', ep_inference = ''none'',
     ep_exclude = [''target'']\<rparr>"

theorem policy_digest_covers_witness:
  "policy_digest (\<lambda>m. m) (sample_policy [''cli'']) \<noteq> policy_digest (\<lambda>m. m) (sample_policy [''lib''])"
proof
  assume "policy_digest (\<lambda>m. m) (sample_policy [''cli'']) = policy_digest (\<lambda>m. m) (sample_policy [''lib''])"
  then have "sample_policy [''cli''] = sample_policy [''lib'']"
    by (rule policy_digest_covers [rotated -1])
      (simp_all add: sample_policy_def comma_safe_def policy_parts_def distinguishes_def)
  then show False by (simp add: sample_policy_def)
qed

text \<open>The comma in the joined scope is not escaped: the policy for the one directory
  \<open>a,b\<close> and the policy for the two directories \<open>a\<close> and \<open>b\<close> are different policies with
  the same digest, whatever the hash is, so decisions cached under one are found under
  the other.\<close>

theorem policy_digest_comma_collision:
  "\<exists>p q. effective_policy_new [''a,b''] ''local'' ''typesafe-jev'' = Inr p
     \<and> effective_policy_new [''a'', ''b''] ''local'' ''typesafe-jev'' = Inr q
     \<and> p \<noteq> q \<and> policy_digest H p = policy_digest H q"
  by (simp add: effective_policy_new_def policy_digest_def)

end
