(* ===== verification/Coverage.thy ===== *)
theory Coverage
  imports Core_Types
begin

text \<open>
  Processing coverage stored with a build: \<^verbatim>\<open>crates/chaosbox-core/src/coverage.rs\<close> and
  the compiler coverage of \<^verbatim>\<open>compiler.rs\<close>, with the bounded reports that status and
  export show. Stored counters are \<open>usize\<close> words, so their sums wrap as they do in a
  release build.
\<close>

section \<open>Compiler coverage\<close>

record analysis_context =
  ac_id :: string
  ac_producer :: string
  ac_index_sha256 :: string
  ac_inputs :: "(string, string) btree"
  ac_command :: "string list"
  ac_declared :: "(string, string) btree"
  ac_encoding_override :: "string option"

record compiler_file_coverage =
  cfc_file :: string
  cfc_status :: string
  cfc_encoding :: "string option"
  cfc_occurrences :: usize

record compiler_coverage =
  cc_context :: analysis_context
  cc_files :: "compiler_file_coverage list"
  cc_definitions :: usize
  cc_references :: usize
  cc_unresolved_references :: usize
  cc_ambiguous_references :: usize
  cc_symbol_less :: usize
  cc_implementations :: usize
  cc_unresolved_implementations :: usize
  cc_unsupported_relationships :: usize
  cc_diagnostics :: usize
  cc_calls :: string
  cc_typecheck :: string
  cc_configuration_membership :: string

definition compiler_relations :: "compiler_coverage \<Rightarrow> usize" where
  "compiler_relations c = cc_definitions c + cc_references c + cc_implementations c"

record compiler_report =
  cr_context :: string
  cr_producer :: string
  cr_index_sha256 :: string
  cr_files :: "compiler_file_coverage list"
  cr_omitted_files :: nat
  cr_definitions :: usize
  cr_references :: usize
  cr_unresolved_references :: usize
  cr_ambiguous_references :: usize
  cr_implementations :: usize
  cr_unresolved_implementations :: usize
  cr_unsupported_relationships :: usize
  cr_diagnostics :: usize
  cr_symbol_less :: usize
  cr_calls :: string
  cr_typecheck :: string
  cr_configuration_membership :: string

definition compiler_coverage_report :: "compiler_coverage \<Rightarrow> compiler_report" where
  "compiler_coverage_report c =
     (let shown = min (length (cc_files c)) 100 in
      \<lparr>cr_context = ac_id (cc_context c), cr_producer = ac_producer (cc_context c),
       cr_index_sha256 = ac_index_sha256 (cc_context c),
       cr_files = take shown (cc_files c), cr_omitted_files = length (cc_files c) - shown,
       cr_definitions = cc_definitions c, cr_references = cc_references c,
       cr_unresolved_references = cc_unresolved_references c,
       cr_ambiguous_references = cc_ambiguous_references c,
       cr_implementations = cc_implementations c,
       cr_unresolved_implementations = cc_unresolved_implementations c,
       cr_unsupported_relationships = cc_unsupported_relationships c,
       cr_diagnostics = cc_diagnostics c, cr_symbol_less = cc_symbol_less c,
       cr_calls = cc_calls c, cr_typecheck = cc_typecheck c,
       cr_configuration_membership = cc_configuration_membership c\<rparr>)"

section \<open>Build coverage\<close>

datatype syntax_status = SS_Parsed | SS_ParseError | SS_Heuristic

record file_coverage =
  fc_file :: string
  fc_producer :: string
  fc_status :: syntax_status
  fc_facts :: usize

record catalog_coverage =
  cat_relations :: usize
  cat_producer :: string
  cat_receipt :: string
  cat_database :: string
  cat_schema :: string
  cat_role :: string
  cat_observed_at :: u64
  cat_objects :: "(string, usize) btree"
  cat_unresolved_foreign_keys :: usize
  cat_omissions :: json

record build_coverage =
  bc_files :: "file_coverage list"
  bc_structural_relations :: usize
  bc_decision_relations :: usize
  bc_resolved_relations :: usize
  bc_compiler :: "compiler_coverage option"
  bc_catalog :: "catalog_coverage option"

record coverage_report =
  rep_catalog :: "catalog_coverage option"
  rep_structural_relations :: usize
  rep_decision_relations :: usize
  rep_resolved_relations :: usize
  rep_file_count :: nat
  rep_parse_errors :: nat
  rep_heuristic_files :: nat
  rep_files :: "file_coverage list"
  rep_omitted_files :: nat
  rep_compiler :: "compiler_report option"

definition build_coverage_report :: "build_coverage \<Rightarrow> coverage_report" where
  "build_coverage_report c =
     (let shown = min (length (bc_files c)) 100 in
      \<lparr>rep_catalog = bc_catalog c,
       rep_structural_relations = bc_structural_relations c,
       rep_decision_relations = bc_decision_relations c,
       rep_resolved_relations = bc_resolved_relations c,
       rep_file_count = length (bc_files c),
       rep_parse_errors = length (filter (\<lambda>f. fc_status f = SS_ParseError) (bc_files c)),
       rep_heuristic_files = length (filter (\<lambda>f. fc_status f = SS_Heuristic) (bc_files c)),
       rep_files = take shown (bc_files c),
       rep_omitted_files = length (bc_files c) - shown,
       rep_compiler = map_option compiler_coverage_report (bc_compiler c)\<rparr>)"

lemma status_partition:
  "length xs = length (filter (\<lambda>f. fc_status f = SS_Parsed) xs)
     + length (filter (\<lambda>f. fc_status f = SS_ParseError) xs)
     + length (filter (\<lambda>f. fc_status f = SS_Heuristic) xs)"
  by (induction xs) (auto intro: syntax_status.exhaust)

section \<open>Properties\<close>

text \<open>A coverage report is bounded and accounts for every file: at most 100 file
  records are shown, in capture order, and with the omitted ones they are all the files;
  files that failed to parse, heuristic files and parsed files add up to the reported total; the compiler part obeys
  the same bound.\<close>

theorem coverage_report_accounts:
  fixes c :: build_coverage
  defines "r \<equiv> build_coverage_report c"
  shows "length (rep_files r) \<le> 100
    \<and> (\<exists>omitted. bc_files c = rep_files r @ omitted \<and> length omitted = rep_omitted_files r)
    \<and> (rep_omitted_files r > 0 \<longrightarrow> length (rep_files r) = 100)
    \<and> rep_file_count r = length (filter (\<lambda>f. fc_status f = SS_Parsed) (bc_files c))
         + rep_parse_errors r + rep_heuristic_files r
    \<and> (\<forall>k. bc_compiler c = Some k \<longrightarrow>
         (\<exists>q. rep_compiler r = Some q \<and> length (cr_files q) \<le> 100
           \<and> length (cr_files q) + cr_omitted_files q = length (cc_files k)))"
proof -
  let ?n = "min (length (bc_files c)) 100"
  have "bc_files c = take ?n (bc_files c) @ drop ?n (bc_files c)" by simp
  then have "\<exists>omitted. bc_files c = rep_files r @ omitted \<and> length omitted = rep_omitted_files r"
    unfolding r_def build_coverage_report_def Let_def
    by (intro exI [of _ "drop ?n (bc_files c)"]) simp
  then show ?thesis
    using status_partition [of "bc_files c"]
    by (auto simp: r_def build_coverage_report_def compiler_coverage_report_def Let_def)
qed

definition sample_coverage :: build_coverage where
  "sample_coverage = \<lparr>bc_files = replicate 101 \<lparr>fc_file = ''a.rs'', fc_producer = ''p'',
       fc_status = SS_Parsed, fc_facts = 0\<rparr>,
     bc_structural_relations = 0, bc_decision_relations = 0, bc_resolved_relations = 0,
     bc_compiler = None, bc_catalog = None\<rparr>"

theorem coverage_report_accounts_witness:
  "length (rep_files (build_coverage_report sample_coverage)) = 100"
proof -
  have "rep_omitted_files (build_coverage_report sample_coverage) > 0"
    by (simp add: build_coverage_report_def sample_coverage_def)
  then show ?thesis using coverage_report_accounts [of sample_coverage] by blast
qed

end
