(* ===== verification/Contracts.thy ===== *)
theory Contracts
  imports Prelude
begin

text \<open>
  The contracts that several stores of the program share, as locales: rows that are
  written once and never change, and a pointer that only moves by compare-and-swap. Each
  is interpreted by the components that provide it, and each gives its clients the
  consequences over whole runs.
\<close>

section \<open>Write-once rows\<close>

text \<open>
  \<open>row s k\<close> is the row stored under \<open>k\<close>. Whatever operation runs, a stored row stays
  as it is; the consequence is that a row read at any time is the row read ever after.
\<close>

locale write_once =
  fixes inv :: "'s \<Rightarrow> bool"
    and row :: "'s \<Rightarrow> 'k \<Rightarrow> 'v option"
    and step :: "'s \<Rightarrow> 'op \<Rightarrow> 's"
  assumes inv_step: "inv s \<Longrightarrow> inv (step s op)"
    and row_step: "inv s \<Longrightarrow> row s k = Some v \<Longrightarrow> row (step s op) k = Some v"
begin

lemma inv_run: "inv s \<Longrightarrow> inv (foldl step s ops)"
  by (induction ops arbitrary: s) (auto intro: inv_step)

lemma row_run: "inv s \<Longrightarrow> row s k = Some v \<Longrightarrow> row (foldl step s ops) k = Some v"
  by (induction ops arbitrary: s) (auto intro: inv_step row_step)

lemma row_agree:
  assumes "inv s" and "row (foldl step s ops) k = Some v"
    and "row (foldl step s (ops @ later)) k = Some w"
  shows "w = v"
  using row_run [OF inv_run [OF assms(1)] assms(2), of later] assms(3) by simp

end

section \<open>A pointer moved by compare-and-swap\<close>

text \<open>
  A publication request names a key and a new identity, and the caller says which
  identity it expects to replace. It succeeds only if that is the current one (or the
  requested identity is current already), and a refused request moves nothing.
\<close>

locale cas_pointer =
  fixes inv :: "'s \<Rightarrow> bool"
    and current :: "'s \<Rightarrow> 'key \<Rightarrow> 'id option"
    and key_of :: "'req \<Rightarrow> 'key"
    and id_of :: "'req \<Rightarrow> 'id"
    and publish :: "'s \<Rightarrow> 'req \<Rightarrow> 'id option \<Rightarrow> 's \<times> ('e + unit)"
  assumes publish_inv: "inv s \<Longrightarrow> inv (fst (publish s q e))"
    and publish_ok: "inv s \<Longrightarrow> publish s q e = (t, Inr ()) \<Longrightarrow>
      current t (key_of q) = Some (id_of q)
      \<and> (current s (key_of q) = e \<or> current s (key_of q) = Some (id_of q))"
    and publish_err: "inv s \<Longrightarrow> publish s q e = (t, Inl err) \<Longrightarrow> current t k = current s k"
    and publish_other: "inv s \<Longrightarrow> publish s q e = (t, r) \<Longrightarrow> k \<noteq> key_of q \<Longrightarrow>
      current t k = current s k"
begin

text \<open>Of two writers that expect the same predecessor, the later one is refused.\<close>

lemma no_lost_update:
  assumes "inv s" and "publish s q e = (t, Inr ())"
    and "key_of q' = key_of q" and "id_of q' \<noteq> id_of q" and "e \<noteq> Some (id_of q)"
  shows "isl (snd (publish t q' e))"
proof (rule ccontr)
  assume "\<not> isl (snd (publish t q' e))"
  then obtain u where u: "publish t q' e = (u, Inr ())"
    by (cases "publish t q' e"; cases "snd (publish t q' e)") auto
  have "inv t" using publish_inv [OF assms(1), of q e] assms(2) by simp
  from publish_ok [OF this u] have "current t (key_of q) = e \<or> current t (key_of q) = Some (id_of q')"
    using assms(3) by simp
  moreover have "current t (key_of q) = Some (id_of q)"
    using publish_ok [OF assms(1,2)] by simp
  ultimately show False using assms(4,5) by auto
qed

text \<open>A run of requests leaves a key alone unless a request for it succeeds.\<close>

lemma publish_silent:
  assumes "inv s" and "isl (snd (publish s q e)) \<or> k \<noteq> key_of q"
  shows "current (fst (publish s q e)) k = current s k"
  using assms publish_err [of s q e] publish_other [of s q e]
  by (cases "publish s q e"; cases "snd (publish s q e)") auto

end

section \<open>Pages behind an exclusive key\<close>

text \<open>
  \<open>rows q\<close> is the complete answer to the query \<open>q\<close> in ascending id order. A page is what
  a backend returns for it behind an exclusive boundary, up to a limit. The consequence is
  that a client who resumes behind the last id it has seen reads every row exactly once.
\<close>

fun beyond :: "string option \<Rightarrow> string \<Rightarrow> bool" where
  "beyond None k = True"
| "beyond (Some a) k = (a < k)"

locale keyset_pages =
  fixes inv :: "'q \<Rightarrow> bool"
    and row_id :: "'row \<Rightarrow> string"
    and rows :: "'q \<Rightarrow> 'row list"
    and page :: "'q \<Rightarrow> string option \<Rightarrow> nat \<Rightarrow> 'row list"
  assumes rows_ascend: "inv q \<Longrightarrow> sorted_wrt (\<lambda>a b. row_id a < row_id b) (rows q)"
    and page_takes: "inv q \<Longrightarrow> 0 < limit \<Longrightarrow>
      page q after limit = take limit (filter (\<lambda>r. beyond after (row_id r)) (rows q))"
begin

definition remaining :: "'q \<Rightarrow> string option \<Rightarrow> 'row list" where
  "remaining q after = filter (\<lambda>r. beyond after (row_id r)) (rows q)"

lemma remaining_None [simp]: "remaining q None = rows q"
  by (simp add: remaining_def)

lemma remaining_ascends: "inv q \<Longrightarrow> sorted_wrt (\<lambda>a b. row_id a < row_id b) (remaining q after)"
  unfolding remaining_def by (rule sorted_wrt_filter) (rule rows_ascend)

lemma filter_after_last:
  assumes "sorted_wrt (\<lambda>a b. row_id a < row_id b) (xs @ ys)" and "xs \<noteq> []"
  shows "filter (\<lambda>r. row_id (last xs) < row_id r) (xs @ ys) = ys"
proof -
  have "\<forall>x \<in> set xs. row_id x \<le> row_id (last xs)"
    using assms by (cases xs rule: rev_cases) (auto simp: sorted_wrt_append less_imp_le)
  moreover have "\<forall>y \<in> set ys. row_id (last xs) < row_id y"
    using assms by (auto simp: sorted_wrt_append)
  ultimately show ?thesis by (auto simp: filter_id_conv filter_empty_conv not_less)
qed

lemma page_bounded: "inv q \<Longrightarrow> 0 < limit \<Longrightarrow> length (page q after limit) \<le> limit"
  by (simp add: page_takes)

lemma page_ascends:
  "inv q \<Longrightarrow> 0 < limit \<Longrightarrow> sorted_wrt (\<lambda>a b. row_id a < row_id b) (page q after limit)"
  using remaining_ascends [of q after] by (simp add: page_takes remaining_def sorted_wrt_take)

text \<open>A short page is the rest; behind a full one the last id continues exactly.\<close>

lemma page_continues:
  assumes "inv q" and "0 < limit"
  shows "remaining q after = page q after limit
    @ (if length (page q after limit) < limit then []
       else remaining q (Some (row_id (last (page q after limit)))))"
proof -
  let ?p = "page q after limit" and ?all = "remaining q after"
  have page: "?p = take limit ?all" using assms by (simp add: page_takes remaining_def)
  have split: "?all = ?p @ drop limit ?all" by (simp add: page)
  have rest: "drop limit ?all = remaining q (Some (row_id (last ?p)))" if full: "\<not> length ?p < limit"
  proof -
    have ne: "?p \<noteq> []" using full assms(2) by auto
    then have "last ?p \<in> set ?all" unfolding page by (meson in_set_takeD last_in_set)
    then have beyond_last: "beyond after (row_id (last ?p))" by (auto simp: remaining_def)
    have "drop limit ?all = filter (\<lambda>r. row_id (last ?p) < row_id r) (?p @ drop limit ?all)"
      using filter_after_last [of ?p "drop limit ?all"] remaining_ascends [OF assms(1)] split ne
      by metis
    also have "\<dots> = filter (\<lambda>r. row_id (last ?p) < row_id r) ?all" using split by simp
    also have "\<dots> = remaining q (Some (row_id (last ?p)))"
      using beyond_last by (cases after) (auto simp: remaining_def intro!: filter_cong)
    finally show ?thesis .
  qed
  have short: "drop limit ?all = []" if "length ?p < limit" using that by (simp add: page)
  show ?thesis
  proof (cases "length ?p < limit")
    case True
    with split short show ?thesis by simp
  next
    case False
    with split rest show ?thesis by simp
  qed
qed

end

end
