(* ===== verification/Graph_Build.thy ===== *)
theory Graph_Build
  imports Coverage Contracts
begin

text \<open>
  \<open>GraphBuild\<close> of \<^verbatim>\<open>crates/chaosbox-core/src/lib.rs\<close>: one staged or published graph,
  with the two guarded insertions that assemble it, its directed neighborhoods and the diff
  of two builds.
\<close>

section \<open>State and operations\<close>

record graph_build =
  gb_id :: string
  gb_repo :: string
  gb_snapshot_ids :: "string list"
  gb_nodes :: "(string, entity) btree"
  gb_edges :: "(string, relation) btree"
  gb_generation :: u64
  gb_predecessor :: "string option"
  gb_coverage :: "build_coverage option"

definition graph_build_new :: "(string \<Rightarrow> string) \<Rightarrow> string \<Rightarrow> string list \<Rightarrow> u64 \<Rightarrow> graph_build" where
  "graph_build_new H repo snapshot_ids generation =
     \<lparr>gb_id = deterministic_id H ''build'' [repo, join '','' snapshot_ids, dec (unat generation)],
      gb_repo = repo, gb_snapshot_ids = snapshot_ids, gb_nodes = [], gb_edges = [],
      gb_generation = generation, gb_predecessor = None, gb_coverage = None\<rparr>"

definition add_node :: "graph_build \<Rightarrow> entity \<Rightarrow> (graph_build, validation_error, unit) outcome" where
  "add_node g e =
     (if bt_contains (gb_nodes g) (ent_id e) then (g, Inl (DuplicateMember (ent_id e)))
      else (g\<lparr>gb_nodes := bt_insert (ent_id e) e (gb_nodes g)\<rparr>, Inr ()))"

definition add_edge :: "graph_build \<Rightarrow> relation \<Rightarrow> (graph_build, validation_error, unit) outcome" where
  "add_edge g r =
     (if \<not> bt_contains (gb_nodes g) (rel_from r) then (g, Inl (CrossBuildEdge (rel_from r) (gb_id g)))
      else if \<not> bt_contains (gb_nodes g) (rel_to r) then (g, Inl (CrossBuildEdge (rel_to r) (gb_id g)))
      else if bt_contains (gb_edges g) (rel_id r) then (g, Inl (DuplicateMember (rel_id r)))
      else (g\<lparr>gb_edges := bt_insert (rel_id r) r (gb_edges g)\<rparr>, Inr ()))"

definition outgoing :: "graph_build \<Rightarrow> string \<Rightarrow> relation_type option \<Rightarrow> relation list" where
  "outgoing g i flt =
     filter (\<lambda>r. rel_from r = i \<and> (case flt of None \<Rightarrow> True | Some f \<Rightarrow> rel_type r = f))
       (bt_values (gb_edges g))"

definition incoming :: "graph_build \<Rightarrow> string \<Rightarrow> relation_type option \<Rightarrow> relation list" where
  "incoming g i flt =
     filter (\<lambda>r. rel_to r = i \<and> (case flt of None \<Rightarrow> True | Some f \<Rightarrow> rel_type r = f))
       (bt_values (gb_edges g))"

record build_diff =
  bd_added_nodes :: "string list"
  bd_removed_nodes :: "string list"
  bd_added_edges :: "string list"
  bd_removed_edges :: "string list"

definition diff_builds :: "graph_build \<Rightarrow> graph_build \<Rightarrow> build_diff" where
  "diff_builds old new =
     (let old_n = bt_keys (gb_nodes old); new_n = bt_keys (gb_nodes new);
          old_e = bt_keys (gb_edges old); new_e = bt_keys (gb_edges new)
      in \<lparr>bd_added_nodes = filter (\<lambda>k. k \<notin> set old_n) new_n,
          bd_removed_nodes = filter (\<lambda>k. k \<notin> set new_n) old_n,
          bd_added_edges = filter (\<lambda>k. k \<notin> set old_e) new_e,
          bd_removed_edges = filter (\<lambda>k. k \<notin> set new_e) old_e\<rparr>)"

section \<open>Well-formed builds\<close>

text \<open>Members are stored under their own ids and every edge joins two members.\<close>

definition wf_build :: "graph_build \<Rightarrow> bool" where
  "wf_build g \<longleftrightarrow> bt_ok (gb_nodes g) \<and> bt_ok (gb_edges g)
     \<and> (\<forall>k e. bt_get (gb_nodes g) k = Some e \<longrightarrow> ent_id e = k)
     \<and> (\<forall>k r. bt_get (gb_edges g) k = Some r \<longrightarrow> rel_id r = k
          \<and> bt_contains (gb_nodes g) (rel_from r) \<and> bt_contains (gb_nodes g) (rel_to r))"

lemma wf_build_new [simp]: "wf_build (graph_build_new H repo snaps gen)"
  by (simp add: wf_build_def graph_build_new_def)

lemma wf_add_node: "wf_build g \<Longrightarrow> wf_build (fst (add_node g e))"
  by (auto simp: wf_build_def add_node_def bt_ok_insert)

lemma wf_add_edge: "wf_build g \<Longrightarrow> wf_build (fst (add_edge g r))"
  by (auto simp: wf_build_def add_edge_def bt_ok_insert)

text \<open>The steps that assemble a build.\<close>

datatype build_op = AddNode entity | AddEdge relation

fun build_step :: "graph_build \<Rightarrow> build_op \<Rightarrow> graph_build" where
  "build_step g (AddNode e) = fst (add_node g e)"
| "build_step g (AddEdge r) = fst (add_edge g r)"

lemma wf_build_step: "wf_build g \<Longrightarrow> wf_build (build_step g op)"
  by (cases op) (simp_all add: wf_add_node wf_add_edge)

interpretation build_nodes: write_once wf_build "\<lambda>g. bt_get (gb_nodes g)" build_step
proof
  fix g op k v
  show "wf_build g \<Longrightarrow> wf_build (build_step g op)" by (rule wf_build_step)
  show "bt_get (gb_nodes g) k = Some v \<Longrightarrow> bt_get (gb_nodes (build_step g op)) k = Some v"
    by (cases op) (auto simp: add_node_def add_edge_def bt_contains_def)
qed

interpretation build_edges: write_once wf_build "\<lambda>g. bt_get (gb_edges g)" build_step
proof
  fix g op k v
  show "wf_build g \<Longrightarrow> wf_build (build_step g op)" by (rule wf_build_step)
  show "bt_get (gb_edges g) k = Some v \<Longrightarrow> bt_get (gb_edges (build_step g op)) k = Some v"
    by (cases op) (auto simp: add_node_def add_edge_def bt_contains_def)
qed

section \<open>Properties\<close>

text \<open>C40. Whatever sequence of insertions assembles a build, accepted or refused, the build
  stays well formed (members under their own ids, in key order, every edge between two
  members), and a member once in the build is never replaced or removed by a later
  insertion.\<close>

theorem assembled_build_wf:
  fixes H repo snaps gen ops later
  defines "g \<equiv> foldl build_step (graph_build_new H repo snaps gen) ops"
  shows "wf_build g
    \<and> (\<forall>k e. bt_get (gb_nodes g) k = Some e \<longrightarrow> bt_get (gb_nodes (foldl build_step g later)) k = Some e)
    \<and> (\<forall>k r. bt_get (gb_edges g) k = Some r \<longrightarrow> bt_get (gb_edges (foldl build_step g later)) k = Some r)"
proof -
  have "wf_build g" unfolding g_def by (rule build_nodes.inv_run) simp
  then show ?thesis by (blast intro: build_nodes.row_run build_edges.row_run)
qed

definition sample_entity :: "string \<Rightarrow> entity" where
  "sample_entity i = \<lparr>ent_id = i, ent_kind = EK_Symbol, ent_repo = ''r'', ent_snapshot = ''s'',
     ent_file = ''a.rs'', ent_name = i, ent_qualified_name = i, ent_span = span_point ''a.rs'' 1 1 0,
     ent_aliases = [], ent_compiler = None, ent_text = None\<rparr>"

definition sample_relation :: "string \<Rightarrow> string \<Rightarrow> string \<Rightarrow> relation" where
  "sample_relation i f t = \<lparr>rel_id = i, rel_type = RT_Calls, rel_from = f, rel_to = t,
     rel_scope = RS_CrossFile, rel_evidence_ids = []\<rparr>"

theorem assembled_build_wf_witness:
  "bt_get (gb_nodes (foldl build_step
       (foldl build_step (graph_build_new (\<lambda>m. m) ''r'' [''s''] 1) [AddNode (sample_entity ''a'')])
       [AddNode (sample_entity ''b''), AddEdge (sample_relation ''e'' ''a'' ''b'')])) ''a''
     = Some (sample_entity ''a'')"
proof -
  let ?ops = "[AddNode (sample_entity ''a'')]"
  have "bt_get (gb_nodes (foldl build_step (graph_build_new (\<lambda>m. m) ''r'' [''s''] 1) ?ops)) ''a''
      = Some (sample_entity ''a'')"
    by (simp add: add_node_def graph_build_new_def sample_entity_def)
  then show ?thesis using assembled_build_wf [of "\<lambda>m. m" "''r''" "[''s'']" 1 ?ops] by blast
qed

text \<open>The neighborhoods are complete and keep parallel relations: in a well-formed build
  a relation is listed among the outgoing (incoming) ones of an entity exactly when it is a
  member edge that starts (ends) there and passes the type filter, each member once, and
  the unfiltered outgoing lists of the members together hold every edge of the build
  exactly once.\<close>

theorem neighborhoods_complete:
  assumes "wf_build g"
  shows "set (outgoing g i flt) = {r. bt_get (gb_edges g) (rel_id r) = Some r \<and> rel_from r = i
            \<and> (\<forall>f. flt = Some f \<longrightarrow> rel_type r = f)}
    \<and> set (incoming g i flt) = {r. bt_get (gb_edges g) (rel_id r) = Some r \<and> rel_to r = i
            \<and> (\<forall>f. flt = Some f \<longrightarrow> rel_type r = f)}
    \<and> distinct (map rel_id (outgoing g i flt)) \<and> distinct (map rel_id (incoming g i flt))
    \<and> (\<Sum>k \<leftarrow> bt_keys (gb_nodes g). length (outgoing g k None)) = length (gb_edges g)"
proof -
  have vals: "set (bt_values (gb_edges g)) = {r. bt_get (gb_edges g) (rel_id r) = Some r}"
    using assms by (force simp: wf_build_def bt_values_iff bt_get_iff_in_set [symmetric])
  have ids: "map rel_id (bt_values (gb_edges g)) = map fst (gb_edges g)"
    using assms by (auto simp: wf_build_def bt_values_def bt_get_iff_in_set)
  then have dist: "distinct (map rel_id (bt_values (gb_edges g)))"
    using assms by (simp add: wf_build_def bt_ok_distinct)
  have count: "(\<Sum>k \<leftarrow> ks. length (filter (\<lambda>r. rel_from r = k) rs)) = length rs"
    if "distinct ks" and "\<forall>r \<in> set rs. rel_from r \<in> set ks" for ks and rs :: "relation list"
    using that(2)
  proof (induction rs)
    case (Cons r rs)
    have "(\<Sum>k \<leftarrow> ks. if rel_from r = k then 1 else 0) = (1::nat)"
      using that(1) Cons.prems by (simp add: sum_list_distinct_conv_sum_set)
    moreover have "length (filter (\<lambda>r'. rel_from r' = k) (r # rs))
        = (if rel_from r = k then 1 else 0) + length (filter (\<lambda>r. rel_from r = k) rs)" for k
      by simp
    ultimately show ?case using Cons by (simp add: sum_list_addf)
  qed simp
  have "(\<Sum>k \<leftarrow> bt_keys (gb_nodes g). length (outgoing g k None)) = length (bt_values (gb_edges g))"
    unfolding outgoing_def using assms
    by (simp, intro count) (auto simp: wf_build_def bt_keys_def bt_ok_distinct vals bt_contains_keys)
  then show ?thesis
    using vals dist
    by (auto simp: outgoing_def incoming_def bt_values_def distinct_map_filter split: option.splits)
qed

definition sample_build :: graph_build where
  "sample_build = (graph_build_new (\<lambda>m. m) ''r'' [''s''] 1)
     \<lparr>gb_nodes := [(''a'', sample_entity ''a''), (''b'', sample_entity ''b'')],
      gb_edges := [(''e1'', sample_relation ''e1'' ''a'' ''b''), (''e2'', sample_relation ''e2'' ''a'' ''b'')]\<rparr>"

lemma wf_sample_build: "wf_build sample_build"
  by (auto simp: wf_build_def sample_build_def graph_build_new_def sample_entity_def
      sample_relation_def bt_contains_def)

theorem neighborhoods_complete_witness:
  "distinct (map rel_id (outgoing sample_build ''a'' None))
   \<and> (\<Sum>k \<leftarrow> bt_keys (gb_nodes sample_build). length (outgoing sample_build k None)) = 2"
  using neighborhoods_complete [OF wf_sample_build, of "''a''" None]
  by (simp add: sample_build_def)

text \<open>The diff of two builds is exact: the ids of the new build are the ids of the old
  one without the removed and with the added ones, added and removed ids are disjoint and
  ascending, diffing the other way swaps them, and a build differs from itself in nothing.\<close>

theorem diff_builds_exact:
  assumes "wf_build old" and "wf_build new"
  shows "set (bt_keys (gb_nodes new)) =
      (set (bt_keys (gb_nodes old)) - set (bd_removed_nodes (diff_builds old new)))
        \<union> set (bd_added_nodes (diff_builds old new))
    \<and> set (bt_keys (gb_edges new)) =
      (set (bt_keys (gb_edges old)) - set (bd_removed_edges (diff_builds old new)))
        \<union> set (bd_added_edges (diff_builds old new))
    \<and> set (bd_added_nodes (diff_builds old new)) \<inter> set (bd_removed_nodes (diff_builds old new)) = {}
    \<and> sorted_wrt (<) (bd_added_nodes (diff_builds old new))
    \<and> sorted_wrt (<) (bd_removed_edges (diff_builds old new))
    \<and> bd_added_nodes (diff_builds new old) = bd_removed_nodes (diff_builds old new)
    \<and> bd_added_edges (diff_builds new old) = bd_removed_edges (diff_builds old new)
    \<and> diff_builds old old = \<lparr>bd_added_nodes = [], bd_removed_nodes = [], bd_added_edges = [],
         bd_removed_edges = []\<rparr>"
  using assms
  by (auto simp: diff_builds_def Let_def wf_build_def bt_ok_keys sorted_wrt_filter filter_empty_conv)

theorem diff_builds_exact_witness:
  "bd_added_nodes (diff_builds (graph_build_new (\<lambda>m. m) ''r'' [''s''] 1) sample_build)
     = bd_removed_nodes (diff_builds sample_build (graph_build_new (\<lambda>m. m) ''r'' [''s''] 1))"
  using diff_builds_exact [OF wf_sample_build wf_build_new, of "\<lambda>m. m" "''r''" "[''s'']" 1]
  by simp

end
