(* ===== verification/Level_Search.thy ===== *)
theory Level_Search
  imports Prelude
begin

text \<open>
  What the breadth-first searches of the program have in common, as a locale: an adjacency
  read by the search, the edge relation it must agree with, a start and a hop bound. The
  locale gives the invariant of the queue and the visited set, its preservation by the
  elementary steps (skip, expand, see, discover, close), the invariant of the parent map,
  and the reading-back of a route. The searches in \<open>Graph_Search\<close> and \<open>Path_Reader\<close>
  interpret it on their own adjacency and are proved with these steps.
\<close>

section \<open>Routes and the walk back along the parent map\<close>

definition is_route :: "('a \<Rightarrow> 'a \<Rightarrow> bool) \<Rightarrow> 'a \<Rightarrow> 'a \<Rightarrow> 'a list \<Rightarrow> bool" where
  "is_route linked u v p \<longleftrightarrow> p \<noteq> [] \<and> hd p = u \<and> last p = v \<and> successively linked p"

text \<open>
  \<open>while let Some(p) = prev.get(&c) { path.push(p); c = p; } path.reverse()\<close>: on a cyclic
  parent map this loop does not end, which is the value \<open>None\<close> here.
\<close>

partial_function (option) walk_back :: "('a \<Rightarrow> 'a option) \<Rightarrow> 'a \<Rightarrow> 'a list \<Rightarrow> 'a list option" where
  "walk_back par c path =
     (case par c of None \<Rightarrow> Some (rev path) | Some p \<Rightarrow> walk_back par p (path @ [p]))"

lemma route_relpowp: "is_route linked u v p \<Longrightarrow> (linked ^^ (length p - 1)) u v"
proof (induction p arbitrary: v rule: rev_induct)
  case Nil
  then show ?case by (simp add: is_route_def)
next
  case (snoc x p)
  show ?case
  proof (cases "p = []")
    case True
    with snoc.prems show ?thesis by (auto simp: is_route_def)
  next
    case False
    with snoc.prems have "is_route linked u (last p) p" and "linked (last p) v"
      by (auto simp: is_route_def successively_append_iff)
    with snoc.IH have "(linked ^^ Suc (length p - 1)) u v" by (blast intro: relpowp_Suc_I)
    with False show ?thesis by simp
  qed
qed

lemma route_snoc: "is_route linked u v p \<Longrightarrow> linked v w \<Longrightarrow> is_route linked u w (p @ [w])"
  by (auto simp: is_route_def successively_append_iff)

lemma relpowp_route: "(linked ^^ n) u v \<Longrightarrow> \<exists>p. is_route linked u v p \<and> length p = Suc n"
proof (induction n arbitrary: v)
  case 0
  then show ?case by (intro exI [of _ "[u]"]) (simp add: is_route_def)
next
  case (Suc n)
  obtain w where w: "(linked ^^ n) u w" "linked w v" using relpowp_Suc_E [OF Suc.prems] by blast
  from Suc.IH [OF w(1)] obtain p where "is_route linked u w p" "length p = Suc n" by blast
  with route_snoc [of linked u w p v] w(2) show ?case by (intro exI [of _ "p @ [v]"]) simp
qed

section \<open>The search invariant\<close>

locale adjacency_search =
  fixes nb :: "'a \<Rightarrow> 'a list"
    and linked :: "'a \<Rightarrow> 'a \<Rightarrow> bool"
    and src :: 'a
    and bound :: nat
  assumes nb_linked: "v \<in> set (nb u) \<longleftrightarrow> linked u v"
begin

definition conn :: "'a \<Rightarrow> bool" where
  "conn v \<longleftrightarrow> (\<exists>n. (linked ^^ n) src v)"

definition depth :: "'a \<Rightarrow> nat" where
  "depth v = (LEAST n. (linked ^^ n) src v)"

lemma depth_walk: "conn v \<Longrightarrow> (linked ^^ depth v) src v"
  unfolding conn_def depth_def by (auto intro: LeastI)

lemma depth_le: "(linked ^^ n) src v \<Longrightarrow> depth v \<le> n"
  unfolding depth_def by (rule Least_le)

lemma connI: "(linked ^^ n) src v \<Longrightarrow> conn v"
  by (auto simp: conn_def)

lemma src_conn [simp]: "conn src" and src_depth [simp]: "depth src = 0"
  using connI [of 0 src] depth_le [of 0 src] by auto

lemma conn_depth0: "conn v \<Longrightarrow> depth v = 0 \<Longrightarrow> v = src"
  using depth_walk [of v] by simp

lemma conn_step: "conn u \<Longrightarrow> linked u v \<Longrightarrow> conn v \<and> depth v \<le> Suc (depth u)"
  using depth_walk [of u] relpowp_Suc_I [of "depth u" linked src u v] connI depth_le by blast

lemma depth_pred:
  assumes "conn v" and "depth v = Suc d"
  obtains u where "conn u" and "depth u = d" and "linked u v"
proof -
  from assms depth_walk [of v] obtain u where u: "(linked ^^ d) src u" "linked u v"
    by (metis relpowp_Suc_E)
  then have "conn u" and "depth u \<le> d" by (auto intro: connI depth_le)
  moreover have "Suc d \<le> Suc (depth u)"
    using conn_step [OF \<open>conn u\<close> u(2)] assms(2) by simp
  ultimately show thesis using u(2) that by simp
qed

lemma within_iff: "conn v \<and> depth v \<le> n \<longleftrightarrow> (\<exists>m \<le> n. (linked ^^ m) src v)"
  using depth_walk depth_le connI order_trans by blast

text \<open>Between two expansions: the visited set \<open>S\<close> and the queue \<open>Q\<close>.\<close>

definition level_inv :: "'a set \<Rightarrow> ('a \<times> nat) list \<Rightarrow> bool" where
  "level_inv S Q \<longleftrightarrow>
     distinct (map fst Q) \<and> fst ` set Q \<subseteq> S \<and> src \<in> S
   \<and> (\<forall>(v, k) \<in> set Q. k = depth v)
   \<and> sorted (map snd Q) \<and> (\<forall>k \<in> snd ` set Q. k \<le> Suc (snd (hd Q)))
   \<and> (\<forall>v \<in> S. conn v \<and> depth v \<le> bound)
   \<and> (Q \<noteq> [] \<longrightarrow> (\<forall>w. conn w \<longrightarrow> depth w \<le> snd (hd Q) \<longrightarrow> w \<in> S))
   \<and> (\<forall>u \<in> S. u \<notin> fst ` set Q \<longrightarrow> depth u < bound \<longrightarrow> Collect (linked u) \<subseteq> S)"

text \<open>While \<open>cur\<close> of level \<open>d\<close> is expanded, with the neighbors \<open>rest\<close> still to look at.\<close>

definition mid_inv :: "'a \<Rightarrow> nat \<Rightarrow> 'a set \<Rightarrow> 'a set \<Rightarrow> ('a \<times> nat) list \<Rightarrow> bool" where
  "mid_inv cur d rest S Q \<longleftrightarrow>
     distinct (map fst Q) \<and> fst ` set Q \<subseteq> S \<and> src \<in> S \<and> cur \<in> S \<and> cur \<notin> fst ` set Q
   \<and> d = depth cur \<and> d < bound
   \<and> (\<forall>(v, k) \<in> set Q. k = depth v)
   \<and> sorted (map snd Q) \<and> (\<forall>k \<in> snd ` set Q. d \<le> k \<and> k \<le> Suc d)
   \<and> (\<forall>v \<in> S. conn v \<and> depth v \<le> bound)
   \<and> (\<forall>w. conn w \<longrightarrow> depth w \<le> d \<longrightarrow> w \<in> S)
   \<and> (\<forall>u \<in> S. u \<notin> fst ` set Q \<longrightarrow> u \<noteq> cur \<longrightarrow> depth u < bound \<longrightarrow> Collect (linked u) \<subseteq> S)
   \<and> Collect (linked cur) \<subseteq> S \<union> rest \<and> rest \<subseteq> Collect (linked cur)"

lemma level_start: "level_inv {src} [(src, 0)]"
  by (auto simp: level_inv_def dest: conn_depth0)

lemma level_skip:
  assumes "level_inv S ((v, k) # Q)" and "bound \<le> k"
  shows "level_inv S Q"
proof -
  have q: "\<forall>(w, j) \<in> set Q. j = depth w \<and> k \<le> j \<and> w \<in> S" and v: "v \<in> S" "k = depth v"
    and S: "\<forall>w \<in> S. conn w \<and> depth w \<le> bound" and srt: "sorted (map snd Q)"
    using assms(1) by (auto simp: level_inv_def)
  have k: "\<forall>j \<in> snd ` set Q. j = k"
    using q S assms(2) by fastforce
  then have hd: "Q \<noteq> [] \<longrightarrow> snd (hd Q) = k" by (cases Q) auto
  with k have near: "\<forall>j \<in> snd ` set Q. j \<le> Suc (snd (hd Q))" by (cases Q) auto
  have "\<forall>u \<in> S. u \<notin> fst ` set Q \<longrightarrow> depth u < bound \<longrightarrow> Collect (linked u) \<subseteq> S"
  proof (intro ballI impI)
    fix u assume "u \<in> S" "u \<notin> fst ` set Q" "depth u < bound"
    moreover from this have "u \<noteq> v" using v(2) assms(2) by auto
    ultimately show "Collect (linked u) \<subseteq> S" using assms(1) by (simp add: level_inv_def)
  qed
  then show ?thesis
    using assms(1) near hd srt unfolding level_inv_def by (intro conjI) simp_all
qed

lemma level_open:
  assumes "level_inv S ((v, k) # Q)" and "k < bound"
  shows "mid_inv v k (set (nb v)) S Q"
  using assms unfolding level_inv_def mid_inv_def by (auto simp: nb_linked)

lemma mid_see:
  assumes "mid_inv cur d rest S Q" and "v \<in> S"
  shows "mid_inv cur d (rest - {v}) S Q"
  using assms unfolding mid_inv_def by auto

lemma mid_widen:
  "mid_inv cur d rest S Q \<Longrightarrow> rest \<subseteq> rest' \<Longrightarrow> rest' \<subseteq> Collect (linked cur) \<Longrightarrow> mid_inv cur d rest' S Q"
  unfolding mid_inv_def by blast

lemma mid_discover_depth:
  assumes "mid_inv cur d rest S Q" and "v \<in> rest" and "v \<notin> S"
  shows "linked cur v" and "conn v" and "depth v = Suc d"
proof -
  show l: "linked cur v" using assms by (auto simp: mid_inv_def)
  have cur: "conn cur" "depth cur = d" using assms(1) by (auto simp: mid_inv_def)
  then show "conn v" using conn_step l by blast
  then have "\<not> depth v \<le> d" using assms(1,3) by (auto simp: mid_inv_def)
  then show "depth v = Suc d" using conn_step [OF cur(1) l] cur(2) by simp
qed

lemma mid_discover:
  assumes "mid_inv cur d rest S Q" and "v \<in> rest" and "v \<notin> S"
  shows "mid_inv cur d (rest - {v}) (insert v S) (Q @ [(v, Suc d)])"
proof -
  have new: "linked cur v" "conn v" "depth v = Suc d" by (fact mid_discover_depth [OF assms])+
  have "v \<notin> fst ` set Q" and "Suc d \<le> bound" using assms by (auto simp: mid_inv_def)
  then show ?thesis
    using assms new unfolding mid_inv_def by (simp add: sorted_append) blast
qed

lemma mid_close:
  assumes "mid_inv cur d {} S Q"
  shows "level_inv S Q"
proof -
  have base: "distinct (map fst Q)" "fst ` set Q \<subseteq> S" "src \<in> S" "\<forall>(v, k) \<in> set Q. k = depth v"
    "sorted (map snd Q)" "\<forall>v \<in> S. conn v \<and> depth v \<le> bound"
    using assms by (simp_all add: mid_inv_def)
  have known: "w \<in> S" if "Q \<noteq> []" "conn w" "depth w \<le> snd (hd Q)" for w
  proof (cases "depth w \<le> d")
    case True
    with that(2) show ?thesis using assms by (auto simp: mid_inv_def)
  next
    case False
    have hd: "snd (hd Q) \<le> Suc d" using assms that(1) by (auto simp: mid_inv_def)
    with False that(3) have w: "depth w = Suc d" and hd': "snd (hd Q) = Suc d" by auto
    from depth_pred [OF that(2) w] obtain u where u: "conn u" "depth u = d" "linked u w" .
    have "u \<notin> fst ` set Q"
    proof
      assume "u \<in> fst ` set Q"
      then have "(u, d) \<in> set Q" using assms u(2) by (auto simp: mid_inv_def)
      moreover have "\<forall>k \<in> snd ` set Q. snd (hd Q) \<le> k"
        using assms that(1) by (cases Q) (auto simp: mid_inv_def)
      ultimately show False using hd' by force
    qed
    then show ?thesis using assms u unfolding mid_inv_def by (cases "u = cur") auto
  qed
  have near: "\<forall>k \<in> snd ` set Q. k \<le> Suc (snd (hd Q))"
  proof (cases Q)
    case (Cons e Q')
    then have "d \<le> snd (hd Q)" using assms by (auto simp: mid_inv_def)
    moreover have "\<forall>k \<in> snd ` set Q. k \<le> Suc d" using assms by (auto simp: mid_inv_def)
    ultimately show ?thesis by (meson Suc_le_mono le_trans)
  qed simp
  have closed: "\<forall>u \<in> S. u \<notin> fst ` set Q \<longrightarrow> depth u < bound \<longrightarrow> Collect (linked u) \<subseteq> S"
  proof (intro ballI impI)
    fix u assume "u \<in> S" "u \<notin> fst ` set Q" "depth u < bound"
    then show "Collect (linked u) \<subseteq> S"
      using assms by (cases "u = cur") (simp_all add: mid_inv_def)
  qed
  show ?thesis
    unfolding level_inv_def by (intro conjI base near closed impI allI known)
qed

lemma level_done:
  assumes "level_inv S []"
  shows "v \<in> S \<longleftrightarrow> (\<exists>m \<le> bound. (linked ^^ m) src v)"
proof -
  have "w \<in> S" if "conn w" "depth w \<le> bound" for w
    using that
  proof (induction "depth w" arbitrary: w)
    case 0
    then show ?case using assms conn_depth0 [of w] by (simp add: level_inv_def)
  next
    case (Suc d)
    from depth_pred [OF Suc.prems(1) Suc.hyps(2) [symmetric]]
    obtain u where u: "conn u" "depth u = d" "linked u w" .
    have "u \<in> S"
      by (rule Suc.hyps(1)) (use u Suc.prems(2) Suc.hyps(2) in simp_all)
    moreover have "depth u < bound" using u(2) Suc.prems(2) Suc.hyps(2) by simp
    ultimately show ?case using assms u(3) unfolding level_inv_def by auto
  qed
  then show ?thesis
    using assms within_iff [of v bound] by (auto simp: level_inv_def)
qed

section \<open>The parent map\<close>

definition tree_inv :: "'a set \<Rightarrow> ('a \<Rightarrow> 'a option) \<Rightarrow> bool" where
  "tree_inv S par \<longleftrightarrow>
     src \<in> S \<and> par src = None
   \<and> (\<forall>v \<in> S - {src}. \<exists>u \<in> S. par v = Some u \<and> linked u v \<and> depth v = Suc (depth u))"

lemma tree_start: "tree_inv {src} (\<lambda>_. None)"
  by (simp add: tree_inv_def)

lemma tree_discover:
  assumes "tree_inv S par" and "cur \<in> S" and "linked cur v" and "v \<notin> S"
    and "depth v = Suc (depth cur)"
  shows "tree_inv (insert v S) (par(v \<mapsto> cur))"
  using assms unfolding tree_inv_def by fastforce

lemma tree_walk_back:
  assumes "tree_inv S par" and "v \<in> S"
  shows "\<exists>p. walk_back par v path = Some (p @ rev path) \<and> length p = depth v
    \<and> is_route linked src v (p @ [v])"
  using assms(2)
proof (induction "depth v" arbitrary: v path)
  case 0
  have "v = src"
  proof (rule ccontr)
    assume "v \<noteq> src"
    with 0(2) assms(1) obtain u where "depth v = Suc (depth u)" unfolding tree_inv_def by blast
    with 0(1) show False by simp
  qed
  then show ?case
    using assms(1) by (auto simp: tree_inv_def is_route_def walk_back.simps [of par src])
next
  case (Suc d)
  then have "v \<noteq> src" by auto
  then obtain u where u: "u \<in> S" "par v = Some u" "linked u v" "depth v = Suc (depth u)"
    using assms(1) Suc.prems by (auto simp: tree_inv_def)
  then obtain p where p: "walk_back par u (path @ [u]) = Some (p @ rev (path @ [u]))"
    "length p = depth u" "is_route linked src u (p @ [u])"
    using Suc.hyps(1) [of u "path @ [u]"] Suc.hyps(2) by auto
  then have "walk_back par v path = Some ((p @ [u]) @ rev path)"
    using u(2) by (simp add: walk_back.simps [of par v])
  then show ?case using p u route_snoc [OF p(3) u(3)] by (intro exI [of _ "p @ [u]"]) simp
qed

text \<open>A node no finished search has seen has no route of at most \<open>bound\<close> edges.\<close>

lemma no_route:
  assumes "level_inv S []" and "v \<notin> S"
  shows "\<not> (\<exists>p. is_route linked src v p \<and> length p \<le> Suc bound)"
  using level_done [OF assms(1), of v] assms(2) route_relpowp [of linked src v]
  by (metis One_nat_def diff_le_mono diff_Suc_1)

text \<open>The route that is read back is a shortest one.\<close>

lemma route_found:
  assumes "tree_inv S par" and "v \<in> S" and "conn v"
  shows "\<exists>p. walk_back par v [v] = Some p \<and> is_route linked src v p \<and> length p = Suc (depth v)
    \<and> (\<forall>q. is_route linked src v q \<longrightarrow> length p \<le> length q)"
proof -
  obtain p where p: "walk_back par v [v] = Some (p @ [v])" "length p = depth v"
    "is_route linked src v (p @ [v])"
    using tree_walk_back [OF assms(1,2), of "[v]"] by auto
  moreover have "Suc (depth v) \<le> length q" if "is_route linked src v q" for q
    using depth_le [OF route_relpowp [OF that]] that by (cases q) (auto simp: is_route_def)
  ultimately show ?thesis by auto
qed

end

end
