(* ===== verification/Graph_Search.thy ===== *)
theory Graph_Search
  imports Graph_Build Level_Search
begin

text \<open>
  The two bounded searches of \<open>GraphBuild\<close> (\<^verbatim>\<open>crates/chaosbox-core/src/lib.rs\<close>): a
  shortest undirected path and the set of entities within a number of hops. The loops are
  the source's: a FIFO queue with depths, the \<open>seen\<close> set, the \<open>prev\<close> map, and the walk
  back along it.
\<close>

section \<open>The path search\<close>

type_synonym path_adj = "(string, (string \<times> string) list) btree"
type_synonym path_prev = "(string, string \<times> string) btree"

text \<open>Both endpoints get the other one, with the edge id.\<close>

definition adj_step :: "path_adj \<Rightarrow> relation \<Rightarrow> path_adj" where
  "adj_step adj r =
     bt_alter (rel_to r) [] (\<lambda>v. v @ [(rel_from r, rel_id r)])
       (bt_alter (rel_from r) [] (\<lambda>v. v @ [(rel_to r, rel_id r)]) adj)"

definition path_adjacency :: "graph_build \<Rightarrow> path_adj" where
  "path_adjacency g = foldl adj_step [] (bt_values (gb_edges g))"

text \<open>The neighbors of one popped entity: \<open>Inl\<close> when the target is reached.\<close>

fun path_visit ::
  "string \<Rightarrow> string \<Rightarrow> nat \<Rightarrow> (string \<times> string) list \<Rightarrow> path_prev \<Rightarrow> string btset \<Rightarrow> (string \<times> nat) list
   \<Rightarrow> path_prev + (path_prev \<times> string btset \<times> (string \<times> nat) list)" where
  "path_visit to cur depth [] prev seen q = Inr (prev, seen, q)"
| "path_visit to cur depth ((nxt, eid) # nexts) prev seen q =
     (if nxt \<in> set seen then path_visit to cur depth nexts prev seen q
      else if nxt = to then Inl (bt_insert nxt (cur, eid) prev)
      else path_visit to cur depth nexts (bt_insert nxt (cur, eid) prev) (bs_insert nxt seen)
             (q @ [(nxt, depth + 1)]))"

definition adj_targets :: "(string, (string \<times> 'a) list) btree \<Rightarrow> string set" where
  "adj_targets adj = (\<Union>ns \<in> set (bt_values adj). fst ` set ns)"

lemma finite_adj_targets [simp]: "finite (adj_targets adj)"
  by (simp add: adj_targets_def)

lemma path_visit_progress:
  "path_visit to cur depth nexts prev seen q = Inr (prev', seen', q') \<Longrightarrow>
     set seen \<subseteq> set seen' \<and> set seen' \<subseteq> set seen \<union> fst ` set nexts
     \<and> (set seen' = set seen \<longrightarrow> q' = q)"
proof (induction to cur depth nexts prev seen q rule: path_visit.induct)
  case (1 to cur depth prev seen q)
  then show ?case by simp
next
  case (2 to cur depth nxt eid nexts prev seen q)
  show ?case
  proof (cases "nxt \<in> set seen")
    case True
    with 2(1) 2(3) show ?thesis by auto
  next
    case False
    with 2(3) have "nxt \<noteq> to" by auto
    with False 2(2) 2(3) have "insert nxt (set seen) \<subseteq> set seen'"
      "set seen' \<subseteq> insert nxt (set seen) \<union> fst ` set nexts"
      by (simp_all add: set_bs_insert)
    with False show ?thesis by auto
  qed
qed

lemma adj_get_targets: "bt_get adj u = Some ns \<Longrightarrow> fst ` set ns \<subseteq> adj_targets adj"
  by (auto simp: adj_targets_def dest: bt_valuesI)

lemma search_progress:
  assumes "set s \<subseteq> set s' \<and> set s' \<subseteq> set s \<union> N \<and> (set s' = set s \<longrightarrow> q' = q)"
    and "N \<subseteq> T" and "finite T"
  shows "card (T - set s') < card (T - set s) \<or> (card (T - set s') = card (T - set s) \<and> q' = q)"
proof (cases "set s' = set s")
  case False
  then have "T - set s' \<subset> T - set s" using assms(1,2) by blast
  with assms(3) show ?thesis by (simp add: psubset_card_mono)
qed (use assms(1) in simp)

function path_loop ::
  "path_adj \<Rightarrow> string \<Rightarrow> nat \<Rightarrow> (string \<times> nat) list \<Rightarrow> string btset \<Rightarrow> path_prev \<Rightarrow> path_prev option" where
  "path_loop adj to max_hops [] seen prev = None"
| "path_loop adj to max_hops ((cur, depth) # q) seen prev =
     (if max_hops \<le> depth then path_loop adj to max_hops q seen prev
      else case bt_get adj cur of
        None \<Rightarrow> path_loop adj to max_hops q seen prev
      | Some nexts \<Rightarrow>
          (case path_visit to cur depth nexts prev seen q of
             Inl prev' \<Rightarrow> Some prev'
           | Inr (prev', seen', q') \<Rightarrow> path_loop adj to max_hops q' seen' prev'))"
  by pat_completeness auto
termination
proof (relation "measures [\<lambda>(adj, to, m, q, seen, prev). card (adj_targets adj - set seen),
                           \<lambda>(adj, to, m, q, seen, prev). length q]", goal_cases)
  case (4 adj to max_hops cur depth q seen prev nexts r p s s' q')
  then have "path_visit to cur depth nexts prev seen q = Inr (p, s', q')"
    and "bt_get adj cur = Some nexts" by simp_all
  from search_progress [OF path_visit_progress [OF this(1)] adj_get_targets [OF this(2)]]
  show ?case by auto
qed auto

text \<open>The outer \<open>None\<close> would be a walk back that does not end; the inner one is "no path".\<close>

definition bounded_path :: "graph_build \<Rightarrow> string \<Rightarrow> string \<Rightarrow> nat \<Rightarrow> string list option option" where
  "bounded_path g f t max_hops =
     (if f = t then Some (Some [f])
      else case path_loop (path_adjacency g) t max_hops [(f, 0)] [f] [] of
        None \<Rightarrow> Some None
      | Some prev \<Rightarrow> map_option Some (walk_back (\<lambda>c. map_option fst (bt_get prev c)) t [t]))"

section \<open>The reachability search\<close>

type_synonym reach_adj = "(string, string list) btree"

definition reach_adj_step :: "reach_adj \<Rightarrow> relation \<Rightarrow> reach_adj" where
  "reach_adj_step adj r =
     bt_alter (rel_to r) [] (\<lambda>v. v @ [rel_from r]) (bt_alter (rel_from r) [] (\<lambda>v. v @ [rel_to r]) adj)"

definition reach_adjacency :: "graph_build \<Rightarrow> reach_adj" where
  "reach_adjacency g = foldl reach_adj_step [] (bt_values (gb_edges g))"

fun reach_visit ::
  "nat \<Rightarrow> string list \<Rightarrow> string btset \<Rightarrow> (string \<times> nat) list \<Rightarrow> string btset \<times> (string \<times> nat) list" where
  "reach_visit depth [] seen q = (seen, q)"
| "reach_visit depth (nxt # nexts) seen q =
     (if nxt \<in> set seen then reach_visit depth nexts seen q
      else reach_visit depth nexts (bs_insert nxt seen) (q @ [(nxt, depth + 1)]))"

definition reach_targets :: "reach_adj \<Rightarrow> string set" where
  "reach_targets adj = (\<Union>ns \<in> set (bt_values adj). set ns)"

lemma reach_visit_progress:
  "reach_visit depth nexts seen q = (seen', q') \<Longrightarrow>
     set seen \<subseteq> set seen' \<and> set seen' \<subseteq> set seen \<union> set nexts \<and> (set seen' = set seen \<longrightarrow> q' = q)"
proof (induction depth nexts seen q rule: reach_visit.induct)
  case (2 depth nxt nexts seen q)
  show ?case
  proof (cases "nxt \<in> set seen")
    case False
    with 2(2) 2(3) have "insert nxt (set seen) \<subseteq> set seen'"
      "set seen' \<subseteq> insert nxt (set seen) \<union> set nexts"
      by (simp_all add: set_bs_insert)
    with False show ?thesis by auto
  qed (use 2(1) 2(3) in auto)
qed simp

lemma reach_get_targets: "bt_get adj u = Some ns \<Longrightarrow> set ns \<subseteq> reach_targets adj"
  by (auto simp: reach_targets_def dest: bt_valuesI)

function reach_loop :: "reach_adj \<Rightarrow> nat \<Rightarrow> (string \<times> nat) list \<Rightarrow> string btset \<Rightarrow> string btset" where
  "reach_loop adj max_hops [] seen = seen"
| "reach_loop adj max_hops ((cur, depth) # q) seen =
     (if max_hops \<le> depth then reach_loop adj max_hops q seen
      else case bt_get adj cur of
        None \<Rightarrow> reach_loop adj max_hops q seen
      | Some nexts \<Rightarrow>
          (case reach_visit depth nexts seen q of (seen', q') \<Rightarrow> reach_loop adj max_hops q' seen'))"
  by pat_completeness auto
termination
proof (relation "measures [\<lambda>(adj, m, q, seen). card (reach_targets adj - set seen),
                           \<lambda>(adj, m, q, seen). length q]", goal_cases)
  case (4 adj max_hops cur depth q seen nexts s' q')
  then have "reach_visit depth nexts seen q = (s', q')" and "bt_get adj cur = Some nexts"
    by simp_all
  from search_progress [OF reach_visit_progress [OF this(1)] reach_get_targets [OF this(2)]]
  show ?case by (auto simp: reach_targets_def)
qed auto

definition reachable_within :: "graph_build \<Rightarrow> string \<Rightarrow> nat \<Rightarrow> string btset" where
  "reachable_within g f max_hops =
     filter (\<lambda>v. v \<noteq> f) (reach_loop (reach_adjacency g) max_hops [(f, 0)] [f])"

section \<open>The adjacency the searches read is the build's edge relation\<close>

definition joined :: "graph_build \<Rightarrow> string \<Rightarrow> string \<Rightarrow> bool" where
  "joined g u v \<longleftrightarrow> (\<exists>r \<in> set (bt_values (gb_edges g)).
     (rel_from r = u \<and> rel_to r = v) \<or> (rel_to r = u \<and> rel_from r = v))"

definition nexts_of :: "(string, 'a list) btree \<Rightarrow> string \<Rightarrow> 'a list" where
  "nexts_of adj u = (case bt_get adj u of None \<Rightarrow> [] | Some ns \<Rightarrow> ns)"

lemma nexts_of_Nil [simp]: "nexts_of [] u = []"
  by (simp add: nexts_of_def)

lemma nexts_of_adj_step [simp]:
  "nexts_of (adj_step adj r) u =
     nexts_of adj u @ (if u = rel_from r then [(rel_to r, rel_id r)] else [])
       @ (if u = rel_to r then [(rel_from r, rel_id r)] else [])"
  by (simp add: nexts_of_def adj_step_def split: option.splits)

lemma nexts_of_reach_adj_step [simp]:
  "nexts_of (reach_adj_step adj r) u =
     nexts_of adj u @ (if u = rel_from r then [rel_to r] else [])
       @ (if u = rel_to r then [rel_from r] else [])"
  by (simp add: nexts_of_def reach_adj_step_def split: option.splits)

lemma nexts_of_path_adjacency:
  "v \<in> fst ` set (nexts_of (path_adjacency g) u) \<longleftrightarrow> joined g u v"
proof -
  have "v \<in> fst ` set (nexts_of (foldl adj_step adj rs) u) \<longleftrightarrow>
    v \<in> fst ` set (nexts_of adj u)
    \<or> (\<exists>r \<in> set rs. (rel_from r = u \<and> rel_to r = v) \<or> (rel_to r = u \<and> rel_from r = v))" for adj rs
    by (induction rs arbitrary: adj) auto
  then show ?thesis by (simp add: path_adjacency_def joined_def)
qed

lemma nexts_of_reach_adjacency:
  "v \<in> set (nexts_of (reach_adjacency g) u) \<longleftrightarrow> joined g u v"
proof -
  have "v \<in> set (nexts_of (foldl reach_adj_step adj rs) u) \<longleftrightarrow>
    v \<in> set (nexts_of adj u)
    \<or> (\<exists>r \<in> set rs. (rel_from r = u \<and> rel_to r = v) \<or> (rel_to r = u \<and> rel_from r = v))" for adj rs
    by (induction rs arbitrary: adj) auto
  then show ?thesis by (simp add: reach_adjacency_def joined_def)
qed

interpretation path_search:
  adjacency_search "\<lambda>u. map fst (nexts_of (path_adjacency g) u)" "joined g" f max_hops
  for g f max_hops
  by unfold_locales (simp add: nexts_of_path_adjacency)

interpretation reach_search:
  adjacency_search "nexts_of (reach_adjacency g)" "joined g" f max_hops
  for g f max_hops
  by unfold_locales (simp add: nexts_of_reach_adjacency)

section \<open>Correctness of the reachability search\<close>

lemma reach_visit_mid:
  assumes "reach_search.mid_inv g f m cur d (set nexts) (set seen) q"
  shows "\<exists>seen' q'. reach_visit d nexts seen q = (seen', q') \<and>
    reach_search.mid_inv g f m cur d {} (set seen') q'"
  using assms
proof (induction nexts arbitrary: seen q)
  case (Cons nxt nexts)
  note inv = Cons.prems
  have link: "set nexts \<subseteq> Collect (joined g cur)"
    using inv by (simp add: reach_search.mid_inv_def)
  have widen: "insert nxt (set nexts) - {nxt} \<subseteq> set nexts" by auto
  show ?case
  proof (cases "nxt \<in> set seen")
    case True
    from reach_search.mid_widen [OF reach_search.mid_see [OF inv True] _ link] widen
    show ?thesis using True Cons.IH by simp
  next
    case False
    from reach_search.mid_widen [OF reach_search.mid_discover [OF inv _ False] _ link] widen
    have "reach_search.mid_inv g f m cur d (set nexts) (set (bs_insert nxt seen)) (q @ [(nxt, Suc d)])"
      by simp
    from Cons.IH [OF this] show ?thesis using False by simp
  qed
qed simp

lemma reach_loop_done:
  assumes "reach_search.level_inv g f m (set seen) q"
  shows "reach_search.level_inv g f m (set (reach_loop (reach_adjacency g) m q seen)) []"
  using assms
proof (induction "reach_adjacency g" m q seen rule: reach_loop.induct)
  case (1 max_hops seen)
  then show ?case by simp
next
  case (2 m cur depth q seen)
  show ?case
  proof (cases "m \<le> depth")
    case True
    with 2(1) reach_search.level_skip [OF 2(4)] show ?thesis by simp
  next
    case False
    have mid: "reach_search.mid_inv g f m cur depth
      (set (nexts_of (reach_adjacency g) cur)) (set seen) q"
      using reach_search.level_open [OF 2(4)] False by simp
    show ?thesis
    proof (cases "bt_get (reach_adjacency g) cur")
      case None
      with mid have "reach_search.level_inv g f m (set seen) q"
        by (intro reach_search.mid_close) (simp add: nexts_of_def)
      with 2(2) None False show ?thesis by simp
    next
      case (Some ns)
      with mid obtain seen' q' where v: "reach_visit depth ns seen q = (seen', q')"
        "reach_search.mid_inv g f m cur depth {} (set seen') q'"
        using reach_visit_mid by (fastforce simp: nexts_of_def)
      from 2(3) [OF False Some v(1) [symmetric] reach_search.mid_close [OF v(2)]]
      show ?thesis using False Some v(1) by simp
    qed
  qed
qed

lemma reach_visit_ok: "bs_ok seen \<Longrightarrow> bs_ok (fst (reach_visit d ns seen q))"
  by (induction ns arbitrary: seen q) (simp_all add: bs_ok_insert)

lemma reach_loop_ok: "bs_ok seen \<Longrightarrow> bs_ok (reach_loop adj m q seen)"
proof (induction adj m q seen rule: reach_loop.induct)
  case (2 adj m cur depth q seen)
  show ?case
  proof (cases "m \<le> depth \<or> bt_get adj cur = None")
    case True
    with 2(1,2,4) show ?thesis by auto
  next
    case False
    then obtain ns where ns: "\<not> m \<le> depth" "bt_get adj cur = Some ns" by auto
    obtain s' q' where v: "reach_visit depth ns seen q = (s', q')" by fastforce
    with reach_visit_ok [OF 2(4), of depth ns q] have "bs_ok s'" by simp
    from 2(3) [OF ns v [symmetric] this] ns v show ?thesis by simp
  qed
qed simp

text \<open>
  C30. \<open>GraphBuild::reachable\<close> returns, in ascending order, exactly the entities other than
  the start that are at most \<open>max_hops\<close> edges away from it, edges taken in either direction:
  a wave that comes late through a longer route never hides an entity, and nothing beyond
  the bound is in the set.
\<close>

theorem reachable_within_exact:
  "bs_ok (reachable_within g f max_hops)
   \<and> set (reachable_within g f max_hops) = {v. v \<noteq> f \<and> (\<exists>n \<le> max_hops. (joined g ^^ n) f v)}"
proof -
  have "reach_search.level_inv g f max_hops
      (set (reach_loop (reach_adjacency g) max_hops [(f, 0)] [f])) []"
    using reach_loop_done [of g f max_hops "[f]" "[(f, 0)]"] reach_search.level_start by simp
  note seen = reach_search.level_done [OF this]
  have "bs_ok (reach_loop (reach_adjacency g) max_hops [(f, 0)] [f])"
    by (rule reach_loop_ok) simp
  with seen show ?thesis unfolding reachable_within_def by (simp add: sorted_wrt_filter set_eq_iff conj_commute)
qed

section \<open>Correctness of the path search\<close>

definition parent_of :: "path_prev \<Rightarrow> string \<Rightarrow> string option" where
  "parent_of prev = (\<lambda>c. map_option fst (bt_get prev c))"

lemma parent_of_Nil [simp]: "parent_of [] = (\<lambda>_. None)"
  by (simp add: parent_of_def)

lemma parent_of_insert [simp]:
  "parent_of (bt_insert v (cur, e) prev) = (parent_of prev)(v \<mapsto> cur)"
  by (auto simp: fun_eq_iff parent_of_def)

text \<open>What holds when the target has been reached, and what holds while it has not.\<close>

definition path_hit :: "graph_build \<Rightarrow> string \<Rightarrow> nat \<Rightarrow> string \<Rightarrow> path_prev \<Rightarrow> bool" where
  "path_hit g f m t prev \<longleftrightarrow> (\<exists>S. t \<in> S \<and> path_search.tree_inv g f S (parent_of prev)
     \<and> path_search.conn g f t \<and> path_search.depth g f t \<le> m)"

lemma path_visit_mid:
  assumes "path_search.mid_inv g f m cur d (fst ` set nexts) (set seen) q"
    and "path_search.tree_inv g f (set seen) (parent_of prev)" and "t \<notin> set seen"
  shows "(\<exists>prev'. path_visit t cur d nexts prev seen q = Inl prev' \<and> path_hit g f m t prev')
    \<or> (\<exists>prev' seen' q'. path_visit t cur d nexts prev seen q = Inr (prev', seen', q')
        \<and> path_search.mid_inv g f m cur d {} (set seen') q'
        \<and> path_search.tree_inv g f (set seen') (parent_of prev') \<and> t \<notin> set seen')"
  using assms
proof (induction nexts arbitrary: seen q prev)
  case (Cons e nexts)
  obtain nxt eid where e: "e = (nxt, eid)" by (cases e)
  note inv = Cons.prems(1) [unfolded e, simplified] and tree = Cons.prems(2) and new = Cons.prems(3)
  have link: "fst ` set nexts \<subseteq> Collect (joined g cur)"
    using inv by (auto simp: path_search.mid_inv_def)
  have widen: "insert nxt (fst ` set nexts) - {nxt} \<subseteq> fst ` set nexts" by auto
  show ?case
  proof (cases "nxt \<in> set seen")
    case True
    from path_search.mid_widen [OF path_search.mid_see [OF inv True] _ link] widen
    show ?thesis using True e Cons.IH [OF _ tree new] by simp
  next
    case False
    note found = path_search.mid_discover_depth [OF inv _ False, simplified]
    have cur: "cur \<in> set seen" "d = path_search.depth g f cur" "d < m"
      using inv by (auto simp: path_search.mid_inv_def)
    have tree': "path_search.tree_inv g f (set (bs_insert nxt seen))
        (parent_of (bt_insert nxt (cur, eid) prev))"
      using path_search.tree_discover [OF tree cur(1) found(1) False] found(3) cur(2) by simp
    show ?thesis
    proof (cases "nxt = t")
      case True
      have "path_hit g f m t (bt_insert nxt (cur, eid) prev)"
        unfolding path_hit_def using tree' found(2,3) cur(3) True
        by (intro exI [of _ "set (bs_insert nxt seen)"]) auto
      then show ?thesis using False True e by simp
    next
      case nt: False
      from path_search.mid_widen [OF path_search.mid_discover [OF inv _ False] _ link] widen
      have "path_search.mid_inv g f m cur d (fst ` set nexts) (set (bs_insert nxt seen))
          (q @ [(nxt, Suc d)])" by simp
      from Cons.IH [OF this tree'] new nt False e show ?thesis by simp
    qed
  qed
qed simp

lemma path_loop_done:
  assumes "path_search.level_inv g f m (set seen) q"
    and "path_search.tree_inv g f (set seen) (parent_of prev)" and "t \<notin> set seen"
  shows "case path_loop (path_adjacency g) t m q seen prev of
     None \<Rightarrow> \<exists>S. path_search.level_inv g f m S [] \<and> t \<notin> S
   | Some prev' \<Rightarrow> path_hit g f m t prev'"
  using assms
proof (induction "path_adjacency g" t m q seen prev rule: path_loop.induct)
  case (1 t max_hops seen prev)
  then show ?case by auto
next
  case (2 t m cur depth q seen prev)
  show ?case
  proof (cases "m \<le> depth")
    case True
    with 2(1) path_search.level_skip [OF 2(4)] 2(5,6) show ?thesis by simp
  next
    case False
    have mid: "path_search.mid_inv g f m cur depth
      (fst ` set (nexts_of (path_adjacency g) cur)) (set seen) q"
      using path_search.level_open [OF 2(4)] False by simp
    show ?thesis
    proof (cases "bt_get (path_adjacency g) cur")
      case None
      with mid have "path_search.level_inv g f m (set seen) q"
        by (intro path_search.mid_close) (simp add: nexts_of_def)
      with 2(2) 2(5,6) None False show ?thesis by simp
    next
      case (Some ns)
      then have "nexts_of (path_adjacency g) cur = ns" by (simp add: nexts_of_def)
      from path_visit_mid [OF mid [unfolded this] 2(5,6)] show ?thesis
      proof (elim disjE exE conjE)
        fix prev' seen' q'
        assume v: "path_visit t cur depth ns prev seen q = Inr (prev', seen', q')"
          and mid': "path_search.mid_inv g f m cur depth {} (set seen') q'"
          and rest: "path_search.tree_inv g f (set seen') (parent_of prev')" "t \<notin> set seen'"
        from 2(3) [OF False Some v refl refl path_search.mid_close [OF mid'] rest]
        show ?thesis using False Some v by simp
      qed (use False Some in simp)
    qed
  qed
qed

text \<open>
  C29. \<open>GraphBuild::bounded_path\<close> always returns (the walk back along the parent map ends);
  when it finds a path, the path runs along edges of the build from \<open>from\<close> to \<open>to\<close>, uses at
  most \<open>max_hops\<close> edges and no path is shorter; when it finds none, no path of at most
  \<open>max_hops\<close> edges exists.
\<close>

theorem bounded_path_shortest:
  "\<exists>res. bounded_path g f t max_hops = Some res \<and>
    (case res of
       None \<Rightarrow> \<not> (\<exists>p. is_route (joined g) f t p \<and> length p \<le> Suc max_hops)
     | Some p \<Rightarrow> is_route (joined g) f t p \<and> length p \<le> Suc max_hops
         \<and> (\<forall>p'. is_route (joined g) f t p' \<longrightarrow> length p \<le> length p'))"
proof (cases "f = t")
  case True
  have "1 \<le> length p'" if "is_route (joined g) t t p'" for p'
    using that by (cases p') (simp_all add: is_route_def)
  with True show ?thesis by (simp add: bounded_path_def is_route_def)
next
  case False
  note search = path_loop_done [of g f max_hops "[f]" "[(f, 0)]" "[]" t]
  have start: "path_search.level_inv g f max_hops (set [f]) [(f, 0)]"
    "path_search.tree_inv g f (set [f]) (parent_of [])" "t \<notin> set [f]"
    using path_search.level_start path_search.tree_start False by simp_all
  show ?thesis
  proof (cases "path_loop (path_adjacency g) t max_hops [(f, 0)] [f] []")
    case None
    with search [OF start] path_search.no_route False show ?thesis
      by (auto simp: bounded_path_def)
  next
    case (Some prev)
    with search [OF start] obtain S where S: "t \<in> S" "path_search.tree_inv g f S (parent_of prev)"
      "path_search.conn g f t" "path_search.depth g f t \<le> max_hops"
      by (auto simp: path_hit_def)
    from path_search.route_found [OF S(2,1,3)] S(4) Some False show ?thesis
      by (auto simp: bounded_path_def parent_of_def)
  qed
qed

theorem bounded_path_shortest_witness:
  "\<exists>p. bounded_path sample_build ''a'' ''b'' 1 = Some (Some p)
     \<and> is_route (joined sample_build) ''a'' ''b'' p \<and> length p \<le> 2"
proof -
  have "is_route (joined sample_build) ''a'' ''b'' [''a'', ''b'']"
    by (simp add: is_route_def joined_def sample_build_def bt_values_def sample_relation_def)
  then have route: "\<exists>p. is_route (joined sample_build) ''a'' ''b'' p \<and> length p \<le> Suc 1"
    by (intro exI [of _ "[''a'', ''b'']"]) simp
  show ?thesis
    using bounded_path_shortest [of sample_build "''a''" "''b''" 1] route
    by (auto split: option.splits)
qed

end
