(* ===== verification/Rows.thy ===== *)
theory Rows
  imports Coverage Graph_Build
begin

text \<open>
  The typed rows the readers exchange (\<^verbatim>\<open>crates/chaosbox-store/src/rows.rs\<close>), the
  projections that build them, and the storage errors (\<^verbatim>\<open>lib.rs\<close> of that crate). The
  text of an \<open>Invariant\<close> error is kept as one constructor per message, with the values
  the message interpolates.
\<close>

section \<open>Errors\<close>

text \<open>The state of a worker task (\<^verbatim>\<open>task.rs\<close>), which its error messages show.\<close>

datatype task_state =
    TS_Pending
  | TS_Claimed (ts_worker: string) (ts_expires_at: "64 word")
  | TS_Done
  | TS_Failed string

datatype invariant_msg =
    FileUnderOtherSnapshot string string string
  | UnregisteredFile string string string
  | ClaimIdReused
  | SetInputsDiffer string
  | UnregisteredSet string string
  | CoverageDisagrees
  | EdgeOutsideBuild string string
  | PredecessorMismatch "string option" string u64
  | OlderWorker
  | PredecessorWithoutActive
  | MissingClaimEvidence string string
  | ReplacesPublished
  | MissingEdgeEvidence
  | MissingFileVersion
  | BadReplicaRow
  | BadReplicaView
  | ReplicaCollision
  | ReplicaViewCollision
  | ReplicaPageLimit
  | ReplicaPredecessorChanged
  | TaskNotClaimable task_state string
  | TaskNotHeld task_state string
  | TaskLive task_state string

datatype store_error =
    SE_Connection string
  | SE_Query string
  | SE_QueryBudget
  | SE_EvidenceClosureUnavailable
  | SE_Invariant invariant_msg
  | SE_NotFound string

section \<open>Rows\<close>

record entity_row =
  er_entity_id :: string
  er_kind :: string
  er_repo :: string
  er_snapshot :: string
  er_file :: string
  er_name :: string
  er_qualified_name :: string
  er_span :: "source_span option"
  er_compiler :: "symbol_identity option"

record build_row =
  br_build_id :: string
  br_generation :: "64 word"
  br_status :: string
  br_snapshots :: "string list"
  br_coverage :: "build_coverage option"
  br_evidence_sealed :: bool

record rel_row =
  rr_rel_id :: string
  rr_rel_type :: string
  rr_from_entity :: string
  rr_to_entity :: string

record source_citation =
  sc_snapshot :: string
  sc_file :: string
  sc_sha256 :: string
  sc_span :: "source_span option"

record evidence_row =
  evr_evidence_id :: string
  evr_class :: string
  evr_supports :: bool
  evr_text :: string
  evr_citation :: "source_citation option"
  evr_producer :: "string option"

definition entity_row_of :: "entity \<Rightarrow> entity_row" where
  "entity_row_of e =
     \<lparr>er_entity_id = ent_id e, er_kind = entity_kind_name (ent_kind e), er_repo = ent_repo e,
      er_snapshot = ent_snapshot e, er_file = ent_file e, er_name = ent_name e,
      er_qualified_name = ent_qualified_name e, er_span = Some (ent_span e),
      er_compiler = ent_compiler e\<rparr>"

definition rel_row_of :: "relation \<Rightarrow> rel_row" where
  "rel_row_of r =
     \<lparr>rr_rel_id = rel_id r, rr_rel_type = relation_type_name (rel_type r),
      rr_from_entity = rel_from r, rr_to_entity = rel_to r\<rparr>"

lemma entity_row_of_simps [simp]:
  "er_entity_id (entity_row_of e) = ent_id e" "er_kind (entity_row_of e) = entity_kind_name (ent_kind e)"
  "er_file (entity_row_of e) = ent_file e" "er_name (entity_row_of e) = ent_name e"
  "er_qualified_name (entity_row_of e) = ent_qualified_name e"
  by (simp_all add: entity_row_of_def)

lemma rel_row_of_simps [simp]:
  "rr_rel_id (rel_row_of r) = rel_id r" "rr_rel_type (rel_row_of r) = relation_type_name (rel_type r)"
  "rr_from_entity (rel_row_of r) = rel_from r" "rr_to_entity (rel_row_of r) = rel_to r"
  by (simp_all add: rel_row_of_def)

end
