(* ===== verification/Sealed_Evidence.thy ===== *)
theory Sealed_Evidence
  imports Rows Rust_Text
begin

text \<open>
  The state of the in-memory store (\<^verbatim>\<open>MemoryStore\<close> in \<^verbatim>\<open>store.rs\<close>) and the
  publication-time evidence closure (\<^verbatim>\<open>sealed_evidence.rs\<close>): which rows a relationship
  is sealed with, the limits on them, and the identity of a publication.

  \<open>json\<close> parameters stand for \<^verbatim>\<open>serde_json\<close>: \<open>chunks rows\<close> is the sequence of buffers
  the serializer hands to the writer for a list of rows.
\<close>

section \<open>The store\<close>

record memory_store =
  ms_builds :: "(string, graph_build) btree"
  ms_active :: "(string, string) btree"
  ms_decisions :: "(string, decision) btree"
  ms_evidence :: "(string, evidence) btree"
  ms_claims :: "(string, claim) btree"
  ms_sealed :: "(string \<times> string, evidence_row list) btree"
  ms_inferences :: "(string, inference_record) btree"
  ms_files :: "(string \<times> string, string \<times> u64) btree"
  ms_runs :: "(string, string \<times> string) btree"
  ms_sets :: "(string, string \<times> string \<times> string) btree"
  ms_candidates :: "(string, string \<times> candidate) btree"

section \<open>Edge classes and the byte counter\<close>

definition row_class :: "evidence_row list \<Rightarrow> string" where
  "row_class rows =
     (if (\<exists>r \<in> set rows. \<not> evr_supports r \<or> evr_class r = ''ambiguous'') then ''ambiguous''
      else if (\<exists>r \<in> set rows. evr_class r = ''inferred'') then ''inferred''
      else if rows = [] then ''unknown''
      else ''extracted'')"

definition SEALED_EVIDENCE_BYTES_MAX :: nat where
  "SEALED_EVIDENCE_BYTES_MAX = 1024 * 1024"

text \<open>\<open>Counter::write\<close>: \<open>None\<close> is the io error.\<close>

definition counter_write :: "nat \<Rightarrow> string \<Rightarrow> nat option" where
  "counter_write used buf =
     (if SEALED_EVIDENCE_BYTES_MAX - used < length buf then None else Some (used + length buf))"

fun counter_write_all :: "nat \<Rightarrow> string list \<Rightarrow> nat option" where
  "counter_write_all used [] = Some used"
| "counter_write_all used (b # bs) =
     (case counter_write used b of None \<Rightarrow> None | Some u \<Rightarrow> counter_write_all u bs)"

lemma counter_write_all_iff:
  "used \<le> SEALED_EVIDENCE_BYTES_MAX \<Longrightarrow>
     counter_write_all used bs =
       (if used + length (concat bs) \<le> SEALED_EVIDENCE_BYTES_MAX
        then Some (used + length (concat bs)) else None)"
  by (induction bs arbitrary: used) (auto simp: counter_write_def)

section \<open>Claims and evidence rows\<close>

fun first_missing :: "(string, 'v) btree \<Rightarrow> string list \<Rightarrow> string option" where
  "first_missing m [] = None"
| "first_missing m (i # is) = (if bt_contains m i then first_missing m is else Some i)"

definition validate_claim :: "memory_store \<Rightarrow> claim \<Rightarrow> store_error + unit" where
  "validate_claim st c =
     (case first_missing (ms_evidence st) (cl_supporting c @ cl_contradicting c) of
        None \<Rightarrow> Inr ()
      | Some i \<Rightarrow> Inl (SE_Invariant (MissingClaimEvidence (cl_id c) i)))"

definition claims_by_relation :: "memory_store \<Rightarrow> (string, claim list) btree" where
  "claims_by_relation st =
     foldl (\<lambda>m c. bt_alter (cl_relation_id c) [] (\<lambda>cs. cs @ [c]) m) [] (bt_values (ms_claims st))"

definition claims_of :: "(string, claim list) btree \<Rightarrow> string \<Rightarrow> claim list" where
  "claims_of m rel = (case bt_get m rel of None \<Rightarrow> [] | Some cs \<Rightarrow> cs)"

fun collect_ids :: "memory_store \<Rightarrow> claim list \<Rightarrow> string btset \<Rightarrow> store_error + string btset" where
  "collect_ids st [] ids = Inr ids"
| "collect_ids st (c # cs) ids =
     (case validate_claim st c of
        Inl e \<Rightarrow> Inl e
      | Inr _ \<Rightarrow> collect_ids st cs (bs_extend ids (cl_supporting c @ cl_contradicting c)))"

definition evidence_row_of :: "evidence \<Rightarrow> string \<Rightarrow> evidence_row" where
  "evidence_row_of e sha =
     \<lparr>evr_evidence_id = ev_id e, evr_class = evidence_class_name (ev_class e),
      evr_supports = ev_supports e, evr_text = ev_text e,
      evr_citation = Some \<lparr>sc_snapshot = ev_snapshot e, sc_file = ev_source_file_version e,
        sc_sha256 = sha, sc_span = ev_span e\<rparr>,
      evr_producer = ev_producer e\<rparr>"

fun rows_of_ids :: "memory_store \<Rightarrow> string list \<Rightarrow> store_error + evidence_row list" where
  "rows_of_ids st [] = Inr []"
| "rows_of_ids st (i # is) =
     (case bt_get (ms_evidence st) i of
        None \<Rightarrow> Inl (SE_Invariant MissingEdgeEvidence)
      | Some e \<Rightarrow>
          (case bt_get (ms_files st) (ev_snapshot e, ev_source_file_version e) of
             None \<Rightarrow> Inl (SE_Invariant MissingFileVersion)
           | Some (sha, _) \<Rightarrow>
               (case rows_of_ids st is of
                  Inl er \<Rightarrow> Inl er
                | Inr rows \<Rightarrow> Inr (evidence_row_of e sha # rows))))"

definition evidence_rows ::
  "(evidence_row list \<Rightarrow> string list) \<Rightarrow> memory_store \<Rightarrow> relation \<Rightarrow> claim list
   \<Rightarrow> store_error + evidence_row list" where
  "evidence_rows chunks st edge claims =
     (case collect_ids st claims (bs_of (rel_evidence_ids edge)) of
        Inl e \<Rightarrow> Inl e
      | Inr ids \<Rightarrow>
          if 1000 < length ids then Inl SE_QueryBudget
          else (case rows_of_ids st ids of
             Inl e \<Rightarrow> Inl e
           | Inr rows \<Rightarrow>
               (case counter_write_all 0 (chunks rows) of
                  None \<Rightarrow> Inl SE_QueryBudget
                | Some _ \<Rightarrow> Inr rows)))"

section \<open>The closure of a build\<close>

fun closure_of ::
  "(relation \<Rightarrow> store_error + evidence_row list) \<Rightarrow> string \<Rightarrow> relation list
   \<Rightarrow> (string \<times> string, evidence_row list) btree
   \<Rightarrow> store_error + (string \<times> string, evidence_row list) btree" where
  "closure_of rows_for b [] cl = Inr cl"
| "closure_of rows_for b (edge # edges) cl =
     (case rows_for edge of
        Inl e \<Rightarrow> Inl e
      | Inr rows \<Rightarrow> closure_of rows_for b edges (bt_insert (b, rel_id edge) rows cl))"

abbreviation edge_rows ::
  "(evidence_row list \<Rightarrow> string list) \<Rightarrow> memory_store \<Rightarrow> relation \<Rightarrow> store_error + evidence_row list" where
  "edge_rows chunks st edge \<equiv>
     evidence_rows chunks st edge (claims_of (claims_by_relation st) (rel_id edge))"

definition evidence_closure ::
  "(evidence_row list \<Rightarrow> string list) \<Rightarrow> memory_store \<Rightarrow> graph_build
   \<Rightarrow> store_error + (string \<times> string, evidence_row list) btree" where
  "evidence_closure chunks st b =
     closure_of (edge_rows chunks st) (gb_id b) (bt_values (gb_edges b)) []"

definition sealed_evidence :: "memory_store \<Rightarrow> string \<Rightarrow> string \<Rightarrow> store_error + evidence_row list" where
  "sealed_evidence st b r =
     (case bt_get (ms_sealed st) (b, r) of
        None \<Rightarrow> Inl SE_EvidenceClosureUnavailable
      | Some rows \<Rightarrow> Inr rows)"

definition edge_class :: "memory_store \<Rightarrow> string \<Rightarrow> string \<Rightarrow> string option" where
  "edge_class st b r = (case sealed_evidence st b r of Inl _ \<Rightarrow> None | Inr rows \<Rightarrow> Some (row_class rows))"

definition seal_build ::
  "(evidence_row list \<Rightarrow> string list) \<Rightarrow> memory_store \<Rightarrow> graph_build
   \<Rightarrow> (memory_store, store_error, unit) outcome" where
  "seal_build chunks st b =
     (if bt_contains (ms_builds st) (gb_id b) then (st, Inl (SE_Invariant ReplacesPublished))
      else (case evidence_closure chunks st b of
         Inl e \<Rightarrow> (st, Inl e)
       | Inr cl \<Rightarrow> (st\<lparr>ms_sealed := bt_extend (ms_sealed st) cl\<rparr>, Inr ())))"

definition publication_evidence ::
  "(evidence_row list \<Rightarrow> string list) \<Rightarrow> memory_store \<Rightarrow> graph_build
   \<Rightarrow> store_error + (string, evidence_row list) btree" where
  "publication_evidence chunks st b =
     map_sum id (\<lambda>cl. bt_extend [] (map (\<lambda>((_, rel), rows). (rel, rows)) cl)) (evidence_closure chunks st b)"

end
