(* ===== verification/Memory_Store.thy ===== *)
theory Memory_Store
  imports Sealed_Evidence
begin

text \<open>
  The operations of the in-memory store: \<^verbatim>\<open>impl Store for MemoryStore\<close> and its
  inherent methods in \<^verbatim>\<open>crates/chaosbox-store/src/store.rs\<close>. Every operation returns
  the state it leaves behind together with its result; a failing call keeps what it
  wrote before it failed, as the source does.
\<close>

definition memory_store_new :: memory_store where
  "memory_store_new =
     \<lparr>ms_builds = [], ms_active = [], ms_decisions = [], ms_evidence = [], ms_claims = [],
      ms_sealed = [], ms_inferences = [], ms_files = [], ms_runs = [], ms_sets = [],
      ms_candidates = []\<rparr>"

section \<open>Staging\<close>

fun ensure_snapshot_files ::
  "memory_store \<Rightarrow> string \<Rightarrow> snapshot_file list \<Rightarrow> (memory_store, store_error, unit) outcome" where
  "ensure_snapshot_files st snap [] = (st, Inr ())"
| "ensure_snapshot_files st snap (f # fs) =
     (if sf_snapshot f \<noteq> snap
      then (st, Inl (SE_Invariant (FileUnderOtherSnapshot (sf_path f) (sf_snapshot f) snap)))
      else ensure_snapshot_files
        (st\<lparr>ms_files := bt_insert (snap, sf_path f) (sf_sha256 f, sf_bytes f) (ms_files st)\<rparr>) snap fs)"

definition put_entity :: "memory_store \<Rightarrow> entity \<Rightarrow> (memory_store, store_error, unit) outcome" where
  "put_entity st e = (st, Inr ())"

definition put_relation :: "memory_store \<Rightarrow> relation \<Rightarrow> string \<Rightarrow> (memory_store, store_error, unit) outcome" where
  "put_relation st r b = (st, Inr ())"

definition decision_key :: "string \<Rightarrow> string \<Rightarrow> string" where
  "decision_key c q = c @ '':'' @ q"

fun is_failed :: "decision_outcome \<Rightarrow> bool" where
  "is_failed (DO_Failed _) = True"
| "is_failed _ = False"

definition put_decision :: "memory_store \<Rightarrow> decision \<Rightarrow> (memory_store, store_error, unit) outcome" where
  "put_decision st d =
     (let key = decision_key (dec_candidate_id d) (dec_question_id d);
          replace = (case bt_get (ms_decisions st) key of
             None \<Rightarrow> True
           | Some old \<Rightarrow> dec_cache_key old \<noteq> dec_cache_key d \<or> is_failed (dec_outcome old))
      in (if replace then st\<lparr>ms_decisions := bt_insert key d (ms_decisions st)\<rparr> else st, Inr ()))"

definition find_decision :: "memory_store \<Rightarrow> string \<Rightarrow> string \<Rightarrow> decision option" where
  "find_decision st c q = bt_get (ms_decisions st) (decision_key c q)"

definition put_inference ::
  "memory_store \<Rightarrow> inference_record \<Rightarrow> (memory_store, store_error, unit) outcome" where
  "put_inference st rec =
     (st\<lparr>ms_inferences := bt_or_insert (inf_reuse_key rec) rec (ms_inferences st)\<rparr>, Inr ())"

definition find_inference :: "memory_store \<Rightarrow> string \<Rightarrow> inference_record option" where
  "find_inference st k = bt_get (ms_inferences st) k"

definition put_evidence :: "memory_store \<Rightarrow> evidence \<Rightarrow> (memory_store, store_error, unit) outcome" where
  "put_evidence st e =
     (if \<not> bt_contains (ms_files st) (ev_snapshot e, ev_source_file_version e)
      then (st, Inl (SE_Invariant
        (UnregisteredFile (ev_id e) (ev_source_file_version e) (ev_snapshot e))))
      else (st\<lparr>ms_evidence := bt_or_insert (ev_id e) e (ms_evidence st)\<rparr>, Inr ()))"

definition put_claim :: "memory_store \<Rightarrow> claim \<Rightarrow> (memory_store, store_error, unit) outcome" where
  "put_claim st c =
     (case validate_claim st c of
        Inl e \<Rightarrow> (st, Inl e)
      | Inr _ \<Rightarrow>
          if (case bt_get (ms_claims st) (cl_id c) of None \<Rightarrow> False | Some old \<Rightarrow> old \<noteq> c)
          then (st, Inl (SE_Invariant ClaimIdReused))
          else (st\<lparr>ms_claims := bt_or_insert (cl_id c) c (ms_claims st)\<rparr>, Inr ()))"

text \<open>The run is registered before the set is looked at, also when the set is refused.\<close>

definition ensure_run ::
  "memory_store \<Rightarrow> string \<Rightarrow> string \<Rightarrow> string \<Rightarrow> string \<Rightarrow> string \<Rightarrow> string
   \<Rightarrow> (memory_store, store_error, unit) outcome" where
  "ensure_run st run_id repo snap set_id digest rubric =
     (let st' = st\<lparr>ms_runs := bt_or_insert run_id (repo, snap) (ms_runs st)\<rparr>
      in case bt_get (ms_sets st') set_id of
           Some (run, cat, rub) \<Rightarrow>
             if run \<noteq> run_id \<or> cat \<noteq> digest \<or> rub \<noteq> rubric
             then (st', Inl (SE_Invariant (SetInputsDiffer set_id)))
             else (st', Inr ())
         | None \<Rightarrow>
             (st'\<lparr>ms_sets := bt_insert set_id (run_id, digest, rubric) (ms_sets st')\<rparr>, Inr ()))"

definition put_candidate ::
  "memory_store \<Rightarrow> string \<Rightarrow> candidate \<Rightarrow> (memory_store, store_error, unit) outcome" where
  "put_candidate st set_id c =
     (if \<not> bt_contains (ms_sets st) set_id
      then (st, Inl (SE_Invariant (UnregisteredSet (cand_id c) set_id)))
      else (st\<lparr>ms_candidates := bt_or_insert (cand_id c) (set_id, c) (ms_candidates st)\<rparr>, Inr ()))"

section \<open>Publication\<close>

text \<open>The direct edges of a class: every evidence row is producer-backed and supporting.\<close>

definition backed ::
  "memory_store \<Rightarrow> evidence_class \<Rightarrow> string option \<Rightarrow> relation \<Rightarrow> bool" where
  "backed st cls producer edge \<longleftrightarrow>
     rel_evidence_ids edge \<noteq> [] \<and>
     (\<forall>i \<in> set (rel_evidence_ids edge).
        case bt_get (ms_evidence st) i of
          None \<Rightarrow> False
        | Some e \<Rightarrow> ev_producer e \<noteq> None
            \<and> (case producer of None \<Rightarrow> True | Some p \<Rightarrow> ev_producer e = Some p)
            \<and> ev_supports e \<and> ev_class e = cls)"

definition direct :: "memory_store \<Rightarrow> graph_build \<Rightarrow> evidence_class \<Rightarrow> string option \<Rightarrow> usize" where
  "direct st b cls producer =
     of_nat (length (filter (backed st cls producer) (bt_values (gb_edges b))))"

definition coverage_disagrees :: "memory_store \<Rightarrow> graph_build \<Rightarrow> build_coverage \<Rightarrow> bool" where
  "coverage_disagrees st b cov =
     (let structural = direct st b EC_Extracted None;
          resolved = direct st b EC_Inferred None;
          catalog = direct st b EC_Extracted (Some ''postgres-catalog-v1'');
          compiler = (case bc_compiler cov of None \<Rightarrow> 0 | Some c \<Rightarrow> compiler_relations c)
      in (case bc_catalog cov of None \<Rightarrow> 0 | Some c \<Rightarrow> cat_relations c) \<noteq> catalog
       \<or> bc_structural_relations cov + compiler + catalog \<noteq> structural
       \<or> bc_resolved_relations cov \<noteq> resolved
       \<or> bc_decision_relations cov \<noteq> of_nat (length (gb_edges b)) - structural - resolved
       \<or> sum_list (map fc_facts (bc_files cov)) \<noteq> bc_structural_relations cov)"

fun edge_outside :: "graph_build \<Rightarrow> relation list \<Rightarrow> store_error option" where
  "edge_outside b [] = None"
| "edge_outside b (r # rs) =
     (if \<not> bt_contains (gb_nodes b) (rel_from r) \<or> \<not> bt_contains (gb_nodes b) (rel_to r)
      then Some (SE_Invariant (EdgeOutsideBuild (rel_id r) (gb_id b)))
      else edge_outside b rs)"

definition predecessor_refused ::
  "memory_store \<Rightarrow> graph_build \<Rightarrow> string option \<Rightarrow> store_error option" where
  "predecessor_refused st b expected =
     (case bt_get (ms_active st) (gb_repo b) of
        Some cur_id \<Rightarrow>
          (case bt_get (ms_builds st) cur_id of
             None \<Rightarrow> Some (SE_NotFound cur_id)
           | Some cur \<Rightarrow>
               if expected \<noteq> Some (gb_id cur)
               then Some (SE_Invariant (PredecessorMismatch expected (gb_id cur) (gb_generation cur)))
               else if gb_generation b \<le> gb_generation cur then Some (SE_Invariant OlderWorker)
               else None)
      | None \<Rightarrow> if expected \<noteq> None then Some (SE_Invariant PredecessorWithoutActive) else None)"

definition publish ::
  "(evidence_row list \<Rightarrow> string list) \<Rightarrow> memory_store \<Rightarrow> graph_build \<Rightarrow> string option
   \<Rightarrow> (memory_store, store_error, unit) outcome" where
  "publish chunks st b expected =
     (if (case gb_coverage b of None \<Rightarrow> False | Some cov \<Rightarrow> coverage_disagrees st b cov)
      then (st, Inl (SE_Invariant CoverageDisagrees))
      else case edge_outside b (bt_values (gb_edges b)) of
        Some e \<Rightarrow> (st, Inl e)
      | None \<Rightarrow>
          (case predecessor_refused st b expected of
             Some e \<Rightarrow> (st, Inl e)
           | None \<Rightarrow>
               (case seal_build chunks st b of
                  (st', Inl e) \<Rightarrow> (st', Inl e)
                | (st', Inr _) \<Rightarrow>
                    (st'\<lparr>ms_active := bt_insert (gb_repo b) (gb_id b) (ms_active st'),
                         ms_builds := bt_insert (gb_id b) b (ms_builds st')\<rparr>, Inr ()))))"

section \<open>Reading\<close>

definition get_build :: "memory_store \<Rightarrow> string \<Rightarrow> graph_build option" where
  "get_build st i = bt_get (ms_builds st) i"

definition active_of :: "memory_store \<Rightarrow> string \<Rightarrow> graph_build option" where
  "active_of st repo = (case bt_get (ms_active st) repo of None \<Rightarrow> None | Some i \<Rightarrow> get_build st i)"

definition has_file :: "memory_store \<Rightarrow> string \<Rightarrow> string \<Rightarrow> bool" where
  "has_file st snap path = bt_contains (ms_files st) (snap, path)"

record store_stats =
  ss_decisions :: nat
  ss_inferences :: nat
  ss_evidence :: nat
  ss_claims :: nat
  ss_builds :: nat
  ss_candidates :: nat
  ss_runs :: nat

definition stats :: "memory_store \<Rightarrow> store_stats" where
  "stats st =
     \<lparr>ss_decisions = length (ms_decisions st), ss_inferences = length (ms_inferences st),
      ss_evidence = length (ms_evidence st), ss_claims = length (ms_claims st),
      ss_builds = length (ms_builds st), ss_candidates = length (ms_candidates st),
      ss_runs = length (ms_runs st)\<rparr>"

record staged_data =
  sd_runs :: "(string \<times> string \<times> string) list"
  sd_sets :: "(string \<times> string \<times> string \<times> string) list"
  sd_candidates :: "(string \<times> string \<times> candidate) list"
  sd_decisions :: "decision list"
  sd_inferences :: "inference_record list"
  sd_evidence :: "evidence list"
  sd_claims :: "claim list"
  sd_files :: "((string \<times> string) \<times> string \<times> u64) list"

definition export_staged :: "memory_store \<Rightarrow> staged_data" where
  "export_staged st =
     \<lparr>sd_runs = ms_runs st, sd_sets = ms_sets st, sd_candidates = ms_candidates st,
      sd_decisions = bt_values (ms_decisions st), sd_inferences = bt_values (ms_inferences st),
      sd_evidence = bt_values (ms_evidence st), sd_claims = bt_values (ms_claims st),
      sd_files = ms_files st\<rparr>"

end
