(* ===== verification/Store_Invariants.thy ===== *)
theory Store_Invariants
  imports Memory_Store Contracts
begin

text \<open>
  What holds of the in-memory store in every reachable state, and what its histories
  guarantee: published builds and their sealed evidence never change, the active pointer
  moves only by compare-and-swap to a newer generation, a publication's coverage counts
  and evidence closure are true and complete.
\<close>

section \<open>Sealing\<close>

lemma closure_of_ok_iff:
  "is_ok (closure_of f b es cl) \<longleftrightarrow> (\<forall>e \<in> set es. is_ok (f e))"
  by (induction es arbitrary: cl) (auto split: sum.splits)

lemma closure_of_keys:
  "closure_of f b es cl = Inr cl' \<Longrightarrow> fst ` set cl' = fst ` set cl \<union> (\<lambda>e. (b, rel_id e)) ` set es"
  by (induction es arbitrary: cl) (auto split: sum.splits)

lemma closure_of_sorted: "closure_of f b es cl = Inr cl' \<Longrightarrow> bt_ok cl \<Longrightarrow> bt_ok cl'"
  by (induction es arbitrary: cl) (auto split: sum.splits intro: bt_ok_insert)

lemma closure_of_get:
  assumes "closure_of f b es cl = Inr cl'" and "bt_get cl' (b, r) = Some rows"
  shows "bt_get cl (b, r) = Some rows \<or> (\<exists>e \<in> set es. rel_id e = r \<and> f e = Inr rows)"
  using assms
proof (induction es arbitrary: cl)
  case (Cons e es)
  then obtain rs where f: "f e = Inr rs" by (auto split: sum.splits)
  with Cons.prems Cons.IH [of "bt_insert (b, rel_id e) rs cl"] show ?case
    by (auto split: if_splits)
qed simp

lemma evidence_closure_contains:
  "evidence_closure chunks st b = Inr cl \<Longrightarrow>
     bt_contains cl (i, r) \<longleftrightarrow> i = gb_id b \<and> (\<exists>e \<in> set (bt_values (gb_edges b)). rel_id e = r)"
  using closure_of_keys [of "edge_rows chunks st" "gb_id b" "bt_values (gb_edges b)" "[]" cl]
  by (simp add: evidence_closure_def bt_contains_keys) auto

lemma evidence_closure_sorted: "evidence_closure chunks st b = Inr cl \<Longrightarrow> bt_ok cl"
  unfolding evidence_closure_def by (erule closure_of_sorted) simp

lemma evidence_closure_rows:
  assumes "evidence_closure chunks st b = Inr cl" and "bt_get cl (gb_id b, r) = Some rows"
  obtains e where "e \<in> set (bt_values (gb_edges b))" and "rel_id e = r"
    and "edge_rows chunks st e = Inr rows"
  using closure_of_get [OF assms(1) [unfolded evidence_closure_def] assms(2)] by auto

lemma bt_get_extend_ok:
  assumes "bt_ok es"
  shows "bt_get (bt_extend m es) k = (case bt_get es k of None \<Rightarrow> bt_get m k | Some v \<Rightarrow> Some v)"
proof -
  have "distinct (map fst es)" by (rule bt_ok_distinct [OF assms])
  then have "map_of (rev es) = map_of es"
    by (subst map_of_inject_set) (simp_all add: rev_map [symmetric])
  then show ?thesis by (simp add: bt_get_extend bt_get_def [of es])
qed

section \<open>Publication, success and refusal\<close>

lemma edge_outside_None:
  "edge_outside b rs = None \<longleftrightarrow>
     (\<forall>r \<in> set rs. bt_contains (gb_nodes b) (rel_from r) \<and> bt_contains (gb_nodes b) (rel_to r))"
  by (induction rs) auto

lemma seal_build_cases:
  "seal_build chunks st b =
     (if bt_contains (ms_builds st) (gb_id b) then (st, Inl (SE_Invariant ReplacesPublished))
      else case evidence_closure chunks st b of
        Inl e \<Rightarrow> (st, Inl e)
      | Inr cl \<Rightarrow> (st\<lparr>ms_sealed := bt_extend (ms_sealed st) cl\<rparr>, Inr ()))"
  by (simp add: seal_build_def)

lemma publish_refused: "publish chunks st b e = (t, Inl er) \<Longrightarrow> t = st"
  unfolding publish_def seal_build_def by (auto split: if_splits option.splits sum.splits)

lemma publish_accepted:
  assumes "publish chunks st b e = (t, Inr ())"
  obtains cl where "evidence_closure chunks st b = Inr cl"
    and "\<not> bt_contains (ms_builds st) (gb_id b)"
    and "predecessor_refused st b e = None"
    and "edge_outside b (bt_values (gb_edges b)) = None"
    and "\<And>cov. gb_coverage b = Some cov \<Longrightarrow> \<not> coverage_disagrees st b cov"
    and "t = st\<lparr>ms_sealed := bt_extend (ms_sealed st) cl,
                ms_active := bt_insert (gb_repo b) (gb_id b) (ms_active st),
                ms_builds := bt_insert (gb_id b) b (ms_builds st)\<rparr>"
  using assms unfolding publish_def seal_build_def
  by (auto split: if_splits option.splits sum.splits)

section \<open>The invariant\<close>

definition keyed :: "('k::linorder, 'v) btree \<Rightarrow> ('v \<Rightarrow> 'k) \<Rightarrow> bool" where
  "keyed m key \<longleftrightarrow> bt_ok m \<and> (\<forall>k v. bt_get m k = Some v \<longrightarrow> key v = k)"

lemma keyed_Nil [simp]: "keyed [] key"
  by (simp add: keyed_def)

lemma keyed_insert: "keyed m key \<Longrightarrow> key v = k \<Longrightarrow> keyed (bt_insert k v m) key"
  by (auto simp: keyed_def bt_ok_insert)

lemma keyed_or_insert: "keyed m key \<Longrightarrow> key v = k \<Longrightarrow> keyed (bt_or_insert k v m) key"
  by (simp add: bt_or_insert_def keyed_insert)

lemma keyed_contains:
  assumes "keyed m key"
  shows "bt_contains m k \<longleftrightarrow> (\<exists>v \<in> set (bt_values m). key v = k)"
proof -
  have ok: "bt_ok m" and keys: "\<And>k v. (k, v) \<in> set m \<Longrightarrow> key v = k"
    using assms by (auto simp: keyed_def bt_get_iff_in_set)
  show ?thesis
  proof
    assume "bt_contains m k"
    then obtain v where "(k, v) \<in> set m" by (auto simp: bt_contains_iff_Some dest: bt_get_in_set)
    then have "key v = k" and "v \<in> set (bt_values m)" by (auto simp: bt_values_iff dest: keys)
    then show "\<exists>v \<in> set (bt_values m). key v = k" by blast
  next
    assume "\<exists>v \<in> set (bt_values m). key v = k"
    then obtain v j where "(j, v) \<in> set m" "key v = k" by (auto simp: bt_values_iff)
    then have "(k, v) \<in> set m" by (auto dest: keys)
    then show "bt_contains m k" by (auto simp: bt_contains_keys intro: rev_image_eqI)
  qed
qed

definition tables_ok :: "memory_store \<Rightarrow> bool" where
  "tables_ok st \<longleftrightarrow>
     keyed (ms_builds st) gb_id \<and> keyed (ms_evidence st) ev_id \<and> keyed (ms_claims st) cl_id
   \<and> keyed (ms_decisions st) (\<lambda>d. decision_key (dec_candidate_id d) (dec_question_id d))
   \<and> keyed (ms_inferences st) inf_reuse_key \<and> keyed (ms_candidates st) (\<lambda>(s, c). cand_id c)
   \<and> bt_ok (ms_files st) \<and> bt_ok (ms_runs st) \<and> bt_ok (ms_sets st) \<and> bt_ok (ms_sealed st)
   \<and> bt_ok (ms_active st)"

definition staged_ok :: "memory_store \<Rightarrow> bool" where
  "staged_ok st \<longleftrightarrow>
     (\<forall>k e. bt_get (ms_evidence st) k = Some e \<longrightarrow>
        bt_contains (ms_files st) (ev_snapshot e, ev_source_file_version e))
   \<and> (\<forall>k c. bt_get (ms_claims st) k = Some c \<longrightarrow>
        (\<forall>i \<in> set (cl_supporting c @ cl_contradicting c). bt_contains (ms_evidence st) i))
   \<and> (\<forall>k s c. bt_get (ms_candidates st) k = Some (s, c) \<longrightarrow> bt_contains (ms_sets st) s)
   \<and> (\<forall>k r x. bt_get (ms_sets st) k = Some (r, x) \<longrightarrow> bt_contains (ms_runs st) r)"

definition published_ok :: "memory_store \<Rightarrow> bool" where
  "published_ok st \<longleftrightarrow>
     (\<forall>repo i. bt_get (ms_active st) repo = Some i \<longrightarrow>
        (\<exists>b. bt_get (ms_builds st) i = Some b \<and> gb_repo b = repo))
   \<and> (\<forall>i b. bt_get (ms_builds st) i = Some b \<longrightarrow>
        (\<forall>r \<in> set (bt_values (gb_edges b)).
           bt_contains (gb_nodes b) (rel_from r) \<and> bt_contains (gb_nodes b) (rel_to r)
         \<and> bt_contains (ms_sealed st) (i, rel_id r)))
   \<and> (\<forall>i r. bt_contains (ms_sealed st) (i, r) \<longrightarrow>
        (\<exists>b. bt_get (ms_builds st) i = Some b \<and> (\<exists>e \<in> set (bt_values (gb_edges b)). rel_id e = r)))"

definition store_inv :: "memory_store \<Rightarrow> bool" where
  "store_inv st \<longleftrightarrow> tables_ok st \<and> staged_ok st \<and> published_ok st"

lemma store_inv_new: "store_inv memory_store_new"
  by (simp add: store_inv_def tables_ok_def staged_ok_def published_ok_def memory_store_new_def)

lemma inv_ensure_snapshot_files:
  "store_inv st \<Longrightarrow> store_inv (fst (ensure_snapshot_files st snap fs))"
proof (induction st snap fs rule: ensure_snapshot_files.induct)
  case (2 st snap f fs)
  have "store_inv (st\<lparr>ms_files := bt_insert (snap, sf_path f) (sf_sha256 f, sf_bytes f) (ms_files st)\<rparr>)"
    using 2(2) by (auto simp: store_inv_def tables_ok_def staged_ok_def published_ok_def bt_ok_insert)
  with 2 show ?case by simp
qed simp

lemma inv_put_decision: "store_inv st \<Longrightarrow> store_inv (fst (put_decision st d))"
  by (auto simp: put_decision_def store_inv_def tables_ok_def staged_ok_def published_ok_def
      Let_def keyed_insert)

lemma inv_put_inference: "store_inv st \<Longrightarrow> store_inv (fst (put_inference st rec))"
  by (auto simp: put_inference_def store_inv_def tables_ok_def staged_ok_def published_ok_def
      keyed_or_insert)

lemma inv_put_evidence: "store_inv st \<Longrightarrow> store_inv (fst (put_evidence st e))"
  by (auto simp: put_evidence_def store_inv_def tables_ok_def staged_ok_def published_ok_def
      keyed_or_insert split: if_splits option.splits)

lemma first_missing_None: "first_missing m is = None \<longleftrightarrow> (\<forall>i \<in> set is. bt_contains m i)"
  by (induction "is") auto

lemma validate_claim_ok_iff:
  "validate_claim st c = Inr () \<longleftrightarrow>
     (\<forall>i \<in> set (cl_supporting c @ cl_contradicting c). bt_contains (ms_evidence st) i)"
  unfolding validate_claim_def first_missing_None [symmetric] by (simp split: option.split)

lemma inv_put_claim: "store_inv st \<Longrightarrow> store_inv (fst (put_claim st c))"
proof (cases "validate_claim st c")
  case (Inr u)
  assume inv: "store_inv st"
  from Inr have "\<forall>i \<in> set (cl_supporting c @ cl_contradicting c). bt_contains (ms_evidence st) i"
    using validate_claim_ok_iff by simp
  with inv Inr show ?thesis
    by (auto simp: put_claim_def store_inv_def tables_ok_def staged_ok_def published_ok_def
        keyed_or_insert split: if_splits option.splits)
qed (simp add: put_claim_def)

lemma inv_ensure_run: "store_inv st \<Longrightarrow> store_inv (fst (ensure_run st run repo snap s d rub))"
  by (auto simp: ensure_run_def store_inv_def tables_ok_def staged_ok_def published_ok_def Let_def
      bt_ok_insert bt_ok_or_insert split: option.splits if_splits)

lemma inv_put_candidate: "store_inv st \<Longrightarrow> store_inv (fst (put_candidate st s c))"
  by (auto simp: put_candidate_def store_inv_def tables_ok_def staged_ok_def published_ok_def
      keyed_or_insert split: if_splits option.splits)

lemma inv_publish:
  assumes "store_inv st"
  shows "store_inv (fst (publish chunks st b e))"
proof (cases "publish chunks st b e")
  case (Pair t r)
  show ?thesis
  proof (cases r)
    case (Inl er)
    with Pair publish_refused assms show ?thesis by fastforce
  next
    case (Inr u)
    with Pair have "publish chunks st b e = (t, Inr ())" by simp
    then obtain cl where cl: "evidence_closure chunks st b = Inr cl"
      and new: "\<not> bt_contains (ms_builds st) (gb_id b)"
      and edges: "edge_outside b (bt_values (gb_edges b)) = None"
      and t: "t = st\<lparr>ms_sealed := bt_extend (ms_sealed st) cl,
                ms_active := bt_insert (gb_repo b) (gb_id b) (ms_active st),
                ms_builds := bt_insert (gb_id b) b (ms_builds st)\<rparr>"
      by (rule publish_accepted)
    have "tables_ok t" and "staged_ok t"
      using assms unfolding t
      by (auto simp: store_inv_def tables_ok_def staged_ok_def keyed_insert bt_ok_insert bt_ok_extend)
    moreover have pub: "published_ok st" using assms by (simp add: store_inv_def)
    have seals: "bt_contains (ms_sealed t) (i, q) \<longleftrightarrow> bt_contains (ms_sealed st) (i, q)
        \<or> (i = gb_id b \<and> (\<exists>e \<in> set (bt_values (gb_edges b)). rel_id e = q))" for i q
      using evidence_closure_contains [OF cl, of i q]
      by (simp add: t bt_contains_extend bt_contains_keys [of cl])
    have "published_ok t"
      unfolding published_ok_def
    proof (intro conjI allI impI)
      fix repo i assume "bt_get (ms_active t) repo = Some i"
      moreover have "\<exists>g. bt_get (ms_builds st) i = Some g \<and> gb_repo g = repo \<and> i \<noteq> gb_id b"
        if "bt_get (ms_active st) repo = Some i"
      proof -
        from pub that have "\<exists>g. bt_get (ms_builds st) i = Some g \<and> gb_repo g = repo"
          by (simp add: published_ok_def)
        with new show ?thesis by (auto simp: bt_contains_def)
      qed
      ultimately show "\<exists>g. bt_get (ms_builds t) i = Some g \<and> gb_repo g = repo"
        by (auto simp: t split: if_splits)
    next
      fix i g assume "bt_get (ms_builds t) i = Some g"
      then show "\<forall>r \<in> set (bt_values (gb_edges g)). bt_contains (gb_nodes g) (rel_from r)
          \<and> bt_contains (gb_nodes g) (rel_to r) \<and> bt_contains (ms_sealed t) (i, rel_id r)"
        using pub edges unfolding published_ok_def seals edge_outside_None
        by (auto simp: t split: if_splits)
    next
      fix i q assume "bt_contains (ms_sealed t) (i, q)"
      moreover have "i \<noteq> gb_id b \<and> (\<exists>g. bt_get (ms_builds st) i = Some g
          \<and> (\<exists>e \<in> set (bt_values (gb_edges g)). rel_id e = q))"
        if "bt_contains (ms_sealed st) (i, q)"
      proof -
        from pub that have "\<exists>g. bt_get (ms_builds st) i = Some g
          \<and> (\<exists>e \<in> set (bt_values (gb_edges g)). rel_id e = q)" by (simp add: published_ok_def)
        with new show ?thesis by (auto simp: bt_contains_def)
      qed
      ultimately show "\<exists>g. bt_get (ms_builds t) i = Some g
          \<and> (\<exists>e \<in> set (bt_values (gb_edges g)). rel_id e = q)"
        unfolding seals by (auto simp: t)
    qed
    ultimately show ?thesis using Pair by (simp add: store_inv_def)
  qed
qed

section \<open>Histories\<close>

datatype store_op =
    EnsureFiles string "snapshot_file list"
  | EnsureRun string string string string string string
  | PutCandidate string candidate
  | PutEntity entity
  | PutRelation relation string
  | PutDecision decision
  | PutInference inference_record
  | PutEvidence evidence
  | PutClaim claim
  | Publish graph_build "string option"

fun store_call ::
  "(evidence_row list \<Rightarrow> string list) \<Rightarrow> memory_store \<Rightarrow> store_op \<Rightarrow> (memory_store, store_error, unit) outcome" where
  "store_call chunks st (EnsureFiles snap fs) = ensure_snapshot_files st snap fs"
| "store_call chunks st (EnsureRun run repo snap s d r) = ensure_run st run repo snap s d r"
| "store_call chunks st (PutCandidate s c) = put_candidate st s c"
| "store_call chunks st (PutEntity e) = put_entity st e"
| "store_call chunks st (PutRelation r b) = put_relation st r b"
| "store_call chunks st (PutDecision d) = put_decision st d"
| "store_call chunks st (PutInference r) = put_inference st r"
| "store_call chunks st (PutEvidence e) = put_evidence st e"
| "store_call chunks st (PutClaim c) = put_claim st c"
| "store_call chunks st (Publish b e) = publish chunks st b e"

definition store_step ::
  "(evidence_row list \<Rightarrow> string list) \<Rightarrow> memory_store \<Rightarrow> store_op \<Rightarrow> memory_store" where
  "store_step chunks st op = fst (store_call chunks st op)"

lemma inv_store_step: "store_inv st \<Longrightarrow> store_inv (store_step chunks st op)"
  by (cases op) (simp_all add: store_step_def inv_ensure_snapshot_files inv_ensure_run
      inv_put_candidate inv_put_decision inv_put_inference inv_put_evidence inv_put_claim
      inv_publish put_entity_def put_relation_def)

text \<open>What the staging operations leave alone.\<close>

lemma ensure_snapshot_files_frame:
  "\<exists>fs'. fst (ensure_snapshot_files st snap fs) = st\<lparr>ms_files := fs'\<rparr>"
proof (induction st snap fs rule: ensure_snapshot_files.induct)
  case (1 st snap)
  show ?case by (simp, intro exI [of _ "ms_files st"]) simp
next
  case (2 st snap f fs)
  then show ?case by (cases "sf_snapshot f = snap") (auto intro: exI [of _ "ms_files st"])
qed

lemma publish_cases [consumes 0, case_names refused accepted]:
  obtains (refused) er where "publish chunks st b e = (st, Inl er)"
  | (accepted) cl where "evidence_closure chunks st b = Inr cl"
      and "\<not> bt_contains (ms_builds st) (gb_id b)"
      and "publish chunks st b e = (st\<lparr>ms_sealed := bt_extend (ms_sealed st) cl,
                ms_active := bt_insert (gb_repo b) (gb_id b) (ms_active st),
                ms_builds := bt_insert (gb_id b) b (ms_builds st)\<rparr>, Inr ())"
proof (cases "publish chunks st b e")
  case (Pair t r)
  show thesis
  proof (cases r)
    case (Inl er)
    with Pair publish_refused have "publish chunks st b e = (st, Inl er)" by fastforce
    then show thesis by (rule refused)
  next
    case (Inr u)
    with Pair have p: "publish chunks st b e = (t, Inr ())" by simp
    then obtain cl where cl: "evidence_closure chunks st b = Inr cl"
      and new: "\<not> bt_contains (ms_builds st) (gb_id b)"
      and t: "t = st\<lparr>ms_sealed := bt_extend (ms_sealed st) cl,
                ms_active := bt_insert (gb_repo b) (gb_id b) (ms_active st),
                ms_builds := bt_insert (gb_id b) b (ms_builds st)\<rparr>"
      by (rule publish_accepted)
    from cl new p [unfolded t] show thesis by (rule accepted)
  qed
qed

lemma store_step_builds:
  "bt_get (ms_builds st) k = Some v \<Longrightarrow> bt_get (ms_builds (store_step chunks st op)) k = Some v"
proof (cases op)
  case (EnsureFiles snap fs)
  assume "bt_get (ms_builds st) k = Some v"
  with EnsureFiles ensure_snapshot_files_frame [of st snap fs] show ?thesis
    by (auto simp: store_step_def)
next
  case (Publish b e)
  assume k: "bt_get (ms_builds st) k = Some v"
  show ?thesis
    by (cases rule: publish_cases [of chunks st b e])
      (use k Publish in \<open>auto simp: store_step_def bt_contains_def\<close>)
qed (auto simp: store_step_def put_decision_def put_inference_def put_evidence_def put_claim_def
  ensure_run_def put_candidate_def put_entity_def put_relation_def Let_def split: option.splits sum.splits)

lemma store_step_sealed:
  assumes "store_inv st" and "bt_get (ms_sealed st) k = Some v"
  shows "bt_get (ms_sealed (store_step chunks st op)) k = Some v"
proof (cases op)
  case (EnsureFiles snap fs)
  with assms ensure_snapshot_files_frame [of st snap fs] show ?thesis
    by (auto simp: store_step_def)
next
  case (Publish b e)
  obtain i r where k: "k = (i, r)" by (cases k)
  have built: "bt_contains (ms_builds st) i"
    using assms unfolding k store_inv_def published_ok_def bt_contains_def by blast
  show ?thesis
  proof (cases rule: publish_cases [of chunks st b e])
    case (accepted cl)
    have "i \<noteq> gb_id b" using built accepted(2) by auto
    then have "bt_get cl k = None"
      using evidence_closure_contains [OF accepted(1), of i r] k by (simp add: bt_contains_def)
    with accepted Publish assms(2) show ?thesis
      by (simp add: store_step_def bt_get_extend_ok [OF evidence_closure_sorted [OF accepted(1)]])
  qed (use Publish assms(2) in \<open>simp add: store_step_def\<close>)
qed (use assms(2) in \<open>auto simp: store_step_def put_decision_def put_inference_def put_evidence_def
  put_claim_def ensure_run_def put_candidate_def put_entity_def put_relation_def Let_def
  split: option.splits sum.splits\<close>)

lemma store_step_evidence:
  "bt_get (ms_evidence st) k = Some v \<Longrightarrow> bt_get (ms_evidence (store_step chunks st op)) k = Some v"
proof (cases op)
  case (EnsureFiles snap fs)
  assume "bt_get (ms_evidence st) k = Some v"
  with EnsureFiles ensure_snapshot_files_frame [of st snap fs] show ?thesis
    by (auto simp: store_step_def)
next
  case (Publish b e)
  assume k: "bt_get (ms_evidence st) k = Some v"
  show ?thesis
    by (cases rule: publish_cases [of chunks st b e])
      (use k Publish in \<open>auto simp: store_step_def\<close>)
qed (auto simp: store_step_def put_decision_def put_inference_def put_evidence_def put_claim_def
  ensure_run_def put_candidate_def put_entity_def put_relation_def Let_def bt_or_insert_keeps
  split: option.splits sum.splits)

text \<open>The staged rows that are written once: claims, inferences, candidates, sets, runs.\<close>

definition extends :: "'a option \<Rightarrow> 'a option \<Rightarrow> bool" where
  "extends x y \<longleftrightarrow> (case x of None \<Rightarrow> True | Some v \<Rightarrow> y = Some v)"

lemma extends_None [simp]: "extends None y" and extends_refl [simp]: "extends x x" and extends_or_insert [simp]:
  "extends (bt_get m k) (bt_get (bt_or_insert k' v m) k)"
  by (simp_all add: extends_def split: option.split)

lemma store_step_staging:
  "extends (bt_get (ms_claims st) k) (bt_get (ms_claims (store_step chunks st op)) k)
   \<and> extends (bt_get (ms_inferences st) k) (bt_get (ms_inferences (store_step chunks st op)) k)
   \<and> extends (bt_get (ms_candidates st) k) (bt_get (ms_candidates (store_step chunks st op)) k)
   \<and> extends (bt_get (ms_sets st) k) (bt_get (ms_sets (store_step chunks st op)) k)
   \<and> extends (bt_get (ms_runs st) k) (bt_get (ms_runs (store_step chunks st op)) k)"
proof (cases op)
  case (EnsureFiles snap fs)
  with ensure_snapshot_files_frame [of st snap fs] show ?thesis by (auto simp: store_step_def)
next
  case (EnsureRun run repo snap s d r)
  then show ?thesis
    by (auto simp: store_step_def ensure_run_def Let_def extends_def split: option.splits)
next
  case (Publish b e)
  show ?thesis
    by (cases rule: publish_cases [of chunks st b e]) (use Publish in \<open>auto simp: store_step_def\<close>)
qed (auto simp: store_step_def put_decision_def put_inference_def put_evidence_def put_claim_def
  put_candidate_def put_entity_def put_relation_def Let_def split: option.splits sum.splits)

lemma extends_Some: "extends x y \<Longrightarrow> x = Some v \<Longrightarrow> y = Some v"
  by (simp add: extends_def)

lemmas claims_kept = store_step_staging [THEN conjunct1]
lemmas inferences_kept = store_step_staging [THEN conjunct2, THEN conjunct1]
lemmas candidates_kept = store_step_staging [THEN conjunct2, THEN conjunct2, THEN conjunct1]
lemmas sets_kept = store_step_staging [THEN conjunct2, THEN conjunct2, THEN conjunct2, THEN conjunct1]

interpretation claims_once: write_once store_inv "\<lambda>st. bt_get (ms_claims st)" "store_step chunks"
  for chunks
  by unfold_locales (rule inv_store_step, assumption, erule extends_Some [OF claims_kept])

interpretation inferences_once: write_once store_inv "\<lambda>st. bt_get (ms_inferences st)" "store_step chunks"
  for chunks
  by unfold_locales (rule inv_store_step, assumption, erule extends_Some [OF inferences_kept])

interpretation candidates_once: write_once store_inv "\<lambda>st. bt_get (ms_candidates st)" "store_step chunks"
  for chunks
  by unfold_locales (rule inv_store_step, assumption, erule extends_Some [OF candidates_kept])

interpretation sets_once: write_once store_inv "\<lambda>st. bt_get (ms_sets st)" "store_step chunks"
  for chunks
  by unfold_locales (rule inv_store_step, assumption, erule extends_Some [OF sets_kept])

interpretation builds_once: write_once store_inv "\<lambda>st. bt_get (ms_builds st)" "store_step chunks"
  for chunks
  by unfold_locales (rule inv_store_step, assumption, rule store_step_builds)

interpretation sealed_once: write_once store_inv "\<lambda>st. bt_get (ms_sealed st)" "store_step chunks"
  for chunks
  by unfold_locales (rule inv_store_step, assumption, rule store_step_sealed)

interpretation evidence_once: write_once store_inv "\<lambda>st. bt_get (ms_evidence st)" "store_step chunks"
  for chunks
  by unfold_locales (rule inv_store_step, assumption, rule store_step_evidence)

lemma active_built:
  assumes "store_inv st" and "bt_get (ms_active st) repo = Some i"
  obtains g where "bt_get (ms_builds st) i = Some g" and "gb_id g = i" and "gb_repo g = repo"
proof -
  have "\<exists>g. bt_get (ms_builds st) i = Some g \<and> gb_repo g = repo"
    using assms by (simp add: store_inv_def published_ok_def)
  with assms(1) that show thesis by (auto simp: store_inv_def tables_ok_def keyed_def)
qed

text \<open>The pointer of a repository, as a compare-and-swap cell.\<close>

lemma predecessor_ok:
  assumes "store_inv st" and "predecessor_refused st b e = None"
  shows "bt_get (ms_active st) (gb_repo b) = e"
    and "active_of st (gb_repo b) = Some cur \<Longrightarrow> gb_generation cur < gb_generation b"
  using assms
  by (auto simp: predecessor_refused_def active_of_def get_build_def store_inv_def tables_ok_def
      keyed_def not_le split: option.splits if_splits)

interpretation active_cell: cas_pointer store_inv "\<lambda>st. bt_get (ms_active st)" gb_repo gb_id "publish chunks"
  for chunks
proof
  fix s q e t err k r
  assume inv: "store_inv s"
  show "store_inv (fst (publish chunks s q e))" by (rule inv_publish [OF inv])
  show "bt_get (ms_active t) k = bt_get (ms_active s) k" if "publish chunks s q e = (t, Inl err)"
    using publish_refused [OF that] by simp
  show "bt_get (ms_active t) (gb_repo q) = Some (gb_id q)
      \<and> (bt_get (ms_active s) (gb_repo q) = e \<or> bt_get (ms_active s) (gb_repo q) = Some (gb_id q))"
    if "publish chunks s q e = (t, Inr ())"
    using that by (rule publish_accepted) (use predecessor_ok [OF inv] in auto)
  show "bt_get (ms_active t) k = bt_get (ms_active s) k"
    if "publish chunks s q e = (t, r)" and "k \<noteq> gb_repo q"
    by (cases rule: publish_cases [of chunks s q e]) (use that in auto)
qed

end
