(* ===== verification/Store_Properties.thy ===== *)
theory Store_Properties
  imports Store_Invariants
begin

text \<open>
  The guarantees of the in-memory store over its histories: what \<open>Store_Invariants\<close>
  proves per operation, stated for arbitrary sequences of calls from the empty store, and
  the exact contents of a publication's sealed evidence and identity.
\<close>

section \<open>Histories\<close>

abbreviation run_store ::
  "(evidence_row list \<Rightarrow> string list) \<Rightarrow> store_op list \<Rightarrow> memory_store" where
  "run_store chunks ops \<equiv> foldl (store_step chunks) memory_store_new ops"

lemma run_store_inv: "store_inv (run_store chunks ops)"
  by (rule builds_once.inv_run [OF store_inv_new])

text \<open>
  C14. Whatever calls the store receives, refused ones included: every row is stored under
  its own id, staged evidence points to a registered file version, claims to recorded
  evidence, candidates to a registered set, the active pointer of a repository to a
  published build of that repository, and the sealed evidence is exactly there for the
  edges of published builds.
\<close>

theorem store_reachable_inv:
  fixes chunks ops
  defines "st \<equiv> run_store chunks ops"
  shows "tables_ok st \<and> staged_ok st \<and> published_ok st"
  using run_store_inv [of chunks ops] by (simp add: st_def store_inv_def)

text \<open>
  C9. A published build is immutable and so is its evidence: after any further calls the
  build is read back unchanged, and for each of its edges the sealed evidence is there and
  is the one read before.
\<close>

theorem published_build_immutable:
  assumes "get_build (run_store chunks ops) i = Some b"
  shows "get_build (run_store chunks (ops @ later)) i = Some b
    \<and> (\<forall>r \<in> set (bt_values (gb_edges b)). \<exists>rows.
         sealed_evidence (run_store chunks ops) i (rel_id r) = Inr rows
       \<and> sealed_evidence (run_store chunks (ops @ later)) i (rel_id r) = Inr rows)"
proof -
  let ?s = "run_store chunks ops"
  have inv: "store_inv ?s" by (rule run_store_inv)
  have "\<exists>rows. bt_get (ms_sealed ?s) (i, rel_id r) = Some rows" if "r \<in> set (bt_values (gb_edges b))" for r
    using inv assms that
    by (auto simp: get_build_def store_inv_def published_ok_def bt_contains_iff_Some)
  then show ?thesis
    using builds_once.row_run [OF inv, of i b chunks later] sealed_once.row_run [OF inv, of _ _ chunks later]
      assms by (fastforce simp: get_build_def sealed_evidence_def)
qed

text \<open>
  C10. Publication never loses an update: once a build has replaced the expected
  predecessor, a second writer that expects the same predecessor is refused, whatever it
  publishes for that repository.
\<close>

theorem publish_no_lost_update:
  assumes "store_inv st" and "publish chunks st b e = (t, Inr ())" and "gb_repo b' = gb_repo b"
  shows "isl (snd (publish chunks t b' e))"
proof (cases "gb_id b' = gb_id b")
  case True
  have "bt_contains (ms_builds t) (gb_id b')"
    using assms(2) by (rule publish_accepted) (simp add: True)
  then show ?thesis
    by (simp add: publish_def seal_build_def split: option.split)
next
  case False
  have "\<not> bt_contains (ms_builds st) (gb_id b)" and "predecessor_refused st b e = None"
    by (rule publish_accepted [OF assms(2)], simp)+
  then have "e \<noteq> Some (gb_id b)"
    using predecessor_ok(1) [OF assms(1)] active_built [OF assms(1)]
    by (metis bt_contains_iff_Some)
  with active_cell.no_lost_update [OF assms(1,2,3) False] show ?thesis .
qed

text \<open>
  C11. A refused publication changes nothing at all; an accepted one makes the build the
  active build of its repository, with a generation above that of the build it replaces,
  leaves every other repository's active build alone and records no staging data.
\<close>

theorem publish_transition:
  assumes "store_inv st" and "publish chunks st b e = (t, r)"
  shows "(isl r \<longrightarrow> t = st)
    \<and> (is_ok r \<longrightarrow> active_of t (gb_repo b) = Some b
        \<and> map_option gb_id (active_of st (gb_repo b)) = e
        \<and> (\<forall>cur. active_of st (gb_repo b) = Some cur \<longrightarrow> gb_generation cur < gb_generation b)
        \<and> (\<forall>repo. repo \<noteq> gb_repo b \<longrightarrow> active_of t repo = active_of st repo)
        \<and> ms_evidence t = ms_evidence st \<and> ms_claims t = ms_claims st \<and> ms_files t = ms_files st)"
proof (cases r)
  case (Inl er)
  with assms(2) publish_refused show ?thesis by auto
next
  case (Inr u)
  with assms(2) have p: "publish chunks st b e = (t, Inr ())" by simp
  then obtain cl where new: "\<not> bt_contains (ms_builds st) (gb_id b)"
    and pre: "predecessor_refused st b e = None"
    and t: "t = st\<lparr>ms_sealed := bt_extend (ms_sealed st) cl,
                ms_active := bt_insert (gb_repo b) (gb_id b) (ms_active st),
                ms_builds := bt_insert (gb_id b) b (ms_builds st)\<rparr>"
    by (rule publish_accepted)
  have cur: "map_option gb_id (active_of st (gb_repo b)) = e"
  proof (cases "bt_get (ms_active st) (gb_repo b)")
    case (Some i)
    with assms(1) obtain g where "bt_get (ms_builds st) i = Some g" "gb_id g = i"
      by (rule active_built)
    with Some predecessor_ok(1) [OF assms(1) pre] show ?thesis
      by (simp add: active_of_def get_build_def)
  qed (use predecessor_ok(1) [OF assms(1) pre] in \<open>simp add: active_of_def\<close>)
  have other: "active_of t repo = active_of st repo" if "repo \<noteq> gb_repo b" for repo
  proof (cases "bt_get (ms_active st) repo")
    case (Some i)
    then have "bt_contains (ms_builds st) i"
      using active_built [OF assms(1)] by (metis bt_contains_iff_Some)
    with new have "i \<noteq> gb_id b" by auto
    with that Some show ?thesis by (simp add: t active_of_def get_build_def)
  qed (use that in \<open>simp add: t active_of_def\<close>)
  show ?thesis
    using Inr cur other predecessor_ok(2) [OF assms(1) pre] by (simp add: t active_of_def get_build_def)
qed

section \<open>Coverage counts\<close>

lemma filter_disjoint_length:
  "\<forall>x \<in> set xs. \<not> (P x \<and> Q x) \<Longrightarrow> length (filter P xs) + length (filter Q xs) \<le> length xs"
  by (induction xs) auto

lemma backed_disjoint: "\<not> (backed st EC_Extracted None e \<and> backed st EC_Inferred None e)"
proof
  assume both: "backed st EC_Extracted None e \<and> backed st EC_Inferred None e"
  then obtain i where "i \<in> set (rel_evidence_ids e)" by (cases "rel_evidence_ids e") (auto simp: backed_def)
  with both show False by (fastforce simp: backed_def split: option.splits)
qed

lemma unat_of_nat_small: "n < 2 ^ 64 \<Longrightarrow> unat (of_nat n :: usize) = n"
  by (simp add: unat_of_nat take_bit_nat_eq_self)

text \<open>
  C13. An accepted publication cannot overstate its coverage: the stored counters are the
  numbers of edges that are producer-backed extracted facts, producer-backed inferred
  resolutions, and the rest. The three add up to the number of edges (so the subtraction
  for the decision-backed ones never wraps below zero), and the per-file fact counts sum
  to the structural counter.
\<close>

theorem published_coverage_true:
  assumes "publish chunks st b e = (t, Inr ())" and "gb_coverage b = Some cov"
    and "length (gb_edges b) < 2 ^ 64"
  defines "n cls \<equiv> length (filter (backed st cls None) (bt_values (gb_edges b)))"
  shows "unat (bc_resolved_relations cov) = n EC_Inferred
    \<and> unat (bc_decision_relations cov) + n EC_Extracted + n EC_Inferred = length (gb_edges b)
    \<and> bc_structural_relations cov + (case bc_compiler cov of None \<Rightarrow> 0 | Some c \<Rightarrow> compiler_relations c)
        + (case bc_catalog cov of None \<Rightarrow> 0 | Some c \<Rightarrow> cat_relations c) = of_nat (n EC_Extracted)
    \<and> sum_list (map fc_facts (bc_files cov)) = bc_structural_relations cov"
proof -
  have agree: "\<not> coverage_disagrees st b cov"
    using assms(1,2) by (auto elim: publish_accepted)
  have le: "n EC_Extracted + n EC_Inferred \<le> length (gb_edges b)"
    using filter_disjoint_length [of "bt_values (gb_edges b)" "backed st EC_Extracted None"
      "backed st EC_Inferred None"] backed_disjoint by (simp add: n_def bt_values_def)
  have counts: "direct st b cls None = of_nat (n cls)" for cls by (simp add: direct_def n_def)
  have "of_nat (length (gb_edges b)) - of_nat (n EC_Extracted) - of_nat (n EC_Inferred)
      = (of_nat (length (gb_edges b) - n EC_Extracted - n EC_Inferred) :: usize)"
    using le by (simp add: of_nat_diff)
  with agree have dec: "bc_decision_relations cov
      = of_nat (length (gb_edges b) - n EC_Extracted - n EC_Inferred)"
    by (simp add: coverage_disagrees_def Let_def counts)
  have "unat (bc_decision_relations cov) = length (gb_edges b) - n EC_Extracted - n EC_Inferred"
    unfolding dec using assms(3) by (intro unat_of_nat_small) simp
  moreover have "unat (bc_resolved_relations cov) = n EC_Inferred"
    using agree le assms(3) by (simp add: coverage_disagrees_def Let_def counts unat_of_nat_small)
  ultimately show ?thesis
    using agree le by (simp add: coverage_disagrees_def Let_def counts)
qed

section \<open>Staged rows\<close>

text \<open>
  The first write wins for evidence, claims, inferences, candidates and candidate sets:
  whatever is put later under the same key, by the same or another call, the row first
  recorded is the one read for the rest of the history.
\<close>

theorem first_write_wins:
  fixes chunks ops later
  defines "s \<equiv> run_store chunks ops" and "t \<equiv> run_store chunks (ops @ later)"
  shows "(\<forall>k e. bt_get (ms_evidence s) k = Some e \<longrightarrow> bt_get (ms_evidence t) k = Some e)
    \<and> (\<forall>k c. bt_get (ms_claims s) k = Some c \<longrightarrow> bt_get (ms_claims t) k = Some c)
    \<and> (\<forall>k r. find_inference s k = Some r \<longrightarrow> find_inference t k = Some r)
    \<and> (\<forall>k c. bt_get (ms_candidates s) k = Some c \<longrightarrow> bt_get (ms_candidates t) k = Some c)
    \<and> (\<forall>k x. bt_get (ms_sets s) k = Some x \<longrightarrow> bt_get (ms_sets t) k = Some x)"
proof -
  have inv: "store_inv s" and t: "t = foldl (store_step chunks) s later"
    by (simp_all add: s_def t_def run_store_inv)
  show ?thesis
    unfolding t find_inference_def
    by (intro conjI allI impI evidence_once.row_run [OF inv] claims_once.row_run [OF inv]
        inferences_once.row_run [OF inv] candidates_once.row_run [OF inv] sets_once.row_run [OF inv])
qed

text \<open>
  Recording a decision replaces the one for the same candidate and question exactly when
  there is none, when its inputs changed (another cache key) or when the recorded one had
  failed; a successful decision under the same cache key is never overwritten, no other
  decision is touched, and recording the same decision again changes nothing that is read.
\<close>

theorem put_decision_policy:
  fixes st d
  defines "t \<equiv> fst (put_decision st d)"
    and "k \<equiv> decision_key (dec_candidate_id d) (dec_question_id d)"
  shows "find_decision t (dec_candidate_id d) (dec_question_id d) =
      (case find_decision st (dec_candidate_id d) (dec_question_id d) of
         None \<Rightarrow> Some d
       | Some old \<Rightarrow> if dec_cache_key old = dec_cache_key d \<and> \<not> is_failed (dec_outcome old)
           then Some old else Some d)
    \<and> (\<forall>c q. decision_key c q \<noteq> k \<longrightarrow> find_decision t c q = find_decision st c q)
    \<and> (\<forall>c q. find_decision (fst (put_decision t d)) c q = find_decision t c q)
    \<and> snd (put_decision st d) = Inr ()"
  unfolding t_def k_def find_decision_def put_decision_def Let_def
  by (auto split: option.splits)

text \<open>
  Registering a run and its candidate set: the call is accepted exactly when the set is
  new or was registered for the same run, catalog and rubric; an accepted call leaves the
  set registered with these inputs, a refused one leaves the set as it was, and either way
  the run is registered afterwards with the repository and snapshot of its first
  registration.
\<close>

theorem ensure_run_guard:
  fixes st run repo snap set_id digest rubric
  defines "out \<equiv> ensure_run st run repo snap set_id digest rubric"
  shows "(is_ok (snd out) \<longleftrightarrow> bt_get (ms_sets st) set_id \<in> {None, Some (run, digest, rubric)})
    \<and> bt_get (ms_sets (fst out)) set_id =
        (if is_ok (snd out) then Some (run, digest, rubric) else bt_get (ms_sets st) set_id)
    \<and> bt_get (ms_runs (fst out)) run =
        Some (case bt_get (ms_runs st) run of None \<Rightarrow> (repo, snap) | Some first \<Rightarrow> first)"
  unfolding out_def ensure_run_def Let_def
  by (auto split: option.splits)

end
