(* ===== verification/Publication_Evidence.thy ===== *)
theory Publication_Evidence
  imports Store_Properties
begin

text \<open>
  What a publication seals: for every edge exactly the evidence the edge and the claims
  about it name, in id order, within the row and byte limits; and the identity of a
  publication (\<^verbatim>\<open>publication_digest\<close> in \<^verbatim>\<open>sealed_evidence.rs\<close>), computed while streaming,
  which is the framed digest of the canonical pair of build and evidence map.
\<close>

section \<open>The rows of one edge\<close>

lemma claims_of_filter:
  "claims_of (claims_by_relation st) rel = filter (\<lambda>c. cl_relation_id c = rel) (bt_values (ms_claims st))"
proof -
  have "claims_of (foldl (\<lambda>m c. bt_alter (cl_relation_id c) [] (\<lambda>cs. cs @ [c]) m) m cs) rel
      = claims_of m rel @ filter (\<lambda>c. cl_relation_id c = rel) cs" for m cs
    by (induction cs arbitrary: m) (auto simp: claims_of_def split: option.splits)
  then show ?thesis by (simp add: claims_by_relation_def claims_of_def)
qed

lemma collect_ids_Inr:
  "collect_ids st cs ids = Inr out \<Longrightarrow>
     set out = set ids \<union> (\<Union>c \<in> set cs. set (cl_supporting c @ cl_contradicting c))
   \<and> (bs_ok ids \<longrightarrow> bs_ok out)"
proof (induction cs arbitrary: ids)
  case (Cons c cs)
  then have "collect_ids st cs (bs_extend ids (cl_supporting c @ cl_contradicting c)) = Inr out"
    by (auto split: sum.splits)
  from Cons.IH [OF this] show ?case by (auto simp: bs_ok_extend)
qed simp

text \<open>The row a stored evidence id is sealed as.\<close>

definition cites :: "memory_store \<Rightarrow> string \<Rightarrow> evidence_row \<Rightarrow> bool" where
  "cites st i row \<longleftrightarrow> (\<exists>e sha n. bt_get (ms_evidence st) i = Some e
     \<and> bt_get (ms_files st) (ev_snapshot e, ev_source_file_version e) = Some (sha, n)
     \<and> row = evidence_row_of e sha)"

lemma rows_of_ids_Inr: "rows_of_ids st is = Inr rows \<Longrightarrow> list_all2 (cites st) is rows"
  by (induction "is" arbitrary: rows) (auto simp: cites_def split: option.splits sum.splits)

definition named_evidence :: "memory_store \<Rightarrow> relation \<Rightarrow> string set" where
  "named_evidence st r = set (rel_evidence_ids r)
     \<union> (\<Union>c \<in> {c \<in> set (bt_values (ms_claims st)). cl_relation_id c = rel_id r}.
          set (cl_supporting c @ cl_contradicting c))"

lemma edge_rows_Inr:
  assumes "edge_rows chunks st r = Inr rows"
  obtains ids where "set ids = named_evidence st r" and "bs_ok ids" and "length ids \<le> 1000"
    and "list_all2 (cites st) ids rows" and "length (concat (chunks rows)) \<le> SEALED_EVIDENCE_BYTES_MAX"
proof -
  obtain ids where ids: "collect_ids st (claims_of (claims_by_relation st) (rel_id r))
      (bs_of (rel_evidence_ids r)) = Inr ids" "length ids \<le> 1000" "rows_of_ids st ids = Inr rows"
    and bytes: "counter_write_all 0 (chunks rows) \<noteq> None"
    using assms by (auto simp: evidence_rows_def split: sum.splits if_splits option.splits)
  from collect_ids_Inr [OF ids(1)] have "set ids = named_evidence st r" and "bs_ok ids"
    by (simp_all add: named_evidence_def claims_of_filter bs_ok_extend)
  moreover from bytes have "length (concat (chunks rows)) \<le> SEALED_EVIDENCE_BYTES_MAX"
    by (simp add: counter_write_all_iff split: if_splits)
  ultimately show thesis using that ids(2) rows_of_ids_Inr [OF ids(3)] by blast
qed

lemma cites_ids:
  "keyed (ms_evidence st) ev_id \<Longrightarrow> list_all2 (cites st) is rows \<Longrightarrow> map evr_evidence_id rows = is"
  by (induction "is" arbitrary: rows)
    (auto simp: cites_def keyed_def evidence_row_of_def list_all2_Cons1)

text \<open>
  C12. An accepted publication seals complete evidence: every edge of the build is sealed
  with one row per evidence id that the edge itself or a recorded claim about it names,
  supporting or contradicting, no other rows, in ascending id order; each row cites the
  registered content hash of its file version; there are at most 1000 rows, and they
  serialize to at most one MiB.
\<close>

theorem sealed_evidence_complete:
  assumes "store_inv st" and "publish chunks st b e = (t, Inr ())"
    and "keyed (gb_edges b) rel_id" and "r \<in> set (bt_values (gb_edges b))"
  shows "\<exists>rows. sealed_evidence t (gb_id b) (rel_id r) = Inr rows
    \<and> set (map evr_evidence_id rows) = named_evidence st r
    \<and> sorted_wrt (<) (map evr_evidence_id rows)
    \<and> list_all2 (cites st) (map evr_evidence_id rows) rows
    \<and> length rows \<le> 1000 \<and> length (concat (chunks rows)) \<le> 1048576"
proof -
  obtain cl where cl: "evidence_closure chunks st b = Inr cl"
    and t: "t = st\<lparr>ms_sealed := bt_extend (ms_sealed st) cl,
                ms_active := bt_insert (gb_repo b) (gb_id b) (ms_active st),
                ms_builds := bt_insert (gb_id b) b (ms_builds st)\<rparr>"
    using assms(2) by (rule publish_accepted)
  from evidence_closure_contains [OF cl, of "gb_id b" "rel_id r"] assms(4)
  obtain rows where rows: "bt_get cl (gb_id b, rel_id r) = Some rows"
    by (auto simp: bt_contains_iff_Some)
  with cl obtain r' where "r' \<in> set (bt_values (gb_edges b))" "rel_id r' = rel_id r"
    "edge_rows chunks st r' = Inr rows" by (rule evidence_closure_rows)
  moreover from this assms(3,4) have "r' = r"
    by (auto simp: keyed_def bt_values_iff bt_get_iff_in_set [symmetric])
  ultimately have "edge_rows chunks st r = Inr rows" by simp
  then obtain ids where ids: "set ids = named_evidence st r" "bs_ok ids" "length ids \<le> 1000"
    "list_all2 (cites st) ids rows" "length (concat (chunks rows)) \<le> SEALED_EVIDENCE_BYTES_MAX"
    by (rule edge_rows_Inr)
  have "map evr_evidence_id rows = ids"
    using assms(1) ids(4) by (intro cites_ids) (simp_all add: store_inv_def tables_ok_def)
  moreover from this ids(1) have "set (map evr_evidence_id rows) = named_evidence st r" by simp
  moreover have "sealed_evidence t (gb_id b) (rel_id r) = Inr rows"
    using rows by (simp add: t sealed_evidence_def bt_get_extend_ok [OF evidence_closure_sorted [OF cl]])
  ultimately show ?thesis
    using ids(2-5) list_all2_lengthD [OF ids(4)]
    by (intro exI [of _ rows]) (simp only: SEALED_EVIDENCE_BYTES_MAX_def, simp)
qed

section \<open>The identity of a publication\<close>

text \<open>
  \<open>jb\<close>, \<open>js\<close> and \<open>jr\<close> stand for the compact JSON of a build, of a string and of a list
  of rows. The edges are first indexed by their own ids; an edge whose id is taken by a
  later one is still checked.
\<close>

fun index_edges ::
  "(relation \<Rightarrow> store_error + evidence_row list) \<Rightarrow> relation list \<Rightarrow> (string, relation) btree
   \<Rightarrow> store_error + (string, relation) btree" where
  "index_edges rows_for [] m = Inr m"
| "index_edges rows_for (e # es) m =
     (case bt_get m (rel_id e) of
        None \<Rightarrow> index_edges rows_for es (bt_insert (rel_id e) e m)
      | Some shadowed \<Rightarrow>
          (case rows_for shadowed of
             Inl er \<Rightarrow> Inl er
           | Inr _ \<Rightarrow> index_edges rows_for es (bt_insert (rel_id e) e m)))"

fun stream_entries ::
  "(relation \<Rightarrow> store_error + evidence_row list) \<Rightarrow> (string, relation) btree
   \<Rightarrow> store_error + (string \<times> evidence_row list) list" where
  "stream_entries rows_for [] = Inr []"
| "stream_entries rows_for ((i, e) # es) =
     (case rows_for e of
        Inl er \<Rightarrow> Inl er
      | Inr rows \<Rightarrow>
          (case stream_entries rows_for es of Inl er \<Rightarrow> Inl er | Inr rest \<Rightarrow> Inr ((i, rows) # rest)))"

definition json_object :: "(string \<Rightarrow> string) \<Rightarrow> ('v \<Rightarrow> string) \<Rightarrow> (string \<times> 'v) list \<Rightarrow> string" where
  "json_object js jv es = ''{'' @ join '','' (map (\<lambda>(k, v). js k @ '':'' @ jv v) es) @ ''}''"

definition publication_digest ::
  "(string \<Rightarrow> string) \<Rightarrow> (graph_build \<Rightarrow> string) \<Rightarrow> (string \<Rightarrow> string) \<Rightarrow> (evidence_row list \<Rightarrow> string)
   \<Rightarrow> (evidence_row list \<Rightarrow> string list) \<Rightarrow> memory_store \<Rightarrow> graph_build \<Rightarrow> store_error + string" where
  "publication_digest H jb js jr chunks st b =
     (case index_edges (edge_rows chunks st) (bt_values (gb_edges b)) [] of
        Inl er \<Rightarrow> Inl er
      | Inr edges \<Rightarrow>
          (case stream_entries (edge_rows chunks st) edges of
             Inl er \<Rightarrow> Inl er
           | Inr entries \<Rightarrow>
               Inr (''publication:'' @ take 12
                 (H (''['' @ jb b @ '','' @ json_object js jr entries @ '']'' @ [NUL])))))"

lemma stream_entries_ok: "is_ok (stream_entries f es) \<longleftrightarrow> (\<forall>(i, e) \<in> set es. is_ok (f e))"
  by (induction es) (auto split: sum.splits)

lemma stream_entries_Inr:
  "stream_entries f es = Inr out \<Longrightarrow> out = map (\<lambda>(i, e). (i, projr (f e))) es"
  by (induction es arbitrary: out) (auto split: sum.splits)

lemma index_edges_Inr:
  assumes "bt_ok m"
  shows "(\<exists>out. index_edges f es m = Inr out \<and> (\<forall>(i, e) \<in> set out. is_ok (f e)))
    \<longleftrightarrow> (\<forall>e \<in> set es. is_ok (f e)) \<and> (\<forall>(i, e) \<in> set m. is_ok (f e))"
  using assms
proof (induction es arbitrary: m)
  case (Cons e es)
  have step: "(\<exists>out. index_edges f es (bt_insert (rel_id e) e m) = Inr out
        \<and> (\<forall>(i, e) \<in> set out. is_ok (f e)))
      \<longleftrightarrow> (\<forall>e \<in> set es. is_ok (f e)) \<and> is_ok (f e)
        \<and> (\<forall>(i, e') \<in> set m. i \<noteq> rel_id e \<longrightarrow> is_ok (f e'))"
    using Cons.IH [OF bt_ok_insert [OF Cons.prems]] by (auto simp: set_bt_insert [OF Cons.prems])
  show ?case
  proof (cases "bt_get m (rel_id e)")
    case None
    then have "\<forall>(i, e') \<in> set m. i \<noteq> rel_id e"
      by (force simp: bt_get_def map_of_eq_None_iff)
    with None step show ?thesis by auto
  next
    case (Some sh)
    then have here: "(rel_id e, sh) \<in> set m" and only: "\<And>e'. (rel_id e, e') \<in> set m \<Longrightarrow> e' = sh"
      by (auto simp: bt_get_iff_in_set [OF Cons.prems, symmetric])
    from here have "(\<forall>(i, e') \<in> set m. is_ok (f e')) \<longleftrightarrow>
        is_ok (f sh) \<and> (\<forall>(i, e') \<in> set m. i \<noteq> rel_id e \<longrightarrow> is_ok (f e'))"
      by (auto dest: only)
    with Some step show ?thesis by (auto split: sum.splits)
  qed
qed simp

text \<open>The index and the closure agree, entry by entry.\<close>

lemma index_closure:
  assumes "index_edges f es m = Inr out" and "closure_of f b es cl = Inr cl'"
    and "\<forall>i. bt_get cl (b, i) = map_option (\<lambda>e. projr (f e)) (bt_get m i)"
  shows "bt_get cl' (b, i) = map_option (\<lambda>e. projr (f e)) (bt_get out i)"
  using assms
proof (induction es arbitrary: m cl)
  case (Cons e es)
  have idx: "index_edges f es (bt_insert (rel_id e) e m) = Inr out"
    using Cons.prems(1) by (auto split: option.splits sum.splits)
  have cl: "closure_of f b es (bt_insert (b, rel_id e) (projr (f e)) cl) = Inr cl'"
    using Cons.prems(2) by (auto split: sum.splits)
  show ?case by (rule Cons.IH [OF idx cl]) (use Cons.prems(3) in simp)
qed simp

lemma index_edges_sorted: "index_edges f es m = Inr out \<Longrightarrow> bt_ok m \<Longrightarrow> bt_ok out"
  by (induction es arbitrary: m) (auto split: option.splits sum.splits intro: bt_ok_insert)

lemma bt_get_map_values:
  "bt_get (map (\<lambda>(i, e). (i, g e)) m) k = map_option g (bt_get m k)"
  by (simp add: bt_get_def map_of_map)

lemma bt_ok_map_values: "bt_ok m \<Longrightarrow> bt_ok (map (\<lambda>(i, e). (i, g e)) m)"
  by (simp add: bt_ok_def comp_def case_prod_unfold)

lemma bt_get_strip_build:
  assumes "\<forall>k \<in> fst ` set cl. fst k = b" and "bt_ok cl"
  shows "bt_get (bt_extend [] (map (\<lambda>((_, rel), rows). (rel, rows)) cl)) i = bt_get cl (b, i)"
proof -
  have plain: "map_of (map (\<lambda>((_, rel), rows). (rel, rows)) cl) i = map_of cl (b, i)"
    using assms(1) by (induction cl) auto
  have "inj_on snd (fst ` set cl)"
  proof (rule inj_onI)
    fix x y assume "x \<in> fst ` set cl" "y \<in> fst ` set cl" "snd x = snd y"
    moreover from this have "fst x = b" "fst y = b" using assms(1) by blast+
    ultimately show "x = y" by (intro prod_eqI) simp_all
  qed
  then have "distinct (map fst (map (\<lambda>((_, rel), rows). (rel, rows)) cl))"
    using bt_ok_distinct [OF assms(2)]
    by (simp add: comp_def case_prod_unfold distinct_map) (auto simp: inj_on_def)
  then have "map_of (rev (map (\<lambda>((_, rel), rows). (rel, rows)) cl))
      = map_of (map (\<lambda>((_, rel), rows). (rel, rows)) cl)"
    by (subst map_of_inject_set) (simp_all add: rev_map [symmetric])
  with plain show ?thesis by (simp add: bt_get_extend) (simp add: bt_get_def split: option.split)
qed

text \<open>
  The digest the store computes while streaming is the framed identity of the whole
  canonical document: it succeeds exactly when the evidence closure of the build exists,
  and then it is the \<open>publication\<close> id of the JSON pair of the build and its complete
  evidence map, also when the keys of the edge map are not the edges' ids and an edge is
  shadowed by a later one with the same id.
\<close>

theorem publication_digest_canonical:
  "publication_digest H jb js jr chunks st b = Inr d \<longleftrightarrow>
     (\<exists>cl. publication_evidence chunks st b = Inr cl
        \<and> d = deterministic_id H ''publication'' [''['' @ jb b @ '','' @ json_object js jr cl @ '']''])"
proof -
  let ?f = "edge_rows chunks st" and ?es = "bt_values (gb_edges b)"
  let ?all = "\<forall>e \<in> set ?es. is_ok (?f e)"
  have "(\<exists>d. publication_digest H jb js jr chunks st b = Inr d) \<longleftrightarrow>
      (\<exists>out. index_edges ?f ?es [] = Inr out \<and> is_ok (stream_entries ?f out))"
    by (auto simp: publication_digest_def is_ok_iff split: sum.splits)
  then have digest: "(\<exists>d. publication_digest H jb js jr chunks st b = Inr d) \<longleftrightarrow> ?all"
    using index_edges_Inr [of "[]" ?f ?es] by (simp add: stream_entries_ok)
  have closure: "(\<exists>cl. publication_evidence chunks st b = Inr cl) \<longleftrightarrow> ?all"
    using closure_of_ok_iff [of ?f "gb_id b" ?es "[]"]
    by (cases "evidence_closure chunks st b")
      (auto simp: publication_evidence_def evidence_closure_def is_ok_iff)
  have same: "publication_evidence chunks st b = Inr entries"
    if idx: "index_edges ?f ?es [] = Inr out" and "stream_entries ?f out = Inr entries" for out entries
  proof -
    have out: "bt_ok out" by (rule index_edges_sorted [OF idx]) simp
    have entries: "entries = map (\<lambda>(i, e). (i, projr (?f e))) out"
      by (rule stream_entries_Inr [OF that(2)])
    from index_edges_Inr [of "[]" ?f ?es] idx that(2) stream_entries_ok [of ?f out]
    have ?all by auto
    with closure obtain cl where cl: "evidence_closure chunks st b = Inr cl"
      by (auto simp: publication_evidence_def map_sum_def split: sum.splits)
    have keys: "\<forall>k \<in> fst ` set cl. fst k = gb_id b"
      using closure_of_keys [OF cl [unfolded evidence_closure_def]] by auto
    have "bt_get (bt_extend [] (map (\<lambda>((_, rel), rows). (rel, rows)) cl)) i = bt_get entries i" for i
      using index_closure [OF idx cl [unfolded evidence_closure_def], of i]
      by (simp add: bt_get_strip_build [OF keys evidence_closure_sorted [OF cl]] entries
          bt_get_map_values)
    then have "bt_extend [] (map (\<lambda>((_, rel), rows). (rel, rows)) cl) = entries"
      by (intro bt_ext) (auto simp: entries bt_ok_map_values out bt_ok_extend)
    with cl show ?thesis by (simp add: publication_evidence_def)
  qed
  have identity: "\<exists>cl. publication_evidence chunks st b = Inr cl
        \<and> d = deterministic_id H ''publication'' [''['' @ jb b @ '','' @ json_object js jr cl @ '']'']"
    if "publication_digest H jb js jr chunks st b = Inr d" for d
    using that same
    by (auto simp: publication_digest_def deterministic_id_def sha256_hex_def split: sum.splits)
  show ?thesis
  proof (intro iffI)
    assume "\<exists>cl. publication_evidence chunks st b = Inr cl
        \<and> d = deterministic_id H ''publication'' [''['' @ jb b @ '','' @ json_object js jr cl @ '']'']"
    moreover from this digest closure obtain d' where "publication_digest H jb js jr chunks st b = Inr d'"
      by blast
    ultimately show "publication_digest H jb js jr chunks st b = Inr d"
      using identity [of d'] by auto
  qed (rule identity)
qed

end
