(* ===== verification/Store_Examples.thy ===== *)
theory Store_Examples
  imports Publication_Evidence
begin

text \<open>
  A concrete history at which the store's theorems apply: one file, one piece of evidence,
  one claim, and a first publication with a coverage report. The \<^verbatim>\<open>serde_json\<close> parameter
  is instantiated with a serializer that writes the evidence ids.
\<close>

definition plain_chunks :: "evidence_row list \<Rightarrow> string list" where
  "plain_chunks rows = map evr_evidence_id rows"

definition sample_evidence :: evidence where
  "sample_evidence = \<lparr>ev_id = ''v1'', ev_class = EC_Extracted, ev_supports = True, ev_text = ''fn a'',
     ev_span = None, ev_snapshot = ''s'', ev_source_file_version = ''a.rs'',
     ev_producer = Some ''syn-v1''\<rparr>"

definition sample_claim :: claim where
  "sample_claim = \<lparr>cl_id = ''c1'', cl_relation_id = ''e1'', cl_supporting = [''v1''],
     cl_contradicting = [], cl_accepted = True\<rparr>"

definition backed_build :: graph_build where
  "backed_build = sample_build\<lparr>gb_id := ''b1'',
     gb_edges := [(''e1'', (sample_relation ''e1'' ''a'' ''b'')\<lparr>rel_evidence_ids := [''v1'']\<rparr>)],
     gb_coverage := Some \<lparr>bc_files = [\<lparr>fc_file = ''a.rs'', fc_producer = ''syn-v1'',
         fc_status = SS_Parsed, fc_facts = 1\<rparr>],
       bc_structural_relations = 1, bc_decision_relations = 0, bc_resolved_relations = 0,
       bc_compiler = None, bc_catalog = None\<rparr>\<rparr>"

definition sample_ops :: "store_op list" where
  "sample_ops =
     [EnsureFiles ''s'' [\<lparr>sf_snapshot = ''s'', sf_path = ''a.rs'', sf_sha256 = ''00'', sf_bytes = 1\<rparr>],
      PutEvidence sample_evidence, PutClaim sample_claim]"

definition sample_store :: memory_store where
  "sample_store = run_store plain_chunks sample_ops"

lemma sample_store_inv: "store_inv sample_store"
  unfolding sample_store_def by (rule run_store_inv)

lemma sample_store_eq:
  "sample_store = memory_store_new
     \<lparr>ms_files := [((''s'', ''a.rs''), (''00'', 1))], ms_evidence := [(''v1'', sample_evidence)],
      ms_claims := [(''c1'', sample_claim)]\<rparr>"
  by (simp add: sample_store_def sample_ops_def memory_store_new_def store_step_def put_evidence_def
      put_claim_def validate_claim_def sample_evidence_def sample_claim_def bt_contains_def
      bt_or_insert_def)

definition sample_row :: evidence_row where
  "sample_row = evidence_row_of sample_evidence ''00''"

lemma sample_closure:
  "evidence_closure plain_chunks sample_store backed_build = Inr [((''b1'', ''e1''), [sample_row])]"
  by (simp add: sample_store_eq evidence_closure_def backed_build_def sample_relation_def
      bt_values_def memory_store_new_def evidence_rows_def claims_by_relation_def claims_of_def
      sample_claim_def bt_alter_def validate_claim_def bt_contains_def sample_row_def
      sample_evidence_def evidence_row_of_def plain_chunks_def counter_write_def
      SEALED_EVIDENCE_BYTES_MAX_def)

lemma sample_coverage_agrees:
  "gb_coverage backed_build = Some cov \<Longrightarrow> \<not> coverage_disagrees sample_store backed_build cov"
  by (auto simp: backed_build_def coverage_disagrees_def direct_def backed_def sample_store_eq
      memory_store_new_def sample_evidence_def sample_relation_def bt_values_def)

lemma sample_publish:
  "publish plain_chunks sample_store backed_build None =
     (sample_store\<lparr>ms_sealed := [((''b1'', ''e1''), [sample_row])], ms_active := [(''r'', ''b1'')],
        ms_builds := [(''b1'', backed_build)]\<rparr>, Inr ())"
proof -
  have "edge_outside backed_build (bt_values (gb_edges backed_build)) = None"
    by (simp add: edge_outside_None backed_build_def sample_build_def sample_relation_def
        bt_values_def bt_contains_def)
  moreover have "predecessor_refused sample_store backed_build None = None"
    by (simp add: predecessor_refused_def sample_store_eq memory_store_new_def)
  moreover have "gb_id backed_build = ''b1''" and "gb_repo backed_build = ''r''"
    by (simp_all add: backed_build_def sample_build_def graph_build_new_def)
  ultimately show ?thesis
    using sample_coverage_agrees
    by (simp add: publish_def seal_build_def sample_closure split: option.split)
      (simp add: sample_store_eq memory_store_new_def bt_contains_def)
qed

section \<open>Witnesses\<close>

definition published_store :: memory_store where
  "published_store = fst (publish plain_chunks sample_store backed_build None)"

lemma published_store_run:
  "published_store = run_store plain_chunks (sample_ops @ [Publish backed_build None])"
  by (simp add: published_store_def sample_store_def store_step_def)

lemma published_store_builds: "get_build published_store ''b1'' = Some backed_build"
  by (simp add: published_store_def sample_publish get_build_def)

theorem published_build_immutable_witness:
  "get_build (run_store plain_chunks ((sample_ops @ [Publish backed_build None]) @ sample_ops)) ''b1''
     = Some backed_build"
  using published_build_immutable [OF published_store_builds [unfolded published_store_run],
      of sample_ops] by simp

theorem publish_no_lost_update_witness:
  "isl (snd (publish plain_chunks published_store (backed_build\<lparr>gb_id := ''b2''\<rparr>) None))"
  by (rule publish_no_lost_update [OF sample_store_inv, of plain_chunks backed_build None])
    (simp_all add: published_store_def sample_publish)

theorem publish_transition_witness:
  "active_of published_store ''r'' = Some backed_build"
  using publish_transition [OF sample_store_inv sample_publish]
  by (simp add: published_store_def sample_publish)
    (simp add: backed_build_def sample_build_def graph_build_new_def)

theorem published_coverage_true_witness:
  "\<exists>cov. gb_coverage backed_build = Some cov \<and> unat (bc_decision_relations cov)
     + length (filter (backed sample_store EC_Extracted None) (bt_values (gb_edges backed_build)))
     + length (filter (backed sample_store EC_Inferred None) (bt_values (gb_edges backed_build))) = 1"
proof -
  obtain cov where cov: "gb_coverage backed_build = Some cov" by (simp add: backed_build_def)
  have one: "length (gb_edges backed_build) = 1" by (simp add: backed_build_def)
  then have "length (gb_edges backed_build) < 2 ^ 64" by simp
  from published_coverage_true [OF sample_publish cov this] one cov show ?thesis
    by (intro exI [of _ cov]) simp
qed

theorem sealed_evidence_complete_witness:
  "\<exists>rows. sealed_evidence published_store ''b1'' ''e1'' = Inr rows
     \<and> set (map evr_evidence_id rows) = {''v1''}"
proof -
  define r where "r = (sample_relation ''e1'' ''a'' ''b'')\<lparr>rel_evidence_ids := [''v1'']\<rparr>"
  have "r \<in> set (bt_values (gb_edges backed_build))" and "keyed (gb_edges backed_build) rel_id"
    by (simp_all add: r_def backed_build_def bt_values_def keyed_def sample_relation_def)
  moreover have "named_evidence sample_store r = {''v1''}"
    by (auto simp: named_evidence_def r_def sample_store_eq bt_values_def sample_claim_def
        sample_relation_def)
  moreover have "rel_id r = ''e1''" and "gb_id backed_build = ''b1''"
    by (simp_all add: r_def sample_relation_def backed_build_def)
  ultimately show ?thesis
    using sealed_evidence_complete [OF sample_store_inv sample_publish, of r]
    by (auto simp: published_store_def sample_publish)
qed

theorem first_write_wins_witness:
  "bt_get (ms_evidence (run_store plain_chunks (sample_ops @
     [PutEvidence (sample_evidence\<lparr>ev_text := ''other''\<rparr>)]))) ''v1'' = Some sample_evidence"
proof -
  have "bt_get (ms_evidence (run_store plain_chunks sample_ops)) ''v1'' = Some sample_evidence"
    using sample_store_eq by (simp add: sample_store_def)
  with first_write_wins [where chunks = plain_chunks and ops = sample_ops] show ?thesis by blast
qed

theorem put_decision_policy_witness:
  fixes d :: decision
  defines "d \<equiv> \<lparr>dec_id = ''d'', dec_candidate_id = ''c'', dec_question_id = ''q'',
     dec_outcome = DO_Accepted, dec_evidence_class = EC_Inferred, dec_model_requested = ''m'',
     dec_model_returned = ''m'', dec_confidence = None, dec_probability = None,
     dec_cache_key = ''k'', dec_reuse_key = [], dec_raw_answer = None\<rparr>"
  shows "find_decision (fst (put_decision (fst (put_decision sample_store d)) d)) ''x'' ''y''
    = find_decision (fst (put_decision sample_store d)) ''x'' ''y''"
  using put_decision_policy [of sample_store d] by blast

end
