(* ===== verification/Replica_Store.thy ===== *)
theory Replica_Store
  imports Rows Rust_Text Contracts
begin

text \<open>
  Owner- and scope-isolated replication rows and guarded read snapshots:
  \<^verbatim>\<open>crates/chaosbox-store/src/replica.rs\<close>. Embedding texts have no effect in this backend.
\<close>

section \<open>Rows and views\<close>

record replica_row =
  rp_id :: string
  rp_user :: string
  rp_scope :: string
  rp_body :: string

record replica_store =
  rs_rows :: "(string, replica_row) btree"
  rs_active :: "(string \<times> string, string \<times> string) btree"
  rs_views :: "(string, string \<times> string \<times> string) btree"

definition replica_store_new :: replica_store where
  "replica_store_new = \<lparr>rs_rows = [], rs_active = [], rs_views = []\<rparr>"

definition validate_row :: "replica_row \<Rightarrow> store_error + unit" where
  "validate_row row =
     (if length (rp_id row) \<noteq> 64 \<or> \<not> list_all is_hexdigit (rp_id row)
       \<or> length (rp_user row) \<noteq> 64 \<or> \<not> list_all is_hexdigit (rp_user row)
       \<or> \<not> starts_with (rp_scope row) ''private:'' \<or> length (rp_scope row) \<le> 8
       \<or> 4 * 1024 * 1024 < length (rp_body row) \<or> rp_body row = []
      then Inl (SE_Invariant BadReplicaRow) else Inr ())"

definition validate_replica_view :: "string \<Rightarrow> string \<Rightarrow> string \<Rightarrow> string \<Rightarrow> store_error + unit" where
  "validate_replica_view user scope i body =
     (if length i \<noteq> 64 \<or> \<not> list_all is_hexdigit i
       \<or> length user \<noteq> 64 \<or> \<not> list_all is_hexdigit user
       \<or> \<not> starts_with scope ''private:'' \<or> length scope \<le> 8 \<or> 256 < length scope
       \<or> body = [] \<or> 64 * 1024 * 1024 < length body
      then Inl (SE_Invariant BadReplicaView) else Inr ())"

section \<open>Operations\<close>

definition replica_put :: "replica_store \<Rightarrow> replica_row \<Rightarrow> (replica_store, store_error, unit) outcome" where
  "replica_put st row =
     (case validate_row row of
        Inl e \<Rightarrow> (st, Inl e)
      | Inr _ \<Rightarrow>
          (case bt_get (rs_rows st) (rp_id row) of
             Some old \<Rightarrow>
               if old \<noteq> row then (st, Inl (SE_Invariant ReplicaCollision)) else (st, Inr ())
           | None \<Rightarrow> (st\<lparr>rs_rows := bt_insert (rp_id row) row (rs_rows st)\<rparr>, Inr ())))"

definition replica_rows ::
  "replica_store \<Rightarrow> string \<Rightarrow> string \<Rightarrow> string \<Rightarrow> nat \<Rightarrow> store_error + replica_row list" where
  "replica_rows st user scope after limit =
     (if \<not> (1 \<le> limit \<and> limit \<le> 200) then Inl (SE_Invariant ReplicaPageLimit)
      else Inr (take limit
        (filter (\<lambda>r. rp_user r = user \<and> rp_scope r = scope \<and> after < rp_id r) (bt_values (rs_rows st)))))"

definition replica_current :: "replica_store \<Rightarrow> string \<Rightarrow> string \<Rightarrow> (string \<times> string) option" where
  "replica_current st user scope = bt_get (rs_active st) (user, scope)"

text \<open>A view row is written before the predecessor is checked and stays when it is refused.\<close>

definition replica_publish ::
  "replica_store \<Rightarrow> string \<Rightarrow> string \<Rightarrow> string \<Rightarrow> string \<Rightarrow> string option
   \<Rightarrow> (replica_store, store_error, unit) outcome" where
  "replica_publish st user scope i body expected =
     (case validate_replica_view user scope i body of
        Inl e \<Rightarrow> (st, Inl e)
      | Inr _ \<Rightarrow>
          (case (case bt_get (rs_views st) i of
                   Some old \<Rightarrow>
                     if old \<noteq> (user, scope, body) then None else Some st
                 | None \<Rightarrow> Some (st\<lparr>rs_views := bt_insert i (user, scope, body) (rs_views st)\<rparr>)) of
             None \<Rightarrow> (st, Inl (SE_Invariant ReplicaViewCollision))
           | Some st' \<Rightarrow>
               let current = bt_get (rs_active st') (user, scope) in
               if current = Some (i, body) then (st', Inr ())
               else if map_option fst current \<noteq> expected
               then (st', Inl (SE_Invariant ReplicaPredecessorChanged))
               else (st'\<lparr>rs_active := bt_insert (user, scope) (i, body) (rs_active st')\<rparr>, Inr ())))"

section \<open>Invariant and contracts\<close>

definition replica_inv :: "replica_store \<Rightarrow> bool" where
  "replica_inv st \<longleftrightarrow> bt_ok (rs_rows st) \<and> bt_ok (rs_views st) \<and> bt_ok (rs_active st)
     \<and> (\<forall>k r. bt_get (rs_rows st) k = Some r \<longrightarrow> rp_id r = k \<and> validate_row r = Inr ())
     \<and> (\<forall>i u s b. bt_get (rs_views st) i = Some (u, s, b) \<longrightarrow> validate_replica_view u s i b = Inr ())
     \<and> (\<forall>u s i b. bt_get (rs_active st) (u, s) = Some (i, b) \<longrightarrow> bt_get (rs_views st) i = Some (u, s, b))"

lemma replica_inv_new: "replica_inv replica_store_new"
  by (simp add: replica_inv_def replica_store_new_def)

datatype replica_op =
    RPut replica_row
  | RPublish string string string string "string option"

fun replica_call :: "replica_store \<Rightarrow> replica_op \<Rightarrow> (replica_store, store_error, unit) outcome" where
  "replica_call st (RPut row) = replica_put st row"
| "replica_call st (RPublish u s i b e) = replica_publish st u s i b e"

definition replica_step :: "replica_store \<Rightarrow> replica_op \<Rightarrow> replica_store" where
  "replica_step st op = fst (replica_call st op)"

lemma inv_replica_put: "replica_inv st \<Longrightarrow> replica_inv (fst (replica_put st row))"
  by (auto simp: replica_put_def replica_inv_def bt_ok_insert split: sum.splits option.splits)

text \<open>The store with the view row written, if there is no other content under its id.\<close>

definition with_view :: "replica_store \<Rightarrow> string \<Rightarrow> string \<Rightarrow> string \<Rightarrow> string \<Rightarrow> replica_store" where
  "with_view st u s i b = st\<lparr>rs_views := bt_or_insert i (u, s, b) (rs_views st)\<rparr>"

lemma replica_publish_cases [consumes 0, case_names invalid collision current stale moved]:
  obtains (invalid) e where "validate_replica_view u s i b = Inl e"
      "replica_publish st u s i b ex = (st, Inl e)"
  | (collision) old where "bt_get (rs_views st) i = Some old" "old \<noteq> (u, s, b)"
      "replica_publish st u s i b ex = (st, Inl (SE_Invariant ReplicaViewCollision))"
  | (current) "validate_replica_view u s i b = Inr ()" "bt_get (rs_active st) (u, s) = Some (i, b)"
      "bt_get (rs_views (with_view st u s i b)) i = Some (u, s, b)"
      "replica_publish st u s i b ex = (with_view st u s i b, Inr ())"
  | (stale) "validate_replica_view u s i b = Inr ()"
      "map_option fst (bt_get (rs_active st) (u, s)) \<noteq> ex"
      "bt_get (rs_views (with_view st u s i b)) i = Some (u, s, b)"
      "replica_publish st u s i b ex = (with_view st u s i b, Inl (SE_Invariant ReplicaPredecessorChanged))"
  | (moved) "validate_replica_view u s i b = Inr ()"
      "map_option fst (bt_get (rs_active st) (u, s)) = ex"
      "bt_get (rs_views (with_view st u s i b)) i = Some (u, s, b)"
      "replica_publish st u s i b ex =
         ((with_view st u s i b)\<lparr>rs_active := bt_insert (u, s) (i, b) (rs_active st)\<rparr>, Inr ())"
proof (cases "validate_replica_view u s i b")
  case (Inl e)
  then show thesis by (intro invalid) (simp_all add: replica_publish_def)
next
  case (Inr x)
  then have ok: "validate_replica_view u s i b = Inr ()" by simp
  show thesis
  proof (cases "\<exists>old. bt_get (rs_views st) i = Some old \<and> old \<noteq> (u, s, b)")
    case True
    then show thesis using collision ok by (fastforce simp: replica_publish_def)
  next
    case False
    then have view: "bt_get (rs_views (with_view st u s i b)) i = Some (u, s, b)"
      by (auto simp: with_view_def split: option.split)
    have eq: "replica_publish st u s i b ex =
        (let st' = with_view st u s i b; current = bt_get (rs_active st) (u, s) in
         if current = Some (i, b) then (st', Inr ())
         else if map_option fst current \<noteq> ex then (st', Inl (SE_Invariant ReplicaPredecessorChanged))
         else (st'\<lparr>rs_active := bt_insert (u, s) (i, b) (rs_active st)\<rparr>, Inr ()))"
      using False ok
      by (cases "bt_get (rs_views st) i")
        (auto simp: replica_publish_def with_view_def Let_def bt_or_insert_def bt_contains_def)
    show thesis
      using eq current [OF ok _ view] stale [OF ok _ view] moved [OF ok _ view]
      by (auto simp: Let_def split: if_splits)
  qed
qed

lemma inv_with_view:
  "replica_inv st \<Longrightarrow> validate_replica_view u s i b = Inr () \<Longrightarrow> replica_inv (with_view st u s i b)"
  unfolding replica_inv_def with_view_def
  by (auto simp: bt_ok_or_insert split: option.splits if_splits)

lemma with_view_keeps:
  "bt_get (rs_views st) k = Some v \<Longrightarrow> bt_get (rs_views (with_view st u s i b)) k = Some v"
  by (auto simp: with_view_def)

lemma with_view_frame [simp]:
  "rs_active (with_view st u s i b) = rs_active st" "rs_rows (with_view st u s i b) = rs_rows st"
  by (simp_all add: with_view_def)

lemma inv_replica_publish:
  assumes "replica_inv st"
  shows "replica_inv (fst (replica_publish st u s i b ex))"
proof (cases rule: replica_publish_cases [of u s i b st ex])
  case moved
  have "replica_inv (with_view st u s i b)" using assms moved(1) by (rule inv_with_view)
  with moved(3,4) show ?thesis
    by (auto simp: replica_inv_def bt_ok_insert)
qed (use assms inv_with_view in simp_all)

lemma inv_replica_step: "replica_inv st \<Longrightarrow> replica_inv (replica_step st op)"
  by (cases op) (simp_all add: replica_step_def inv_replica_put inv_replica_publish)

lemma replica_step_rows:
  "bt_get (rs_rows st) k = Some r \<Longrightarrow> bt_get (rs_rows (replica_step st op)) k = Some r"
proof (cases op)
  case (RPublish u s i b e)
  assume "bt_get (rs_rows st) k = Some r"
  then show ?thesis
    by (cases rule: replica_publish_cases [of u s i b st e])
      (simp_all add: RPublish replica_step_def with_view_def)
qed (auto simp: replica_step_def replica_put_def split: sum.splits option.splits)

lemma replica_step_views:
  "bt_get (rs_views st) k = Some v \<Longrightarrow> bt_get (rs_views (replica_step st op)) k = Some v"
proof (cases op)
  case (RPublish u s i b e)
  assume "bt_get (rs_views st) k = Some v"
  then show ?thesis
    by (cases rule: replica_publish_cases [of u s i b st e])
      (simp_all add: RPublish replica_step_def with_view_keeps)
qed (auto simp: replica_step_def replica_put_def split: sum.splits option.splits)

interpretation replica_rows_once: write_once replica_inv "\<lambda>st. bt_get (rs_rows st)" replica_step
  by unfold_locales (rule inv_replica_step, assumption, rule replica_step_rows)

interpretation replica_views_once: write_once replica_inv "\<lambda>st. bt_get (rs_views st)" replica_step
  by unfold_locales (rule inv_replica_step, assumption, rule replica_step_views)

text \<open>A publication request: owner, scope, identity, body.\<close>

type_synonym view_request = "string \<times> string \<times> string \<times> string"

definition view_key :: "view_request \<Rightarrow> string \<times> string" where
  "view_key q = (case q of (u, s, i, b) \<Rightarrow> (u, s))"

definition view_id :: "view_request \<Rightarrow> string" where
  "view_id q = (case q of (u, s, i, b) \<Rightarrow> i)"

definition publish_view ::
  "replica_store \<Rightarrow> view_request \<Rightarrow> string option \<Rightarrow> (replica_store, store_error, unit) outcome" where
  "publish_view st q ex = (case q of (u, s, i, b) \<Rightarrow> replica_publish st u s i b ex)"

definition current_id :: "replica_store \<Rightarrow> string \<times> string \<Rightarrow> string option" where
  "current_id st k = map_option fst (bt_get (rs_active st) k)"

interpretation view_cell: cas_pointer replica_inv current_id view_key view_id publish_view
proof
  fix st :: replica_store and q :: view_request and ex t err k r
  assume inv: "replica_inv st"
  obtain u s i b where q: "q = (u, s, i, b)" by (cases q)
  show "replica_inv (fst (publish_view st q ex))"
    using inv_replica_publish [OF inv] by (simp add: publish_view_def q)
  show "current_id t (view_key q) = Some (view_id q)
      \<and> (current_id st (view_key q) = ex \<or> current_id st (view_key q) = Some (view_id q))"
    if "publish_view st q ex = (t, Inr ())"
    by (cases rule: replica_publish_cases [of u s i b st ex])
      (use that in \<open>auto simp: publish_view_def current_id_def view_key_def view_id_def q with_view_def\<close>)
  show "current_id t k = current_id st k" if "publish_view st q ex = (t, Inl err)"
    by (cases rule: replica_publish_cases [of u s i b st ex])
      (use that in \<open>auto simp: publish_view_def current_id_def q with_view_def\<close>)
  show "current_id t k = current_id st k" if "publish_view st q ex = (t, r)" and "k \<noteq> view_key q"
    by (cases rule: replica_publish_cases [of u s i b st ex])
      (use that in \<open>auto simp: publish_view_def current_id_def view_key_def q with_view_def\<close>)
qed

section \<open>Properties\<close>

abbreviation run_replica :: "replica_op list \<Rightarrow> replica_store" where
  "run_replica ops \<equiv> foldl replica_step replica_store_new ops"

lemma run_replica_inv: "replica_inv (run_replica ops)"
  by (rule replica_rows_once.inv_run [OF replica_inv_new])

text \<open>
  C36. Of two publishers of a user's scope that expect the same predecessor only one wins:
  after the first is accepted the second, with another view, is refused, and the view that
  readers pin is still the first one.
\<close>

theorem replica_no_lost_update:
  assumes "replica_inv st" and "replica_publish st u s i b ex = (t, Inr ())"
    and "i' \<noteq> i" and "ex \<noteq> Some i"
  shows "isl (snd (replica_publish t u s i' b' ex))
    \<and> replica_current (fst (replica_publish t u s i' b' ex)) u s = Some (i, b)"
proof -
  have "isl (snd (publish_view t (u, s, i', b') ex))"
    by (rule view_cell.no_lost_update [OF assms(1), of "(u, s, i, b)"])
      (use assms in \<open>simp_all add: publish_view_def view_key_def view_id_def\<close>)
  then have lost: "isl (snd (replica_publish t u s i' b' ex))" by (simp add: publish_view_def)
  have "bt_get (rs_active t) (u, s) = Some (i, b)"
    by (cases rule: replica_publish_cases [of u s i b st ex]) (use assms(2) in \<open>auto simp: with_view_def\<close>)
  with lost show ?thesis
    by (cases rule: replica_publish_cases [of u s i' b' t ex])
      (auto simp: replica_current_def with_view_def)
qed

text \<open>
  A pinned view is what was published and stays so: the view a reader finds current for
  an owner and scope passed validation for exactly this owner, scope and content; whatever
  happens later its content under that identity is the same, and publications for other
  owners or scopes do not move it.
\<close>

theorem replica_current_stable:
  assumes "replica_current (run_replica ops) u s = Some (i, b)"
  shows "validate_replica_view u s i b = Inr ()
    \<and> bt_get (rs_views (run_replica (ops @ later))) i = Some (u, s, b)
    \<and> ((u', s') \<noteq> (u, s) \<longrightarrow>
        replica_current (fst (replica_publish (run_replica ops) u' s' i' b' ex)) u s = Some (i, b))"
proof -
  let ?st = "run_replica ops"
  have inv: "replica_inv ?st" by (rule run_replica_inv)
  have act: "bt_get (rs_active ?st) (u, s) = Some (i, b)" using assms by (simp add: replica_current_def)
  then have view: "bt_get (rs_views ?st) i = Some (u, s, b)" using inv by (simp add: replica_inv_def)
  then have "validate_replica_view u s i b = Inr ()" using inv by (auto simp: replica_inv_def)
  moreover have "bt_get (rs_views (run_replica (ops @ later))) i = Some (u, s, b)"
    using replica_views_once.row_run [OF inv view, of later] by simp
  moreover have "replica_current (fst (replica_publish ?st u' s' i' b' ex)) u s = Some (i, b)"
    if "(u', s') \<noteq> (u, s)"
    by (cases rule: replica_publish_cases [of u' s' i' b' ?st ex])
      (use act that in \<open>auto simp: replica_current_def with_view_def\<close>)
  ultimately show ?thesis by blast
qed

text \<open>The rows a reader of one owner and scope pages through.\<close>

definition scope_rows :: "replica_store \<Rightarrow> string \<Rightarrow> string \<Rightarrow> string \<Rightarrow> replica_row list" where
  "scope_rows st u s after =
     filter (\<lambda>r. rp_user r = u \<and> rp_scope r = s \<and> after < rp_id r) (bt_values (rs_rows st))"

lemma rows_sorted:
  assumes "replica_inv st"
  shows "sorted_wrt (\<lambda>a b. rp_id a < rp_id b) (bt_values (rs_rows st))"
proof -
  have ids: "map rp_id (bt_values (rs_rows st)) = map fst (rs_rows st)"
    using assms by (auto simp: replica_inv_def bt_values_def bt_get_iff_in_set)
  have "sorted_wrt (<) (map rp_id (bt_values (rs_rows st)))"
    unfolding ids using assms by (simp add: replica_inv_def bt_ok_def)
  then show ?thesis by (simp add: sorted_wrt_map)
qed

text \<open>The query of a reader: store, owner, scope.\<close>

type_synonym scope_query = "replica_store \<times> string \<times> string"

definition scope_all :: "scope_query \<Rightarrow> replica_row list" where
  "scope_all q = (case q of (st, u, s) \<Rightarrow> scope_rows st u s [])"

definition scope_page :: "scope_query \<Rightarrow> string option \<Rightarrow> nat \<Rightarrow> replica_row list" where
  "scope_page q after limit = (case q of (st, u, s) \<Rightarrow>
     take limit (scope_rows st u s (case after of None \<Rightarrow> [] | Some a \<Rightarrow> a)))"

lemma scope_rows_beyond:
  assumes "replica_inv st"
  shows "scope_rows st u s a = filter (\<lambda>r. beyond (Some a) (rp_id r)) (scope_rows st u s [])"
proof -
  have "[] < rp_id r" if "r \<in> set (bt_values (rs_rows st))" for r
  proof -
    from that assms have "validate_row r = Inr ()"
      by (auto simp: replica_inv_def bt_values_iff bt_get_iff_in_set)
    then have "rp_id r \<noteq> []" by (auto simp: validate_row_def split: if_splits)
    then show ?thesis by (cases "rp_id r") simp_all
  qed
  then show ?thesis by (auto simp: scope_rows_def intro!: filter_cong)
qed

interpretation scope_pages: keyset_pages "\<lambda>(st, u, s). replica_inv st" rp_id scope_all scope_page
proof
  fix q :: scope_query and limit :: nat and after
  assume "case q of (st, u, s) \<Rightarrow> replica_inv st"
  then obtain st u s where q: "q = (st, u, s)" and inv: "replica_inv st" by (cases q) auto
  show "sorted_wrt (\<lambda>a b. rp_id a < rp_id b) (scope_all q)"
    unfolding q scope_all_def scope_rows_def using rows_sorted [OF inv] by (simp add: sorted_wrt_filter)
  show "scope_page q after limit = take limit (filter (\<lambda>r. beyond after (rp_id r)) (scope_all q))"
  proof (cases after)
    case None
    then show ?thesis by (simp add: q scope_page_def scope_all_def)
  next
    case (Some a)
    then show ?thesis
      unfolding q scope_page_def scope_all_def prod.case option.case
      by (simp only: scope_rows_beyond [OF inv, of u s a] Some option.case)
  qed
qed

text \<open>
  Reading a scope page by page from the last id seen neither skips nor repeats a row:
  an accepted page holds, in ascending id order, the first rows of the scope behind the
  cursor; a page shorter than the limit is the rest of the scope, and behind a full page the
  cursor of its last id continues with exactly the remaining rows.
\<close>

theorem replica_pages_complete:
  assumes "replica_inv st" and "replica_rows st u s after limit = Inr page"
  shows "scope_rows st u s after =
      page @ (if length page < limit then [] else scope_rows st u s (rp_id (last page)))
    \<and> sorted_wrt (\<lambda>a b. rp_id a < rp_id b) page \<and> length page \<le> limit"
proof -
  have limit: "0 < limit" and page: "page = scope_page (st, u, s) (Some after) limit"
    using assms(2) by (auto simp: replica_rows_def scope_rows_def scope_page_def split: if_splits)
  have all: "scope_rows st u s a = scope_pages.remaining (st, u, s) (Some a)" for a
    unfolding scope_pages.remaining_def scope_all_def prod.case by (rule scope_rows_beyond [OF assms(1)])
  have inv: "case (st, u, s) of (st, u, s) \<Rightarrow> replica_inv st" using assms(1) by simp
  show ?thesis
    unfolding all page
    by (intro conjI scope_pages.page_continues [OF inv limit] scope_pages.page_ascends [OF inv limit]
        scope_pages.page_bounded [OF inv limit])
qed

definition sample_hex :: "char \<Rightarrow> string" where
  "sample_hex d = replicate 64 d"

lemma sample_view_valid:
  "is_hexdigit d \<Longrightarrow> validate_replica_view (sample_hex (CHR ''0'')) ''private:u'' (sample_hex d) ''{}'' = Inr ()"
  by (simp add: validate_replica_view_def sample_hex_def list_all_iff starts_with_def)
    (simp add: is_hexdigit_def is_digit_def)

theorem replica_no_lost_update_witness:
  "isl (snd (replica_publish (fst (replica_publish replica_store_new (sample_hex (CHR ''0'')) ''private:u''
     (sample_hex (CHR ''a'')) ''{}'' None)) (sample_hex (CHR ''0'')) ''private:u'' (sample_hex (CHR ''b'')) ''{}'' None))"
proof -
  have "replica_publish replica_store_new (sample_hex (CHR ''0'')) ''private:u'' (sample_hex (CHR ''a'')) ''{}'' None
      = (fst (replica_publish replica_store_new (sample_hex (CHR ''0'')) ''private:u'' (sample_hex (CHR ''a'')) ''{}'' None), Inr ())"
    using sample_view_valid [of "CHR ''a''"] by (simp add: is_hexdigit_def replica_publish_def replica_store_new_def)
  from replica_no_lost_update [OF replica_inv_new this, of "sample_hex (CHR ''b'')"]
  show ?thesis by (simp add: sample_hex_def)
qed

theorem replica_current_stable_witness:
  "bt_get (rs_views (run_replica [RPublish (sample_hex (CHR ''0'')) ''private:u'' (sample_hex (CHR ''a'')) ''{}'' None,
     RPublish (sample_hex (CHR ''0'')) ''private:u'' (sample_hex (CHR ''b'')) ''{}'' None])) (sample_hex (CHR ''a''))
   = Some (sample_hex (CHR ''0''), ''private:u'', ''{}'')"
proof -
  have "replica_current (run_replica [RPublish (sample_hex (CHR ''0'')) ''private:u'' (sample_hex (CHR ''a'')) ''{}'' None])
      (sample_hex (CHR ''0'')) ''private:u'' = Some (sample_hex (CHR ''a''), ''{}'')"
    using sample_view_valid [of "CHR ''a''"]
    by (simp add: is_hexdigit_def replica_step_def replica_publish_def replica_store_new_def replica_current_def)
  from replica_current_stable [OF this,
      of "[RPublish (sample_hex (CHR ''0'')) ''private:u'' (sample_hex (CHR ''b'')) ''{}'' None]"]
  show ?thesis by simp
qed

theorem replica_pages_complete_witness:
  "scope_rows replica_store_new ''u'' ''s'' [] = []"
  using replica_pages_complete [OF replica_inv_new, of "''u''" "''s''" "[]" 5 "[]"]
  by (simp add: replica_rows_def replica_store_new_def bt_values_def)

end
