(* ===== verification/Task_Lease.thy ===== *)
theory Task_Lease
  imports Rows
begin

text \<open>
  Worker-task leases: \<^verbatim>\<open>crates/chaosbox-store/src/task.rs\<close>. Clocks and lease lengths are
  \<open>i64\<close> values, kept as 64-bit words read with \<open>sint\<close>; the generation is a \<open>u64\<close>. The
  additions wrap, as in a release build; the properties say where they do not.
\<close>

section \<open>The task and its operations\<close>

record task =
  task_id :: string
  task_state_of :: task_state
  task_generation :: u64

text \<open>\<open>lease_secs.max(1)\<close>\<close>

definition lease_length :: "64 word \<Rightarrow> 64 word" where
  "lease_length secs = (if sint secs < 1 then 1 else secs)"

definition claim_task :: "task \<Rightarrow> string \<Rightarrow> 64 word \<Rightarrow> 64 word \<Rightarrow> (task, store_error, unit) outcome" where
  "claim_task t w now secs =
     (case task_state_of t of
        TS_Pending \<Rightarrow>
          (t\<lparr>task_state_of := TS_Claimed w (now + lease_length secs),
             task_generation := task_generation t + 1\<rparr>, Inr ())
      | other \<Rightarrow> (t, Inl (SE_Invariant (TaskNotClaimable other w))))"

definition heartbeat_task :: "task \<Rightarrow> string \<Rightarrow> 64 word \<Rightarrow> 64 word \<Rightarrow> (task, store_error, unit) outcome" where
  "heartbeat_task t w now secs =
     (case task_state_of t of
        TS_Claimed holder expires \<Rightarrow>
          if holder = w
          then (t\<lparr>task_state_of := TS_Claimed w (now + lease_length secs)\<rparr>, Inr ())
          else (t, Inl (SE_Invariant (TaskNotHeld (TS_Claimed holder expires) w)))
      | other \<Rightarrow> (t, Inl (SE_Invariant (TaskNotHeld other w))))"

definition reclaim_task :: "task \<Rightarrow> string \<Rightarrow> 64 word \<Rightarrow> 64 word \<Rightarrow> (task, store_error, unit) outcome" where
  "reclaim_task t w now secs =
     (case task_state_of t of
        TS_Claimed holder expires \<Rightarrow>
          if sint expires \<le> sint now
          then (t\<lparr>task_state_of := TS_Claimed w (now + lease_length secs),
                  task_generation := task_generation t + 1\<rparr>, Inr ())
          else (t, Inl (SE_Invariant (TaskLive (TS_Claimed holder expires) w)))
      | other \<Rightarrow> (t, Inl (SE_Invariant (TaskLive other w))))"

section \<open>The lease as a state machine\<close>

datatype lease_op =
    Claim string "64 word" "64 word"
  | Heartbeat string "64 word" "64 word"
  | Reclaim string "64 word" "64 word"

fun lease_call :: "task \<Rightarrow> lease_op \<Rightarrow> (task, store_error, unit) outcome" where
  "lease_call t (Claim w now secs) = claim_task t w now secs"
| "lease_call t (Heartbeat w now secs) = heartbeat_task t w now secs"
| "lease_call t (Reclaim w now secs) = reclaim_task t w now secs"

fun op_worker :: "lease_op \<Rightarrow> string" where
  "op_worker (Claim w _ _) = w"
| "op_worker (Heartbeat w _ _) = w"
| "op_worker (Reclaim w _ _) = w"

fun op_now :: "lease_op \<Rightarrow> 64 word" where
  "op_now (Claim _ now _) = now"
| "op_now (Heartbeat _ now _) = now"
| "op_now (Reclaim _ now _) = now"

fun op_secs :: "lease_op \<Rightarrow> 64 word" where
  "op_secs (Claim _ _ secs) = secs"
| "op_secs (Heartbeat _ _ secs) = secs"
| "op_secs (Reclaim _ _ secs) = secs"

definition holder :: "task \<Rightarrow> string option" where
  "holder t = (case task_state_of t of TS_Claimed w _ \<Rightarrow> Some w | _ \<Rightarrow> None)"

lemmas lease_defs = claim_task_def heartbeat_task_def reclaim_task_def

text \<open>One accepted or refused call.\<close>

inductive lease_step :: "task \<Rightarrow> task \<Rightarrow> bool" where
  accepted: "lease_call t op = (u, Inr ()) \<Longrightarrow> lease_step t u"
| refused: "lease_call t op = (u, Inl e) \<Longrightarrow> lease_step t u"

inductive_cases lease_stepE: "lease_step t u"

lemma lease_refused: "lease_call t op = (u, Inl e) \<Longrightarrow> u = t"
  by (cases op) (auto simp: lease_defs split: task_state.splits if_splits)

lemma lease_accepted:
  "lease_call t op = (u, Inr ()) \<Longrightarrow>
     task_state_of u = TS_Claimed (op_worker op) (op_now op + lease_length (op_secs op))
   \<and> (task_generation u = task_generation t + 1
      \<or> (task_generation u = task_generation t \<and> holder t = Some (op_worker op)))"
  by (cases op) (auto simp: lease_defs holder_def split: task_state.splits if_splits)

lemma lease_length_pos: "1 \<le> sint (lease_length secs)"
  by (simp add: lease_length_def)

lemma sint_add_small:
  fixes a b :: "64 word"
  assumes "sint a + sint b < 2 ^ 63" and "0 \<le> sint b"
  shows "sint (a + b) = sint a + sint b"
proof -
  have "- (2 ^ 63) \<le> sint a" using sint_range_size [of a] by (simp add: word_size)
  with assms show ?thesis
    by (simp add: signed_take_bit_int_eq_self sint_word_ariths(1))
qed

text \<open>
  C37. While a lease runs nobody else gets the task: after an accepted claim, heartbeat or
  reclaim at time \<open>now\<close> (whose expiry does not overflow the clock), the task is held by
  that worker until strictly after \<open>now\<close>, and every call of another worker before the
  expiry is refused and changes nothing.
\<close>

theorem lease_exclusive:
  assumes "lease_call t op = (u, Inr ())"
    and "sint (op_now op) + sint (lease_length (op_secs op)) < 2 ^ 63"
    and "op_worker other \<noteq> op_worker op"
    and "sint (op_now other) < sint (op_now op) + sint (lease_length (op_secs op))"
  shows "holder u = Some (op_worker op)
    \<and> sint (op_now op) < sint (ts_expires_at (task_state_of u))
    \<and> fst (lease_call u other) = u \<and> isl (snd (lease_call u other))"
proof -
  have state: "task_state_of u = TS_Claimed (op_worker op) (op_now op + lease_length (op_secs op))"
    using lease_accepted [OF assms(1)] by simp
  have pos: "1 \<le> sint (lease_length (op_secs op))" by (rule lease_length_pos)
  then have expiry: "sint (op_now op + lease_length (op_secs op))
      = sint (op_now op) + sint (lease_length (op_secs op))"
    using assms(2) by (intro sint_add_small) simp_all
  then have "sint (op_now other) < sint (op_now op + lease_length (op_secs op))"
    using assms(4) by simp
  with state assms(3) expiry pos show ?thesis
    by (cases other) (simp_all add: holder_def lease_defs)
qed

text \<open>
  The generation fences stale holders: along any sequence of calls the generation grows
  by at most one per call and never falls, and whenever the holder changed in between it is
  strictly greater, so a result written under the old claim is recognizable (as long as the
  64-bit counter does not run over).
\<close>

theorem generation_fences:
  assumes "(lease_step ^^ n) t u" and "unat (task_generation t) + n < 2 ^ 64"
  shows "unat (task_generation t) \<le> unat (task_generation u)
    \<and> unat (task_generation u) \<le> unat (task_generation t) + n
    \<and> (holder t \<noteq> holder u \<longrightarrow> unat (task_generation t) < unat (task_generation u))"
  using assms
proof (induction n arbitrary: u)
  case (Suc n)
  then obtain v where v: "(lease_step ^^ n) t v" "lease_step v u" by (auto elim: relpowp_Suc_E)
  with Suc have IH: "unat (task_generation t) \<le> unat (task_generation v)"
    "unat (task_generation v) \<le> unat (task_generation t) + n"
    "holder t \<noteq> holder v \<longrightarrow> unat (task_generation t) < unat (task_generation v)" by auto
  have "unat (task_generation v) + 1 < 2 ^ 64" using IH(2) Suc.prems(2) by simp
  then have succ: "unat (task_generation v + 1) = unat (task_generation v) + 1"
    by (simp add: unat_word_ariths)
  from v(2) consider "u = v"
    | op where "lease_call v op = (u, Inr ())"
    by (auto elim!: lease_stepE dest: lease_refused)
  then show ?case
  proof cases
    case (2 op)
    from lease_accepted [OF 2]
    have "holder u = Some (op_worker op)"
      and gen: "task_generation u = task_generation v + 1
        \<or> (task_generation u = task_generation v \<and> holder v = Some (op_worker op))"
      by (simp_all add: holder_def)
    from gen show ?thesis
    proof (elim disjE conjE)
      assume "task_generation u = task_generation v + 1"
      with succ IH(1,2) show ?thesis by simp
    next
      assume "task_generation u = task_generation v" "holder v = Some (op_worker op)"
      with IH \<open>holder u = Some (op_worker op)\<close> show ?thesis by simp
    qed
  qed (use IH in auto)
qed simp

definition sample_task :: task where
  "sample_task = \<lparr>task_id = ''t'', task_state_of = TS_Pending, task_generation = 0\<rparr>"

theorem lease_exclusive_witness:
  "isl (snd (lease_call (fst (lease_call sample_task (Claim ''w1'' 1000 60))) (Reclaim ''w2'' 1001 60)))"
  using lease_exclusive [of sample_task "Claim ''w1'' 1000 60"
      "fst (lease_call sample_task (Claim ''w1'' 1000 60))" "Reclaim ''w2'' 1001 60"]
  by (simp add: sample_task_def claim_task_def lease_length_def)

theorem generation_fences_witness:
  "unat (task_generation sample_task)
     < unat (task_generation (fst (lease_call sample_task (Claim ''w1'' 1000 60))))"
proof -
  let ?u = "fst (lease_call sample_task (Claim ''w1'' 1000 60))"
  have "lease_call sample_task (Claim ''w1'' 1000 60) = (?u, Inr ())"
    by (simp add: sample_task_def claim_task_def)
  then have "lease_step sample_task ?u" by (rule lease_step.accepted)
  then have "(lease_step ^^ 1) sample_task ?u" by (simp add: eq_OO)
  from generation_fences [OF this] show ?thesis
    by (simp add: sample_task_def holder_def claim_task_def)
qed

end
