(* ===== verification/Memory_Reader.thy ===== *)
theory Memory_Reader
  imports Publication_Evidence Graph_Search
begin

text \<open>
  The read side: \<^verbatim>\<open>GraphQueries\<close> (\<^verbatim>\<open>queries.rs\<close>) as implemented by \<^verbatim>\<open>MemoryReader\<close>
  (\<^verbatim>\<open>crates/chaosbox-store/src/memory_reader.rs\<close>), and the text helpers of the readers
  built on it (\<^verbatim>\<open>crates/chaosbox/src/reader.rs\<close>).

  \<open>lower\<close> stands for \<^verbatim>\<open>str::to_lowercase\<close> (Unicode tables), \<open>summarize\<close> for the analytics
  computed at publication. An \<^verbatim>\<open>i64\<close> limit is an integer. LIKE escaping works on
  characters in the source and on bytes here, which is the same because the two special
  characters are ASCII and never a byte of a longer sequence.
\<close>

section \<open>The reader\<close>

datatype neighborhood_direction = Outgoing | Incoming

record memory_reader =
  mr_builds :: "(string, graph_build) btree"
  mr_published :: "string btset"
  mr_active :: "(string, string) btree"
  mr_evidence :: "(string \<times> string, evidence_row list) btree"
  mr_navigation :: "(string, string + json) btree"

definition memory_reader_new :: memory_reader where
  "memory_reader_new =
     \<lparr>mr_builds = [], mr_published = [], mr_active = [], mr_evidence = [], mr_navigation = []\<rparr>"

definition from_store ::
  "(graph_build \<Rightarrow> (string \<Rightarrow> string option) \<Rightarrow> string + json) \<Rightarrow> memory_store \<Rightarrow> memory_reader" where
  "from_store summarize st =
     \<lparr>mr_builds = ms_builds st, mr_published = bs_of (bt_keys (ms_builds st)),
      mr_active = ms_active st, mr_evidence = ms_sealed st,
      mr_navigation = bt_extend []
        (map (\<lambda>b. (gb_id b, summarize b (edge_class st (gb_id b)))) (bt_values (ms_builds st)))\<rparr>"

definition insert_build ::
  "(graph_build \<Rightarrow> (string \<Rightarrow> string option) \<Rightarrow> string + json) \<Rightarrow> memory_reader \<Rightarrow> graph_build
   \<Rightarrow> memory_reader" where
  "insert_build summarize r b =
     r\<lparr>mr_published := filter (\<lambda>i. i \<noteq> gb_id b) (mr_published r),
       mr_navigation := bt_insert (gb_id b) (summarize b (\<lambda>_. None)) (mr_navigation r),
       mr_builds := bt_insert (gb_id b) b (mr_builds r)\<rparr>"

definition set_active :: "memory_reader \<Rightarrow> string \<Rightarrow> string \<Rightarrow> memory_reader" where
  "set_active r repo i =
     r\<lparr>mr_published :=
         (if (case bt_get (mr_builds r) i of None \<Rightarrow> False | Some b \<Rightarrow> gb_repo b = repo)
          then bs_insert i (mr_published r) else mr_published r),
       mr_active := bt_insert repo i (mr_active r)\<rparr>"

definition attach_evidence :: "memory_reader \<Rightarrow> string \<Rightarrow> evidence_row list \<Rightarrow> memory_reader" where
  "attach_evidence r rel rows =
     r\<lparr>mr_evidence := foldl (\<lambda>m b. bt_insert (gb_id b, rel) rows m) (mr_evidence r)
         (filter (\<lambda>b. bt_contains (gb_edges b) rel) (bt_values (mr_builds r)))\<rparr>"

definition members :: "memory_reader \<Rightarrow> string \<Rightarrow> entity_row list" where
  "members r i =
     (case bt_get (mr_builds r) i of
        None \<Rightarrow> []
      | Some b \<Rightarrow> sort_key (\<lambda>e. (er_qualified_name e, er_entity_id e))
          (map entity_row_of (bt_values (gb_nodes b))))"

definition member_relations :: "memory_reader \<Rightarrow> string \<Rightarrow> rel_row list" where
  "member_relations r i =
     (case bt_get (mr_builds r) i of None \<Rightarrow> [] | Some b \<Rightarrow> map rel_row_of (bt_values (gb_edges b)))"

section \<open>LIKE patterns\<close>

fun unescape_like :: "string \<Rightarrow> string" where
  "unescape_like [] = []"
| "unescape_like (c # cs) =
     (if c = CHR 0x5C
      then (case cs of [] \<Rightarrow> [] | n # rest \<Rightarrow> n # unescape_like rest)
      else if c \<noteq> CHR 0x25 then c # unescape_like cs else unescape_like cs)"

fun escape_like :: "string \<Rightarrow> string" where
  "escape_like [] = []"
| "escape_like (c # cs) =
     (if c = CHR 0x5C \<or> c = CHR 0x25 \<or> c = CHR ''_'' then [CHR 0x5C, c] else [c]) @ escape_like cs"

section \<open>Queries\<close>

text \<open>\<open>expect("generation fits in i64")\<close> panics from \<open>2 ^ 63\<close> on: the outer \<open>None\<close>.\<close>

definition published_build :: "memory_reader \<Rightarrow> string \<Rightarrow> string \<Rightarrow> build_row option option" where
  "published_build r repo i =
     (case bt_get (mr_builds r) i of
        None \<Rightarrow> Some None
      | Some b \<Rightarrow>
          if \<not> (gb_repo b = repo \<and> i \<in> set (mr_published r)) then Some None
          else if 2 ^ 63 \<le> unat (gb_generation b) then None
          else Some (Some
            \<lparr>br_build_id = gb_id b, br_generation = gb_generation b, br_status = ''active'',
             br_snapshots = sort (gb_snapshot_ids b), br_coverage = gb_coverage b,
             br_evidence_sealed =
               (\<forall>rel \<in> set (bt_keys (gb_edges b)). bt_contains (mr_evidence r) (gb_id b, rel))\<rparr>))"

definition active_build :: "memory_reader \<Rightarrow> string \<Rightarrow> build_row option option" where
  "active_build r repo =
     (case bt_get (mr_active r) repo of Some i \<Rightarrow> published_build r repo i | None \<Rightarrow> Some None)"

definition hit_rank :: "(string \<Rightarrow> string) \<Rightarrow> string \<Rightarrow> entity_row \<Rightarrow> nat" where
  "hit_rank lower needle e =
     (let name = lower (er_name e)
      in (if name \<noteq> needle then 1 else 0) + (if \<not> starts_with name needle then 1 else 0))"

definition is_hit :: "(string \<Rightarrow> string) \<Rightarrow> string \<Rightarrow> entity_row \<Rightarrow> bool" where
  "is_hit lower needle e \<longleftrightarrow>
     str_contains (lower (er_name e)) needle \<or> str_contains (lower (er_qualified_name e)) needle"

definition search_entities ::
  "(string \<Rightarrow> string) \<Rightarrow> memory_reader \<Rightarrow> string \<Rightarrow> string \<Rightarrow> int \<Rightarrow> entity_row list" where
  "search_entities lower r i like limit =
     (let needle = lower (unescape_like like)
      in take (nat (max limit 0))
        (sort_key (hit_rank lower needle) (filter (is_hit lower needle) (members r i))))"

definition entity_by_id :: "memory_reader \<Rightarrow> string \<Rightarrow> string \<Rightarrow> entity_row option" where
  "entity_by_id r i e = find (\<lambda>x. er_entity_id x = e) (members r i)"

definition neighbor_counts :: "memory_reader \<Rightarrow> string \<Rightarrow> string \<Rightarrow> string list \<Rightarrow> u64 \<times> u64" where
  "neighbor_counts r i e types =
     (case (if types \<noteq> [] then bt_get (mr_builds r) i else None) of
        None \<Rightarrow> (0, 0)
      | Some b \<Rightarrow>
          foldl (\<lambda>(o', n) rel.
              if relation_type_name (rel_type rel) \<in> set types
              then (o' + of_bool (rel_from rel = e), n + of_bool (rel_to rel = e)) else (o', n))
            (0, 0) (bt_values (gb_edges b)))"

definition neighbors_out :: "memory_reader \<Rightarrow> string \<Rightarrow> string \<Rightarrow> string list \<Rightarrow> rel_row list" where
  "neighbors_out r i e types =
     filter (\<lambda>x. rr_from_entity x = e \<and> rr_rel_type x \<in> set types) (member_relations r i)"

definition neighbors_in :: "memory_reader \<Rightarrow> string \<Rightarrow> string \<Rightarrow> string list \<Rightarrow> rel_row list" where
  "neighbors_in r i e types =
     filter (\<lambda>x. rr_to_entity x = e \<and> rr_rel_type x \<in> set types) (member_relations r i)"

definition anchored :: "neighborhood_direction \<Rightarrow> string \<Rightarrow> string list \<Rightarrow> relation \<Rightarrow> bool" where
  "anchored d e types rel \<longleftrightarrow>
     (case d of Outgoing \<Rightarrow> rel_from rel | Incoming \<Rightarrow> rel_to rel) = e
     \<and> relation_type_name (rel_type rel) \<in> set types"

definition neighbor_page ::
  "memory_reader \<Rightarrow> string \<Rightarrow> string \<Rightarrow> neighborhood_direction \<Rightarrow> string list \<Rightarrow> string option \<Rightarrow> int
   \<Rightarrow> rel_row list" where
  "neighbor_page r i e d types after limit =
     (if limit \<le> 0 \<or> types = [] then []
      else case bt_get (mr_builds r) i of
        None \<Rightarrow> []
      | Some b \<Rightarrow>
          map rel_row_of (take (nat limit)
            (filter (anchored d e types)
              (map snd (filter (\<lambda>(k, _). beyond after k) (gb_edges b))))))"

definition build_entities :: "memory_reader \<Rightarrow> string \<Rightarrow> int \<Rightarrow> entity_row list" where
  "build_entities r i limit =
     (case bt_get (mr_builds r) i of
        None \<Rightarrow> []
      | Some b \<Rightarrow> take (nat (max limit 0))
          (sort_key er_qualified_name (map entity_row_of (bt_values (gb_nodes b)))))"

definition build_relationships :: "memory_reader \<Rightarrow> string \<Rightarrow> int \<Rightarrow> rel_row list" where
  "build_relationships r i limit =
     (case bt_get (mr_builds r) i of
        None \<Rightarrow> []
      | Some b \<Rightarrow> take (nat (max limit 0)) (map rel_row_of (bt_values (gb_edges b))))"

definition other_end :: "string \<Rightarrow> relation \<Rightarrow> string" where
  "other_end e rel = (if rel_from rel = e then rel_to rel else rel_from rel)"

definition adjacent_relationships :: "memory_reader \<Rightarrow> string \<Rightarrow> string \<Rightarrow> int \<Rightarrow> rel_row list" where
  "adjacent_relationships r i e limit =
     (case bt_get (mr_builds r) i of
        None \<Rightarrow> []
      | Some b \<Rightarrow> map rel_row_of (take (nat (max limit 0))
          (sort_key (\<lambda>rel. (other_end e rel, rel_id rel))
            (filter (\<lambda>rel. rel_from rel = e \<or> rel_to rel = e) (bt_values (gb_edges b))))))"

definition navigation_summary :: "memory_reader \<Rightarrow> string \<Rightarrow> store_error + json option" where
  "navigation_summary r i =
     (case bt_get (mr_navigation r) i of
        None \<Rightarrow> Inr None
      | Some (Inr v) \<Rightarrow> Inr (Some v)
      | Some (Inl msg) \<Rightarrow> Inl (SE_Query msg))"

definition evidence_for_limited ::
  "memory_reader \<Rightarrow> string \<Rightarrow> string \<Rightarrow> int \<Rightarrow> store_error + evidence_row list" where
  "evidence_for_limited r i rel limit =
     (if (case bt_get (mr_builds r) i of None \<Rightarrow> True | Some b \<Rightarrow> \<not> bt_contains (gb_edges b) rel)
      then Inr []
      else case bt_get (mr_evidence r) (i, rel) of
        None \<Rightarrow> Inl SE_EvidenceClosureUnavailable
      | Some rows \<Rightarrow> Inr (take (nat (max limit 0)) (sort_key evr_evidence_id rows)))"

definition evidence_for :: "memory_reader \<Rightarrow> string \<Rightarrow> string \<Rightarrow> store_error + evidence_row list" where
  "evidence_for r i rel = evidence_for_limited r i rel (2 ^ 63 - 1)"

section \<open>Search\<close>

lemma unescape_escape: "unescape_like (escape_like q @ rest) = q @ unescape_like rest"
  by (induction q rule: escape_like.induct) auto

lemma unescape_wrapped: "unescape_like (''%'' @ escape_like q @ ''%'') = q"
  by (simp add: unescape_escape)

text \<open>A stable sort by \<open>f\<close> of a list sorted by \<open>k\<close> is sorted by both.\<close>

lemma sorted_lex:
  fixes f :: "'a \<Rightarrow> nat" and k :: "'a \<Rightarrow> 'b::linorder"
  assumes "sorted (map f ys)" and "\<And>c. sorted (map k (filter (\<lambda>y. f y = c) ys))"
  shows "sorted (map (\<lambda>y. (f y, k y)) ys)"
  using assms
proof (induction ys)
  case (Cons y ys)
  have "sorted (map k (filter (\<lambda>z. f z = c) ys))" for c
    using Cons.prems(2) [of c] by (simp split: if_splits)
  moreover have "(f y, k y) \<le> (f z, k z)" if "z \<in> set ys" for z
  proof (cases "f z = f y")
    case True
    with Cons.prems(2) [of "f y"] that have "k y \<le> k z" by simp
    with True show ?thesis by (simp add: less_eq_prod_def)
  next
    case False
    moreover have "f y \<le> f z" using Cons.prems(1) that by simp
    ultimately show ?thesis by (simp add: less_eq_prod_def)
  qed
  ultimately show ?case using Cons.IH Cons.prems(1) by simp
qed simp

lemma stable_sort_lex:
  fixes f :: "'a \<Rightarrow> nat" and k :: "'a \<Rightarrow> 'b::linorder"
  assumes "sorted (map k xs)"
  shows "sorted (map (\<lambda>y. (f y, k y)) (sort_key f xs))"
proof (rule sorted_lex)
  show "sorted (map k (filter (\<lambda>y. f y = c) (sort_key f xs)))" for c
    using sorted_filter [OF assms] by (simp add: sort_key_stable)
qed simp

definition hit_key :: "(string \<Rightarrow> string) \<Rightarrow> string \<Rightarrow> entity_row \<Rightarrow> nat \<times> string \<times> string" where
  "hit_key lower needle e = (hit_rank lower needle e, er_qualified_name e, er_entity_id e)"

text \<open>
  C38. A search with an escaped pattern is a literal substring search: wildcards in the user's
  text match themselves, every hit is a member entity whose lowercased name or qualified
  name contains the lowercased text, the hits are in ascending order of rank (exact name,
  name prefix, other), qualified name and id, there are at most \<open>limit\<close> of them, and the
  members left out match no better than the hits; with fewer than \<open>limit\<close> hits nothing is
  left out.
\<close>

theorem search_entities_literal:
  "\<exists>hits omitted. search_entities lower r i (''%'' @ escape_like q @ ''%'') limit = hits
    \<and> mset (filter (is_hit lower (lower q)) (members r i)) = mset (hits @ omitted)
    \<and> sorted (map (hit_key lower (lower q)) (hits @ omitted))
    \<and> int (length hits) \<le> max limit 0
    \<and> (limit \<le> int (length hits) \<or> omitted = [])"
proof -
  let ?matches = "filter (is_hit lower (lower q)) (members r i)"
  let ?sorted = "sort_key (hit_rank lower (lower q)) ?matches"
  let ?n = "nat (max limit 0)"
  have hits: "search_entities lower r i (''%'' @ escape_like q @ ''%'') limit = take ?n ?sorted"
    unfolding search_entities_def Let_def unescape_wrapped ..
  have "sorted (map (\<lambda>e. (er_qualified_name e, er_entity_id e)) (members r i))"
    by (simp add: members_def split: option.split)
  then have "sorted (map (\<lambda>e. (er_qualified_name e, er_entity_id e)) ?matches)" by (rule sorted_filter)
  then have "sorted (map (hit_key lower (lower q)) (take ?n ?sorted @ drop ?n ?sorted))"
    unfolding hit_key_def append_take_drop_id by (rule stable_sort_lex)
  moreover have "mset ?matches = mset (take ?n ?sorted @ drop ?n ?sorted)" by simp
  moreover have "int (length (take ?n ?sorted)) \<le> max limit 0"
    "limit \<le> int (length (take ?n ?sorted)) \<or> drop ?n ?sorted = []" by auto
  ultimately show ?thesis using hits by blast
qed

section \<open>Neighborhoods\<close>

lemma member_relations_empty: "bt_get (mr_builds r) i = None \<Longrightarrow> member_relations r i = []"
  by (simp add: member_relations_def)

lemma count_fold:
  "foldl (\<lambda>(o', n) rel.
      if relation_type_name (rel_type rel) \<in> T then (o' + of_bool (rel_from rel = e), n + of_bool (rel_to rel = e))
      else (o', n)) (a :: u64, b :: u64) rels
   = (a + of_nat (length (filter (\<lambda>x. rr_from_entity x = e \<and> rr_rel_type x \<in> T) (map rel_row_of rels))),
      b + of_nat (length (filter (\<lambda>x. rr_to_entity x = e \<and> rr_rel_type x \<in> T) (map rel_row_of rels))))"
  by (induction rels arbitrary: a b) (simp_all add: algebra_simps)

text \<open>
  The relationship counts an entity is explained with are the sizes of its outgoing and
  incoming neighborhoods under the same type filter (modulo the width of the counter), self
  edges once in each direction, and an empty filter counts nothing.
\<close>

theorem neighbor_counts_exact:
  "neighbor_counts r i e types =
     (of_nat (length (neighbors_out r i e types)), of_nat (length (neighbors_in r i e types)))
   \<and> neighbors_out r i e [] = [] \<and> neighbors_in r i e [] = []"
  by (auto simp: neighbor_counts_def neighbors_out_def neighbors_in_def member_relations_def
      count_fold split: option.split)

text \<open>A neighborhood query: reader, build, anchor, direction, types.\<close>

type_synonym neighborhood = "memory_reader \<times> string \<times> string \<times> neighborhood_direction \<times> string list"

fun neighborhood_ok :: "neighborhood \<Rightarrow> bool" where
  "neighborhood_ok (r, i, e, d, types) \<longleftrightarrow>
     types \<noteq> [] \<and> (case bt_get (mr_builds r) i of None \<Rightarrow> True | Some b \<Rightarrow> keyed (gb_edges b) rel_id)"

fun neighborhood_rows :: "neighborhood \<Rightarrow> rel_row list" where
  "neighborhood_rows (r, i, e, d, types) =
     (case d of Outgoing \<Rightarrow> neighbors_out r i e types | Incoming \<Rightarrow> neighbors_in r i e types)"

fun neighborhood_page :: "neighborhood \<Rightarrow> string option \<Rightarrow> nat \<Rightarrow> rel_row list" where
  "neighborhood_page (r, i, e, d, types) after limit = neighbor_page r i e d types after (int limit)"

lemma keyed_rows_ascend:
  assumes "keyed m key"
  shows "sorted_wrt (\<lambda>a b. key a < key b) (bt_values m)"
proof -
  have "map key (bt_values m) = map fst m"
    using assms by (auto simp: keyed_def bt_values_def bt_get_iff_in_set)
  moreover have "sorted_wrt (<) (map fst m)" using assms by (simp add: keyed_def bt_ok_def)
  ultimately have "sorted_wrt (<) (map key (bt_values m))" by simp
  then show ?thesis by (simp add: sorted_wrt_map)
qed

lemma neighborhood_rows_anchored:
  "neighborhood_rows (r, i, e, d, types) =
     (case bt_get (mr_builds r) i of None \<Rightarrow> []
      | Some b \<Rightarrow> map rel_row_of (filter (anchored d e types) (bt_values (gb_edges b))))"
  by (cases d) (simp_all add: neighbors_out_def neighbors_in_def member_relations_def filter_map
      comp_def anchored_def [abs_def] split: option.split)

lemma keyed_range:
  assumes "keyed m key"
  shows "map snd (filter (\<lambda>(k, _). beyond after k) m) = filter (\<lambda>v. beyond after (key v)) (bt_values m)"
proof -
  have "\<forall>(k, v) \<in> set m. key v = k" using assms by (auto simp: keyed_def bt_get_iff_in_set)
  then show ?thesis unfolding bt_values_def by (induction m) auto
qed

interpretation neighborhoods: keyset_pages neighborhood_ok rr_rel_id neighborhood_rows neighborhood_page
proof
  fix q :: neighborhood and limit :: nat and after
  assume ok: "neighborhood_ok q"
  obtain r i e d types where q: "q = (r, i, e, d, types)" by (cases q)
  show "sorted_wrt (\<lambda>a b. rr_rel_id a < rr_rel_id b) (neighborhood_rows q)"
  proof (cases "bt_get (mr_builds r) i")
    case (Some b)
    then have "sorted_wrt (\<lambda>a b. rel_id a < rel_id b) (filter (anchored d e types) (bt_values (gb_edges b)))"
      using ok by (intro sorted_wrt_filter keyed_rows_ascend) (simp add: q)
    with Some show ?thesis
      by (simp add: q neighborhood_rows_anchored sorted_wrt_map del: neighborhood_rows.simps)
  qed (simp add: q neighborhood_rows_anchored del: neighborhood_rows.simps)
  show "neighborhood_page q after limit =
      take limit (filter (\<lambda>r. beyond after (rr_rel_id r)) (neighborhood_rows q))" if "0 < limit"
  proof (cases "bt_get (mr_builds r) i")
    case (Some b)
    have "map snd (filter (\<lambda>(k, _). beyond after k) (gb_edges b))
        = filter (\<lambda>v. beyond after (rel_id v)) (bt_values (gb_edges b))"
      using ok Some by (intro keyed_range) (simp add: q)
    then show ?thesis
      using ok that Some
      by (simp add: q neighborhood_rows_anchored neighbor_page_def filter_map comp_def take_map
          conj_commute del: neighborhood_rows.simps)
  qed (use that ok in \<open>simp add: q neighborhood_rows_anchored neighbor_page_def del: neighborhood_rows.simps\<close>)
qed

text \<open>
  Paging through a neighborhood is complete: behind any boundary, the rows still to read
  are the page followed by what remains behind the page's last relationship id, and a page
  shorter than the limit is all that remains; pages are in ascending id order and within
  the limit.
\<close>

theorem neighbor_pages_complete:
  fixes r :: memory_reader and i e :: string and d :: neighborhood_direction and types :: "string list"
    and b :: graph_build and after :: "string option" and limit :: int
  assumes "keyed (gb_edges b) rel_id" and "bt_get (mr_builds r) i = Some b"
    and "types \<noteq> []" and "0 < limit"
  defines "rest \<equiv> \<lambda>a. filter (\<lambda>x. beyond a (rr_rel_id x)) (neighborhood_rows (r, i, e, d, types))"
    and "p \<equiv> neighbor_page r i e d types after limit"
  shows "rest after = p @ (if int (length p) < limit then [] else rest (Some (rr_rel_id (last p))))
    \<and> sorted_wrt (\<lambda>a b. rr_rel_id a < rr_rel_id b) p \<and> int (length p) \<le> limit"
proof -
  let ?q = "(r, i, e, d, types)"
  have ok: "neighborhood_ok ?q" using assms(1-3) by simp
  have p: "p = neighborhood_page ?q after (nat limit)" using assms(4) by (simp add: p_def)
  have len: "int (length p) < limit \<longleftrightarrow> length p < nat limit" using assms(4) by linarith
  have rest: "rest a = neighborhoods.remaining ?q a" for a
    by (simp add: rest_def neighborhoods.remaining_def)
  have pos: "0 < nat limit" using assms(4) by simp
  have "rest after = p @ (if length p < nat limit then [] else rest (Some (rr_rel_id (last p))))"
    unfolding rest p by (rule neighborhoods.page_continues [OF ok pos])
  moreover have "sorted_wrt (\<lambda>a b. rr_rel_id a < rr_rel_id b) p"
    unfolding p by (rule neighborhoods.page_ascends [OF ok pos])
  moreover have "length p \<le> nat limit"
    unfolding p by (rule neighborhoods.page_bounded [OF ok pos])
  ultimately show ?thesis unfolding len using assms(4) by (intro conjI) simp_all
qed

section \<open>Published builds as the readers see them\<close>

lemma from_store_builds [simp]:
  "mr_builds (from_store summarize st) = ms_builds st"
  "mr_evidence (from_store summarize st) = ms_sealed st"
  "mr_active (from_store summarize st) = ms_active st"
  "i \<in> set (mr_published (from_store summarize st)) \<longleftrightarrow> bt_contains (ms_builds st) i"
  by (simp_all add: from_store_def bt_keys_iff)

text \<open>
  C20. A reader over a reachable store serves exactly what was published: a build is visible
  only under its own repository, its header says its evidence is sealed, the evidence of
  each edge is the sealed evidence in id order, and a repository's active header is that of
  the build its active pointer names. Builds of other repositories and unknown ids give no
  header at all.
\<close>

theorem reader_serves_published:
  fixes chunks ops summarize
  defines "st \<equiv> run_store chunks ops" and "R \<equiv> from_store summarize (run_store chunks ops)"
  assumes "get_build st i = Some b" and "keyed (gb_edges b) rel_id" and "unat (gb_generation b) < 2 ^ 63"
  shows "(\<exists>row. published_build R (gb_repo b) i = Some (Some row) \<and> br_build_id row = i
        \<and> br_generation row = gb_generation b \<and> br_evidence_sealed row)
    \<and> (\<forall>repo. repo \<noteq> gb_repo b \<longrightarrow> published_build R repo i = Some None)
    \<and> (\<forall>r \<in> set (bt_values (gb_edges b)). \<exists>rows. sealed_evidence st i (rel_id r) = Inr rows
        \<and> (int (length rows) < 2 ^ 63 \<longrightarrow> evidence_for R i (rel_id r) = Inr (sort_key evr_evidence_id rows)))
    \<and> (\<forall>repo. bt_get (ms_active st) repo = Some i \<longrightarrow> active_build R repo = published_build R (gb_repo b) i)"
proof -
  have inv: "store_inv st" unfolding st_def by (rule run_store_inv)
  have b: "bt_get (ms_builds st) i = Some b" using assms(3) by (simp add: get_build_def)
  then have i: "gb_id b = i" using inv by (simp add: store_inv_def tables_ok_def keyed_def)
  have R: "R = from_store summarize st" by (simp add: R_def st_def)
  have seal: "bt_contains (ms_sealed st) (i, rel_id r)" if "r \<in> set (bt_values (gb_edges b))" for r
    using inv b that by (simp add: store_inv_def published_ok_def)
  have keys: "bt_contains (gb_edges b) k \<longleftrightarrow> (\<exists>r \<in> set (bt_values (gb_edges b)). rel_id r = k)" for k
    by (rule keyed_contains [OF assms(4)])
  have "\<forall>k \<in> set (bt_keys (gb_edges b)). bt_contains (ms_sealed st) (i, k)"
    using seal keys by (auto simp: bt_keys_iff)
  then have head: "\<exists>row. published_build R (gb_repo b) i = Some (Some row) \<and> br_build_id row = i
      \<and> br_generation row = gb_generation b \<and> br_evidence_sealed row"
    using b i assms(5) by (simp add: R published_build_def bt_contains_def)
  have foreign: "published_build R repo i = Some None" if "repo \<noteq> gb_repo b" for repo
    using b that by (simp add: R published_build_def)
  have ev: "\<exists>rows. sealed_evidence st i (rel_id r) = Inr rows
      \<and> (int (length rows) < 2 ^ 63 \<longrightarrow> evidence_for R i (rel_id r) = Inr (sort_key evr_evidence_id rows))"
    if r: "r \<in> set (bt_values (gb_edges b))" for r
  proof -
    obtain rows where rows: "bt_get (ms_sealed st) (i, rel_id r) = Some rows"
      using seal [OF r] by (auto simp: bt_contains_iff_Some)
    have "bt_contains (gb_edges b) (rel_id r)" using keys r by blast
    with rows b show ?thesis
      by (auto simp: R sealed_evidence_def evidence_for_def evidence_for_limited_def)
  qed
  have "active_build R repo = published_build R (gb_repo b) i" if act: "bt_get (ms_active st) repo = Some i" for repo
  proof -
    from inv act obtain g where "bt_get (ms_builds st) i = Some g" "gb_repo g = repo"
      by (rule active_built)
    with b act show ?thesis by (simp add: R active_build_def)
  qed
  with head foreign ev show ?thesis by blast
qed

end
