(* ===== verification/Path_Reader.thy ===== *)
theory Path_Reader
  imports Memory_Reader
begin

text \<open>
  The bounded path search of the readers: \<^verbatim>\<open>crates/chaosbox/src/reader_path.rs\<close>, with
  \<^verbatim>\<open>bounded_json\<close> of \<^verbatim>\<open>read_view/mod.rs\<close> and the request validation. It reads one
  publication page by page through a backend that may fail, under budgets for visits, rows,
  logical queries, bytes and time.

  The clock is the backend record's \<open>pk_late\<close>: whether the deadline has passed when the
  check is made with that many queries left. JSON is the sequence of buffers the serializer
  writes. The parent map's read-back is \<open>walk_back\<close>, whose \<open>None\<close> is a loop that does not
  end.
\<close>

section \<open>Budgets\<close>

datatype path_error =
    PE_Exhausted string
  | PE_Deadline
  | PE_PageLimit
  | PE_BadPage
  | PE_BadEndpoint
  | PE_BadRequest
  | PE_BadHops
  | PE_Backend store_error
  | PE_NoActiveBuild string

record path_budget =
  wk_visits :: nat
  wk_rows :: nat
  wk_queries :: nat
  wk_bytes :: nat

definition PAGE_SIZE :: nat where
  "PAGE_SIZE = 200"

definition default_budget :: path_budget where
  "default_budget =
     \<lparr>wk_visits = 100000, wk_rows = 20000, wk_queries = 500, wk_bytes = 8 * 1024 * 1024\<rparr>"

fun bounded_json_from :: "nat \<Rightarrow> string \<Rightarrow> string list \<Rightarrow> string option" where
  "bounded_json_from cap buffer [] = Some buffer"
| "bounded_json_from cap buffer (b # bs) =
     (if cap - length buffer < length b then None else bounded_json_from cap (buffer @ b) bs)"

definition bounded_json :: "nat \<Rightarrow> string list \<Rightarrow> string option" where
  "bounded_json cap bufs = bounded_json_from cap [] bufs"

lemma bounded_json_iff:
  "bounded_json cap bufs = (if length (concat bufs) \<le> cap then Some (concat bufs) else None)"
proof -
  have "length buffer \<le> cap \<Longrightarrow> bounded_json_from cap buffer bufs =
      (if length (buffer @ concat bufs) \<le> cap then Some (buffer @ concat bufs) else None)" for buffer
    by (induction bufs arbitrary: buffer) auto
  from this [of "[]"] show ?thesis by (simp add: bounded_json_def)
qed

definition take_bytes :: "path_budget \<Rightarrow> string list \<Rightarrow> path_error + path_budget" where
  "take_bytes w bufs =
     (case bounded_json (wk_bytes w) bufs of
        None \<Rightarrow> Inl (PE_Exhausted ''bytes'')
      | Some bytes \<Rightarrow> Inr (w\<lparr>wk_bytes := wk_bytes w - length bytes\<rparr>))"

record path_backend =
  pk_entity :: "string \<Rightarrow> store_error + entity_row option"
  pk_page :: "string \<Rightarrow> neighborhood_direction \<Rightarrow> string option \<Rightarrow> nat \<Rightarrow> store_error + rel_row list"
  pk_entity_json :: "entity_row option \<Rightarrow> string list"
  pk_page_json :: "rel_row list \<Rightarrow> string list"
  pk_late :: "nat \<Rightarrow> bool"
  pk_late_end :: bool

definition start_query :: "(nat \<Rightarrow> bool) \<Rightarrow> path_budget \<Rightarrow> path_error + path_budget" where
  "start_query late w =
     (if late (wk_queries w) then Inl PE_Deadline
      else if wk_queries w = 0 then Inl (PE_Exhausted ''queries'')
      else Inr (w\<lparr>wk_queries := wk_queries w - 1\<rparr>))"

section \<open>Validation\<close>

definition valid_id :: "string \<Rightarrow> bool" where
  "valid_id i \<longleftrightarrow> \<not> blank i \<and> length i \<le> 256 \<and> \<not> has_control i"

definition all_relation_types :: "string list" where
  "all_relation_types =
     [''contains'', ''defines'', ''imports'', ''references'', ''calls'', ''implements'', ''inherits'',
      ''links_to'', ''mentions'']"

record path_query =
  pq_repo :: string
  pq_from :: string
  pq_to :: string
  pq_max_hops :: nat

definition PATH_MAX_HOPS :: nat where
  "PATH_MAX_HOPS = 8"

definition path_prepare :: "path_query \<Rightarrow> path_error + path_query" where
  "path_prepare q =
     (if \<not> list_all valid_id [pq_repo q, pq_from q, pq_to q] then Inl PE_BadRequest
      else if PATH_MAX_HOPS < pq_max_hops q then Inl PE_BadHops
      else Inr q)"

section \<open>The search\<close>

definition row_ends :: "neighborhood_direction \<Rightarrow> rel_row \<Rightarrow> string \<times> string" where
  "row_ends d row = (case d of
      Outgoing \<Rightarrow> (rr_from_entity row, rr_to_entity row)
    | Incoming \<Rightarrow> (rr_to_entity row, rr_from_entity row))"

type_synonym parents = "(string, string) btree"
type_synonym frontier = "string btset \<times> parents \<times> (string \<times> nat) list"

text \<open>The rows of one page: \<open>Inl\<close> inside \<open>Inr\<close> when the target is reached.\<close>

fun path_rows ::
  "neighborhood_direction \<Rightarrow> string \<Rightarrow> nat \<Rightarrow> string \<Rightarrow> nat \<Rightarrow> rel_row list \<Rightarrow> string option \<Rightarrow> string btset
   \<Rightarrow> parents \<Rightarrow> (string \<times> nat) list \<Rightarrow> path_error + (parents + (string option \<times> frontier))" where
  "path_rows d cur depth to visits [] after seen prev q = Inr (Inr (after, seen, prev, q))"
| "path_rows d cur depth to visits (row # rows) after seen prev q =
     (let anchor = fst (row_ends d row); nxt = snd (row_ends d row) in
      if anchor \<noteq> cur \<or> \<not> valid_id nxt
        \<or> (case after of None \<Rightarrow> False | Some key \<Rightarrow> rr_rel_id row \<le> key)
      then Inl PE_BadPage
      else if nxt \<in> set seen
      then path_rows d cur depth to visits rows (Some (rr_rel_id row)) seen prev q
      else if visits \<le> length seen then Inl (PE_Exhausted ''visits'')
      else if nxt = to then Inr (Inl (bt_insert nxt cur prev))
      else path_rows d cur depth to visits rows (Some (rr_rel_id row)) (bs_insert nxt seen)
             (bt_insert nxt cur prev) (q @ [(nxt, depth + 1)]))"

text \<open>One page: query, size check, row budget, byte budget.\<close>

definition fetch_page ::
  "path_backend \<Rightarrow> neighborhood_direction \<Rightarrow> string \<Rightarrow> string option \<Rightarrow> nat \<Rightarrow> path_budget
   \<Rightarrow> path_error + rel_row list \<times> path_budget" where
  "fetch_page B d cur after limit w =
     (case start_query (pk_late B) w of
        Inl e \<Rightarrow> Inl e
      | Inr w1 \<Rightarrow>
          (case pk_page B cur d after limit of
             Inl e \<Rightarrow> Inl (PE_Backend e)
           | Inr rows \<Rightarrow>
               if limit < length rows then Inl PE_PageLimit
               else if wk_rows w1 < length rows then Inl (PE_Exhausted ''rows'')
               else (case take_bytes (w1\<lparr>wk_rows := wk_rows w1 - length rows\<rparr>) (pk_page_json B rows) of
                  Inl e \<Rightarrow> Inl e
                | Inr w2 \<Rightarrow> Inr (rows, w2))))"

lemma fetch_page_queries: "fetch_page B d cur after limit w = Inr (rows, w') \<Longrightarrow> wk_queries w' < wk_queries w"
  by (auto simp: fetch_page_def start_query_def take_bytes_def split: sum.splits if_splits option.splits)

text \<open>All pages of one direction.\<close>

function path_pages ::
  "path_backend \<Rightarrow> neighborhood_direction \<Rightarrow> string \<Rightarrow> nat \<Rightarrow> string \<Rightarrow> path_budget \<Rightarrow> string option \<Rightarrow> string btset
   \<Rightarrow> parents \<Rightarrow> (string \<times> nat) list \<Rightarrow> path_error + (parents + (path_budget \<times> frontier))" where
  "path_pages B d cur depth to w after seen prev q =
     (let limit = min PAGE_SIZE (wk_rows w + 1) in
      case fetch_page B d cur after limit w of
        Inl e \<Rightarrow> Inl e
      | Inr (rows, w') \<Rightarrow>
          (case path_rows d cur depth to (wk_visits w') rows after seen prev q of
             Inl e \<Rightarrow> Inl e
           | Inr (Inl prev') \<Rightarrow> Inr (Inl prev')
           | Inr (Inr (after', seen', prev', q')) \<Rightarrow>
               if length rows < limit then Inr (Inr (w', seen', prev', q'))
               else path_pages B d cur depth to w' after' seen' prev' q'))"
  by pat_completeness auto
termination
  by (relation "measure (\<lambda>(B, d, cur, depth, to, w, rest). wk_queries w)")
    (auto dest: fetch_page_queries)

declare path_pages.simps [simp del]

text \<open>How a direction ends without an error: a hit, a last page, or another page.\<close>

lemma path_pages_cases [consumes 1, case_names hit final more]:
  assumes "path_pages B d cur depth to w after seen prev q = Inr r"
  obtains (hit) rows w1 p where
      "fetch_page B d cur after (min PAGE_SIZE (wk_rows w + 1)) w = Inr (rows, w1)"
      "path_rows d cur depth to (wk_visits w1) rows after seen prev q = Inr (Inl p)" "r = Inl p"
  | (final) rows w1 a s p q' where
      "fetch_page B d cur after (min PAGE_SIZE (wk_rows w + 1)) w = Inr (rows, w1)"
      "path_rows d cur depth to (wk_visits w1) rows after seen prev q = Inr (Inr (a, s, p, q'))"
      "length rows < min PAGE_SIZE (wk_rows w + 1)" "r = Inr (w1, s, p, q')"
  | (more) rows w1 a s p q' where
      "fetch_page B d cur after (min PAGE_SIZE (wk_rows w + 1)) w = Inr (rows, w1)"
      "path_rows d cur depth to (wk_visits w1) rows after seen prev q = Inr (Inr (a, s, p, q'))"
      "\<not> length rows < min PAGE_SIZE (wk_rows w + 1)"
      "path_pages B d cur depth to w1 a s p q' = Inr r"
proof -
  let ?limit = "min PAGE_SIZE (wk_rows w + 1)"
  obtain rows w1 where f: "fetch_page B d cur after ?limit w = Inr (rows, w1)"
    using assms by (subst (asm) path_pages.simps) (auto simp: Let_def split: sum.splits)
  show thesis
  proof (cases "path_rows d cur depth to (wk_visits w1) rows after seen prev q")
    case (Inl e)
    with assms f show thesis by (subst (asm) path_pages.simps) (simp add: Let_def)
  next
    case (Inr out)
    show thesis
    proof (cases out)
      case (Inl p)
      with assms f Inr have "r = Inl p" by (subst (asm) path_pages.simps) (simp add: Let_def)
      with f Inr Inl show thesis by (intro hit) simp_all
    next
      case (Inr fr)
      obtain a s p q' where fr: "fr = (a, s, p, q')" by (cases fr)
      note rows = \<open>path_rows d cur depth to (wk_visits w1) rows after seen prev q = Inr out\<close> [unfolded Inr fr]
      show thesis
      proof (cases "length rows < ?limit")
        case True
        with assms f rows have "r = Inr (w1, s, p, q')"
          by (subst (asm) path_pages.simps) (simp add: Let_def)
        with f rows True show thesis by (intro final)
      next
        case False
        with assms f rows have "path_pages B d cur depth to w1 a s p q' = Inr r"
          by (subst (asm) path_pages.simps) (simp add: Let_def split: if_splits)
        with f rows False show thesis by (intro more)
      qed
    qed
  qed
qed

lemma path_pages_queries:
  "path_pages B d cur depth to w after seen prev q = Inr (Inr (w', f)) \<Longrightarrow> wk_queries w' < wk_queries w"
proof (induction "wk_queries w" arbitrary: w after seen prev q rule: less_induct)
  case less
  from less.prems show ?case
  proof (cases rule: path_pages_cases)
    case (final rows w1 a s p q')
    then show ?thesis using fetch_page_queries by auto
  next
    case (more rows w1 a s p q')
    from fetch_page_queries [OF more(1)] less.hyps [OF _ more(4)] show ?thesis by simp
  qed simp
qed

text \<open>The queue.\<close>

function path_queue ::
  "path_backend \<Rightarrow> string \<Rightarrow> nat \<Rightarrow> path_budget \<Rightarrow> string btset \<Rightarrow> parents \<Rightarrow> (string \<times> nat) list
   \<Rightarrow> path_error + parents option" where
  "path_queue B to max_hops w seen prev [] = Inr None"
| "path_queue B to max_hops w seen prev ((cur, depth) # q) =
     (if max_hops \<le> depth then path_queue B to max_hops w seen prev q
      else case path_pages B Outgoing cur depth to w None seen prev q of
        Inl e \<Rightarrow> Inl e
      | Inr (Inl prev') \<Rightarrow> Inr (Some prev')
      | Inr (Inr (w1, seen1, prev1, q1)) \<Rightarrow>
          (case path_pages B Incoming cur depth to w1 None seen1 prev1 q1 of
             Inl e \<Rightarrow> Inl e
           | Inr (Inl prev') \<Rightarrow> Inr (Some prev')
           | Inr (Inr (w2, seen2, prev2, q2)) \<Rightarrow> path_queue B to max_hops w2 seen2 prev2 q2))"
  by pat_completeness auto
termination
  by (relation "measures [\<lambda>(B, to, m, w, seen, prev, q). wk_queries w, \<lambda>(B, to, m, w, seen, prev, q). length q]")
    (auto dest!: path_pages_queries)

text \<open>One endpoint lookup: the entity must be a member of the build.\<close>

definition fetch_entity :: "path_backend \<Rightarrow> string \<Rightarrow> path_budget \<Rightarrow> path_error + bool \<times> path_budget" where
  "fetch_entity B i w =
     (case start_query (pk_late B) w of
        Inl e \<Rightarrow> Inl e
      | Inr w1 \<Rightarrow>
          (case pk_entity B i of
             Inl e \<Rightarrow> Inl (PE_Backend e)
           | Inr row \<Rightarrow>
               (case take_bytes w1 (pk_entity_json B row) of
                  Inl e \<Rightarrow> Inl e
                | Inr w2 \<Rightarrow> Inr (row \<noteq> None, w2))))"

definition path_inner ::
  "path_backend \<Rightarrow> string \<Rightarrow> string \<Rightarrow> nat \<Rightarrow> path_budget \<Rightarrow> (path_error + string list option) option" where
  "path_inner B f t max_hops w =
     (if wk_visits w = 0 then Some (Inl (PE_Exhausted ''visits''))
      else case fetch_entity B f w of
        Inl e \<Rightarrow> Some (Inl e)
      | Inr (False, _) \<Rightarrow> Some (Inr None)
      | Inr (True, w1) \<Rightarrow>
          if f = t then Some (Inr (Some [f]))
          else (case fetch_entity B t w1 of
             Inl e \<Rightarrow> Some (Inl e)
           | Inr (False, _) \<Rightarrow> Some (Inr None)
           | Inr (True, w2) \<Rightarrow>
               (case path_queue B t max_hops w2 [f] [] [(f, 0)] of
                  Inl e \<Rightarrow> Some (Inl e)
                | Inr None \<Rightarrow> Some (Inr None)
                | Inr (Some prev) \<Rightarrow> map_option (\<lambda>p. Inr (Some p)) (walk_back (bt_get prev) t [t]))))"

definition path_with_budget ::
  "path_backend \<Rightarrow> string \<Rightarrow> string \<Rightarrow> nat \<Rightarrow> path_budget \<Rightarrow> (path_error + string list option) option" where
  "path_with_budget B f t max_hops w =
     (if \<not> list_all valid_id [f, t] then Some (Inl PE_BadEndpoint)
      else case path_inner B f t max_hops w of
        None \<Rightarrow> None
      | Some r \<Rightarrow> Some (if pk_late_end B then Inl PE_Deadline else r))"

text \<open>The prepared request: acquisition and pinning spend a query each.\<close>

record path_handle =
  ph_active :: "string \<Rightarrow> store_error + build_row option"
  ph_build_json :: "build_row option \<Rightarrow> string list"
  ph_reader :: "string \<Rightarrow> path_backend"

definition path_read ::
  "(nat \<Rightarrow> bool) \<Rightarrow> bool \<Rightarrow> path_error + path_handle \<Rightarrow> path_query \<Rightarrow> path_budget
   \<Rightarrow> (path_error + string \<times> string \<times> string list option) option" where
  "path_read late late_end acquire q w =
     map_option (\<lambda>r. if late_end then Inl PE_Deadline else r)
       (case start_query late w of
          Inl e \<Rightarrow> Some (Inl e)
        | Inr w1 \<Rightarrow>
            (case acquire of
               Inl e \<Rightarrow> Some (Inl e)
             | Inr h \<Rightarrow>
                 (case start_query late w1 of
                    Inl e \<Rightarrow> Some (Inl e)
                  | Inr w2 \<Rightarrow>
                      (case ph_active h (pq_repo q) of
                         Inl e \<Rightarrow> Some (Inl (PE_Backend e))
                       | Inr build \<Rightarrow>
                           (case take_bytes w2 (ph_build_json h build) of
                              Inl e \<Rightarrow> Some (Inl e)
                            | Inr w3 \<Rightarrow>
                                (case build of
                                   None \<Rightarrow> Some (Inl (PE_NoActiveBuild (pq_repo q)))
                                 | Some b \<Rightarrow>
                                     map_option (map_sum id (\<lambda>p. (pq_from q, pq_to q, p)))
                                       (path_inner (ph_reader h (br_build_id b)) (pq_from q) (pq_to q)
                                         (pq_max_hops q) w3)))))))"

section \<open>What the search relies on, and what it then gives\<close>

text \<open>
  The laws of a backend, under a condition \<open>ok\<close> on the publication it reads: a page that is
  returned is the page of a keyset-paged neighborhood, and an entity lookup that succeeds
  tells membership. It may fail whenever it likes.
\<close>

locale path_backend_laws =
  keyset_pages "\<lambda>_. ok" rr_rel_id rows page
  for ok :: bool and rows :: "neighborhood_direction \<times> string \<Rightarrow> rel_row list"
    and page :: "neighborhood_direction \<times> string \<Rightarrow> string option \<Rightarrow> nat \<Rightarrow> rel_row list" +
  fixes B :: path_backend
    and member :: "string \<Rightarrow> bool"
  assumes page_law: "ok \<Longrightarrow> pk_page B u d after limit = Inr p \<Longrightarrow> 0 < limit \<Longrightarrow> p = page (d, u) after limit"
    and entity_law: "ok \<Longrightarrow> pk_entity B u = Inr x \<Longrightarrow> x \<noteq> None \<longleftrightarrow> member u"
begin

definition ends :: "neighborhood_direction \<Rightarrow> rel_row list \<Rightarrow> string set" where
  "ends d rs = (\<lambda>r. snd (row_ends d r)) ` set rs"

definition nb :: "string \<Rightarrow> string list" where
  "nb u = map (\<lambda>r. snd (row_ends Outgoing r)) (rows (Outgoing, u))
    @ map (\<lambda>r. snd (row_ends Incoming r)) (rows (Incoming, u))"

definition linked :: "string \<Rightarrow> string \<Rightarrow> bool" where
  "linked u v \<longleftrightarrow> v \<in> ends Outgoing (rows (Outgoing, u)) \<union> ends Incoming (rows (Incoming, u))"

lemma nb_is_linked: "v \<in> set (nb u) \<longleftrightarrow> linked u v"
  by (auto simp: nb_def linked_def ends_def)

sublocale walk: adjacency_search nb linked src bound for src bound
  by unfold_locales (rule nb_is_linked)

definition target_hit :: "string \<Rightarrow> nat \<Rightarrow> string \<Rightarrow> parents \<Rightarrow> bool" where
  "target_hit f m t prev \<longleftrightarrow> (\<exists>S. t \<in> S \<and> walk.tree_inv f S (bt_get prev) \<and> walk.conn f t \<and> walk.depth f t \<le> m)"

lemma bt_get_empty: "bt_get [] = (\<lambda>_. None)"
  by (rule ext) simp

lemma bt_get_insert_upd: "bt_get (bt_insert k v m) = (bt_get m)(k \<mapsto> v)"
  by (auto simp: fun_eq_iff)

lemma path_rows_mid:
  assumes "walk.mid_inv f m cur depth (ends d rs \<union> rest) (set seen) q"
    and "walk.tree_inv f (set seen) (bt_get prev)" and "t \<notin> set seen"
    and "path_rows d cur depth t visits rs after seen prev q = Inr out"
  shows "case out of
      Inl prev' \<Rightarrow> target_hit f m t prev'
    | Inr (after', seen', prev', q') \<Rightarrow>
        walk.mid_inv f m cur depth rest (set seen') q' \<and> walk.tree_inv f (set seen') (bt_get prev')
        \<and> t \<notin> set seen' \<and> after' = (if rs = [] then after else Some (rr_rel_id (last rs)))"
  using assms
proof (induction rs arbitrary: after seen prev q)
  case Nil
  then show ?case by (auto simp: ends_def)
next
  case (Cons row rs)
  define nxt where "nxt = snd (row_ends d row)"
  note inv = Cons.prems(1) and tree = Cons.prems(2) and new = Cons.prems(3)
  have rest: "ends d (row # rs) \<union> rest = insert nxt (ends d rs \<union> rest)"
    by (auto simp: ends_def nxt_def)
  have link: "ends d rs \<union> rest \<subseteq> Collect (linked cur)"
    using inv rest by (auto simp: walk.mid_inv_def)
  have sub: "insert nxt (ends d rs \<union> rest) - {nxt} \<subseteq> ends d rs \<union> rest" by auto
  note run = Cons.prems(4) [simplified, folded nxt_def]
  show ?case
  proof (cases "nxt \<in> set seen")
    case True
    have "walk.mid_inv f m cur depth (ends d rs \<union> rest) (set seen) q"
      using walk.mid_widen [OF walk.mid_see [OF inv [unfolded rest] True] sub link] .
    moreover have "path_rows d cur depth t visits rs (Some (rr_rel_id row)) seen prev q = Inr out"
      using run True by (auto simp: Let_def split: if_splits)
    ultimately show ?thesis using Cons.IH [OF _ tree new] by (fastforce split: sum.splits prod.splits)
  next
    case False
    note found = walk.mid_discover_depth [OF inv [unfolded rest] insertI1 False]
    have cur: "cur \<in> set seen" "depth = walk.depth f cur" "depth < m"
      using inv by (auto simp: walk.mid_inv_def)
    have tree': "walk.tree_inv f (set (bs_insert nxt seen)) (bt_get (bt_insert nxt cur prev))"
      using walk.tree_discover [OF tree cur(1) found(1) False] found(3) cur(2)
      by (simp add: bt_get_insert_upd)
    show ?thesis
    proof (cases "nxt = t")
      case True
      then have "out = Inl (bt_insert nxt cur prev)"
        using run False by (auto simp: Let_def split: if_splits)
      moreover have "target_hit f m t (bt_insert nxt cur prev)"
        unfolding target_hit_def using tree' found(2,3) cur(3) True
        by (intro exI [of _ "set (bs_insert nxt seen)"]) auto
      ultimately show ?thesis by simp
    next
      case nt: False
      have "walk.mid_inv f m cur depth (ends d rs \<union> rest) (set (bs_insert nxt seen)) (q @ [(nxt, depth + 1)])"
        using walk.mid_widen [OF walk.mid_discover [OF inv [unfolded rest] insertI1 False] sub link] by simp
      moreover have "path_rows d cur depth t visits rs (Some (rr_rel_id row)) (bs_insert nxt seen)
          (bt_insert nxt cur prev) (q @ [(nxt, depth + 1)]) = Inr out"
        using run False nt by (auto simp: Let_def split: if_splits)
      moreover have "t \<notin> set (bs_insert nxt seen)" using new nt by simp
      ultimately show ?thesis
        using Cons.IH [OF _ tree'] by (fastforce split: sum.splits prod.splits)
    qed
  qed
qed

lemma fetch_page_rows:
  "ok \<Longrightarrow> fetch_page B d cur after limit w = Inr (rs, w') \<Longrightarrow> 0 < limit \<Longrightarrow> rs = page (d, cur) after limit"
  using page_law by (auto simp: fetch_page_def split: sum.splits if_splits)

lemma ends_append: "ends d (xs @ ys) = ends d xs \<union> ends d ys" and ends_Nil [simp]: "ends d [] = {}"
  by (auto simp: ends_def)

lemma path_pages_mid:
  assumes ok and "walk.mid_inv f m cur depth (ends d (remaining (d, cur) after) \<union> rest) (set seen) q"
    and "walk.tree_inv f (set seen) (bt_get prev)" and "t \<notin> set seen"
    and "path_pages B d cur depth t w after seen prev q = Inr out"
  shows "case out of
      Inl prev' \<Rightarrow> target_hit f m t prev'
    | Inr (w', seen', prev', q') \<Rightarrow>
        walk.mid_inv f m cur depth rest (set seen') q' \<and> walk.tree_inv f (set seen') (bt_get prev')
        \<and> t \<notin> set seen'"
  using assms(2-)
proof (induction "wk_queries w" arbitrary: w after seen prev q rule: less_induct)
  case less
  note inv = less.prems(1) and tree = less.prems(2) and new = less.prems(3)
  let ?limit = "min PAGE_SIZE (wk_rows w + 1)"
  have pos: "0 < ?limit" by (simp add: PAGE_SIZE_def)
  note continues = page_continues [where q = "(d, cur)" and limit = ?limit and after = after, OF assms(1) pos]
  from less.prems(4) show ?case
  proof (cases rule: path_pages_cases)
    case (hit rows w1 p)
    have rows: "rows = page (d, cur) after ?limit" by (rule fetch_page_rows [OF assms(1) hit(1) pos])
    have "ends d (remaining (d, cur) after) \<union> rest = ends d rows
        \<union> (ends d (if length rows < ?limit then [] else remaining (d, cur) (Some (rr_rel_id (last rows)))) \<union> rest)"
      by (subst continues) (simp only: rows ends_append Un_assoc)
    from path_rows_mid [OF inv [unfolded this] tree new hit(2)] hit(3) show ?thesis by simp
  next
    case (final rows w1 a s p q')
    have rows: "rows = page (d, cur) after ?limit" by (rule fetch_page_rows [OF assms(1) final(1) pos])
    have "remaining (d, cur) after = rows"
      using continues final(3) by (simp only: rows [symmetric] if_True append_Nil2)
    from path_rows_mid [OF inv [unfolded this] tree new final(2)] final(4) show ?thesis by simp
  next
    case (more rows w1 a s p q')
    have rows: "rows = page (d, cur) after ?limit" by (rule fetch_page_rows [OF assms(1) more(1) pos])
    have "remaining (d, cur) after = rows @ remaining (d, cur) (Some (rr_rel_id (last rows)))"
      using continues more(3) by (simp only: rows [symmetric] if_False)
    then have split: "ends d (remaining (d, cur) after) \<union> rest =
        ends d rows \<union> (ends d (remaining (d, cur) (Some (rr_rel_id (last rows)))) \<union> rest)"
      by (simp only: ends_append Un_assoc)
    have "rows \<noteq> []" using more(3) pos by auto
    with path_rows_mid [OF inv [unfolded split] tree new more(2)]
    have next_page: "walk.mid_inv f m cur depth (ends d (remaining (d, cur) a) \<union> rest) (set s) q'"
      "walk.tree_inv f (set s) (bt_get p)" "t \<notin> set s" by simp_all
    show ?thesis
      by (rule less.hyps [OF fetch_page_queries [OF more(1)] next_page more(4)])
  qed
qed

lemma path_queue_done:
  assumes ok and "walk.level_inv f m (set seen) q"
    and "walk.tree_inv f (set seen) (bt_get prev)" and "t \<notin> set seen"
    and "path_queue B t m w seen prev q = Inr out"
  shows "case out of
      None \<Rightarrow> \<exists>S. walk.level_inv f m S [] \<and> t \<notin> S
    | Some prev' \<Rightarrow> target_hit f m t prev'"
  using assms(2-)
proof (induction B0 \<equiv> B t m w seen prev q rule: path_queue.induct)
  case (1 t m w seen prev)
  then show ?case by auto
next
  case (2 t m w seen prev cur depth q)
  note inv = 2(3) and tree = 2(4) and new = 2(5) and run = 2(6)
  show ?case
  proof (cases "m \<le> depth")
    case True
    with 2(1) [OF True walk.level_skip [OF inv True] tree new] run show ?thesis by simp
  next
    case False
    have all: "set (nb cur) = ends Outgoing (remaining (Outgoing, cur) None)
        \<union> ends Incoming (remaining (Incoming, cur) None)"
      by (auto simp: nb_def ends_def)
    have mid: "walk.mid_inv f m cur depth (ends Outgoing (remaining (Outgoing, cur) None)
        \<union> ends Incoming (remaining (Incoming, cur) None)) (set seen) q"
      using walk.level_open [OF inv] False all by simp
    obtain out1 where out1: "path_pages B Outgoing cur depth t w None seen prev q = Inr out1"
      using run False by (auto split: sum.splits)
    show ?thesis
    proof (cases out1)
      case (Inl p)
      with path_pages_mid [OF assms(1) mid tree new out1] run False out1 show ?thesis by auto
    next
      case (Inr fr)
      obtain w1 s1 p1 q1 where fr: "fr = (w1, s1, p1, q1)" by (cases fr)
      note out1' = out1 [unfolded Inr fr]
      from path_pages_mid [OF assms(1) mid tree new out1']
      have mid1: "walk.mid_inv f m cur depth (ends Incoming (remaining (Incoming, cur) None) \<union> {}) (set s1) q1"
        and tree1: "walk.tree_inv f (set s1) (bt_get p1)" and new1: "t \<notin> set s1" by simp_all
      obtain out2 where out2: "path_pages B Incoming cur depth t w1 None s1 p1 q1 = Inr out2"
        using run False out1' by (auto split: sum.splits)
      show ?thesis
      proof (cases out2)
        case (Inl p)
        with path_pages_mid [OF assms(1) mid1 tree1 new1 out2] run False out1' out2 show ?thesis by auto
      next
        case (Inr fr2)
        obtain w2 s2 p2 q2 where fr2: "fr2 = (w2, s2, p2, q2)" by (cases fr2)
        note out2' = out2 [unfolded Inr fr2]
        from path_pages_mid [OF assms(1) mid1 tree1 new1 out2']
        have mid2: "walk.mid_inv f m cur depth {} (set s2) q2"
          and tree2: "walk.tree_inv f (set s2) (bt_get p2)" and new2: "t \<notin> set s2" by simp_all
        have "path_queue B t m w2 s2 p2 q2 = Inr out" using run False out1' out2' by simp
        from 2(2) [OF False out1' refl refl refl refl out2' refl refl refl refl walk.mid_close [OF mid2] tree2 new2 this]
        show ?thesis by simp
      qed
    qed
  qed
qed

lemma fetch_entity_member: "ok \<Longrightarrow> fetch_entity B i w = Inr (found, w') \<Longrightarrow> found \<longleftrightarrow> member i"
  using entity_law by (auto simp: fetch_entity_def split: sum.splits)

text \<open>What an answer means: a shortest route, or that there is none to find.\<close>

definition answer_right :: "string \<Rightarrow> string \<Rightarrow> nat \<Rightarrow> string list option \<Rightarrow> bool" where
  "answer_right f t m res \<longleftrightarrow>
     (case res of
        None \<Rightarrow> \<not> member f \<or> \<not> member t \<or> \<not> (\<exists>p. is_route linked f t p \<and> length p \<le> Suc m)
      | Some p \<Rightarrow> member f \<and> member t \<and> is_route linked f t p \<and> length p \<le> Suc m
          \<and> (\<forall>p'. is_route linked f t p' \<longrightarrow> length p \<le> length p'))"

lemma path_inner_right:
  assumes ok
  shows "\<exists>r. path_inner B f t m w = Some r \<and> (\<forall>res. r = Inr res \<longrightarrow> answer_right f t m res)"
proof (cases "wk_visits w = 0 \<or> isl (fetch_entity B f w)")
  case True
  then show ?thesis by (auto simp: path_inner_def split: sum.splits)
next
  case False
  then obtain found w1 where f: "fetch_entity B f w = Inr (found, w1)" by (cases "fetch_entity B f w") auto
  note memf = fetch_entity_member [OF assms f]
  have route1: "is_route linked f f [f]" and shortest: "\<And>p'. is_route linked f t p' \<Longrightarrow> 1 \<le> length p'"
    by (auto simp: is_route_def Suc_le_eq)
  show ?thesis
  proof (cases "found \<and> f \<noteq> t \<and> \<not> isl (fetch_entity B t w1)")
    case False
    with f \<open>\<not> (wk_visits w = 0 \<or> _)\<close> memf route1 shortest show ?thesis
      by (auto simp: path_inner_def answer_right_def split: sum.splits bool.splits prod.splits)
  next
    case True
    then obtain found2 w2 where t: "fetch_entity B t w1 = Inr (found2, w2)" and ft: "f \<noteq> t" and fnd: found
      by (cases "fetch_entity B t w1") auto
    note memt = fetch_entity_member [OF assms t]
    have start: "walk.level_inv f m (set [f]) [(f, 0)]" "walk.tree_inv f (set [f]) (bt_get [])" "t \<notin> set [f]"
      using walk.level_start walk.tree_start ft by (simp_all add: bt_get_empty)
    have inner: "path_inner B f t m w =
        (if \<not> found2 then Some (Inr None)
         else case path_queue B t m w2 [f] [] [(f, 0)] of
             Inl e \<Rightarrow> Some (Inl e)
           | Inr None \<Rightarrow> Some (Inr None)
           | Inr (Some prev) \<Rightarrow> map_option (\<lambda>p. Inr (Some p)) (walk_back (bt_get prev) t [t]))"
      using f t ft fnd \<open>\<not> (wk_visits w = 0 \<or> _)\<close> by (simp add: path_inner_def split: bool.split)
    show ?thesis
    proof (cases "path_queue B t m w2 [f] [] [(f, 0)]")
      case (Inl e)
      with inner memt show ?thesis by (auto simp: answer_right_def)
    next
      case (Inr out)
      note res = path_queue_done [OF assms start Inr]
      show ?thesis
      proof (cases out)
        case None
        with res walk.no_route have "\<not> (\<exists>p. is_route linked f t p \<and> length p \<le> Suc m)" by auto
        with inner memt Inr None show ?thesis by (auto simp: answer_right_def)
      next
        case (Some prev)
        with res obtain S where S: "t \<in> S" "walk.tree_inv f S (bt_get prev)" "walk.conn f t" "walk.depth f t \<le> m"
          by (auto simp: target_hit_def)
        from walk.route_found [OF S(2,1,3)] S(4) inner memt memf fnd Inr Some show ?thesis
          by (auto simp: answer_right_def)
      qed
    qed
  qed
qed

end

section \<open>The search over the in-memory reader\<close>

definition reader_backend ::
  "memory_reader \<Rightarrow> string \<Rightarrow> (entity_row option \<Rightarrow> string list) \<Rightarrow> (rel_row list \<Rightarrow> string list)
   \<Rightarrow> (nat \<Rightarrow> bool) \<Rightarrow> bool \<Rightarrow> path_backend" where
  "reader_backend R i je jp late late_end =
     \<lparr>pk_entity = (\<lambda>e. Inr (entity_by_id R i e)),
      pk_page = (\<lambda>u d after limit. Inr (neighbor_page R i u d all_relation_types after (int limit))),
      pk_entity_json = je, pk_page_json = jp, pk_late = late, pk_late_end = late_end\<rparr>"

definition publication_ok :: "memory_reader \<Rightarrow> string \<Rightarrow> bool" where
  "publication_ok R i \<longleftrightarrow>
     (case bt_get (mr_builds R) i of None \<Rightarrow> True | Some b \<Rightarrow> keyed (gb_edges b) rel_id)"

definition all_rows :: "memory_reader \<Rightarrow> string \<Rightarrow> neighborhood_direction \<times> string \<Rightarrow> rel_row list" where
  "all_rows R i q = (case q of (d, u) \<Rightarrow> neighborhood_rows (R, i, u, d, all_relation_types))"

definition all_page ::
  "memory_reader \<Rightarrow> string \<Rightarrow> neighborhood_direction \<times> string \<Rightarrow> string option \<Rightarrow> nat \<Rightarrow> rel_row list" where
  "all_page R i q after limit =
     (case q of (d, u) \<Rightarrow> neighborhood_page (R, i, u, d, all_relation_types) after limit)"

lemma all_neighborhood_ok: "publication_ok R i \<Longrightarrow> neighborhood_ok (R, i, u, d, all_relation_types)"
  by (simp add: publication_ok_def all_relation_types_def)

interpretation memory_paths:
  path_backend_laws "publication_ok R i" "all_rows R i" "all_page R i"
    "reader_backend R i je jp late late_end" "\<lambda>e. entity_by_id R i e \<noteq> None"
  for R i je jp late late_end
proof
  fix q :: "neighborhood_direction \<times> string" and limit after
  obtain d u where q: "q = (d, u)" by (cases q)
  assume "publication_ok R i"
  then have ok: "neighborhood_ok (R, i, u, d, all_relation_types)" by (rule all_neighborhood_ok)
  show "sorted_wrt (\<lambda>a b. rr_rel_id a < rr_rel_id b) (all_rows R i q)"
    unfolding all_rows_def q prod.case by (rule neighborhoods.rows_ascend [OF ok])
  show "all_page R i q after limit = take limit (filter (\<lambda>r. beyond after (rr_rel_id r)) (all_rows R i q))"
    if "0 < limit"
    unfolding all_page_def all_rows_def q prod.case by (rule neighborhoods.page_takes [OF ok that])
qed (simp_all add: reader_backend_def all_page_def)

lemma relation_type_listed: "relation_type_name t \<in> set all_relation_types"
  by (cases t) (simp_all add: all_relation_types_def)

text \<open>The edges the paged search walks are the undirected edges of the build.\<close>

lemma memory_paths_linked:
  assumes "bt_get (mr_builds R) i = Some b"
  shows "memory_paths.linked R i = joined b"
proof (intro ext)
  fix u v
  have "anchored d u all_relation_types r \<longleftrightarrow>
      (case d of Outgoing \<Rightarrow> rel_from r | Incoming \<Rightarrow> rel_to r) = u" for d r
    by (simp add: anchored_def relation_type_listed)
  then show "memory_paths.linked R i u v \<longleftrightarrow> joined b u v"
    using assms
    by (auto simp: memory_paths.linked_def memory_paths.ends_def all_rows_def neighborhood_rows_anchored
        row_ends_def joined_def image_iff simp del: neighborhood_rows.simps)
qed

lemma entity_found_iff:
  assumes "bt_get (mr_builds R) i = Some b"
  shows "entity_by_id R i e \<noteq> None \<longleftrightarrow> (\<exists>x \<in> set (bt_values (gb_nodes b)). ent_id x = e)"
  using assms by (auto simp: entity_by_id_def members_def find_None_iff)

lemma entity_found_keyed:
  assumes "bt_get (mr_builds R) i = Some b" and "wf_build b"
  shows "entity_by_id R i e \<noteq> None \<longleftrightarrow> bt_contains (gb_nodes b) e"
  unfolding entity_found_iff [OF assms(1)]
  using keyed_contains [of "gb_nodes b" ent_id e] assms(2) by (simp add: wf_build_def keyed_def)

lemma wf_publication_ok:
  "bt_get (mr_builds R) i = Some b \<Longrightarrow> wf_build b \<Longrightarrow> publication_ok R i"
  by (simp add: publication_ok_def wf_build_def keyed_def)

text \<open>What a path answer means for a build.\<close>

definition path_answer_right :: "graph_build \<Rightarrow> string \<Rightarrow> string \<Rightarrow> nat \<Rightarrow> string list option \<Rightarrow> bool" where
  "path_answer_right b f t m res \<longleftrightarrow>
     (case res of
        None \<Rightarrow> \<not> bt_contains (gb_nodes b) f \<or> \<not> bt_contains (gb_nodes b) t
          \<or> \<not> (\<exists>p. is_route (joined b) f t p \<and> length p \<le> Suc m)
      | Some p \<Rightarrow> bt_contains (gb_nodes b) f \<and> bt_contains (gb_nodes b) t
          \<and> is_route (joined b) f t p \<and> length p \<le> Suc m
          \<and> (\<forall>p'. is_route (joined b) f t p' \<longrightarrow> length p \<le> length p'))"

lemma path_inner_answer:
  assumes "bt_get (mr_builds R) i = Some b" and "wf_build b"
  obtains r where "path_inner (reader_backend R i je jp late late_end) f t m w = Some r"
    and "\<And>res. r = Inr res \<Longrightarrow> path_answer_right b f t m res"
proof -
  have "memory_paths.answer_right R i f t m res \<longleftrightarrow> path_answer_right b f t m res" for res
    unfolding memory_paths.answer_right_def path_answer_right_def
    unfolding memory_paths_linked [OF assms(1)] entity_found_keyed [OF assms] ..
  with memory_paths.path_inner_right [OF wf_publication_ok [OF assms], of je jp late late_end f t m w]
  show thesis using that by auto
qed

text \<open>
  C18. A path answer is never wrong, whatever the budgets, the deadline and the page sizes
  they lead to: the search always returns; a path it reports joins the two member entities
  along edges of the pinned build within the hop bound and no path is shorter; that there
  is none it reports only when an endpoint is not in the build or no path within the bound
  exists. Exhausted work is an error, never a false negative.
\<close>

theorem path_search_never_wrong:
  assumes "bt_get (mr_builds R) i = Some b" and "wf_build b"
  shows "\<exists>r. path_with_budget (reader_backend R i je jp late late_end) f t m w = Some r
    \<and> (\<forall>res. r = Inr res \<longrightarrow> path_answer_right b f t m res)"
proof (cases "list_all valid_id [f, t]")
  case True
  from path_inner_answer [OF assms, of je jp late late_end f t m w]
  obtain r where "path_inner (reader_backend R i je jp late late_end) f t m w = Some r"
    and "\<And>res. r = Inr res \<Longrightarrow> path_answer_right b f t m res" by blast
  with True show ?thesis by (auto simp: path_with_budget_def)
qed (auto simp: path_with_budget_def)

end
