(* ===== verification/Path_Budget.thy ===== *)
theory Path_Budget
  imports Path_Reader
begin

text \<open>
  The budgets that are enough: with a visit for every entity, a row for every edge end, the
  queries and bytes of the pages, and a deadline that does not come, the path search answers
  instead of giving up.
\<close>

section \<open>Enough budget gives an answer\<close>

text \<open>
  A backend that does not fail, over a finite set \<open>V\<close> of valid ids, whose pages and lookups
  serialize to at most \<open>J\<close> bytes, before a deadline that does not come.
\<close>

locale path_backend_total = path_backend_laws ok rows page B member
  for ok :: bool and rows page B member +
  fixes V :: "string set" and J :: nat
  assumes ids: "ok \<Longrightarrow> r \<in> set (rows (d, u)) \<Longrightarrow>
      fst (row_ends d r) = u \<and> valid_id (snd (row_ends d r)) \<and> snd (row_ends d r) \<in> V"
    and finite_ids: "ok \<Longrightarrow> finite V"
    and member_ids: "ok \<Longrightarrow> member u \<Longrightarrow> u \<in> V"
    and page_total: "ok \<Longrightarrow> 0 < limit \<Longrightarrow> pk_page B u d after limit = Inr (page (d, u) after limit)"
    and entity_total: "ok \<Longrightarrow> \<exists>x. pk_entity B u = Inr x \<and> length (concat (pk_entity_json B x)) \<le> J"
    and page_bytes: "ok \<Longrightarrow> length (concat (pk_page_json B (page q after limit))) \<le> J"
    and in_time: "ok \<Longrightarrow> \<not> pk_late B n"
begin

definition pages :: "nat \<Rightarrow> nat" where
  "pages n = n div PAGE_SIZE + 1"

definition row_cost :: "string \<Rightarrow> nat" where
  "row_cost u = length (rows (Outgoing, u)) + length (rows (Incoming, u))"

definition page_cost :: "string \<Rightarrow> nat" where
  "page_cost u = pages (length (rows (Outgoing, u))) + pages (length (rows (Incoming, u)))"

lemma path_rows_total:
  assumes ok and "bs_ok seen" and "set seen \<subseteq> V" and "card V \<le> visits"
    and "\<forall>r \<in> set rs. r \<in> set (rows (d, cur))"
    and "sorted_wrt (\<lambda>a b. rr_rel_id a < rr_rel_id b) rs"
    and "\<forall>r \<in> set rs. beyond after (rr_rel_id r)"
    and "distinct (map fst q)" and "fst ` set q \<subseteq> set seen"
  shows "\<exists>out. path_rows d cur depth t visits rs after seen prev q = Inr out \<and>
    (\<forall>a s p q'. out = Inr (a, s, p, q') \<longrightarrow> bs_ok s \<and> set s \<subseteq> V \<and> distinct (map fst q')
       \<and> fst ` set q' \<subseteq> set s \<and> set s - fst ` set q' = set seen - fst ` set q)"
  using assms(2-)
proof (induction rs arbitrary: after seen prev q)
  case (Cons row rs)
  define nxt where "nxt = snd (row_ends d row)"
  have row: "fst (row_ends d row) = cur" "valid_id nxt" "nxt \<in> V"
    using ids [OF assms(1), of row d cur] Cons.prems(4) by (auto simp: nxt_def)
  have key: "\<not> (case after of None \<Rightarrow> False | Some k \<Rightarrow> rr_rel_id row \<le> k)"
    using Cons.prems(6) by (cases after) (auto simp: not_le)
  have tail: "\<forall>r \<in> set rs. r \<in> set (rows (d, cur))" "sorted_wrt (\<lambda>a b. rr_rel_id a < rr_rel_id b) rs"
    "\<forall>r \<in> set rs. beyond (Some (rr_rel_id row)) (rr_rel_id r)"
    using Cons.prems(4,5) by auto
  show ?case
  proof (cases "nxt \<in> set seen")
    case True
    from Cons.IH [OF Cons.prems(1-3) tail Cons.prems(7,8)] True row key show ?thesis
      by (simp add: nxt_def [symmetric])
  next
    case False
    have "length seen < card V"
      using False row(3) Cons.prems(1,2) finite_ids [OF assms(1)]
      by (metis bs_ok_distinct distinct_card psubsetI psubset_card_mono)
    then have room: "\<not> visits \<le> length seen" using Cons.prems(3) by simp
    show ?thesis
    proof (cases "nxt = t")
      case True
      with False row key room show ?thesis by (simp add: nxt_def [symmetric])
    next
      case nt: False
      have "bs_ok (bs_insert nxt seen)" "set (bs_insert nxt seen) \<subseteq> V"
        "distinct (map fst (q @ [(nxt, depth + 1)]))"
        "fst ` set (q @ [(nxt, depth + 1)]) \<subseteq> set (bs_insert nxt seen)"
        using Cons.prems(1,2,7,8) row(3) False by (auto simp: bs_ok_insert)
      from Cons.IH [OF this(1,2) Cons.prems(3) tail this(3,4), of "bt_insert nxt cur prev"]
      obtain out where out: "path_rows d cur depth t visits rs (Some (rr_rel_id row)) (bs_insert nxt seen)
          (bt_insert nxt cur prev) (q @ [(nxt, depth + 1)]) = Inr out"
        and post: "\<forall>a s p q'. out = Inr (a, s, p, q') \<longrightarrow> bs_ok s \<and> set s \<subseteq> V \<and> distinct (map fst q')
          \<and> fst ` set q' \<subseteq> set s
          \<and> set s - fst ` set q' = set (bs_insert nxt seen) - fst ` set (q @ [(nxt, depth + 1)])"
        by (elim exE conjE) blast
      have "set (bs_insert nxt seen) - fst ` set (q @ [(nxt, depth + 1)]) = set seen - fst ` set q"
        using False by auto
      with out post False nt row key room show ?thesis by (simp add: nxt_def [symmetric])
    qed
  qed
qed simp

lemma path_rows_last:
  "path_rows d cur depth t visits rs after seen prev q = Inr (Inr (a, s, p, q')) \<Longrightarrow>
     a = (if rs = [] then after else Some (rr_rel_id (last rs)))"
  by (induction d cur depth t visits rs after seen prev q rule: path_rows.induct)
    (auto simp: Let_def split: if_splits)

lemma fetch_page_total:
  assumes ok and "0 < limit" and "0 < wk_queries w" and "limit \<le> wk_rows w" and "J \<le> wk_bytes w"
  shows "\<exists>w'. fetch_page B d cur after limit w = Inr (page (d, cur) after limit, w')
    \<and> wk_visits w' = wk_visits w \<and> wk_rows w' = wk_rows w - length (page (d, cur) after limit)
    \<and> wk_queries w' = wk_queries w - 1 \<and> wk_bytes w \<le> wk_bytes w' + J"
proof -
  let ?p = "page (d, cur) after limit"
  have len: "length ?p \<le> limit" by (rule page_bounded [OF assms(1,2)])
  have bytes: "length (concat (pk_page_json B ?p)) \<le> J" by (rule page_bytes [OF assms(1)])
  show ?thesis
    using assms len bytes page_total [OF assms(1,2)] in_time [OF assms(1)]
    by (simp add: fetch_page_def start_query_def take_bytes_def bounded_json_iff)
qed

text \<open>One direction, with rows, queries and bytes for what remains of it.\<close>

lemma path_pages_total:
  assumes ok and "bs_ok seen" and "set seen \<subseteq> V" and "card V \<le> wk_visits w"
    and "length (remaining (d, cur) after) + PAGE_SIZE \<le> wk_rows w"
    and "pages (length (remaining (d, cur) after)) \<le> wk_queries w"
    and "pages (length (remaining (d, cur) after)) * J \<le> wk_bytes w"
    and "distinct (map fst q)" and "fst ` set q \<subseteq> set seen"
  shows "\<exists>out. path_pages B d cur depth t w after seen prev q = Inr out \<and>
    (\<forall>w' s p q'. out = Inr (w', s, p, q') \<longrightarrow> bs_ok s \<and> set s \<subseteq> V \<and> distinct (map fst q')
       \<and> fst ` set q' \<subseteq> set s \<and> set s - fst ` set q' = set seen - fst ` set q
       \<and> wk_visits w' = wk_visits w
       \<and> wk_rows w \<le> wk_rows w' + length (remaining (d, cur) after)
       \<and> wk_queries w \<le> wk_queries w' + pages (length (remaining (d, cur) after))
       \<and> wk_bytes w \<le> wk_bytes w' + pages (length (remaining (d, cur) after)) * J)"
  using assms(2-)
proof (induction "wk_queries w" arbitrary: w after seen prev q rule: less_induct)
  case less
  let ?rem = "remaining (d, cur) after" and ?p = "page (d, cur) after PAGE_SIZE"
  have pos: "0 < PAGE_SIZE" by (simp add: PAGE_SIZE_def)
  have limit: "min PAGE_SIZE (wk_rows w + 1) = PAGE_SIZE" using less.prems(4) by simp
  have queries: "0 < wk_queries w" and bytes: "J \<le> wk_bytes w"
    using less.prems(5,6) by (simp_all add: pages_def)
  have rows_left: "PAGE_SIZE \<le> wk_rows w" using less.prems(4) by simp
  from fetch_page_total [OF assms(1) pos queries rows_left bytes, of d cur after]
  obtain w1 where w1: "fetch_page B d cur after PAGE_SIZE w = Inr (?p, w1)"
    "wk_visits w1 = wk_visits w" "wk_rows w1 = wk_rows w - length ?p"
    "wk_queries w1 = wk_queries w - 1" "wk_bytes w \<le> wk_bytes w1 + J" by blast
  have "set ?p \<subseteq> set ?rem"
    using page_takes [OF assms(1) pos, of "(d, cur)" after] by (auto simp: remaining_def dest: in_set_takeD)
  then have in_page: "\<forall>r \<in> set ?p. r \<in> set (rows (d, cur))" "\<forall>r \<in> set ?p. beyond after (rr_rel_id r)"
    by (auto simp: remaining_def)
  from path_rows_total [OF assms(1) less.prems(1,2) _ in_page(1) page_ascends [OF assms(1) pos] in_page(2)
      less.prems(7,8), of "wk_visits w1" depth t prev] less.prems(3) w1(2)
  obtain out where out: "path_rows d cur depth t (wk_visits w1) ?p after seen prev q = Inr out"
    and post: "\<And>a s p q'. out = Inr (a, s, p, q') \<Longrightarrow> bs_ok s \<and> set s \<subseteq> V \<and> distinct (map fst q')
       \<and> fst ` set q' \<subseteq> set s \<and> set s - fst ` set q' = set seen - fst ` set q" by auto
  note continues = page_continues [where q = "(d, cur)" and limit = PAGE_SIZE and after = after, OF assms(1) pos]
  show ?case
  proof (cases out)
    case (Inl p)
    with w1(1) out limit show ?thesis by (subst path_pages.simps) (simp add: Let_def)
  next
    case (Inr fr)
    obtain a s p q' where fr: "fr = (a, s, p, q')" by (cases fr)
    note out' = out [unfolded Inr fr] and post' = post [unfolded Inr fr, OF refl]
    show ?thesis
    proof (cases "length ?p < PAGE_SIZE")
      case True
      then have rem: "?rem = ?p" using continues by simp
      have "path_pages B d cur depth t w after seen prev q = Inr (Inr (w1, s, p, q'))"
        using w1(1) out' limit True by (subst path_pages.simps) (simp add: Let_def)
      moreover have "pages (length ?rem) = 1" using True rem by (simp add: pages_def)
      ultimately show ?thesis using post' w1 rem less.prems(4) by simp
    next
      case False
      define nxt where "nxt = Some (rr_rel_id (last ?p))"
      have full: "length ?p = PAGE_SIZE" using False page_bounded [OF assms(1) pos, of "(d, cur)" after] by simp
      have rem: "?rem = ?p @ remaining (d, cur) nxt" using continues False by (simp add: nxt_def)
      then have len: "length ?rem = PAGE_SIZE + length (remaining (d, cur) nxt)" using full by simp
      have count: "pages (length ?rem) = Suc (pages (length (remaining (d, cur) nxt)))"
        using pos unfolding len pages_def by simp
      have run: "path_pages B d cur depth t w after seen prev q = path_pages B d cur depth t w1 a s p q'"
        using w1(1) out' limit False by (subst path_pages.simps) (simp add: Let_def)
      have a: "a = nxt"
        using path_rows_last [OF out'] full pos by (auto simp: nxt_def)
      have "wk_queries w1 < wk_queries w" "card V \<le> wk_visits w1"
        "length (remaining (d, cur) nxt) + PAGE_SIZE \<le> wk_rows w1"
        "pages (length (remaining (d, cur) nxt)) \<le> wk_queries w1"
        "pages (length (remaining (d, cur) nxt)) * J \<le> wk_bytes w1"
        using w1 queries less.prems(3-6) len full count by simp_all
      note step = this
      have ok': "bs_ok s" "set s \<subseteq> V" "distinct (map fst q')" "fst ` set q' \<subseteq> set s"
        and kept: "set s - fst ` set q' = set seen - fst ` set q" using post' by simp_all
      from less.hyps [OF step(1) ok'(1,2) step(2-5) ok'(3,4), of p]
      obtain out2 where run2: "path_pages B d cur depth t w1 nxt s p q' = Inr out2"
        and post2: "\<forall>w' s2 p2 q2. out2 = Inr (w', s2, p2, q2) \<longrightarrow> bs_ok s2 \<and> set s2 \<subseteq> V
           \<and> distinct (map fst q2) \<and> fst ` set q2 \<subseteq> set s2
           \<and> set s2 - fst ` set q2 = set s - fst ` set q'
           \<and> wk_visits w' = wk_visits w1
           \<and> wk_rows w1 \<le> wk_rows w' + length (remaining (d, cur) nxt)
           \<and> wk_queries w1 \<le> wk_queries w' + pages (length (remaining (d, cur) nxt))
           \<and> wk_bytes w1 \<le> wk_bytes w' + pages (length (remaining (d, cur) nxt)) * J" by blast
      have whole: "path_pages B d cur depth t w after seen prev q = Inr out2"
        using run run2 a by simp
      have sums: "wk_visits w1 = wk_visits w" "wk_rows w \<le> wk_rows w1 + PAGE_SIZE"
        "wk_queries w \<le> wk_queries w1 + 1" "wk_bytes w \<le> wk_bytes w1 + J"
        using w1 full by simp_all
      show ?thesis
      proof (intro exI [of _ out2] conjI whole allI impI)
        fix w' s2 p2 q2
        assume "out2 = Inr (w', s2, p2, q2)"
        note p = post2 [rule_format, OF this]
        show "bs_ok s2" "set s2 \<subseteq> V" "distinct (map fst q2)" "fst ` set q2 \<subseteq> set s2"
          "set s2 - fst ` set q2 = set seen - fst ` set q" "wk_visits w' = wk_visits w"
          using p kept sums(1) by simp_all
        show "wk_rows w \<le> wk_rows w' + length ?rem" using p sums(2) len by simp
        show "wk_queries w \<le> wk_queries w' + pages (length ?rem)" using p sums(3) count by simp
        show "wk_bytes w \<le> wk_bytes w' + pages (length ?rem) * J" using p sums(4) count by simp
      qed
    qed
  qed
qed

text \<open>The queue: the entities not expanded yet pay for what they will read.\<close>

definition rows_needed :: "string set \<Rightarrow> nat" where
  "rows_needed U = (\<Sum>u \<in> U. row_cost u)"

definition pages_needed :: "string set \<Rightarrow> nat" where
  "pages_needed U = (\<Sum>u \<in> U. page_cost u)"

lemma path_queue_total:
  assumes ok and "bs_ok seen" and "set seen \<subseteq> V" and "card V \<le> wk_visits w"
    and "distinct (map fst q)" and "fst ` set q \<subseteq> set seen"
    and "rows_needed (V - (set seen - fst ` set q)) + PAGE_SIZE \<le> wk_rows w"
    and "pages_needed (V - (set seen - fst ` set q)) \<le> wk_queries w"
    and "pages_needed (V - (set seen - fst ` set q)) * J \<le> wk_bytes w"
  shows "\<exists>out. path_queue B t m w seen prev q = Inr out"
  using assms(2-)
proof (induction B0 \<equiv> B t m w seen prev q rule: path_queue.induct)
  case (1 t m w seen prev)
  then show ?case by simp
next
  case (2 t m w seen prev cur depth q)
  note seen = 2(3) and inV = 2(4) and visits = 2(5) and dist = 2(6) and inq = 2(7)
    and rows = 2(8) and queries = 2(9) and bytes = 2(10)
  let ?U = "V - (set seen - fst ` set q)" and ?W = "V - (set seen - fst ` set ((cur, depth) # q))"
  have head: "cur \<notin> fst ` set q" "cur \<in> set seen" using dist inq by auto
  have cur: "cur \<in> V" "cur \<notin> ?U" using head inV by blast+
  have U0: "?W = insert cur ?U" using head inV by auto
  have fin: "finite ?U" using finite_ids [OF assms(1)] by simp
  have rows0: "rows_needed ?W = row_cost cur + rows_needed ?U"
    unfolding U0 rows_needed_def by (rule sum.insert [OF fin cur(2)])
  have pages0: "pages_needed ?W = page_cost cur + pages_needed ?U"
    unfolding U0 pages_needed_def by (rule sum.insert [OF fin cur(2)])
  have dist': "distinct (map fst q)" and inq': "fst ` set q \<subseteq> set seen" using dist inq by simp_all
  show ?case
  proof (cases "m \<le> depth")
    case True
    have "rows_needed ?U + PAGE_SIZE \<le> wk_rows w" "pages_needed ?U \<le> wk_queries w"
      "pages_needed ?U * J \<le> wk_bytes w"
      using rows queries bytes rows0 pages0 by (simp_all add: add_mult_distrib)
    from 2(1) [OF True seen inV visits dist' inq' this] True show ?thesis by simp
  next
    case False
    let ?ro = "rows (Outgoing, cur)" and ?ri = "rows (Incoming, cur)"
    have cost: "row_cost cur = length ?ro + length ?ri"
      "page_cost cur = pages (length ?ro) + pages (length ?ri)"
      by (simp_all add: row_cost_def page_cost_def)
    have need: "length (remaining (Outgoing, cur) None) + PAGE_SIZE \<le> wk_rows w"
      "pages (length (remaining (Outgoing, cur) None)) \<le> wk_queries w"
      "pages (length (remaining (Outgoing, cur) None)) * J \<le> wk_bytes w"
      using rows queries bytes rows0 pages0 cost by (simp_all add: add_mult_distrib)
    from path_pages_total [OF assms(1) seen inV visits need dist' inq', of depth t prev]
    obtain out1 where out1: "path_pages B Outgoing cur depth t w None seen prev q = Inr out1"
      and post1: "\<And>w' s p q'. out1 = Inr (w', s, p, q') \<Longrightarrow> bs_ok s \<and> set s \<subseteq> V \<and> distinct (map fst q')
       \<and> fst ` set q' \<subseteq> set s \<and> set s - fst ` set q' = set seen - fst ` set q
       \<and> wk_visits w' = wk_visits w
       \<and> wk_rows w \<le> wk_rows w' + length ?ro
       \<and> wk_queries w \<le> wk_queries w' + pages (length ?ro)
       \<and> wk_bytes w \<le> wk_bytes w' + pages (length ?ro) * J"
      unfolding remaining_None by blast
    show ?thesis
    proof (cases out1)
      case (Inl p)
      with False out1 show ?thesis by simp
    next
      case (Inr fr)
      obtain w1 s1 p1 q1 where fr: "fr = (w1, s1, p1, q1)" by (cases fr)
      note out1' = out1 [unfolded Inr fr] and post1' = post1 [unfolded Inr fr, OF refl]
      have need2: "length (remaining (Incoming, cur) None) + PAGE_SIZE \<le> wk_rows w1"
        "pages (length (remaining (Incoming, cur) None)) \<le> wk_queries w1"
        "pages (length (remaining (Incoming, cur) None)) * J \<le> wk_bytes w1"
        using rows queries bytes rows0 pages0 cost post1' by (simp_all add: add_mult_distrib)
      have ok1: "bs_ok s1" "set s1 \<subseteq> V" "card V \<le> wk_visits w1" "distinct (map fst q1)" "fst ` set q1 \<subseteq> set s1"
        using post1' visits by simp_all
      from path_pages_total [OF assms(1) ok1(1-3) need2 ok1(4,5), of depth t p1]
      obtain out2 where out2: "path_pages B Incoming cur depth t w1 None s1 p1 q1 = Inr out2"
        and post2: "\<And>w' s p q'. out2 = Inr (w', s, p, q') \<Longrightarrow> bs_ok s \<and> set s \<subseteq> V \<and> distinct (map fst q')
         \<and> fst ` set q' \<subseteq> set s \<and> set s - fst ` set q' = set s1 - fst ` set q1
         \<and> wk_visits w' = wk_visits w1
         \<and> wk_rows w1 \<le> wk_rows w' + length ?ri
         \<and> wk_queries w1 \<le> wk_queries w' + pages (length ?ri)
         \<and> wk_bytes w1 \<le> wk_bytes w' + pages (length ?ri) * J"
        unfolding remaining_None by blast
      show ?thesis
      proof (cases out2)
        case (Inl p)
        with False out1' out2 show ?thesis by simp
      next
        case (Inr fr2)
        obtain w2 s2 p2 q2 where fr2: "fr2 = (w2, s2, p2, q2)" by (cases fr2)
        note out2' = out2 [unfolded Inr fr2] and post2' = post2 [unfolded Inr fr2, OF refl]
        have U2: "V - (set s2 - fst ` set q2) = ?U" using post1' post2' by simp
        have ok2: "bs_ok s2" "set s2 \<subseteq> V" "card V \<le> wk_visits w2" "distinct (map fst q2)"
          "fst ` set q2 \<subseteq> set s2" using post1' post2' visits by simp_all
        have left: "rows_needed (V - (set s2 - fst ` set q2)) + PAGE_SIZE \<le> wk_rows w2"
          "pages_needed (V - (set s2 - fst ` set q2)) \<le> wk_queries w2"
          "pages_needed (V - (set s2 - fst ` set q2)) * J \<le> wk_bytes w2"
          unfolding U2 using rows queries bytes rows0 pages0 cost post1' post2'
          by (simp_all add: add_mult_distrib)
        from 2(2) [OF False out1' refl refl refl refl out2' refl refl refl refl ok2 left]
        show ?thesis using False out1' out2' by simp
      qed
    qed
  qed
qed

text \<open>The whole request: two lookups, then the queue.\<close>

lemma div_sum_le: "a div c + b div c \<le> (a + b) div (c :: nat)"
  by (simp add: div_add1_eq [of a b c])

lemma pages_needed_bound:
  assumes ok
  shows "pages_needed V \<le> 2 * card V + rows_needed V div PAGE_SIZE"
proof -
  have one: "page_cost u \<le> 2 + row_cost u div PAGE_SIZE" for u
    using div_sum_le [of "length (rows (Outgoing, u))" PAGE_SIZE "length (rows (Incoming, u))"]
    by (simp add: page_cost_def row_cost_def pages_def)
  have "pages_needed U \<le> 2 * card U + rows_needed U div PAGE_SIZE" if "finite U" for U
    using that
  proof induction
    case (insert u U)
    then show ?case
      using one [of u] div_sum_le [of "row_cost u" PAGE_SIZE "rows_needed U"]
      by (simp add: pages_needed_def rows_needed_def)
  qed (simp add: pages_needed_def rows_needed_def)
  then show ?thesis using finite_ids [OF assms] .
qed

lemma fetch_entity_total:
  assumes ok and "0 < wk_queries w" and "J \<le> wk_bytes w"
  obtains found w' where "fetch_entity B u w = Inr (found, w')" and "found \<longleftrightarrow> member u"
    and "wk_visits w' = wk_visits w" and "wk_rows w' = wk_rows w"
    and "wk_queries w' = wk_queries w - 1" and "wk_bytes w \<le> wk_bytes w' + J"
proof -
  obtain x where x: "pk_entity B u = Inr x" "length (concat (pk_entity_json B x)) \<le> J"
    using entity_total [OF assms(1)] by blast
  show thesis
    by (rule that [of "x \<noteq> None" "w\<lparr>wk_queries := wk_queries w - 1,
          wk_bytes := wk_bytes w - length (concat (pk_entity_json B x))\<rparr>"])
      (use assms x entity_law [OF assms(1) x(1)] in_time [OF assms(1)] in
        \<open>simp_all add: fetch_entity_def start_query_def take_bytes_def bounded_json_iff\<close>)
qed

lemma path_inner_total:
  assumes ok and "card V \<le> wk_visits w" and "0 < wk_visits w"
    and "rows_needed V + PAGE_SIZE \<le> wk_rows w"
    and "pages_needed V + 2 \<le> wk_queries w"
    and "(pages_needed V + 2) * J \<le> wk_bytes w"
  shows "path_inner B f t m w \<noteq> Some (Inl e)"
proof -
  have q0: "0 < wk_queries w" and b0: "J \<le> wk_bytes w" using assms(5,6) by simp_all
  obtain found w1 where f: "fetch_entity B f w = Inr (found, w1)" "found \<longleftrightarrow> member f"
    "wk_visits w1 = wk_visits w" "wk_rows w1 = wk_rows w"
    "wk_queries w1 = wk_queries w - 1" "wk_bytes w \<le> wk_bytes w1 + J"
    by (rule fetch_entity_total [OF assms(1) q0 b0])
  have q1: "0 < wk_queries w1" and b1: "J \<le> wk_bytes w1" using f assms(5,6) by simp_all
  obtain found2 w2 where t: "fetch_entity B t w1 = Inr (found2, w2)" "found2 \<longleftrightarrow> member t"
    "wk_visits w2 = wk_visits w1" "wk_rows w2 = wk_rows w1"
    "wk_queries w2 = wk_queries w1 - 1" "wk_bytes w1 \<le> wk_bytes w2 + J"
    by (rule fetch_entity_total [OF assms(1) q1 b1])
  show ?thesis
  proof (cases found)
    case True
    then have fV: "f \<in> V" using f(2) member_ids [OF assms(1)] by simp
    have start: "bs_ok [f]" "set [f] \<subseteq> V" "card V \<le> wk_visits w2" "distinct (map fst [(f, 0::nat)])"
      "fst ` set [(f, 0::nat)] \<subseteq> set [f]"
      using fV f t assms(2) by simp_all
    have V: "V - (set [f] - fst ` set [(f, 0::nat)]) = V" by auto
    have left: "rows_needed (V - (set [f] - fst ` set [(f, 0::nat)])) + PAGE_SIZE \<le> wk_rows w2"
      "pages_needed (V - (set [f] - fst ` set [(f, 0::nat)])) \<le> wk_queries w2"
      "pages_needed (V - (set [f] - fst ` set [(f, 0::nat)])) * J \<le> wk_bytes w2"
      unfolding V using f t assms(4-6) by (simp_all add: add_mult_distrib)
    from path_queue_total [OF assms(1) start left, of t m "[]"]
    obtain out where "path_queue B t m w2 [f] [] [(f, 0)] = Inr out" by blast
    then show ?thesis
      using f(1) t(1) True assms(3) by (auto simp: path_inner_def split: bool.split option.split)
  next
    case False
    with f(1) assms(3) show ?thesis by (simp add: path_inner_def)
  qed
qed

end

section \<open>Enough for a build\<close>

text \<open>
  A publication the search can finish on: a well-formed build with valid entity ids, whose
  lookups and pages serialize to at most \<open>J\<close> bytes.
\<close>

definition path_ready ::
  "memory_reader \<Rightarrow> string \<Rightarrow> (entity_row option \<Rightarrow> string list) \<Rightarrow> (rel_row list \<Rightarrow> string list) \<Rightarrow> nat
   \<Rightarrow> bool" where
  "path_ready R i je jp J \<longleftrightarrow>
     (case bt_get (mr_builds R) i of
        None \<Rightarrow> False
      | Some b \<Rightarrow> wf_build b \<and> list_all valid_id (bt_keys (gb_nodes b)))
     \<and> (\<forall>e. length (concat (je (entity_by_id R i e))) \<le> J)
     \<and> (\<forall>q after limit. length (concat (jp (all_page R i q after limit))) \<le> J)"

definition entity_ids :: "memory_reader \<Rightarrow> string \<Rightarrow> string set" where
  "entity_ids R i = (case bt_get (mr_builds R) i of None \<Rightarrow> {} | Some b \<Rightarrow> set (bt_keys (gb_nodes b)))"

lemma all_rows_edges:
  assumes "bt_get (mr_builds R) i = Some b"
  shows "all_rows R i (d, u) = map rel_row_of
    (filter (\<lambda>r. (case d of Outgoing \<Rightarrow> rel_from r | Incoming \<Rightarrow> rel_to r) = u) (bt_values (gb_edges b)))"
  using assms
  by (simp add: all_rows_def neighborhood_rows_anchored anchored_def [abs_def] relation_type_listed
      del: neighborhood_rows.simps)

lemma path_ready_build:
  assumes "path_ready R i je jp J"
  obtains b where "bt_get (mr_builds R) i = Some b" and "wf_build b" and "publication_ok R i"
    and "entity_ids R i = set (bt_keys (gb_nodes b))"
    and "\<And>k. k \<in> set (bt_keys (gb_nodes b)) \<Longrightarrow> valid_id k"
  using assms
  by (auto simp: path_ready_def entity_ids_def list_all_iff intro: wf_publication_ok split: option.splits)

lemma row_in_build:
  assumes "wf_build b" and "bt_get (mr_builds R) i = Some b" and "r \<in> set (all_rows R i (d, u))"
  shows "fst (row_ends d r) = u \<and> snd (row_ends d r) \<in> set (bt_keys (gb_nodes b))"
proof -
  obtain e where e: "e \<in> set (bt_values (gb_edges b))" "r = rel_row_of e"
    "(case d of Outgoing \<Rightarrow> rel_from e | Incoming \<Rightarrow> rel_to e) = u"
    using assms(3) by (auto simp: all_rows_edges [OF assms(2)])
  obtain k where "bt_get (gb_edges b) k = Some e"
    using e(1) assms(1) by (auto simp: bt_values_def wf_build_def bt_get_iff_in_set)
  then have "bt_contains (gb_nodes b) (rel_from e)" "bt_contains (gb_nodes b) (rel_to e)"
    using assms(1) by (auto simp: wf_build_def)
  with e(2,3) show ?thesis by (cases d) (auto simp: row_ends_def bt_keys_iff)
qed

interpretation memory_totals:
  path_backend_total "path_ready R i je jp J" "all_rows R i" "all_page R i"
    "reader_backend R i je jp (\<lambda>_. False) late_end" "\<lambda>e. entity_by_id R i e \<noteq> None"
    "entity_ids R i" J
  for R i je jp J late_end
proof
  fix q :: "neighborhood_direction \<times> string" and limit after u d r p x n
  assume ready: "path_ready R i je jp J"
  obtain b where b: "bt_get (mr_builds R) i = Some b" "wf_build b" "publication_ok R i"
    "entity_ids R i = set (bt_keys (gb_nodes b))"
    "\<And>k. k \<in> set (bt_keys (gb_nodes b)) \<Longrightarrow> valid_id k"
    by (rule path_ready_build [OF ready]) (rule that, assumption+)
  show "sorted_wrt (\<lambda>a b. rr_rel_id a < rr_rel_id b) (all_rows R i q)"
    by (rule memory_paths.rows_ascend [OF b(3)])
  show "all_page R i q after limit = take limit (filter (\<lambda>r. beyond after (rr_rel_id r)) (all_rows R i q))"
    if "0 < limit" by (rule memory_paths.page_takes [OF b(3) that])
  show "fst (row_ends d r) = u \<and> valid_id (snd (row_ends d r)) \<and> snd (row_ends d r) \<in> entity_ids R i"
    if "r \<in> set (all_rows R i (d, u))"
    using row_in_build [OF b(2,1) that] b(4,5) by auto
  show "finite (entity_ids R i)" by (simp add: b(4))
  show "u \<in> entity_ids R i" if "entity_by_id R i u \<noteq> None"
    using that unfolding b(4) entity_found_keyed [OF b(1,2)] bt_keys_iff .
  show "length (concat (pk_page_json (reader_backend R i je jp (\<lambda>_. False) late_end)
      (all_page R i q after limit))) \<le> J"
    using ready unfolding path_ready_def by (simp add: reader_backend_def del: split_paired_All)
  show "\<exists>x. pk_entity (reader_backend R i je jp (\<lambda>_. False) late_end) u = Inr x
      \<and> length (concat (pk_entity_json (reader_backend R i je jp (\<lambda>_. False) late_end) x)) \<le> J"
    using ready by (simp add: reader_backend_def path_ready_def)
qed (simp_all add: reader_backend_def all_page_def)

lemma sum_filter_le:
  "finite V \<Longrightarrow> (\<Sum>u \<in> V. length (filter (\<lambda>x. f x = u) xs)) \<le> length xs"
proof (induction xs)
  case (Cons x xs)
  have "(\<Sum>u \<in> V. length (filter (\<lambda>x. f x = u) (x # xs)))
      = (\<Sum>u \<in> V. of_bool (f x = u) + length (filter (\<lambda>x. f x = u) xs))"
    by (rule sum.cong) simp_all
  also have "\<dots> = (\<Sum>u \<in> V. of_bool (f x = u)) + (\<Sum>u \<in> V. length (filter (\<lambda>x. f x = u) xs))"
    by (rule sum.distrib)
  also have "(\<Sum>u \<in> V. of_bool (f x = u) :: nat) \<le> 1"
    using Cons.prems by (simp add: of_bool_def sum.If_cases card_le_Suc0_iff_eq)
  finally show ?case using Cons.IH [OF Cons.prems] by simp
qed simp

lemma memory_rows_needed:
  assumes "bt_get (mr_builds R) i = Some b"
  shows "memory_totals.rows_needed R i (entity_ids R i) \<le> 2 * length (gb_edges b)"
proof -
  have fin: "finite (entity_ids R i)" by (simp add: entity_ids_def split: option.split)
  have "memory_totals.rows_needed R i (entity_ids R i)
      = (\<Sum>u \<in> entity_ids R i. length (filter (\<lambda>r. rel_from r = u) (bt_values (gb_edges b))))
      + (\<Sum>u \<in> entity_ids R i. length (filter (\<lambda>r. rel_to r = u) (bt_values (gb_edges b))))"
    by (simp add: memory_totals.rows_needed_def memory_totals.row_cost_def all_rows_edges [OF assms]
        sum.distrib)
  also have "\<dots> \<le> length (bt_values (gb_edges b)) + length (bt_values (gb_edges b))"
    by (intro add_mono sum_filter_le fin)
  finally show ?thesis by (simp add: bt_values_def)
qed

text \<open>
  C19. Enough budget gives an answer: on a well-formed build whose entities have valid ids, a
  search between valid ids with a visit for each entity, twice the edges and a page more in
  rows, the corresponding queries and their bytes, and a deadline that does not come, never
  gives up. It answers with a shortest path within the hop bound, or with none exactly when
  there is none.
\<close>

theorem path_search_answers:
  assumes "path_ready R i je jp J" and "bt_get (mr_builds R) i = Some b"
    and "valid_id f" and "valid_id t"
    and "0 < wk_visits w" and "length (gb_nodes b) \<le> wk_visits w"
    and "2 * length (gb_edges b) + PAGE_SIZE \<le> wk_rows w"
    and "2 * length (gb_nodes b) + 2 * length (gb_edges b) div PAGE_SIZE + 2 \<le> wk_queries w"
    and "wk_queries w * J \<le> wk_bytes w"
  shows "\<exists>res. path_with_budget (reader_backend R i je jp (\<lambda>_. False) False) f t m w = Some (Inr res)
    \<and> path_answer_right b f t m res"
proof -
  let ?B = "reader_backend R i je jp (\<lambda>_. False) False" and ?V = "entity_ids R i"
  obtain b' where "bt_get (mr_builds R) i = Some b'" "wf_build b'"
    "?V = set (bt_keys (gb_nodes b'))"
    by (rule path_ready_build [OF assms(1)])
  with assms(2) have wf: "wf_build b" and V: "?V = set (bt_keys (gb_nodes b))" by simp_all
  have card: "card ?V \<le> length (gb_nodes b)" unfolding V bt_keys_def by (metis card_length length_map)
  note rows = memory_rows_needed [OF assms(2)]
  have "memory_totals.pages_needed R i ?V \<le> 2 * card ?V + memory_totals.rows_needed R i ?V div PAGE_SIZE"
    by (rule memory_totals.pages_needed_bound [OF assms(1)])
  also have "\<dots> \<le> 2 * length (gb_nodes b) + 2 * length (gb_edges b) div PAGE_SIZE"
    by (intro add_mono mult_le_mono div_le_mono card rows) simp
  finally have pages: "memory_totals.pages_needed R i ?V + 2 \<le> wk_queries w" using assms(8) by simp
  have bytes: "(memory_totals.pages_needed R i ?V + 2) * J \<le> wk_bytes w"
    using mult_le_mono1 [OF pages, of J] assms(9) by (rule order_trans)
  have space: "card ?V \<le> wk_visits w" "memory_totals.rows_needed R i ?V + PAGE_SIZE \<le> wk_rows w"
    using card rows assms(6,7) by simp_all
  from path_inner_answer [OF assms(2) wf, of je jp "\<lambda>_. False" False f t m w]
  obtain r where r: "path_inner ?B f t m w = Some r" "\<And>res. r = Inr res \<Longrightarrow> path_answer_right b f t m res"
    by blast
  have "path_inner ?B f t m w \<noteq> Some (Inl e)" for e
    by (rule memory_totals.path_inner_total [OF assms(1) space(1) assms(5) space(2) pages bytes])
  then have "r \<noteq> Inl e" for e using r(1) by simp
  then obtain res where "r = Inr res" by (cases r) auto
  with r assms(3,4) show ?thesis
    by (simp add: path_with_budget_def) (simp add: reader_backend_def)
qed

end
