(* ===== verification/Reader_Examples.thy ===== *)
theory Reader_Examples
  imports Store_Examples Path_Budget
begin

text \<open>
  Inputs at which the reader's theorems apply: the store of the sample history, read back,
  and a path between its two entities with a small budget.
\<close>

definition sample_reader :: memory_reader where
  "sample_reader = from_store (\<lambda>_ _. Inl ''no analytics'') published_store"

lemma sample_reader_build: "bt_get (mr_builds sample_reader) ''b1'' = Some backed_build"
  using published_store_builds by (simp add: sample_reader_def get_build_def)

lemma backed_build_wf: "wf_build backed_build"
  by (auto simp: wf_build_def backed_build_def sample_build_def sample_relation_def bt_contains_def
      sample_entity_def graph_build_new_def split: if_splits)

lemma backed_build_keyed: "keyed (gb_edges backed_build) rel_id"
  using backed_build_wf by (simp add: wf_build_def keyed_def)

theorem neighbor_pages_complete_witness:
  "length (neighbor_page sample_reader ''b1'' ''a'' Outgoing [''calls''] None 5) \<le> 5"
  using neighbor_pages_complete [OF backed_build_keyed sample_reader_build,
      where types = "[''calls'']" and limit = 5 and e = "''a''" and d = Outgoing and after = None]
  by simp

theorem reader_serves_published_witness:
  "published_build sample_reader ''other'' ''b1'' = Some None
   \<and> active_build sample_reader ''r'' = published_build sample_reader ''r'' ''b1''"
proof -
  have repo: "gb_repo backed_build = ''r''" and gen: "unat (gb_generation backed_build) < 2 ^ 63"
    by (simp_all add: backed_build_def sample_build_def graph_build_new_def)
  have active: "bt_get (ms_active published_store) ''r'' = Some ''b1''"
    by (simp add: published_store_def sample_publish)
  note served = reader_serves_published [OF published_store_builds [unfolded published_store_run]
      backed_build_keyed gen, of "\<lambda>_ _. Inl ''no analytics''", folded published_store_run,
      folded sample_reader_def]
  from served [THEN conjunct2, THEN conjunct1, rule_format, of "''other''"] repo
  have "published_build sample_reader ''other'' ''b1'' = Some None" by simp
  moreover from served [THEN conjunct2, THEN conjunct2, THEN conjunct2, rule_format, OF active] repo
  have "active_build sample_reader ''r'' = published_build sample_reader ''r'' ''b1''" by simp
  ultimately show ?thesis by blast
qed

definition small_budget :: path_budget where
  "small_budget = \<lparr>wk_visits = 10, wk_rows = 300, wk_queries = 20, wk_bytes = 100\<rparr>"

theorem path_search_never_wrong_witness:
  "\<exists>r. path_with_budget (reader_backend sample_reader ''b1'' (\<lambda>_. []) (\<lambda>_. []) (\<lambda>n. n < 3) False)
     ''a'' ''b'' 2 small_budget = Some r"
  using path_search_never_wrong [OF sample_reader_build backed_build_wf,
      of "\<lambda>_. []" "\<lambda>_. []" "\<lambda>n. n < 3" False "''a''" "''b''" 2 small_budget] by blast

theorem path_search_answers_witness:
  "\<exists>res. path_with_budget (reader_backend sample_reader ''b1'' (\<lambda>_. [''null'']) (\<lambda>_. [''[]'']) (\<lambda>_. False) False)
     ''a'' ''b'' 2 small_budget = Some (Inr res)"
proof -
  have "list_all valid_id (bt_keys (gb_nodes backed_build))"
    by (simp add: backed_build_def sample_build_def graph_build_new_def bt_keys_def valid_id_def ascii_ws_def)
  then have "path_ready sample_reader ''b1'' (\<lambda>_. [''null'']) (\<lambda>_. [''[]'']) 4"
    by (simp add: path_ready_def sample_reader_build backed_build_wf)
  moreover have "length (gb_nodes backed_build) \<le> 3" "length (gb_edges backed_build) = 1"
    by (simp_all add: backed_build_def sample_build_def)
  moreover have "valid_id ''a''" "valid_id ''b''" by (simp_all add: valid_id_def ascii_ws_def)
  ultimately show ?thesis
    using path_search_answers [of sample_reader "''b1''" "\<lambda>_. [''null'']" "\<lambda>_. [''[]'']" 4 backed_build
        "''a''" "''b''" small_budget 2] sample_reader_build
    by (force simp: small_budget_def PAGE_SIZE_def)
qed

end
