(* ===== verification/Floats.thy ===== *)
theory Floats
  imports Core_Types
begin

text \<open>
  The floating point arithmetic the program uses: \<open>+\<close>, \<open>-\<close> and \<open>abs\<close> on \<^verbatim>\<open>f64\<close>, rounded
  to the nearest double with ties to even, with overflow to infinity and gradual underflow.
  The two zeros are one value, which none of the comparisons of the program can tell apart.
\<close>

section \<open>Rounding\<close>

text \<open>\<open>2 ^ k\<close> for an integer \<open>k\<close>, and the exponent of a positive rational.\<close>

definition pow2 :: "int \<Rightarrow> rat" where
  "pow2 k = (if 0 \<le> k then 2 ^ nat k else 1 / 2 ^ nat (- k))"

function bit_length :: "int \<Rightarrow> int" where
  "bit_length n = (if n \<le> 0 then 0 else 1 + bit_length (n div 2))"
  by pat_completeness auto
termination by (relation "measure nat") auto

declare bit_length.simps [simp del]

definition exponent :: "rat \<Rightarrow> int" where
  "exponent x =
     (case quotient_of x of (p, q) \<Rightarrow>
        let k = bit_length p - bit_length q
        in if pow2 k \<le> x then k else k - 1)"

definition round_even :: "rat \<Rightarrow> int" where
  "round_even x =
     (let n = \<lfloor>x\<rfloor>; d = x - of_int n
      in if d < 1 / 2 then n else if 1 / 2 < d then n + 1 else if even n then n else n + 1)"

text \<open>53 significant bits, exponents from -1022; a result of \<open>2 ^ 1024\<close> is an infinity.\<close>

definition f64_round :: "rat \<Rightarrow> f64" where
  "f64_round x =
     (if x = 0 then F64_Finite 0
      else
        let ulp = pow2 (max (exponent \<bar>x\<bar>) (- 1022) - 52);
            r = of_int (round_even (x / ulp)) * ulp
        in if 2 ^ 1024 \<le> \<bar>r\<bar> then F64_Inf (x < 0) else F64_Finite r)"

section \<open>Operations\<close>

fun f64_add :: "f64 \<Rightarrow> f64 \<Rightarrow> f64" where
  "f64_add (F64_Finite a) (F64_Finite b) = f64_round (a + b)"
| "f64_add F64_NaN _ = F64_NaN"
| "f64_add _ F64_NaN = F64_NaN"
| "f64_add (F64_Inf n) (F64_Inf m) = (if n = m then F64_Inf n else F64_NaN)"
| "f64_add (F64_Inf n) (F64_Finite _) = F64_Inf n"
| "f64_add (F64_Finite _) (F64_Inf n) = F64_Inf n"

fun f64_neg :: "f64 \<Rightarrow> f64" where
  "f64_neg (F64_Finite a) = F64_Finite (- a)"
| "f64_neg (F64_Inf n) = F64_Inf (\<not> n)"
| "f64_neg F64_NaN = F64_NaN"

definition f64_sub :: "f64 \<Rightarrow> f64 \<Rightarrow> f64" where
  "f64_sub a b = f64_add a (f64_neg b)"

fun f64_abs :: "f64 \<Rightarrow> f64" where
  "f64_abs (F64_Finite a) = F64_Finite \<bar>a\<bar>"
| "f64_abs (F64_Inf _) = F64_Inf False"
| "f64_abs F64_NaN = F64_NaN"

text \<open>\<open>iter().sum()\<close> and \<open>sum += p\<close> from \<open>0.0\<close>.\<close>

definition f64_sum :: "f64 list \<Rightarrow> f64" where
  "f64_sum xs = foldl f64_add (F64_Finite 0) xs"

text \<open>A decimal literal is the double nearest to it.\<close>

definition f64_lit :: "rat \<Rightarrow> f64" where
  "f64_lit x = f64_round x"

lemma f64_le_refl [simp]: "F64_Finite x \<le> F64_Finite x"
  by simp

lemma f64_lt_finite [simp]: "F64_Finite a < F64_Finite b \<longleftrightarrow> a < b"
  by (auto simp: less_f64_def)

end
