(* ===== verification/Jev_Protocol.thy ===== *)
theory Jev_Protocol
  imports Floats
begin

text \<open>
  The typed inference protocol: \<^verbatim>\<open>crates/chaosbox-jev/src/lib.rs\<close> without the HTTP
  client. Questions, answers and their validation, the context limits, the cache identities
  and the redaction of messages.

  \<open>H\<close> is the SHA-256 hex digest and \<open>qjson\<close>, \<open>qsjson\<close>, \<open>rjson\<close> are \<^verbatim>\<open>serde_json::to_string\<close>
  on a question, a map of questions and a reuse input.
\<close>

section \<open>Identities and limits\<close>

definition JEV_MODEL_PINNED :: string where
  "JEV_MODEL_PINNED = ''jev-1.13.0''"

definition JEV_ENDPOINT :: string where
  "JEV_ENDPOINT = ''https://api.typesafe.ai/v1/systemone''"

definition FIXTURE_MODEL :: string where
  "FIXTURE_MODEL = ''fixture-test''"

definition CTX_TOTAL_MAX :: nat where
  "CTX_TOTAL_MAX = 64000"

definition CTX_STATE_PLUS_LONGEST_MAX :: nat where
  "CTX_STATE_PLUS_LONGEST_MAX = 32000"

definition MAX_RESPONSE_BYTES :: u64 where
  "MAX_RESPONSE_BYTES = 2000000"

text \<open>The messages of the \<open>Schema\<close> errors keep what is formatted into them.\<close>

datatype schema_issue =
    SI_Validation validation_error
  | SI_ChoiceSum f64
  | SI_OutOfScopeChoice string
  | SI_OutOfScopeOption string
  | SI_NonFiniteScore
  | SI_NonFiniteResult
  | SI_TypeMismatch string
  | SI_Text string

datatype jev_error =
    JE_Budget string
  | JE_Context string
  | JE_Transport string
  | JE_Auth string
  | JE_Schema schema_issue
  | JE_Transient u32 string
  | JE_Protocol string
  | JE_Cancelled

definition validate_model_identity :: "string \<Rightarrow> string \<Rightarrow> jev_error + unit" where
  "validate_model_identity requested returned =
     (if requested \<notin> {JEV_MODEL_PINNED, FIXTURE_MODEL} \<or> returned \<noteq> requested
      then Inl (JE_Protocol ''unapproved or mismatched model identity'') else Inr ())"

section \<open>Questions and answers\<close>

record noul_criteria =
  nc_yes :: "string option"
  nc_no :: "string option"

datatype question =
    Q_Noul string "noul_criteria option"
  | Q_Choice string "(string, string option) btree"
  | Q_Score string "string list"

record noul_answer =
  na_noul :: f64

record choice_answer =
  ca_choice :: string
  ca_probabilities :: "(string, f64) btree"
  ca_confidence :: f64

record score_answer =
  sa_score :: f64
  sa_probabilities :: "(string, f64) btree"
  sa_confidence :: f64
  sa_results :: "f64 list"

datatype answer = A_Noul noul_answer | A_Choice choice_answer | A_Score score_answer

record jev_usage =
  us_input_tokens :: u64
  us_output_tokens :: u64

record system_one_request =
  srq_state :: json
  srq_model :: string
  srq_questions :: "(string, question) btree"

record system_one_response =
  srs_model :: string
  srs_answers :: "(string, answer) btree"
  srs_usage :: jev_usage

text \<open>Stored and typed answers.\<close>

fun raw_from_answer :: "answer \<Rightarrow> raw_answer" where
  "raw_from_answer (A_Noul n) = RA_Noul (na_noul n)"
| "raw_from_answer (A_Choice c) = RA_Choice (ca_choice c) (ca_probabilities c) (ca_confidence c)"
| "raw_from_answer (A_Score s) = RA_Score (sa_score s) (sa_probabilities s) (sa_confidence s) (sa_results s)"

fun answer_from_raw :: "raw_answer \<Rightarrow> answer" where
  "answer_from_raw (RA_Noul n) = A_Noul \<lparr>na_noul = n\<rparr>"
| "answer_from_raw (RA_Choice c p f) = A_Choice \<lparr>ca_choice = c, ca_probabilities = p, ca_confidence = f\<rparr>"
| "answer_from_raw (RA_Score s p f r) =
     A_Score \<lparr>sa_score = s, sa_probabilities = p, sa_confidence = f, sa_results = r\<rparr>"

section \<open>Context limits\<close>

definition div_ceil :: "nat \<Rightarrow> nat \<Rightarrow> nat" where
  "div_ceil a b = (a + b - 1) div b"

definition estimate_tokens :: "string \<Rightarrow> nat" where
  "estimate_tokens text = div_ceil (length text) 4 * 108 div 100"

definition check_context_limits ::
  "(question \<Rightarrow> string) \<Rightarrow> string \<Rightarrow> (string, question) btree \<Rightarrow> jev_error + unit" where
  "check_context_limits qjson state questions =
     (let state_t = estimate_tokens state;
          ts = map (\<lambda>q. estimate_tokens (qjson q)) (bt_values questions);
          q_total = foldl (+) 0 ts;
          longest = foldl max 0 ts
      in if CTX_TOTAL_MAX < state_t + q_total
         then Inl (JE_Context (''state+questions ~'' @ dec state_t @ ''+'' @ dec q_total @ '' exceeds '' @ dec CTX_TOTAL_MAX))
         else if CTX_STATE_PLUS_LONGEST_MAX < state_t + longest
         then Inl (JE_Context (''state+longest ~'' @ dec state_t @ ''+'' @ dec longest @ '' exceeds ''
                @ dec CTX_STATE_PLUS_LONGEST_MAX))
         else Inr ())"

section \<open>Cache identities\<close>

definition cache_key ::
  "(string \<Rightarrow> string) \<Rightarrow> ((string, question) btree \<Rightarrow> string) \<Rightarrow> string \<Rightarrow> string
   \<Rightarrow> (string, question) btree \<Rightarrow> string \<Rightarrow> string \<Rightarrow> string \<Rightarrow> string" where
  "cache_key H qsjson source_digest catalog questions model rubric policy =
     ''jev:'' @ sha256_hex H [source_digest, catalog, qsjson questions, model, rubric, policy]"

definition REUSE_VERSION :: string where
  "REUSE_VERSION = ''reuse-v1''"

record reuse_endpoint =
  re_file :: string
  re_qualified :: string
  re_kind :: string
  re_file_hash :: string

record reuse_input =
  ri_version :: string
  ri_repo :: string
  ri_rel_type :: string
  ri_reason :: string
  ri_from :: reuse_endpoint
  ri_to :: reuse_endpoint
  ri_excerpt :: string
  ri_canonical_questions :: "question list"
  ri_model :: string
  ri_rubric_version :: string
  ri_policy_digest :: string

definition canonical_questions ::
  "(question \<Rightarrow> string) \<Rightarrow> (string, question) btree \<Rightarrow> question list" where
  "canonical_questions qjson questions = sort_key qjson (bt_values questions)"

definition reuse_key :: "(string \<Rightarrow> string) \<Rightarrow> (reuse_input \<Rightarrow> string) \<Rightarrow> reuse_input \<Rightarrow> string" where
  "reuse_key H rjson input = ''jev-reuse:'' @ sha256_hex H [rjson input]"

section \<open>Validation of a response\<close>

definition as_schema :: "validation_error + unit \<Rightarrow> jev_error + unit" where
  "as_schema r = map_sum (\<lambda>e. JE_Schema (SI_Validation e)) id r"

text \<open>The first probability that is out of range ends the loop; otherwise the sum.\<close>

fun sum_probabilities :: "f64 list \<Rightarrow> f64 \<Rightarrow> jev_error + f64" where
  "sum_probabilities [] acc = Inr acc"
| "sum_probabilities (p # ps) acc =
     (case as_schema (check_probability p) of
        Inl e \<Rightarrow> Inl e
      | Inr _ \<Rightarrow> sum_probabilities ps (f64_add acc p))"

fun check_probabilities :: "f64 list \<Rightarrow> jev_error + unit" where
  "check_probabilities [] = Inr ()"
| "check_probabilities (p # ps) =
     (case as_schema (check_probability p) of Inl e \<Rightarrow> Inl e | Inr _ \<Rightarrow> check_probabilities ps)"

definition check_scope :: "string btset option \<Rightarrow> choice_answer \<Rightarrow> jev_error + unit" where
  "check_scope valid c =
     (case valid of
        None \<Rightarrow> Inr ()
      | Some options \<Rightarrow>
          if ca_choice c \<notin> set options then Inl (JE_Schema (SI_OutOfScopeChoice (ca_choice c)))
          else (case find (\<lambda>k. k \<notin> set options) (bt_keys (ca_probabilities c)) of
             Some k \<Rightarrow> Inl (JE_Schema (SI_OutOfScopeOption k))
           | None \<Rightarrow> Inr ()))"

definition validate_choice :: "string btset option \<Rightarrow> choice_answer \<Rightarrow> jev_error + unit" where
  "validate_choice valid c =
     (case as_schema (check_confidence (ca_confidence c)) of
        Inl e \<Rightarrow> Inl e
      | Inr _ \<Rightarrow>
          (case sum_probabilities (bt_values (ca_probabilities c)) (F64_Finite 0) of
             Inl e \<Rightarrow> Inl e
           | Inr acc \<Rightarrow>
               if f64_lit (5 / 100) < f64_abs (f64_sub acc (F64_Finite 1))
               then Inl (JE_Schema (SI_ChoiceSum acc))
               else check_scope valid c))"

definition validate_score :: "score_answer \<Rightarrow> jev_error + unit" where
  "validate_score s =
     (case as_schema (check_confidence (sa_confidence s)) of
        Inl e \<Rightarrow> Inl e
      | Inr _ \<Rightarrow>
          if \<not> f64_is_finite (sa_score s) then Inl (JE_Schema SI_NonFiniteScore)
          else (case check_probabilities (bt_values (sa_probabilities s)) of
             Inl e \<Rightarrow> Inl e
           | Inr _ \<Rightarrow>
               if list_all f64_is_finite (sa_results s) then Inr () else Inl (JE_Schema SI_NonFiniteResult)))"

fun validate_answer :: "string \<Rightarrow> string btset option \<Rightarrow> question \<Rightarrow> answer \<Rightarrow> jev_error + unit" where
  "validate_answer i valid (Q_Noul _ _) (A_Noul n) = as_schema (check_probability (na_noul n))"
| "validate_answer i valid (Q_Choice _ _) (A_Choice c) = validate_choice valid c"
| "validate_answer i valid (Q_Score _ _) (A_Score s) = validate_score s"
| "validate_answer i valid _ _ = Inl (JE_Schema (SI_TypeMismatch i))"

fun validate_answers ::
  "(string, answer) btree \<Rightarrow> (string, string btset) btree \<Rightarrow> (string \<times> question) list \<Rightarrow> jev_error + unit" where
  "validate_answers answers options [] = Inr ()"
| "validate_answers answers options ((i, q) # asked) =
     (case bt_get answers i of
        None \<Rightarrow> Inl (JE_Protocol (''missing answer '' @ i))
      | Some a \<Rightarrow>
          (case validate_answer i (bt_get options i) q a of
             Inl e \<Rightarrow> Inl e
           | Inr _ \<Rightarrow> validate_answers answers options asked))"

definition validate_response_for_model ::
  "system_one_response \<Rightarrow> (string, question) btree \<Rightarrow> (string, string btset) btree \<Rightarrow> string
   \<Rightarrow> jev_error + unit" where
  "validate_response_for_model resp asked options requested =
     (case validate_model_identity requested (srs_model resp) of
        Inl e \<Rightarrow> Inl e
      | Inr _ \<Rightarrow>
          if length (srs_answers resp) \<noteq> length asked
          then Inl (JE_Protocol (''answer count '' @ dec (length (srs_answers resp)) @ '' != asked ''
                 @ dec (length asked)))
          else validate_answers (srs_answers resp) options asked)"

definition validate_response ::
  "system_one_response \<Rightarrow> (string, question) btree \<Rightarrow> (string, string btset) btree \<Rightarrow> jev_error + unit" where
  "validate_response resp asked options = validate_response_for_model resp asked options JEV_MODEL_PINNED"

section \<open>Redaction\<close>

text \<open>Text is UTF-8: a byte from 0x80 to 0xBF continues a character.\<close>

definition continues_char :: "char \<Rightarrow> bool" where
  "continues_char c \<longleftrightarrow> 128 \<le> byte c \<and> byte c < 192"

fun truncate_chars :: "string \<Rightarrow> nat \<Rightarrow> string" where
  "truncate_chars [] n = []"
| "truncate_chars (c # cs) n =
     (if continues_char c then c # truncate_chars cs n
      else case n of 0 \<Rightarrow> [] | Suc m \<Rightarrow> c # truncate_chars cs m)"

definition char_starts :: "string \<Rightarrow> nat list" where
  "char_starts s = filter (\<lambda>j. \<not> continues_char (s ! j)) [0..<length s]"

fun str_find :: "string \<Rightarrow> string \<Rightarrow> nat option" where
  "str_find [] p = (if p = [] then Some 0 else None)"
| "str_find (c # s) p = (if starts_with (c # s) p then Some 0 else map_option Suc (str_find s p))"

definition redact :: "string \<Rightarrow> string \<Rightarrow> string" where
  "redact out pre =
     (case str_find out pre of
        None \<Rightarrow> out
      | Some i \<Rightarrow>
          let starts = take 12 (char_starts (drop i out));
              stop = (if starts = [] then length out else i + last starts)
          in take i out @ pre @ ''[redacted]'' @ drop (min stop (length out)) out)"

definition sanitized :: "string \<Rightarrow> string" where
  "sanitized s = foldl redact s [''sk-'', ''ts-'', ''Bearer '']"

section \<open>What validation guarantees\<close>

definition in_unit :: "f64 \<Rightarrow> bool" where
  "in_unit p \<longleftrightarrow> (\<exists>x. p = F64_Finite x \<and> 0 \<le> x \<and> x \<le> 1)"

lemma check_probability_ok: "check_probability p = Inr () \<longleftrightarrow> in_unit p"
  by (cases p) (auto simp: check_probability_def in_unit_def)

lemma check_confidence_ok: "check_confidence p = Inr () \<longleftrightarrow> in_unit p"
  by (cases p) (auto simp: check_confidence_def in_unit_def)

lemma as_schema_ok [simp]: "as_schema r = Inr () \<longleftrightarrow> r = Inr ()"
  by (cases r) (auto simp: as_schema_def)

lemma as_schema_Inr [simp]: "as_schema (Inr u) = Inr ()"
  by (simp add: as_schema_def)

lemma sum_probabilities_ok:
  "sum_probabilities ps acc = Inr s \<longleftrightarrow> (\<forall>p \<in> set ps. in_unit p) \<and> s = foldl f64_add acc ps"
  by (induction ps arbitrary: acc) (auto simp: check_probability_ok [symmetric] split: sum.splits)

lemma check_probabilities_ok: "check_probabilities ps = Inr () \<longleftrightarrow> (\<forall>p \<in> set ps. in_unit p)"
  by (induction ps) (auto simp: check_probability_ok [symmetric] split: sum.splits)

text \<open>What an accepted answer to a question looks like.\<close>

definition choice_ok :: "string btset option \<Rightarrow> choice_answer \<Rightarrow> bool" where
  "choice_ok valid c \<longleftrightarrow>
     in_unit (ca_confidence c) \<and> (\<forall>p \<in> set (bt_values (ca_probabilities c)). in_unit p)
     \<and> \<not> f64_lit (5 / 100) < f64_abs (f64_sub (f64_sum (bt_values (ca_probabilities c))) (F64_Finite 1))
     \<and> (\<forall>options. valid = Some options \<longrightarrow>
          ca_choice c \<in> set options \<and> set (bt_keys (ca_probabilities c)) \<subseteq> set options)"

definition score_ok :: "score_answer \<Rightarrow> bool" where
  "score_ok s \<longleftrightarrow>
     in_unit (sa_confidence s) \<and> f64_is_finite (sa_score s)
     \<and> (\<forall>p \<in> set (bt_values (sa_probabilities s)). in_unit p)
     \<and> (\<forall>r \<in> set (sa_results s). f64_is_finite r)"

fun answer_ok :: "string btset option \<Rightarrow> question \<Rightarrow> answer \<Rightarrow> bool" where
  "answer_ok valid (Q_Noul _ _) (A_Noul n) \<longleftrightarrow> in_unit (na_noul n)"
| "answer_ok valid (Q_Choice _ _) (A_Choice c) \<longleftrightarrow> choice_ok valid c"
| "answer_ok valid (Q_Score _ _) (A_Score s) \<longleftrightarrow> score_ok s"
| "answer_ok valid _ _ \<longleftrightarrow> False"

lemma check_scope_ok:
  "check_scope valid c = Inr () \<longleftrightarrow> (\<forall>options. valid = Some options \<longrightarrow>
     ca_choice c \<in> set options \<and> set (bt_keys (ca_probabilities c)) \<subseteq> set options)"
  by (auto simp: check_scope_def find_None_iff find_Some_iff subset_iff split: option.splits)
    (metis nth_mem)+

lemma validate_choice_ok: "validate_choice valid c = Inr () \<longleftrightarrow> choice_ok valid c"
proof (cases "in_unit (ca_confidence c) \<and> (\<forall>p \<in> set (bt_values (ca_probabilities c)). in_unit p)")
  case True
  then have "sum_probabilities (bt_values (ca_probabilities c)) (F64_Finite 0)
      = Inr (f64_sum (bt_values (ca_probabilities c)))"
    by (simp add: sum_probabilities_ok f64_sum_def)
  moreover have "as_schema (check_confidence (ca_confidence c)) = Inr ()"
    using True by (simp add: check_confidence_ok)
  ultimately show ?thesis
    using True by (simp add: validate_choice_def choice_ok_def check_scope_ok)
next
  case False
  then show ?thesis
    unfolding validate_choice_def choice_ok_def
    by (auto simp: sum_probabilities_ok check_confidence_ok [symmetric] split: sum.splits)
qed

lemma validate_score_ok: "validate_score s = Inr () \<longleftrightarrow> score_ok s"
proof -
  have "in_unit (sa_confidence s) \<longleftrightarrow> as_schema (check_confidence (sa_confidence s)) = Inr ()"
    "(\<forall>p \<in> set (bt_values (sa_probabilities s)). in_unit p)
      \<longleftrightarrow> check_probabilities (bt_values (sa_probabilities s)) = Inr ()"
    by (simp_all add: check_confidence_ok check_probabilities_ok)
  then show ?thesis
    unfolding validate_score_def score_ok_def list_all_iff
    by (auto split: sum.splits)
qed

lemma validate_answer_ok: "validate_answer i valid q a = Inr () \<longleftrightarrow> answer_ok valid q a"
  by (cases q; cases a) (simp_all add: check_probability_ok validate_choice_ok validate_score_ok)

lemma validate_answers_ok:
  "validate_answers answers options asked = Inr () \<longleftrightarrow>
     (\<forall>(i, q) \<in> set asked. \<exists>a. bt_get answers i = Some a \<and> answer_ok (bt_get options i) q a)"
proof (induction asked)
  case (Cons e asked)
  obtain i q where e: "e = (i, q)" by (cases e)
  show ?case
  proof (cases "bt_get answers i")
    case (Some a)
    with Cons.IH e show ?thesis
      by (cases "validate_answer i (bt_get options i) q a")
        (use validate_answer_ok [of i "bt_get options i" q a] in auto)
  qed (simp add: e)
qed simp

text \<open>A response that is accepted answers exactly what was asked.\<close>

definition response_ok ::
  "system_one_response \<Rightarrow> (string, question) btree \<Rightarrow> (string, string btset) btree \<Rightarrow> string \<Rightarrow> bool" where
  "response_ok resp asked options model \<longleftrightarrow>
     srs_model resp = model \<and> model \<in> {JEV_MODEL_PINNED, FIXTURE_MODEL}
     \<and> set (bt_keys (srs_answers resp)) = set (bt_keys asked)
     \<and> (\<forall>i q. bt_get asked i = Some q \<longrightarrow>
          (\<exists>a. bt_get (srs_answers resp) i = Some a \<and> answer_ok (bt_get options i) q a))"

lemma validate_response_for_model_ok:
  assumes "bt_ok asked" and "bt_ok (srs_answers resp)"
  shows "validate_response_for_model resp asked options model = Inr ()
    \<longleftrightarrow> response_ok resp asked options model"
proof -
  let ?keys = "set (bt_keys (srs_answers resp))" and ?asked = "set (bt_keys asked)"
  have card: "card ?keys = length (srs_answers resp)" "card ?asked = length asked"
    using bt_ok_distinct assms by (metis bt_keys_def distinct_card length_map)+
  have all: "(\<forall>(i, q) \<in> set asked. P i q) \<longleftrightarrow> (\<forall>i q. bt_get asked i = Some q \<longrightarrow> P i q)" for P
    using bt_get_iff_in_set [OF assms(1)] by auto
  have sub: "?asked \<subseteq> ?keys"
    if "\<forall>i q. bt_get asked i = Some q \<longrightarrow> (\<exists>a. bt_get (srs_answers resp) i = Some a \<and> answer_ok (bt_get options i) q a)"
    using that unfolding bt_keys_iff bt_contains_iff_Some subset_iff by blast
  show ?thesis
  proof (cases "length (srs_answers resp) = length asked")
    case True
    have "?keys = ?asked" if "?asked \<subseteq> ?keys"
      using card_subset_eq [OF finite_set that] card True by simp
    with True sub show ?thesis
      unfolding validate_response_for_model_def response_ok_def validate_model_identity_def all [symmetric]
      by (auto simp: validate_answers_ok)
  next
    case False
    with card have "?keys \<noteq> ?asked" by auto
    with False show ?thesis
      by (auto simp: validate_response_for_model_def response_ok_def validate_model_identity_def)
  qed
qed

text \<open>
  Storing an answer and reading it back is lossless in both directions, so a stored raw
  answer is validated and materialized as the answer that was returned.
\<close>

theorem raw_answer_roundtrip:
  "answer_from_raw (raw_from_answer a) = a \<and> raw_from_answer (answer_from_raw r) = r"
  by (cases a; cases r) simp_all

lemma str_find_None: "str_find s p = None \<longleftrightarrow> \<not> str_contains s p"
  by (induction s) auto

lemma not_contained: "c \<in> set p \<Longrightarrow> c \<notin> set s \<Longrightarrow> \<not> str_contains s p"
  by (auto simp: str_contains_iff)

lemma redact_absent: "\<not> str_contains s p \<Longrightarrow> redact s p = s"
  by (simp add: redact_def str_find_None [symmetric])

text \<open>
  Redaction keeps the tail of a key: of a key of ASCII letters and digits behind
  \<open>sk-\<close> only the first eight characters are replaced, every later one stays in the
  message.
\<close>

theorem sanitized_keeps_tail:
  assumes "\<forall>c \<in> set k. is_alnum c" and "9 \<le> length k"
  shows "sanitized (''sk-'' @ k) = ''sk-[redacted]'' @ drop 8 k"
proof -
  have plain: "\<not> continues_char c" "c \<noteq> CHR ''-''" "c \<noteq> CHR '' ''" if "c \<in> set k" for c
    using assms(1) that
    by (auto simp: continues_char_def is_alnum_def is_digit_def is_lower_def is_upper_def)
  let ?s = "''sk-'' @ k"
  have "\<forall>c \<in> set ?s. \<not> continues_char c" using plain(1) by (auto simp: continues_char_def)
  then have "\<forall>j < length ?s. \<not> continues_char (?s ! j)" using nth_mem by blast
  then have "char_starts ?s = [0..<length ?s]"
    unfolding char_starts_def by (intro filter_True) (simp del: append.simps)
  moreover have "take 12 [0..<length ?s] = [0..<12]"
    using assms(2) take_upt [of 0 12 "length ?s"] by (simp del: upt_Suc)
  ultimately have starts: "take 12 (char_starts ?s) = [0..<12]" by (simp only:)
  have "str_find ?s ''sk-'' = Some 0" by (simp add: starts_with_def)
  then have one: "redact ?s ''sk-'' = ''sk-[redacted]'' @ drop 8 k"
    using starts assms(2) by (simp add: redact_def Let_def del: append.simps)
  have "CHR ''-'' \<notin> set (drop 8 k)" "CHR '' '' \<notin> set (drop 8 k)"
    using plain(2,3) in_set_dropD by metis+
  then have absent: "\<not> str_contains (drop 8 k) ''ts-''" "\<not> str_contains (drop 8 k) ''Bearer ''"
    by (intro not_contained; simp)+
  then have "\<not> str_contains (''sk-[redacted]'' @ drop 8 k) ''ts-''"
    "\<not> str_contains (''sk-[redacted]'' @ drop 8 k) ''Bearer ''"
    by (simp_all add: starts_with_def)
  note kept = this [THEN redact_absent]
  show ?thesis by (simp only: sanitized_def foldl.simps one kept)
qed

theorem sanitized_keeps_tail_witness:
  "sanitized ''sk-abcdefghSECRETtail'' = ''sk-[redacted]SECRETtail''"
  using sanitized_keeps_tail [of "''abcdefghSECRETtail''"]
  by (simp add: is_alnum_def is_digit_def is_lower_def is_upper_def)

end
