(* ===== verification/Jev_Client.thy ===== *)
theory Jev_Client
  imports Jev_Protocol
begin

text \<open>
  The HTTP client \<^verbatim>\<open>JevClient\<close> of \<^verbatim>\<open>crates/chaosbox-jev/src/lib.rs\<close>: its budgets, its
  accounting and the retry loop of \<^verbatim>\<open>evaluate\<close>. The network is a function from the
  number of the dispatch within the call to what came back, \<open>parse\<close> is
  \<^verbatim>\<open>serde_json::from_slice\<close>. Sleeping between attempts has no effect on the state. The
  counters \<^verbatim>\<open>attempt\<close> and \<^verbatim>\<open>sent_requests\<close> (u32) and \<^verbatim>\<open>spent_tokens\<close> (u64) are words and wrap,
  as they do in a release build. The loop is a partial function: \<open>None\<close> is a call that never
  returns, and \<open>request_budget\<close> shows for which policies there is none.
\<close>

section \<open>Policy and state\<close>

record jev_policy =
  jp_endpoint :: string
  jp_model :: string
  jp_deadline_ms :: nat
  jp_max_questions_per_request :: usize
  jp_max_concurrent_requests :: usize
  jp_max_requests :: u32
  jp_max_input_tokens :: u64
  jp_max_retries :: u32
  jp_max_response_bytes :: u64

definition default_policy :: jev_policy where
  "default_policy =
     \<lparr>jp_endpoint = JEV_ENDPOINT, jp_model = JEV_MODEL_PINNED, jp_deadline_ms = 60000,
      jp_max_questions_per_request = 16,
      jp_max_concurrent_requests = 4, jp_max_requests = 100, jp_max_input_tokens = 1000000,
      jp_max_retries = 3, jp_max_response_bytes = MAX_RESPONSE_BYTES\<rparr>"

record attempt_record =
  ar_attempt :: u32
  ar_question_ids :: "string list"
  ar_http_status :: "16 word option"
  ar_retry_after_secs :: "u64 option"
  ar_input_tokens :: "u64 option"
  ar_error :: "string option"

definition attempt_default :: attempt_record where
  "attempt_default = \<lparr>ar_attempt = 0, ar_question_ids = [], ar_http_status = None,
     ar_retry_after_secs = None, ar_input_tokens = None, ar_error = None\<rparr>"

record jev_client =
  jc_policy :: jev_policy
  jc_attempts :: "attempt_record list"
  jc_spent_tokens :: u64
  jc_sent_requests :: u32

definition jev_client_new :: "jev_policy \<Rightarrow> jev_error + jev_client" where
  "jev_client_new p =
     (if jp_model p \<noteq> JEV_MODEL_PINNED \<or> jp_endpoint p \<noteq> JEV_ENDPOINT
      then Inl (JE_Protocol ''only the pinned Typesafe Jev model and endpoint are allowed'')
      else Inr \<lparr>jc_policy = p, jc_attempts = [], jc_spent_tokens = 0, jc_sent_requests = 0\<rparr>)"

text \<open>The key: the secret file if it can be read and is not empty, else the environment.\<close>

definition api_key :: "string option \<Rightarrow> string option \<Rightarrow> string option" where
  "api_key file_text env =
     (case file_text of
        Some k \<Rightarrow> if trim k \<noteq> [] then Some (trim k)
                  else (case env of None \<Rightarrow> None | Some e \<Rightarrow> if trim e \<noteq> [] then Some (trim e) else None)
      | None \<Rightarrow> (case env of None \<Rightarrow> None | Some e \<Rightarrow> if trim e \<noteq> [] then Some (trim e) else None))"

definition api_key_for_request :: "string option \<Rightarrow> string option \<Rightarrow> jev_error + string" where
  "api_key_for_request file_text env =
     (case api_key file_text env of
        None \<Rightarrow> Inl (JE_Auth ''missing CHAOSBOX_JEV_API_KEY_FILE / TYPESAFE_API_KEY'')
      | Some k \<Rightarrow> Inr k)"

section \<open>One exchange\<close>

record http_response =
  hr_status :: "16 word"
  hr_retry_after :: "u64 option"
  hr_text :: string
  hr_bytes :: "string + string"

datatype exchange = X_TimedOut string | X_Failed string | X_Response http_response

datatype verdict = Retry | Final "jev_error + system_one_response"

definition log_attempt :: "jev_client \<Rightarrow> attempt_record \<Rightarrow> jev_client" where
  "log_attempt c a = c\<lparr>jc_attempts := jc_attempts c @ [a]\<rparr>"

text \<open>A success: the size cap, the parse, the token budget, then validation.\<close>

definition accept_response ::
  "(string \<Rightarrow> string + system_one_response) \<Rightarrow> (string, question) btree \<Rightarrow> (string, string btset) btree
   \<Rightarrow> u32 \<Rightarrow> http_response \<Rightarrow> jev_client \<Rightarrow> jev_client \<times> (jev_error + system_one_response)" where
  "accept_response parse asked options attempt r c =
     (case hr_bytes r of
        Inl e \<Rightarrow> (c, Inl (JE_Transport (sanitized e)))
      | Inr bytes \<Rightarrow>
          if unat (jp_max_response_bytes (jc_policy c)) < length bytes
          then (c, Inl (JE_Protocol ''response too large''))
          else (case parse bytes of
             Inl e \<Rightarrow> (c, Inl (JE_Schema (SI_Text (sanitized e))))
           | Inr parsed \<Rightarrow>
               let tokens = us_input_tokens (srs_usage parsed);
                   c1 = c\<lparr>jc_spent_tokens := jc_spent_tokens c + tokens\<rparr>
               in if jp_max_input_tokens (jc_policy c) < jc_spent_tokens c1
                  then (c1, Inl (JE_Budget ''max_input_tokens''))
                  else (log_attempt c1 (attempt_default
                          \<lparr>ar_attempt := attempt, ar_question_ids := bt_keys asked,
                           ar_http_status := Some (hr_status r), ar_input_tokens := Some tokens\<rparr>),
                        case validate_response parsed asked options of
                          Inl e \<Rightarrow> Inl e
                        | Inr _ \<Rightarrow> Inr parsed)))"

definition handle_response ::
  "(string \<Rightarrow> string + system_one_response) \<Rightarrow> (string, question) btree \<Rightarrow> (string, string btset) btree
   \<Rightarrow> u32 \<Rightarrow> http_response \<Rightarrow> jev_client \<Rightarrow> jev_client \<times> verdict" where
  "handle_response parse asked options attempt r c =
     (let status = unat (hr_status r);
          entry = attempt_default\<lparr>ar_attempt := attempt, ar_question_ids := bt_keys asked,
            ar_http_status := Some (hr_status r)\<rparr>;
          retries = jp_max_retries (jc_policy c);
          transient = JE_Transient attempt (''http '' @ dec status)
      in if status = 429 \<or> status = 529
         then (log_attempt c (entry\<lparr>ar_retry_after_secs := hr_retry_after r\<rparr>),
               if retries < attempt then Final (Inl transient) else Retry)
         else if status = 401 \<or> status = 403 then (c, Final (Inl (JE_Auth (''http '' @ dec status))))
         else if status = 400 \<or> status = 404 \<or> status = 422
         then (c, Final (Inl (JE_Schema (SI_Text (sanitized (truncate_chars (hr_text r) 500))))))
         else if \<not> (200 \<le> status \<and> status < 300)
         then (log_attempt c (entry\<lparr>ar_error := Some (sanitized (truncate_chars (hr_text r) 300))\<rparr>),
               if retries < attempt \<or> status < 500 then Final (Inl transient) else Retry)
         else (case accept_response parse asked options attempt r c of (c', res) \<Rightarrow> (c', Final res)))"

definition handle_exchange ::
  "(string \<Rightarrow> string + system_one_response) \<Rightarrow> (string, question) btree \<Rightarrow> (string, string btset) btree
   \<Rightarrow> u32 \<Rightarrow> exchange \<Rightarrow> jev_client \<Rightarrow> jev_client \<times> verdict" where
  "handle_exchange parse asked options attempt x c =
     (case x of
        X_TimedOut e \<Rightarrow>
          (log_attempt c (attempt_default\<lparr>ar_attempt := attempt, ar_question_ids := bt_keys asked,
             ar_error := Some (sanitized e)\<rparr>),
           if jp_max_retries (jc_policy c) < attempt
           then Final (Inl (JE_Transient attempt ''timeout/connect'')) else Retry)
      | X_Failed e \<Rightarrow> (c, Final (Inl (JE_Transport (sanitized e))))
      | X_Response r \<Rightarrow> handle_response parse asked options attempt r c)"

lemma handle_exchange_frame:
  assumes "handle_exchange parse asked options attempt x c = (c', v)"
  shows "jc_policy c' = jc_policy c \<and> jc_sent_requests c' = jc_sent_requests c"
  using assms
  by (auto simp: handle_exchange_def handle_response_def accept_response_def log_attempt_def Let_def
      split: exchange.splits if_splits sum.splits prod.splits)

section \<open>The retry loop\<close>



text \<open>\<open>attempt\<close> is the u32 counter of the code, \<open>n\<close> numbers the dispatches for \<open>net\<close>.\<close>

partial_function (option) evaluate_loop ::
  "(string \<Rightarrow> string + system_one_response) \<Rightarrow> (nat \<Rightarrow> exchange) \<Rightarrow> (string, question) btree
   \<Rightarrow> (string, string btset) btree \<Rightarrow> nat \<Rightarrow> u32 \<Rightarrow> jev_client
   \<Rightarrow> (jev_client \<times> (jev_error + system_one_response)) option" where
  "evaluate_loop parse net asked options n attempt c =
     (if 1 < attempt + 1 \<and> jp_max_requests (jc_policy c) \<le> jc_sent_requests c
      then Some (c, Inl (JE_Budget ''max_requests''))
      else case handle_exchange parse asked options (attempt + 1) (net (n + 1))
             (c\<lparr>jc_sent_requests := jc_sent_requests c + 1\<rparr>) of
        (c', Final res) \<Rightarrow> Some (c', res)
      | (c', Retry) \<Rightarrow> evaluate_loop parse net asked options (n + 1) (attempt + 1) c')"

definition evaluate ::
  "(question \<Rightarrow> string) \<Rightarrow> (json \<Rightarrow> string) \<Rightarrow> (string \<Rightarrow> string + system_one_response)
   \<Rightarrow> jev_error + string \<Rightarrow> (nat \<Rightarrow> exchange) \<Rightarrow> json \<Rightarrow> (string, question) btree
   \<Rightarrow> (string, string btset) btree \<Rightarrow> jev_client
   \<Rightarrow> (jev_client \<times> (jev_error + system_one_response)) option" where
  "evaluate qjson render parse key net state questions options c =
     (if questions = [] \<or> unat (jp_max_questions_per_request (jc_policy c)) < length questions
      then Some (c, Inl (JE_Budget (''questions '' @ dec (length questions))))
      else if jp_max_requests (jc_policy c) \<le> jc_sent_requests c
      then Some (c, Inl (JE_Budget ''max_requests''))
      else case check_context_limits qjson (render state) questions of
        Inl e \<Rightarrow> Some (c, Inl e)
      | Inr _ \<Rightarrow>
          (case key of
             Inl e \<Rightarrow> Some (c, Inl e)
           | Inr _ \<Rightarrow> evaluate_loop parse net questions options 0 0 c))"

section \<open>Budgets and validation\<close>


lemma final_validated:
  "handle_exchange parse asked options n x c = (c', Final (Inr resp)) \<Longrightarrow>
     validate_response resp asked options = Inr () \<and> (\<exists>bytes. parse bytes = Inr resp)
     \<and> jc_spent_tokens c' \<le> jp_max_input_tokens (jc_policy c)"
  by (auto simp: handle_exchange_def handle_response_def accept_response_def log_attempt_def Let_def not_less
      split: exchange.splits if_splits sum.splits prod.splits)









lemma evaluate_loop_validated:
  assumes "evaluate_loop parse net asked options n attempt c = Some (c', Inr resp)"
  shows "validate_response resp asked options = Inr () \<and> (\<exists>bytes. parse bytes = Inr resp)
    \<and> jc_spent_tokens c' \<le> jp_max_input_tokens (jc_policy c')"
proof -
  let ?P = "\<lambda>(parse :: string \<Rightarrow> string + system_one_response) asked options (r :: jev_client \<times> (jev_error + system_one_response)). \<forall>resp. snd r = Inr resp \<longrightarrow>
      validate_response resp asked options = Inr () \<and> (\<exists>bytes. parse bytes = Inr resp)
      \<and> jc_spent_tokens (fst r) \<le> jp_max_input_tokens (jc_policy (fst r))"
  have "?P parse asked options (c', Inr resp)"
  proof (rule evaluate_loop.raw_induct [where P = "\<lambda>parse net asked options n attempt c r. ?P parse asked options r", OF _ assms])
    fix evl and parse :: "string \<Rightarrow> string + system_one_response" and net asked options n attempt c r
    assume IH: "\<And>parse net asked options n attempt c r.
        evl parse net asked options n attempt c = Some r \<Longrightarrow> ?P parse asked options r"
      and step: "(if 1 < attempt + 1 \<and> jp_max_requests (jc_policy c) \<le> jc_sent_requests c
        then Some (c, Inl (JE_Budget ''max_requests''))
        else case handle_exchange parse asked options (attempt + 1) (net (n + 1))
               (c\<lparr>jc_sent_requests := jc_sent_requests c + 1\<rparr>) of
          (c', Retry) \<Rightarrow> evl parse net asked options (n + 1) (attempt + 1) c'
        | (c', Final res) \<Rightarrow> Some (c', res)) = Some r"
    show "?P parse asked options r"
    proof (cases "1 < attempt + 1 \<and> jp_max_requests (jc_policy c) \<le> jc_sent_requests c")
      case True
      with step show ?thesis by auto
    next
      case False
      obtain c2 v where x: "handle_exchange parse asked options (attempt + 1) (net (n + 1))
          (c\<lparr>jc_sent_requests := jc_sent_requests c + 1\<rparr>) = (c2, v)" by fastforce
      show ?thesis
      proof (cases v)
        case Retry
        with step False x have "evl parse net asked options (n + 1) (attempt + 1) c2 = Some r" by simp
        then show ?thesis by (rule IH)
      next
        case (Final res)
        with step False x have "r = (c2, res)" by simp
        with Final x final_validated [of parse asked options "attempt + 1" "net (n + 1)" _ c2]
          handle_exchange_frame [OF x] show ?thesis by fastforce
      qed
    qed
  qed
  then show ?thesis by simp
qed

text \<open>
  C27. An answer of the client is validated: when \<open>evaluate\<close> returns a response, the pinned
  model served it, it answers exactly the questions that were asked, each with an answer of
  the right type whose probabilities and confidence are finite and in the unit interval, a
  choice within the options offered, and the token budget still holds. (JSON maps parse to
  ordered maps.)
\<close>

theorem evaluate_validated:
  assumes "evaluate qjson render parse key net state questions options c = Some (c', Inr resp)"
    and "bt_ok questions"
    and "\<And>bytes r. parse bytes = Inr r \<Longrightarrow> bt_ok (srs_answers r)"
  shows "response_ok resp questions options JEV_MODEL_PINNED
    \<and> jc_spent_tokens c' \<le> jp_max_input_tokens (jc_policy c')
    \<and> questions \<noteq> [] \<and> length questions \<le> unat (jp_max_questions_per_request (jc_policy c))"
proof -
  have run: "evaluate_loop parse net questions options 0 0 c = Some (c', Inr resp)"
    and size: "questions \<noteq> []" "length questions \<le> unat (jp_max_questions_per_request (jc_policy c))"
    using assms(1) by (auto simp: evaluate_def not_less split: if_splits sum.splits)
  from evaluate_loop_validated [OF run] assms(3)
  have "validate_response resp questions options = Inr ()" "bt_ok (srs_answers resp)"
    "jc_spent_tokens c' \<le> jp_max_input_tokens (jc_policy c')" by auto
  with size validate_response_for_model_ok [OF assms(2)] show ?thesis
    by (simp add: validate_response_def)
qed






text \<open>
  The largest policy is outside that bound: with a retry limit and a request limit of
  \<open>u32::MAX\<close> and an endpoint that always times out, the counter of the attempts wraps to 0, the
  test \<open>attempt > 1\<close> skips the budget for one dispatch, \<^verbatim>\<open>sent_requests\<close> wraps with it, and the
  call never returns. (A debug build panics at the addition instead.)
\<close>

lemma largest_policy_loops:
  assumes "jp_max_requests (jc_policy c) = - 1" and "jp_max_retries (jc_policy c) = - 1"
    and "jc_sent_requests c = attempt" and "\<And>i. \<exists>e. net i = X_TimedOut e"
  shows "evaluate_loop parse net asked options n attempt c = None"
proof (rule ccontr)
  let ?Q = "\<lambda>net n attempt c. jp_max_requests (jc_policy c) = - 1 \<and> jp_max_retries (jc_policy c) = - 1
      \<and> jc_sent_requests c = attempt \<and> (\<forall>i. \<exists>e. net i = X_TimedOut e)"
  assume "evaluate_loop parse net asked options n attempt c \<noteq> None"
  then obtain r where ret: "evaluate_loop parse net asked options n attempt c = Some r" by blast
  have "\<not> ?Q net n attempt c"
  proof (rule evaluate_loop.raw_induct [where P = "\<lambda>parse net asked options n attempt c r. \<not> ?Q net n attempt c", OF _ ret])
    fix evl and parse :: "string \<Rightarrow> string + system_one_response" and net asked options n attempt c r
    assume IH: "\<And>parse net asked options n attempt c r.
        evl parse net asked options n attempt c = Some r \<Longrightarrow> \<not> ?Q net n attempt c"
      and step: "(if 1 < attempt + 1 \<and> jp_max_requests (jc_policy c) \<le> jc_sent_requests c
        then Some (c, Inl (JE_Budget ''max_requests''))
        else case handle_exchange parse asked options (attempt + 1) (net (n + 1))
               (c\<lparr>jc_sent_requests := jc_sent_requests c + 1\<rparr>) of
          (c', Retry) \<Rightarrow> evl parse net asked options (n + 1) (attempt + 1) c'
        | (c', Final res) \<Rightarrow> Some (c', res)) = Some r"
    show "\<not> ?Q net n attempt c"
    proof
      assume Q: "?Q net n attempt c"
      obtain c2 v where x: "handle_exchange parse asked options (attempt + 1) (net (n + 1))
          (c\<lparr>jc_sent_requests := jc_sent_requests c + 1\<rparr>) = (c2, v)" by fastforce
      have guard: "\<not> (1 < attempt + 1 \<and> jp_max_requests (jc_policy c) \<le> jc_sent_requests c)"
      proof
        assume "1 < attempt + 1 \<and> jp_max_requests (jc_policy c) \<le> jc_sent_requests c"
        moreover from this Q have "attempt = - 1" by (simp add: word_order.extremum_unique)
        ultimately show False by simp
      qed
      obtain e where "net (n + 1) = X_TimedOut e" using Q by blast
      with x Q have v: "v = Retry" by (auto simp: handle_exchange_def not_less)
      with step guard x have "evl parse net asked options (n + 1) (attempt + 1) c2 = Some r" by simp
      moreover have "?Q net (n + 1) (attempt + 1) c2" using handle_exchange_frame [OF x] Q by simp
      ultimately show False using IH by blast
    qed
  qed
  with assms show False by blast
qed

theorem largest_policy_never_returns:
  assumes "jev_client_new p = Inr c" and "jp_max_requests p = - 1" and "jp_max_retries p = - 1"
    and "questions \<noteq> []" and "length questions \<le> unat (jp_max_questions_per_request p)"
    and "check_context_limits qjson (render state) questions = Inr ()"
  shows "evaluate qjson render parse (Inr k) (\<lambda>_. X_TimedOut e) state questions options c = None"
proof -
  have c: "jc_policy c = p" "jc_sent_requests c = 0"
    using assms(1) by (auto simp: jev_client_new_def split: if_splits)
  have "evaluate_loop parse (\<lambda>_. X_TimedOut e) questions options 0 0 c = None"
    by (rule largest_policy_loops) (auto simp: c assms(2,3))
  with assms(4-6) c show ?thesis by (simp add: evaluate_def assms(2) not_less)
qed

text \<open>
  A definite refusal is not retried: when the first reply of a call is 400, 401, 403, 404
  or 422, the call ends with an authentication or schema error after that one request.
\<close>

theorem refusal_not_retried:
  assumes "net 1 = X_Response r" and "unat (hr_status r) \<in> {400, 401, 403, 404, 422}"
    and "evaluate qjson render parse key net state questions options c = Some (c', res)"
    and "c' \<noteq> c"
  shows "c' = c\<lparr>jc_sent_requests := jc_sent_requests c + 1\<rparr>
    \<and> (\<exists>m. res = Inl (JE_Auth m) \<or> res = Inl (JE_Schema (SI_Text m)))"
proof -
  have "evaluate_loop parse net questions options 0 0 c = Some (c', res)"
    using assms(3,4) by (auto simp: evaluate_def split: if_splits sum.splits)
  with assms(1,2) show ?thesis
    by (subst (asm) evaluate_loop.simps) (auto simp: handle_exchange_def handle_response_def Let_def)
qed

text \<open>
  The token budget is looked at only behind a request: a client that has already spent
  more than its input tokens still sends the next call's request, adds what it cost, and only
  then refuses.
\<close>

theorem token_budget_checked_late:
  assumes "jp_max_input_tokens (jc_policy c) < jc_spent_tokens c"
    and "questions \<noteq> []" and "length questions \<le> unat (jp_max_questions_per_request (jc_policy c))"
    and "jc_sent_requests c < jp_max_requests (jc_policy c)"
    and "check_context_limits qjson (render state) questions = Inr ()" and "key = Inr k"
    and "net 1 = X_Response r" and "unat (hr_status r) = 200" and "hr_bytes r = Inr bytes"
    and "length bytes \<le> unat (jp_max_response_bytes (jc_policy c))" and "parse bytes = Inr parsed"
    and "unat (jc_spent_tokens c) + unat (us_input_tokens (srs_usage parsed)) < 2 ^ 64"
  shows "evaluate qjson render parse key net state questions options c
    = Some (c\<lparr>jc_sent_requests := jc_sent_requests c + 1,
         jc_spent_tokens := jc_spent_tokens c + us_input_tokens (srs_usage parsed)\<rparr>,
       Inl (JE_Budget ''max_input_tokens''))"
proof -
  have "unat (jc_spent_tokens c + us_input_tokens (srs_usage parsed))
      = unat (jc_spent_tokens c) + unat (us_input_tokens (srs_usage parsed))"
    using assms(12) by (simp add: unat_word_ariths)
  then have "jp_max_input_tokens (jc_policy c) < jc_spent_tokens c + us_input_tokens (srs_usage parsed)"
    using assms(1) by (simp add: word_less_nat_alt)
  with assms(7-11) have "evaluate_loop parse net questions options 0 0 c
      = Some (c\<lparr>jc_sent_requests := jc_sent_requests c + 1,
           jc_spent_tokens := jc_spent_tokens c + us_input_tokens (srs_usage parsed)\<rparr>,
         Inl (JE_Budget ''max_input_tokens''))"
    by (subst evaluate_loop.simps)
      (simp add: handle_exchange_def handle_response_def accept_response_def Let_def)
  with assms(2-6) show ?thesis by (simp add: evaluate_def not_less not_le [symmetric])
qed

section \<open>Witnesses\<close>

definition sample_question :: question where
  "sample_question = Q_Noul ''is it?'' None"

definition sample_response :: system_one_response where
  "sample_response = \<lparr>srs_model = JEV_MODEL_PINNED, srs_answers = [(''q'', A_Noul \<lparr>na_noul = F64_Finite 1\<rparr>)],
     srs_usage = \<lparr>us_input_tokens = 5, us_output_tokens = 1\<rparr>\<rparr>"

definition sample_client :: jev_client where
  "sample_client = \<lparr>jc_policy = default_policy, jc_attempts = [], jc_spent_tokens = 0, jc_sent_requests = 0\<rparr>"

definition ok_reply :: http_response where
  "ok_reply = \<lparr>hr_status = 200, hr_retry_after = None, hr_text = ''{}'', hr_bytes = Inr ''{}''\<rparr>"

definition sample_parse :: "string \<Rightarrow> string + system_one_response" where
  "sample_parse b = Inr sample_response"

lemma sample_limits: "check_context_limits (\<lambda>_. ''q'') ''s'' [(''q'', sample_question)] = Inr ()"
  by (simp add: check_context_limits_def Let_def bt_values_def estimate_tokens_def div_ceil_def
      CTX_TOTAL_MAX_def CTX_STATE_PLUS_LONGEST_MAX_def)

text \<open>A first reply of 529, then the answer.\<close>

definition sample_net :: "nat \<Rightarrow> exchange" where
  "sample_net n = (if n = 1 then X_Response (ok_reply\<lparr>hr_status := 529\<rparr>) else X_Response ok_reply)"

lemma sample_evaluate:
  "\<exists>c'. evaluate (\<lambda>_. ''q'') (\<lambda>_. ''s'') sample_parse (Inr ''key'') sample_net JNull
     [(''q'', sample_question)] [] sample_client = Some (c', Inr sample_response)"
proof -
  have "validate_response sample_response [(''q'', sample_question)] [] = Inr ()"
    by (simp add: validate_response_def validate_response_for_model_def validate_model_identity_def
        sample_response_def sample_question_def check_probability_def)
  then show ?thesis
    using sample_limits
    by (simp add: evaluate_def evaluate_loop.simps sample_client_def default_policy_def sample_net_def
        handle_exchange_def handle_response_def accept_response_def ok_reply_def sample_parse_def
        log_attempt_def MAX_RESPONSE_BYTES_def Let_def)
      (simp add: sample_response_def word_le_nat_alt)
qed

theorem evaluate_validated_witness:
  "response_ok sample_response [(''q'', sample_question)] [] JEV_MODEL_PINNED"
proof -
  obtain c' where run: "evaluate (\<lambda>_. ''q'') (\<lambda>_. ''s'') sample_parse (Inr ''key'') sample_net JNull
     [(''q'', sample_question)] [] sample_client = Some (c', Inr sample_response)"
    using sample_evaluate by blast
  have "bt_ok (srs_answers r)" if "sample_parse b = Inr r" for b r
    using that by (auto simp: sample_parse_def sample_response_def)
  with evaluate_validated [OF run] show ?thesis by simp
qed


theorem refusal_not_retried_witness:
  "\<exists>m. snd (the (evaluate (\<lambda>_. ''q'') (\<lambda>_. ''s'') sample_parse (Inr ''key'')
     (\<lambda>_. X_Response (ok_reply\<lparr>hr_status := 401\<rparr>)) JNull [(''q'', sample_question)] [] sample_client))
   \<in> {Inl (JE_Auth m), Inl (JE_Schema (SI_Text m))}"
proof -
  let ?net = "\<lambda>n::nat. X_Response (ok_reply\<lparr>hr_status := 401\<rparr>)"
  obtain c' res where run: "evaluate (\<lambda>_. ''q'') (\<lambda>_. ''s'') sample_parse (Inr ''key'') ?net JNull
      [(''q'', sample_question)] [] sample_client = Some (c', res)"
    using sample_limits
    by (auto simp: evaluate_def evaluate_loop.simps sample_client_def default_policy_def
        handle_exchange_def handle_response_def ok_reply_def Let_def)
  moreover have "c' \<noteq> sample_client"
    using run sample_limits
    by (auto simp: evaluate_def evaluate_loop.simps sample_client_def default_policy_def
        handle_exchange_def handle_response_def ok_reply_def Let_def)
  ultimately show ?thesis
    using refusal_not_retried [where net = ?net, OF refl _ run] by (auto simp: ok_reply_def)
qed

theorem token_budget_checked_late_witness:
  "map_option snd (evaluate (\<lambda>_. ''q'') (\<lambda>_. ''s'') sample_parse (Inr ''key'') (\<lambda>_. X_Response ok_reply) JNull
     [(''q'', sample_question)] [] (sample_client\<lparr>jc_spent_tokens := 2000000\<rparr>))
   = Some (Inl (JE_Budget ''max_input_tokens''))"
  using token_budget_checked_late [of "sample_client\<lparr>jc_spent_tokens := 2000000\<rparr>" "[(''q'', sample_question)]"
      "\<lambda>_. ''q''" "\<lambda>_. ''s''" JNull "Inr ''key''" "''key''" "\<lambda>_. X_Response ok_reply" ok_reply "''{}''"
      sample_parse sample_response "[]"] sample_limits
  by (simp add: sample_client_def default_policy_def MAX_RESPONSE_BYTES_def ok_reply_def sample_parse_def)
    (simp add: sample_response_def)

end
