(* ===== verification/Results.thy ===== *)
theory Results
  imports Prelude
begin

text \<open>
  Sequences of checks that stop at the first error, and updates of the first matching element
  of a list.
\<close>

section \<open>Checks\<close>

definition ensure :: "bool \<Rightarrow> 'e \<Rightarrow> 'e + unit" where
  "ensure ok e = (if ok then Inr () else Inl e)"

fun all_ok :: "('e + unit) list \<Rightarrow> 'e + unit" where
  "all_ok [] = Inr ()"
| "all_ok (r # rs) = (case r of Inl e \<Rightarrow> Inl e | Inr _ \<Rightarrow> all_ok rs)"

definition check_all :: "('a \<Rightarrow> 'e + unit) \<Rightarrow> 'a list \<Rightarrow> 'e + unit" where
  "check_all f xs = all_ok (map f xs)"

lemma ensure_ok [simp]: "ensure ok e = Inr () \<longleftrightarrow> ok"
  by (simp add: ensure_def)

lemma all_ok_iff [simp]: "all_ok rs = Inr () \<longleftrightarrow> (\<forall>r \<in> set rs. r = Inr ())"
  by (induction rs) (auto split: sum.split)

declare all_ok.simps [simp del]

lemma check_all_iff [simp]: "check_all f xs = Inr () \<longleftrightarrow> (\<forall>x \<in> set xs. f x = Inr ())"
  by (simp add: check_all_def)

lemma unit_result_cases:
  fixes r :: "'e + unit"
  obtains (error) e where "r = Inl e" | (fine) "r = Inr ()"
  by (cases r) auto

section \<open>The first match\<close>

text \<open>\<open>iter_mut().find(p)\<close> followed by an update of what was found.\<close>

fun update_first :: "('a \<Rightarrow> bool) \<Rightarrow> ('a \<Rightarrow> 'a) \<Rightarrow> 'a list \<Rightarrow> 'a list option" where
  "update_first P f [] = None"
| "update_first P f (x # xs) =
     (if P x then Some (f x # xs) else map_option (\<lambda>ys. x # ys) (update_first P f xs))"

lemma update_first_None: "update_first P f xs = None \<longleftrightarrow> (\<forall>x \<in> set xs. \<not> P x)"
  by (induction xs) auto

lemma update_first_Some:
  "update_first P f xs = Some ys \<Longrightarrow>
     \<exists>us x vs. xs = us @ x # vs \<and> ys = us @ f x # vs \<and> P x \<and> (\<forall>u \<in> set us. \<not> P u)"
proof (induction xs arbitrary: ys)
  case (Cons a xs)
  show ?case
  proof (cases "P a")
    case True
    with Cons.prems show ?thesis by (intro exI [of _ "[]"]) auto
  next
    case False
    with Cons.prems obtain zs where "update_first P f xs = Some zs" "ys = a # zs" by auto
    with Cons.IH obtain us x vs where "xs = us @ x # vs" "zs = us @ f x # vs" "P x" "\<forall>u \<in> set us. \<not> P u"
      by blast
    with False \<open>ys = a # zs\<close> show ?thesis by (intro exI [of _ "a # us"]) auto
  qed
qed simp

lemma update_first_map:
  assumes "update_first P f xs = Some ys" and "\<And>x. P x \<Longrightarrow> key (f x) = key x"
  shows "map key ys = map key xs"
  using update_first_Some [OF assms(1)] assms(2) by auto

section \<open>Numbers and lines\<close>

text \<open>\<open>iter().max()\<close>.\<close>

definition list_max :: "'a::linorder list \<Rightarrow> 'a option" where
  "list_max xs = (case xs of [] \<Rightarrow> None | x # ys \<Rightarrow> Some (foldl max x ys))"

lemma foldl_max: "foldl max (x::'a::linorder) ys \<in> insert x (set ys) \<and> (\<forall>y \<in> insert x (set ys). y \<le> foldl max x ys)"
proof (induction ys arbitrary: x)
  case (Cons y ys)
  from Cons.IH [of "max x y"] show ?case by (auto simp: max_def split: if_splits)
qed simp

lemma list_max_Some:
  "list_max xs = Some m \<longleftrightarrow> m \<in> set xs \<and> (\<forall>x \<in> set xs. x \<le> m)"
proof (cases xs)
  case (Cons x ys)
  with foldl_max [of x ys] show ?thesis by (auto simp: list_max_def intro: antisym)
qed (simp add: list_max_def)

text \<open>\<open>str::lines\<close>: split at line feeds, drop an empty last line and one trailing CR.\<close>

fun split_lf :: "string \<Rightarrow> string list" where
  "split_lf [] = [[]]"
| "split_lf (c # cs) =
     (if c = CHR 0x0A then [] # split_lf cs
      else case split_lf cs of [] \<Rightarrow> [[c]] | l # ls \<Rightarrow> (c # l) # ls)"

definition strip_cr :: "string \<Rightarrow> string" where
  "strip_cr l = (if l \<noteq> [] \<and> last l = CHR 0x0D then butlast l else l)"

text \<open>The last piece keeps its CR: it is not followed by a line feed.\<close>

definition text_lines :: "string \<Rightarrow> string list" where
  "text_lines s =
     (let ps = split_lf s
      in map strip_cr (butlast ps) @ (if last ps = [] then [] else [last ps]))"

end
