(* ===== verification/Intelligence.thy ===== *)
theory Intelligence
  imports Jev_Protocol Results
begin

text \<open>
  Session intelligence: the data of \<^verbatim>\<open>crates/chaosbox-core/src/intelligence.rs\<close> and the
  bundle of \<^verbatim>\<open>crates/chaosbox/src/intelligence/mod.rs\<close> with its validation.

  The record \<open>codec\<close> holds what comes from elsewhere: the SHA-256 hex digest, the serializer
  of each kind of value, and the Unicode tables behind lowercasing and splitting into words.
  Objects keep their keys in the order they are written (\<^verbatim>\<open>preserve_order\<close>).
\<close>

section \<open>Sources and proposals\<close>

record session_evidence =
  se_source :: string
  se_snapshot :: string
  se_session :: string
  se_message :: string
  se_pointer :: string
  se_line :: nat
  se_quote :: string
  se_speaker :: string
  se_observed_at_ms :: "int option"

record context_coverage =
  cc_total_records :: nat
  cc_window_records :: nat
  cc_omitted_records :: nat
  cc_omitted_text_fields :: nat

record context_evidence =
  ce_message :: string
  ce_pointer :: string
  ce_speaker :: string
  ce_text :: string
  ce_partial :: bool
  ce_tool :: "string option"
  ce_operation :: "string option"
  ce_status :: "string option"
  ce_exit_code :: "int option"

record intelligence_candidate =
  ic_id :: string
  ic_scope :: string
  ic_repositories :: "string list"
  ic_evidence :: session_evidence
  ic_context :: string
  ic_evidence_bundle :: "context_evidence list"
  ic_context_coverage :: "context_coverage option"

datatype intelligence_kind = IK_Decision | IK_Constraint | IK_Finding | IK_Pitfall

datatype intelligence_status = IS_Admitted | IS_Disputed | IS_Superseded | IS_Withheld

record intelligence =
  in_id :: string
  in_scope :: string
  in_repositories :: "string list"
  in_statement :: string
  in_kind :: intelligence_kind
  in_interpretation_class :: evidence_class
  in_status :: intelligence_status
  in_evidence :: "session_evidence list"
  in_contradicts :: "string list"
  in_supersedes :: "string option"
  in_assessments :: "string list"

section \<open>Receipts and bundles\<close>

datatype intel_outcome =
    O_Admitted
  | O_Rejected
  | O_Abstained
  | O_Duplicate string
  | O_Contradiction string
  | O_Supersession string

record assessment =
  am_id :: string
  am_candidate_id :: string
  am_rubric_version :: string
  am_evidence_digest :: string
  am_repositories :: "string list"
  am_scope :: string
  am_cache_key :: string
  am_model_requested :: string
  am_questions :: "(string, question) btree"
  am_state :: "json option"
  am_response :: system_one_response
  am_outcome :: intel_outcome

record window_coverage =
  wc_snapshot :: string
  wc_skipped :: nat
  wc_selected :: nat
  wc_omitted :: nat
  wc_excluded_derived :: nat

record intel_bundle =
  bu_version :: u32
  bu_scope :: string
  bu_records :: "intelligence list"
  bu_assessments :: "assessment list"
  bu_coverage :: "window_coverage list"

text \<open>The serialized tuple of an assessment's decision fields.\<close>

type_synonym decision_fields =
  "string \<times> string \<times> string \<times> string list \<times> string \<times> string \<times> string \<times> (string, question) btree
   \<times> system_one_response \<times> intel_outcome"

record codec =
  cx_hash :: "string \<Rightarrow> string"
  cx_lower :: "string \<Rightarrow> string"
  cx_split :: "string \<Rightarrow> string list"
  cx_value :: "json \<Rightarrow> string"
  cx_evidence :: "session_evidence \<Rightarrow> string"
  cx_context :: "context_evidence list \<times> context_coverage option \<Rightarrow> string"
  cx_questions :: "(string, question) btree \<Rightarrow> string"
  cx_decision :: "decision_fields \<Rightarrow> string"
  cx_bundle :: "intel_bundle \<Rightarrow> string"

definition lineage :: "codec \<Rightarrow> session_evidence \<Rightarrow> string" where
  "lineage E e = sha256_hex (cx_hash E) [se_source e, se_session e, se_message e, se_pointer e]"

definition int_text :: "int \<Rightarrow> string" where
  "int_text i = (if i < 0 then ''-'' @ dec (nat (- i)) else dec (nat i))"

definition candidate_identity :: "codec \<Rightarrow> intelligence_candidate \<Rightarrow> string" where
  "candidate_identity E c =
     (let e = ic_evidence c;
          base = ''intel-candidate:'' @ sha256_hex (cx_hash E)
            [ic_scope c, join [NUL] (ic_repositories c), se_snapshot e, lineage E e, dec (se_line e),
             se_quote e, se_speaker e,
             (case se_observed_at_ms e of None \<Rightarrow> ''unknown'' | Some v \<Rightarrow> int_text v), ic_context c]
      in if ic_evidence_bundle c = [] \<and> ic_context_coverage c = None then base
         else ''intel-candidate:'' @ sha256_hex (cx_hash E)
                [base, cx_context E (ic_evidence_bundle c, ic_context_coverage c)])"

definition evidence_digest :: "codec \<Rightarrow> session_evidence \<Rightarrow> string" where
  "evidence_digest E e = sha256_hex (cx_hash E) [cx_evidence E e]"

definition decision_fields_of :: "assessment \<Rightarrow> decision_fields" where
  "decision_fields_of a =
     (am_candidate_id a, am_rubric_version a, am_evidence_digest a, am_repositories a, am_scope a,
      am_cache_key a, am_model_requested a, am_questions a, am_response a, am_outcome a)"

definition assessment_identity :: "codec \<Rightarrow> assessment \<Rightarrow> string" where
  "assessment_identity E a =
     (let fields = cx_decision E (decision_fields_of a)
      in ''intel-assessment:'' @ (case am_state a of
           Some state \<Rightarrow> sha256_hex (cx_hash E) [fields, cx_value E state]
         | None \<Rightarrow> sha256_hex (cx_hash E) [fields]))"

definition question_options :: "(string, question) btree \<Rightarrow> (string, string btset) btree" where
  "question_options questions =
     map (\<lambda>(i, q). (i, case q of Q_Choice _ criteria \<Rightarrow> bt_keys criteria | _ \<Rightarrow> [])) questions"

definition RUBRIC_VERSION :: string where
  "RUBRIC_VERSION = ''session-intelligence-v6''"

definition assessment_validate :: "codec \<Rightarrow> string \<Rightarrow> assessment \<Rightarrow> string + unit" where
  "assessment_validate E scope a =
     (if am_scope a \<noteq> scope \<or> am_model_requested a \<noteq> JEV_MODEL_PINNED
        \<or> srs_model (am_response a) \<noteq> am_model_requested a
        \<or> am_rubric_version a \<notin> {''session-intelligence-v1'', ''session-intelligence-v2'',
            ''session-intelligence-v3'', ''session-intelligence-v4'', ''session-intelligence-v5'',
            ''session-intelligence-v6''}
        \<or> am_id a \<noteq> assessment_identity E a
        \<or> bt_keys (am_questions a) \<noteq> [''atomic'', ''durable'', ''kind'', ''novelty'', ''scope'',
            ''support'', ''utility'']
      then Inl ''invalid assessment identity or policy''
      else map_sum (\<lambda>_. ''invalid stored assessment answers'') id
        (validate_response (am_response a) (am_questions a) (question_options (am_questions a))))"

section \<open>Bundle operations\<close>

definition bundle_new :: "string \<Rightarrow> intel_bundle" where
  "bundle_new scope =
     \<lparr>bu_version = 1, bu_scope = scope, bu_records = [], bu_assessments = [], bu_coverage = []\<rparr>"

definition bundle_digest :: "codec \<Rightarrow> intel_bundle \<Rightarrow> string" where
  "bundle_digest E b = sha256_hex (cx_hash E) [cx_bundle E b]"

definition receipt_of :: "intel_bundle \<Rightarrow> string \<Rightarrow> assessment option" where
  "receipt_of b i = find (\<lambda>a. am_id a = i) (bu_assessments b)"

definition receipts_of :: "intel_bundle \<Rightarrow> intelligence \<Rightarrow> assessment list" where
  "receipts_of b r = List.map_filter (receipt_of b) (in_assessments r)"

text \<open>The latest receipt that judged an occurrence of the record.\<close>

definition interpretation_of :: "codec \<Rightarrow> intel_bundle \<Rightarrow> intelligence \<Rightarrow> assessment option" where
  "interpretation_of E b r =
     find (\<lambda>a. \<exists>e \<in> set (in_evidence r). evidence_digest E e = am_evidence_digest a)
       (List.map_filter (receipt_of b) (rev (in_assessments r)))"

definition status_from_receipts :: "codec \<Rightarrow> intel_bundle \<Rightarrow> intelligence \<Rightarrow> intelligence_status" where
  "status_from_receipts E b r =
     (if \<exists>a \<in> set (bu_assessments b). am_outcome a = O_Supersession (in_id r) then IS_Superseded
      else if (case interpretation_of E b r of
                 None \<Rightarrow> False | Some a \<Rightarrow> am_outcome a \<in> {O_Rejected, O_Abstained})
      then IS_Withheld
      else if in_contradicts r = [] then IS_Admitted
      else IS_Disputed)"

definition evidence_bound :: "codec \<Rightarrow> intel_bundle \<Rightarrow> intelligence \<Rightarrow> session_evidence \<Rightarrow> bool" where
  "evidence_bound E b r e \<longleftrightarrow>
     (\<exists>a \<in> set (receipts_of b r). am_evidence_digest a = evidence_digest E e
        \<and> am_repositories a = in_repositories r)"

definition admission_of :: "codec \<Rightarrow> intelligence \<Rightarrow> assessment \<Rightarrow> bool" where
  "admission_of E r a \<longleftrightarrow>
     in_id r = ''intel:'' @ sha256_hex (cx_hash E) [am_candidate_id a]
     \<and> am_repositories a = in_repositories r
     \<and> am_evidence_digest a = evidence_digest E (hd (in_evidence r))
     \<and> (case am_outcome a of
          O_Admitted \<Rightarrow> True | O_Contradiction _ \<Rightarrow> True | O_Supersession _ \<Rightarrow> True | _ \<Rightarrow> False)"

definition record_validate :: "codec \<Rightarrow> intel_bundle \<Rightarrow> intelligence \<Rightarrow> string + unit" where
  "record_validate E b r =
     (let ids = map in_id (bu_records b) in
      all_ok
       [ensure (in_scope r = bu_scope b \<and> in_evidence r \<noteq> [] \<and> in_repositories r \<noteq> []
            \<and> in_interpretation_class r = EC_Inferred) ''invalid intelligence provenance or scope'',
        ensure (in_statement r = se_quote (hd (in_evidence r)))
          ''intelligence wording must remain verbatim evidence'',
        check_all (\<lambda>e. ensure (evidence_bound E b r e) ''evidence occurrence is not bound to an assessment'')
          (in_evidence r),
        ensure ((\<forall>i \<in> set (in_contradicts r). i \<in> set ids)
            \<and> (case in_supersedes r of None \<Rightarrow> True | Some i \<Rightarrow> i \<in> set ids))
          ''dangling intelligence relationship'',
        check_all (\<lambda>i. ensure (i \<noteq> in_id r
            \<and> (\<exists>other \<in> set (bu_records b). in_id other = i \<and> in_id r \<in> set (in_contradicts other)))
          ''asymmetric intelligence contradiction'') (in_contradicts r),
        ensure (\<forall>i \<in> set (in_assessments r). \<exists>a \<in> set (bu_assessments b). am_id a = i)
          ''missing intelligence assessment receipt'',
        (case (case in_assessments r of [] \<Rightarrow> None | i # _ \<Rightarrow> receipt_of b i) of
           None \<Rightarrow> Inl ''missing primary receipt''
         | Some primary \<Rightarrow> ensure (admission_of E r primary)
             ''intelligence no longer matches its admission evidence''),
        ensure (in_status r = status_from_receipts E b r) ''intelligence status disagrees with receipts''])"

definition bundle_validate :: "codec \<Rightarrow> intel_bundle \<Rightarrow> string + unit" where
  "bundle_validate E b =
     all_ok
      [ensure (bu_version b = 1 \<and> \<not> blank (bu_scope b)) ''unsupported intelligence bundle or empty scope'',
       ensure (length (bs_of (map in_id (bu_records b))) = length (bu_records b)) ''duplicate intelligence identity'',
       ensure (length (bs_of (map am_id (bu_assessments b))) = length (bu_assessments b)) ''duplicate assessment receipt'',
       check_all (assessment_validate E (bu_scope b)) (bu_assessments b),
       check_all (record_validate E b) (bu_records b)]"

section \<open>Words\<close>

definition stop_words :: "string list" where
  "stop_words =
     [''the'', ''and'', ''for'', ''this'', ''that'', ''with'', ''from'', ''what'', ''how'', ''why'', ''are'',
      ''was'', ''were'', ''can'', ''should'', ''must'', ''not'', ''have'', ''has'', ''about'', ''did'', ''does'',
      ''when'', ''our'']"

definition words :: "codec \<Rightarrow> string \<Rightarrow> string btset" where
  "words E text =
     bs_of (filter (\<lambda>w. 3 \<le> length w \<and> w \<notin> set stop_words) (map (cx_lower E) (cx_split E text)))"

definition overlap :: "codec \<Rightarrow> string \<Rightarrow> string btset \<Rightarrow> nat" where
  "overlap E text tokens = length (filter (\<lambda>w. w \<in> set tokens) (words E text))"

section \<open>What a valid bundle is\<close>

lemma distinct_by_set: "length (bs_of xs) = length xs \<longleftrightarrow> distinct xs"
proof -
  have "distinct (bs_of xs)" using bs_ok_extend [of "[]" xs] bs_ok_distinct by simp
  moreover have "set (bs_of xs) = set xs" by simp
  ultimately have "length (bs_of xs) = card (set xs)" using distinct_card by metis
  then show ?thesis by (metis card_distinct distinct_card)
qed

lemma bundle_valid:
  assumes "bundle_validate E b = Inr ()"
  shows "distinct (map in_id (bu_records b))" and "distinct (map am_id (bu_assessments b))"
    and "\<And>a. a \<in> set (bu_assessments b) \<Longrightarrow> assessment_validate E (bu_scope b) a = Inr ()"
    and "\<And>r. r \<in> set (bu_records b) \<Longrightarrow> record_validate E b r = Inr ()"
  using assms distinct_by_set [of "map in_id (bu_records b)"] distinct_by_set [of "map am_id (bu_assessments b)"]
  by (auto simp: bundle_validate_def)

lemma record_valid:
  assumes "record_validate E b r = Inr ()"
  shows "in_scope r = bu_scope b" and "in_evidence r \<noteq> []" and "in_statement r = se_quote (hd (in_evidence r))"
    and "in_interpretation_class r = EC_Inferred" and "in_repositories r \<noteq> []"
    and "\<And>i. i \<in> set (in_contradicts r) \<Longrightarrow> i \<in> in_id ` set (bu_records b)"
    and "in_status r = status_from_receipts E b r" and "in_assessments r \<noteq> []"
    and "\<exists>i. in_id r = ''intel:'' @ sha256_hex (cx_hash E) [i]"
  using assms
  by (auto simp: record_validate_def Let_def admission_of_def split: option.splits list.splits)

end
