(* ===== verification/Assess.thy ===== *)
theory Assess
  imports Assess_Questions
begin

text \<open>
  Assessment and materialization: \<^verbatim>\<open>assess\<close>, \<^verbatim>\<open>classify\<close> and \<^verbatim>\<open>materialize\<close> of
  \<^verbatim>\<open>crates/chaosbox/src/intelligence/assess.rs\<close>. A panic (a missing or mistyped answer) is
  the outer \<open>None\<close>. All seven answers are read at once where the source reads them as it goes;
  validation has made sure of them.
\<close>

section \<open>Classification\<close>

definition noul_of :: "(string, answer) btree \<Rightarrow> string \<Rightarrow> f64 option" where
  "noul_of answers name = (case bt_get answers name of Some (A_Noul n) \<Rightarrow> Some (na_noul n) | _ \<Rightarrow> None)"

definition choice_of :: "(string, answer) btree \<Rightarrow> string \<Rightarrow> choice_answer option" where
  "choice_of answers name = (case bt_get answers name of Some (A_Choice c) \<Rightarrow> Some c | _ \<Rightarrow> None)"

definition strong :: "choice_answer \<Rightarrow> bool" where
  "strong a \<longleftrightarrow> f64_lit (9 / 10) \<le> ca_confidence a
     \<and> (case bt_get (ca_probabilities a) (ca_choice a) of None \<Rightarrow> False | Some p \<Rightarrow> f64_lit (9 / 10) \<le> p)"

text \<open>The five gate probabilities.\<close>

record gates =
  ga_support :: f64
  ga_atomic :: f64
  ga_scope :: f64
  ga_durable :: f64
  ga_utility :: f64

definition gates_pass :: "gates \<Rightarrow> bool" where
  "gates_pass g \<longleftrightarrow>
     f64_lit (95 / 100) \<le> ga_support g \<and> f64_lit (95 / 100) \<le> ga_atomic g
     \<and> f64_lit (95 / 100) \<le> ga_scope g \<and> f64_lit (9 / 10) \<le> ga_durable g
     \<and> f64_lit (9 / 10) \<le> ga_utility g"

definition gates_refuse :: "gates \<Rightarrow> bool" where
  "gates_refuse g \<longleftrightarrow>
     (\<exists>p \<in> {ga_support g, ga_atomic g, ga_scope g, ga_durable g, ga_utility g}. p \<le> f64_lit (1 / 10))"

definition meaningful_kind :: "choice_answer \<Rightarrow> f64" where
  "meaningful_kind kind =
     f64_sum (map snd (filter (\<lambda>(name, _). name \<noteq> ''noise'') (ca_probabilities kind)))"

definition consolidate :: "intelligence_candidate \<Rightarrow> string \<Rightarrow> string + intel_outcome" where
  "consolidate c choice =
     (if choice = ''novel'' then Inr O_Admitted
      else case strip_prefix choice ''duplicate:'' of
        Some i \<Rightarrow> Inr (O_Duplicate i)
      | None \<Rightarrow>
          (case strip_prefix choice ''contradicts:'' of
             Some i \<Rightarrow> Inr (O_Contradiction i)
           | None \<Rightarrow>
               (case strip_prefix choice ''supersedes:'' of
                  Some i \<Rightarrow> Inr (if se_speaker (ic_evidence c) = ''user'' then O_Supersession i else O_Abstained)
                | None \<Rightarrow> Inl ''unknown consolidation outcome'')))"

definition outcome_of ::
  "intelligence_candidate \<Rightarrow> gates \<Rightarrow> choice_answer \<Rightarrow> choice_answer \<Rightarrow> string + intel_outcome" where
  "outcome_of c g kind novelty =
     (if gates_refuse g \<or> (ca_choice kind = ''noise'' \<and> strong kind) then Inr O_Rejected
      else if \<not> gates_pass g \<or> ca_choice kind = ''noise'' \<or> meaningful_kind kind < f64_lit (9 / 10)
        \<or> \<not> strong novelty \<or> ca_choice novelty = ''unknown''
      then Inr O_Abstained
      else consolidate c (ca_choice novelty))"

definition kind_of_choice :: "string \<Rightarrow> intelligence_kind" where
  "kind_of_choice choice =
     (if choice = ''decision'' then IK_Decision else if choice = ''constraint'' then IK_Constraint
      else if choice = ''pitfall'' then IK_Pitfall else IK_Finding)"

definition gates_of :: "(string, answer) btree \<Rightarrow> gates option" where
  "gates_of answers =
     (case (noul_of answers ''support'', noul_of answers ''atomic'', noul_of answers ''scope'',
            noul_of answers ''durable'', noul_of answers ''utility'') of
        (Some s, Some a, Some sc, Some d, Some u) \<Rightarrow>
          Some \<lparr>ga_support = s, ga_atomic = a, ga_scope = sc, ga_durable = d, ga_utility = u\<rparr>
      | _ \<Rightarrow> None)"

definition classify ::
  "intelligence_candidate \<Rightarrow> system_one_response \<Rightarrow> (string + intel_outcome \<times> intelligence_kind) option" where
  "classify c response =
     (case (choice_of (srs_answers response) ''kind'', choice_of (srs_answers response) ''novelty'',
            gates_of (srs_answers response)) of
        (Some kind, Some novelty, Some g) \<Rightarrow>
          Some (map_sum id (\<lambda>outcome. (outcome, kind_of_choice (ca_choice kind))) (outcome_of c g kind novelty))
      | _ \<Rightarrow> None)"

section \<open>Materialization\<close>

definition add_evidence :: "session_evidence \<Rightarrow> intelligence \<Rightarrow> intelligence" where
  "add_evidence e r = (if e \<in> set (in_evidence r) then r else r\<lparr>in_evidence := in_evidence r @ [e]\<rparr>)"

definition add_assessment :: "string \<Rightarrow> intelligence \<Rightarrow> intelligence" where
  "add_assessment i r = r\<lparr>in_assessments := in_assessments r @ [i]\<rparr>"

definition withhold :: "session_evidence \<Rightarrow> string \<Rightarrow> intelligence \<Rightarrow> intelligence" where
  "withhold e i r =
     add_assessment i (add_evidence e
       (if in_status r \<noteq> IS_Superseded then r\<lparr>in_status := IS_Withheld\<rparr> else r))"

definition repeat_record :: "session_evidence \<Rightarrow> string \<Rightarrow> intelligence \<Rightarrow> intelligence" where
  "repeat_record e i r =
     (add_assessment i (add_evidence e r))
       \<lparr>in_status := if in_contradicts r = [] then IS_Admitted else IS_Disputed\<rparr>"

definition dispute :: "string \<Rightarrow> string \<Rightarrow> intelligence \<Rightarrow> intelligence" where
  "dispute new_id i r =
     add_assessment i
       ((if in_status r \<noteq> IS_Withheld then r\<lparr>in_status := IS_Disputed\<rparr> else r)
         \<lparr>in_contradicts := in_contradicts r @ [new_id]\<rparr>)"

definition supersede :: "string \<Rightarrow> intelligence \<Rightarrow> intelligence" where
  "supersede i r = add_assessment i (r\<lparr>in_status := IS_Superseded\<rparr>)"

definition record_id :: "codec \<Rightarrow> intelligence_candidate \<Rightarrow> string" where
  "record_id E c = ''intel:'' @ sha256_hex (cx_hash E) [ic_id c]"

definition new_record ::
  "codec \<Rightarrow> intelligence_candidate \<Rightarrow> string \<Rightarrow> intelligence_kind \<Rightarrow> intelligence" where
  "new_record E c i kind =
     \<lparr>in_id = record_id E c, in_scope = ic_scope c, in_repositories = ic_repositories c,
      in_statement = se_quote (ic_evidence c), in_kind = kind, in_interpretation_class = EC_Inferred,
      in_status = IS_Admitted, in_evidence = [ic_evidence c], in_contradicts = [], in_supersedes = None,
      in_assessments = [i]\<rparr>"

definition materialize ::
  "codec \<Rightarrow> intelligence_candidate \<Rightarrow> intel_bundle \<Rightarrow> assessment \<Rightarrow> intelligence_kind \<Rightarrow> string + intel_bundle" where
  "materialize E c b receipt kind =
     (let i = am_id receipt; e = ic_evidence c; new = new_record E c i kind;
          put = (\<lambda>msg rs extra. case rs of None \<Rightarrow> Inl msg | Some rs' \<Rightarrow> Inr (b\<lparr>bu_records := rs' @ extra\<rparr>))
      in case am_outcome receipt of
        O_Rejected \<Rightarrow>
          Inr (b\<lparr>bu_records := map (\<lambda>r. if same_occurrence E r c then withhold e i r else r) (bu_records b)\<rparr>)
      | O_Abstained \<Rightarrow>
          Inr (b\<lparr>bu_records := map (\<lambda>r. if same_occurrence E r c then withhold e i r else r) (bu_records b)\<rparr>)
      | O_Duplicate target \<Rightarrow>
          put ''missing duplicate target''
            (update_first (\<lambda>r. in_id r = target) (repeat_record e i) (bu_records b)) []
      | O_Admitted \<Rightarrow>
          if \<exists>r \<in> set (bu_records b). in_id r = in_id new
          then Inl ''candidate already materialized under different assessment context''
          else Inr (b\<lparr>bu_records := bu_records b @ [new]\<rparr>)
      | O_Contradiction target \<Rightarrow>
          if \<exists>r \<in> set (bu_records b). in_id r = in_id new
          then Inl ''candidate already materialized under different assessment context''
          else put ''missing contradiction target''
            (update_first (\<lambda>r. in_id r = target) (dispute (in_id new) i) (bu_records b))
            [new\<lparr>in_status := IS_Disputed, in_contradicts := [target]\<rparr>]
      | O_Supersession target \<Rightarrow>
          if \<exists>r \<in> set (bu_records b). in_id r = in_id new
          then Inl ''candidate already materialized under different assessment context''
          else put ''missing supersession target''
            (update_first (\<lambda>r. in_id r = target) (supersede i) (bu_records b))
            [new\<lparr>in_supersedes := Some target\<rparr>])"

section \<open>Assessment\<close>

text \<open>A repeated occurrence is a duplicate, or an abstention if its record was superseded.\<close>

definition fold_occurrence ::
  "codec \<Rightarrow> intelligence_candidate \<Rightarrow> intel_bundle \<Rightarrow> intel_outcome \<Rightarrow> intel_outcome" where
  "fold_occurrence E c b outcome =
     (case find (\<lambda>r. same_occurrence E r c) (bu_records b) of
        None \<Rightarrow> outcome
      | Some existing \<Rightarrow>
          if outcome = O_Admitted
          then (if in_status existing = IS_Superseded then O_Abstained else O_Duplicate (in_id existing))
          else outcome)"

text \<open>A supersession needs a user time later than every user time of the target.\<close>

definition later_than :: "int option \<Rightarrow> int option \<Rightarrow> bool" where
  "later_than new old = (case (new, old) of (Some n, Some l) \<Rightarrow> l < n | _ \<Rightarrow> False)"

definition check_supersession ::
  "intelligence_candidate \<Rightarrow> intel_bundle \<Rightarrow> intel_outcome \<Rightarrow> intel_outcome" where
  "check_supersession c b outcome =
     (case outcome of
        O_Supersession target \<Rightarrow>
          (let latest = Option.bind (find (\<lambda>r. in_id r = target) (bu_records b)) (\<lambda>r. list_max (user_times r))
           in if later_than (se_observed_at_ms (ic_evidence c)) latest then outcome else O_Abstained)
      | _ \<Rightarrow> outcome)"

text \<open>A choice must give a probability to every option offered and to no other.\<close>

definition complete_distributions :: "(string, question) btree \<Rightarrow> system_one_response \<Rightarrow> bool" where
  "complete_distributions asked response =
     list_all (\<lambda>(name, q). case (q, bt_get (srs_answers response) name) of
         (Q_Choice _ criteria, Some (A_Choice a)) \<Rightarrow> bt_keys criteria = bt_keys (ca_probabilities a)
       | _ \<Rightarrow> True) asked"

definition receipt_for ::
  "codec \<Rightarrow> intelligence_candidate \<Rightarrow> json \<Rightarrow> (string, question) btree \<Rightarrow> string \<Rightarrow> system_one_response
   \<Rightarrow> intel_outcome \<Rightarrow> assessment" where
  "receipt_for E c state asked key response outcome =
     (let draft = \<lparr>am_id = [], am_candidate_id = ic_id c, am_rubric_version = RUBRIC_VERSION,
            am_evidence_digest = evidence_digest E (ic_evidence c), am_repositories = ic_repositories c,
            am_scope = ic_scope c, am_cache_key = key, am_model_requested = JEV_MODEL_PINNED,
            am_questions = asked, am_state = Some state, am_response = response, am_outcome = outcome\<rparr>
      in draft\<lparr>am_id := assessment_identity E draft\<rparr>)"

definition commit_receipt ::
  "codec \<Rightarrow> intelligence_candidate \<Rightarrow> intel_bundle \<Rightarrow> assessment \<Rightarrow> intelligence_kind
   \<Rightarrow> (intel_bundle, string, assessment) outcome" where
  "commit_receipt E c b receipt kind =
     (if \<exists>a \<in> set (bu_assessments b). am_id a = am_id receipt then (b, Inr receipt)
      else case materialize E c b receipt kind of
        Inl e \<Rightarrow> (b, Inl e)
      | Inr next \<Rightarrow>
          (let next' = next\<lparr>bu_assessments := bu_assessments next @ [receipt],
                           bu_records := sort_key in_id (bu_records next)\<rparr>
           in case bundle_validate E next' of
             Inl e \<Rightarrow> (b, Inl e)
           | Inr _ \<Rightarrow> (next', Inr receipt)))"

definition assess ::
  "codec \<Rightarrow> intelligence_candidate \<Rightarrow> intel_bundle \<Rightarrow> system_one_response
   \<Rightarrow> (intel_bundle, string, assessment) outcome option" where
  "assess E c b response =
     (case questions E c b of
        Inl e \<Rightarrow> Some (b, Inl e)
      | Inr (state, asked, key) \<Rightarrow>
          (case validate_response response asked (question_options asked) of
             Inl _ \<Rightarrow> Some (b, Inl ''invalid typed intelligence assessment'')
           | Inr _ \<Rightarrow>
               if \<not> complete_distributions asked response
               then Some (b, Inl ''incomplete decision distribution'')
               else map_option
                 (\<lambda>r. case r of
                      Inl e \<Rightarrow> (b, Inl e)
                    | Inr (outcome, kind) \<Rightarrow>
                        commit_receipt E c b
                          (receipt_for E c state asked key response
                             (check_supersession c b (fold_occurrence E c b outcome))) kind)
                 (classify c response)))"

end
