(* ===== verification/Assess_Properties.thy ===== *)
theory Assess_Properties
  imports Assess
begin

text \<open>
  What assessment guarantees: it never panics, it is atomic, it only adds to what is known,
  it admits only what passes every gate, and it supersedes only on a later user statement.
\<close>

section \<open>How a record grows\<close>

definition grown :: "intelligence \<Rightarrow> intelligence \<Rightarrow> bool" where
  "grown r r' \<longleftrightarrow>
     in_id r' = in_id r \<and> in_scope r' = in_scope r \<and> in_repositories r' = in_repositories r
     \<and> in_statement r' = in_statement r \<and> in_kind r' = in_kind r
     \<and> in_interpretation_class r' = in_interpretation_class r \<and> in_supersedes r' = in_supersedes r
     \<and> (\<exists>es. in_evidence r' = in_evidence r @ es) \<and> (\<exists>cs. in_contradicts r' = in_contradicts r @ cs)
     \<and> (\<exists>as. in_assessments r' = in_assessments r @ as)"

named_theorems record_updates \<open>the updates of one record\<close>

declare add_evidence_def [record_updates] add_assessment_def [record_updates] withhold_def [record_updates]
  repeat_record_def [record_updates] dispute_def [record_updates] supersede_def [record_updates]

lemma grown_refl [simp]: "grown r r"
  by (simp add: grown_def)

lemma grown_updates [simp]:
  "grown r (withhold e i r)" "grown r (repeat_record e i r)" "grown r (dispute n i r)" "grown r (supersede i r)"
  by (simp_all add: grown_def record_updates)

lemma status_updates [simp]:
  "in_status (withhold e i r) = IS_Superseded \<longleftrightarrow> in_status r = IS_Superseded"
  "in_status (repeat_record e i r) \<noteq> IS_Superseded" "in_status (dispute n i r) \<noteq> IS_Superseded"
  "in_status (supersede i r) = IS_Superseded"
  by (simp_all add: record_updates)

lemma update_first_by_key:
  assumes "distinct (map key xs)" and "update_first (\<lambda>r. key r = t) f xs = Some ys"
  shows "ys = map (\<lambda>r. if key r = t then f r else r) xs"
proof -
  obtain us x vs where s: "xs = us @ x # vs" "ys = us @ f x # vs" "key x = t" "\<forall>u \<in> set us. key u \<noteq> t"
    using update_first_Some [OF assms(2)] by auto
  have "\<forall>v \<in> set vs. key v \<noteq> t" using assms(1) s(1,3) by (force simp: image_iff)
  then have "map (\<lambda>r. if key r = t then f r else r) vs = vs"
    "map (\<lambda>r. if key r = t then f r else r) us = us"
    using s(4) by (auto intro: map_idI)
  with s(1-3) show ?thesis by simp
qed

text \<open>Everything a materialization does to the records.\<close>

definition materialized ::
  "codec \<Rightarrow> intelligence_candidate \<Rightarrow> intel_bundle \<Rightarrow> assessment \<Rightarrow> intel_bundle \<Rightarrow> bool" where
  "materialized E c b receipt nb \<longleftrightarrow>
     bu_version nb = bu_version b \<and> bu_scope nb = bu_scope b \<and> bu_coverage nb = bu_coverage b
     \<and> bu_assessments nb = bu_assessments b
     \<and> (\<exists>g extra. bu_records nb = map g (bu_records b) @ extra
        \<and> (\<forall>r. grown r (g r)
            \<and> (in_status (g r) = IS_Superseded \<longrightarrow>
                 in_status r = IS_Superseded \<or> am_outcome receipt = O_Supersession (in_id r)))
        \<and> (\<forall>n \<in> set extra. in_id n = record_id E c \<and> in_statement n = se_quote (ic_evidence c)
            \<and> in_evidence n = [ic_evidence c] \<and> in_status n \<noteq> IS_Superseded
            \<and> (case am_outcome receipt of
                 O_Admitted \<Rightarrow> True | O_Contradiction _ \<Rightarrow> True | O_Supersession _ \<Rightarrow> True | _ \<Rightarrow> False)))"

lemma materializedI:
  assumes "bu_records nb = map g (bu_records b) @ extra"
    and "nb = b\<lparr>bu_records := bu_records nb\<rparr>"
    and "\<And>r. grown r (g r)"
    and "\<And>r. in_status (g r) = IS_Superseded \<Longrightarrow>
      in_status r = IS_Superseded \<or> am_outcome receipt = O_Supersession (in_id r)"
    and "\<And>n. n \<in> set extra \<Longrightarrow> in_id n = record_id E c \<and> in_statement n = se_quote (ic_evidence c)
      \<and> in_evidence n = [ic_evidence c] \<and> in_status n \<noteq> IS_Superseded
      \<and> (case am_outcome receipt of
           O_Admitted \<Rightarrow> True | O_Contradiction _ \<Rightarrow> True | O_Supersession _ \<Rightarrow> True | _ \<Rightarrow> False)"
  shows "materialized E c b receipt nb"
proof -
  have "bu_version nb = bu_version b \<and> bu_scope nb = bu_scope b \<and> bu_coverage nb = bu_coverage b
     \<and> bu_assessments nb = bu_assessments b"
    by (subst assms(2), subst (2) assms(2), subst (3) assms(2), subst (4) assms(2)) simp
  with assms(1,3-5) show ?thesis unfolding materialized_def by blast
qed

lemma materialize_effect:
  assumes "materialize E c b receipt kind = Inr nb" and "distinct (map in_id (bu_records b))"
  shows "materialized E c b receipt nb"
proof -
  let ?i = "am_id receipt" and ?e = "ic_evidence c" and ?new = "new_record E c (am_id receipt) kind"
  note defs = materialize_def Let_def new_record_def
  note upd = update_first_by_key [OF assms(2)]
  show ?thesis
  proof (cases "am_outcome receipt")
    case O_Admitted
    then have "bu_records nb = map id (bu_records b) @ [?new]" "nb = b\<lparr>bu_records := bu_records nb\<rparr>"
      using assms(1) by (auto simp: defs split: if_splits)
    then show ?thesis by (rule materializedI) (auto simp: O_Admitted new_record_def)
  next
    case O_Rejected
    then have "bu_records nb = map (\<lambda>r. if same_occurrence E r c then withhold ?e ?i r else r) (bu_records b) @ []"
      "nb = b\<lparr>bu_records := bu_records nb\<rparr>"
      using assms(1) by (auto simp: defs)
    then show ?thesis by (rule materializedI) (auto split: if_splits)
  next
    case O_Abstained
    then have "bu_records nb = map (\<lambda>r. if same_occurrence E r c then withhold ?e ?i r else r) (bu_records b) @ []"
      "nb = b\<lparr>bu_records := bu_records nb\<rparr>"
      using assms(1) by (auto simp: defs)
    then show ?thesis by (rule materializedI) (auto split: if_splits)
  next
    case (O_Duplicate t)
    then have "bu_records nb = map (\<lambda>r. if in_id r = t then repeat_record ?e ?i r else r) (bu_records b) @ []"
      "nb = b\<lparr>bu_records := bu_records nb\<rparr>"
      using assms(1) upd by (auto simp: defs split: option.splits)
    then show ?thesis by (rule materializedI) (auto split: if_splits)
  next
    case (O_Contradiction t)
    then have "bu_records nb = map (\<lambda>r. if in_id r = t then dispute (record_id E c) ?i r else r) (bu_records b)
        @ [?new\<lparr>in_status := IS_Disputed, in_contradicts := [t]\<rparr>]"
      "nb = b\<lparr>bu_records := bu_records nb\<rparr>"
      using assms(1) upd by (auto simp: defs split: option.splits if_splits)
    then show ?thesis
      by (rule materializedI) (auto simp: O_Contradiction new_record_def split: if_splits)
  next
    case (O_Supersession t)
    then have "bu_records nb = map (\<lambda>r. if in_id r = t then supersede ?i r else r) (bu_records b)
        @ [?new\<lparr>in_supersedes := Some t\<rparr>]"
      "nb = b\<lparr>bu_records := bu_records nb\<rparr>"
      using assms(1) upd by (auto simp: defs split: option.splits if_splits)
    then show ?thesis
      by (rule materializedI) (auto simp: O_Supersession new_record_def split: if_splits)
  qed
qed

section \<open>The steps of an assessment\<close>

lemma questions_valid:
  assumes "questions E c b = Inr (state, asked, key)"
  shows "bundle_validate E b = Inr ()" and "asked = assessment_questions (novelty_criteria (related_records E c b))"
  using assms by (auto simp: questions_def validate_candidate_def Let_def split: sum.splits)

lemma assess_cases:
  assumes "assess E c b response = Some (b', res)"
  obtains (same) "b' = b"
  | (committed) receipt state asked key outcome kind nb where
      "questions E c b = Inr (state, asked, key)"
      "validate_response response asked (question_options asked) = Inr ()"
      "classify c response = Some (Inr (outcome, kind))"
      "receipt = receipt_for E c state asked key response (check_supersession c b (fold_occurrence E c b outcome))"
      "materialize E c b receipt kind = Inr nb" "res = Inr receipt"
      "b' = nb\<lparr>bu_assessments := bu_assessments b @ [receipt], bu_records := sort_key in_id (bu_records nb)\<rparr>"
      "bundle_validate E b' = Inr ()" "bundle_validate E b = Inr ()" "materialized E c b receipt nb"
proof (cases "b' = b")
  case False
  obtain state asked key where q: "questions E c b = Inr (state, asked, key)"
    using assms False by (auto simp: assess_def split: sum.splits)
  have v: "validate_response response asked (question_options asked) = Inr ()"
    using assms False q by (auto simp: assess_def split: sum.splits)
  obtain r where "classify c response = Some r"
    and r: "(case r of Inl e \<Rightarrow> (b, Inl e) | Inr (outcome, kind) \<Rightarrow>
        commit_receipt E c b (receipt_for E c state asked key response
          (check_supersession c b (fold_occurrence E c b outcome))) kind) = (b', res)"
    using assms False q v by (auto simp: assess_def split: if_splits)
  then obtain outcome kind where cl: "classify c response = Some (Inr (outcome, kind))"
    and com: "commit_receipt E c b (receipt_for E c state asked key response
          (check_supersession c b (fold_occurrence E c b outcome))) kind = (b', res)"
    using False by (auto split: sum.splits)
  define receipt where "receipt = receipt_for E c state asked key response
          (check_supersession c b (fold_occurrence E c b outcome))"
  note com = com [folded receipt_def]
  obtain nb where nb: "materialize E c b receipt kind = Inr nb" "res = Inr receipt"
      "b' = nb\<lparr>bu_assessments := bu_assessments nb @ [receipt], bu_records := sort_key in_id (bu_records nb)\<rparr>"
      "bundle_validate E b' = Inr ()"
    using com False by (auto simp: commit_receipt_def Let_def split: if_splits sum.splits)
  note valid = questions_valid(1) [OF q]
  from materialize_effect [OF nb(1) bundle_valid(1) [OF valid]]
  have eff: "materialized E c b receipt nb" .
  then have "bu_assessments nb = bu_assessments b" by (simp add: materialized_def)
  with nb(3) have "b' = nb\<lparr>bu_assessments := bu_assessments b @ [receipt],
      bu_records := sort_key in_id (bu_records nb)\<rparr>" by simp
  from committed [OF q v cl receipt_def nb(1,2) this nb(4) valid eff] show thesis .
qed (rule same)

text \<open>
  Assessment never panics: whatever a response contains, once it has passed validation
  every answer the classification reads is there and of the right type.
\<close>

theorem assess_total:
  assumes "bt_ok (srs_answers response)"
  shows "assess E c b response \<noteq> None"
proof (cases "questions E c b")
  case (Inr q)
  obtain state asked key where q: "q = (state, asked, key)" by (cases q)
  note asked = questions_valid(2) [OF Inr [unfolded q]]
  show ?thesis
  proof (cases "validate_response response asked (question_options asked)" rule: unit_result_cases)
    case fine
    have "bt_ok asked" by (simp add: asked assessment_questions_ok)
    from fine validate_response_for_model_ok [OF this assms, of "question_options asked" JEV_MODEL_PINNED]
    have ok: "\<And>i q. bt_get asked i = Some q \<Longrightarrow>
        \<exists>a. bt_get (srs_answers response) i = Some a \<and> answer_ok (bt_get (question_options asked) i) q a"
      by (simp add: validate_response_def response_ok_def)
    have noul: "\<exists>p. noul_of (srs_answers response) i = Some p"
      if "i \<in> {''support'', ''atomic'', ''scope'', ''durable'', ''utility''}" for i
    proof -
      from assessment_questions_get(3) [OF that] obtain ins criteria where
        "bt_get asked i = Some (Q_Noul ins criteria)" unfolding asked by blast
      from ok [OF this] show ?thesis by (auto simp: noul_of_def elim!: answer_ok.elims)
    qed
    have choice: "\<exists>a. choice_of (srs_answers response) i = Some a"
      if "\<exists>text criteria. bt_get asked i = Some (Q_Choice text criteria)" for i
    proof -
      from that obtain ins criteria where "bt_get asked i = Some (Q_Choice ins criteria)" by blast
      from ok [OF this] show ?thesis by (auto simp: choice_of_def elim!: answer_ok.elims)
    qed
    obtain s a sc d u where gates:
      "noul_of (srs_answers response) ''support'' = Some s" "noul_of (srs_answers response) ''atomic'' = Some a"
      "noul_of (srs_answers response) ''scope'' = Some sc" "noul_of (srs_answers response) ''durable'' = Some d"
      "noul_of (srs_answers response) ''utility'' = Some u"
      using noul by (metis insert_iff)
    moreover obtain k n where "choice_of (srs_answers response) ''kind'' = Some k"
      "choice_of (srs_answers response) ''novelty'' = Some n"
      using choice assessment_questions_get(1,2) unfolding asked by meson
    ultimately have "classify c response \<noteq> None" by (simp add: classify_def gates_of_def)
    with Inr q fine show ?thesis by (auto simp: assess_def)
  qed (simp add: assess_def Inr q)
qed (simp add: assess_def)

text \<open>A receipt comes back only from the commit, and an error leaves the bundle as it was.\<close>

lemma commit_outcome:
  assumes "commit_receipt E c b receipt kind = (b', res)"
  shows "(\<exists>e. res = Inl e) \<and> b' = b \<or> res = Inr receipt"
  using assms by (auto simp: commit_receipt_def Let_def split: sum.splits if_splits)

lemma assess_outcome:
  assumes "assess E c b response = Some (b', res)"
  shows "(\<exists>e. res = Inl e) \<and> b' = b
    \<or> (\<exists>receipt kind. res = Inr receipt \<and> bundle_validate E b = Inr ()
        \<and> commit_receipt E c b receipt kind = (b', Inr receipt))"
proof (cases "\<exists>e. res = Inl e \<and> b' = b")
  case False
  obtain state asked key where q: "questions E c b = Inr (state, asked, key)"
    using assms False by (auto simp: assess_def split: sum.splits)
  have v: "validate_response response asked (question_options asked) = Inr ()"
    using assms False q by (auto simp: assess_def split: sum.splits)
  obtain r where "classify c response = Some r"
    and r: "(case r of Inl e \<Rightarrow> (b, Inl e) | Inr (outcome, kind) \<Rightarrow>
        commit_receipt E c b (receipt_for E c state asked key response
          (check_supersession c b (fold_occurrence E c b outcome))) kind) = (b', res)"
    using assms False q v by (auto simp: assess_def split: if_splits)
  then obtain receipt kind where "commit_receipt E c b receipt kind = (b', res)"
    using False by (auto split: sum.splits)
  with commit_outcome [OF this] questions_valid(1) [OF q] show ?thesis by blast
qed blast

text \<open>
  C21. Assessment is atomic and only adds. When it fails the bundle is unchanged. When it
  returns a receipt the bundle is valid; if the bundle already held a receipt of that id it
  is unchanged, and otherwise it holds exactly one receipt more, the returned one, its scope
  is the same, and every earlier record is still there with the same identity, wording, kind
  and applicability, its evidence, contradictions and receipts extended at the end; the only
  record that can be new is the candidate's.
\<close>

theorem assess_only_adds:
  assumes "assess E c b response = Some (b', res)"
  shows "case res of
      Inl _ \<Rightarrow> b' = b
    | Inr receipt \<Rightarrow> bundle_validate E b' = Inr ()
        \<and> (if am_id receipt \<in> am_id ` set (bu_assessments b) then b' = b
           else bu_scope b' = bu_scope b \<and> bu_assessments b' = bu_assessments b @ [receipt]
             \<and> (\<forall>r \<in> set (bu_records b). \<exists>r' \<in> set (bu_records b'). grown r r')
             \<and> (\<forall>r' \<in> set (bu_records b'). in_id r' \<in> insert (record_id E c) (in_id ` set (bu_records b))))"
  using assess_outcome [OF assms]
proof (elim disjE conjE exE)
  fix receipt kind
  assume res: "res = Inr receipt" and valid: "bundle_validate E b = Inr ()"
    and com: "commit_receipt E c b receipt kind = (b', Inr receipt)"
  show ?thesis
  proof (cases "am_id receipt \<in> am_id ` set (bu_assessments b)")
    case True
    then have "\<exists>a \<in> set (bu_assessments b). am_id a = am_id receipt" by fastforce
    then show ?thesis using com valid True by (simp add: res commit_receipt_def)
  next
    case False
    then have fresh: "\<not> (\<exists>a \<in> set (bu_assessments b). am_id a = am_id receipt)"
      by (metis image_eqI)
    with com obtain nb where nb: "materialize E c b receipt kind = Inr nb" "bundle_validate E b' = Inr ()"
        "b' = nb\<lparr>bu_assessments := bu_assessments nb @ [receipt], bu_records := sort_key in_id (bu_records nb)\<rparr>"
      by (auto simp: commit_receipt_def Let_def split: sum.splits)
    from materialize_effect [OF nb(1) bundle_valid(1) [OF valid]] obtain g extra where
      g: "bu_scope nb = bu_scope b" "bu_assessments nb = bu_assessments b"
        "bu_records nb = map g (bu_records b) @ extra"
        "\<And>r. grown r (g r)" "\<forall>n \<in> set extra. in_id n = record_id E c"
      unfolding materialized_def by blast
    have members: "set (bu_records b') = g ` set (bu_records b) \<union> set extra" by (simp add: nb(3) g(3))
    have "in_id (g r) = in_id r" for r using g(4) [of r] by (simp add: grown_def)
    with members g(5)
    have "\<forall>r' \<in> set (bu_records b'). in_id r' \<in> insert (record_id E c) (in_id ` set (bu_records b))" by auto
    moreover have "\<forall>r \<in> set (bu_records b). \<exists>r' \<in> set (bu_records b'). grown r r'"
      unfolding members using g(4) by blast
    moreover have "bu_scope b' = bu_scope b" "bu_assessments b' = bu_assessments b @ [receipt]"
      by (simp_all add: nb(3) g(1,2))
    ultimately show ?thesis using False nb(2) by (simp add: res)
  qed
qed simp

text \<open>
  C22. Only what passes every gate is admitted: a record the bundle did not hold before is the
  candidate's own quote, and the answers that admitted it put support, atomicity and scope at
  0.95 or more, durability and utility at 0.9 or more, none of them at 0.1 or less, the kind
  is not noise, and the novelty answer is confident.
\<close>

theorem assess_admission_gates:
  assumes "assess E c b response = Some (b', res)"
    and "r \<in> set (bu_records b')" and "in_id r \<notin> in_id ` set (bu_records b)"
  shows "in_id r = record_id E c \<and> in_statement r = se_quote (ic_evidence c)
    \<and> (\<exists>g kind novelty. gates_of (srs_answers response) = Some g
        \<and> choice_of (srs_answers response) ''kind'' = Some kind
        \<and> choice_of (srs_answers response) ''novelty'' = Some novelty
        \<and> gates_pass g \<and> \<not> gates_refuse g \<and> ca_choice kind \<noteq> ''noise''
        \<and> \<not> meaningful_kind kind < f64_lit (9 / 10) \<and> strong novelty)"
  using assms(1)
proof (cases rule: assess_cases)
  case same
  with assms(2,3) show ?thesis by auto
next
  case (committed receipt state asked key outcome kind nb)
  from committed(10) obtain g extra where g: "bu_records nb = map g (bu_records b) @ extra"
    "\<And>r. grown r (g r)" "\<forall>n \<in> set extra. in_id n = record_id E c \<and> in_statement n = se_quote (ic_evidence c)
      \<and> (case am_outcome receipt of
           O_Admitted \<Rightarrow> True | O_Contradiction _ \<Rightarrow> True | O_Supersession _ \<Rightarrow> True | _ \<Rightarrow> False)"
    unfolding materialized_def by blast
  have "in_id (g r) = in_id r" for r using g(2) [of r] by (simp add: grown_def)
  with assms(2,3) have "r \<in> set extra" by (auto simp: committed(7) g(1))
  with g(3) have r: "in_id r = record_id E c" "in_statement r = se_quote (ic_evidence c)"
    and out: "case am_outcome receipt of
           O_Admitted \<Rightarrow> True | O_Contradiction _ \<Rightarrow> True | O_Supersession _ \<Rightarrow> True | _ \<Rightarrow> False"
    by blast+
  have "am_outcome receipt = check_supersession c b (fold_occurrence E c b outcome)"
    by (simp add: committed(4) receipt_for_def Let_def)
  with out have "outcome \<noteq> O_Rejected" "outcome \<noteq> O_Abstained"
    by (auto simp: check_supersession_def fold_occurrence_def split: option.splits)
  with committed(3) r show ?thesis
    by (auto simp: classify_def outcome_of_def split: option.splits if_splits)
qed

text \<open>
  C23. A record is superseded only by the user, and only later: when an assessment turns a
  record superseded, the candidate was spoken by the user, its time is known, and it is
  strictly later than every user statement behind the record, of which there is one.
\<close>

theorem supersession_needs_later_user:
  assumes "assess E c b response = Some (b', res)" and "bundle_validate E b = Inr ()"
    and "r \<in> set (bu_records b)" and "in_status r \<noteq> IS_Superseded"
    and "r' \<in> set (bu_records b')" and "in_id r' = in_id r" and "in_status r' = IS_Superseded"
  shows "se_speaker (ic_evidence c) = ''user''
    \<and> (\<exists>t. se_observed_at_ms (ic_evidence c) = Some t \<and> user_times r \<noteq> [] \<and> (\<forall>u \<in> set (user_times r). u < t))"
proof -
  note distinct = bundle_valid(1) [OF assms(2)]
  have unique: "x = y" if "x \<in> set (bu_records b)" "y \<in> set (bu_records b)" "in_id x = in_id y" for x y
    using distinct that by (simp add: distinct_map inj_on_def)
  from assms(1) show ?thesis
  proof (cases rule: assess_cases)
    case same
    with unique assms(3-7) show ?thesis by metis
  next
    case (committed receipt state asked key outcome kind nb)
    from committed(10) obtain g extra where g: "bu_records nb = map g (bu_records b) @ extra"
      "\<And>r. grown r (g r)"
      "\<And>r. in_status (g r) = IS_Superseded \<Longrightarrow> in_status r = IS_Superseded \<or> am_outcome receipt = O_Supersession (in_id r)"
      "\<And>n. n \<in> set extra \<Longrightarrow> in_status n \<noteq> IS_Superseded"
      unfolding materialized_def by blast
    have "r' \<notin> set extra" using g(4) assms(7) by auto
    then obtain x where x: "x \<in> set (bu_records b)" "r' = g x"
      using assms(5) by (auto simp: committed(7) g(1))
    have "in_id x = in_id r" using g(2) [of x] x(2) assms(6) by (simp add: grown_def)
    then have "x = r" using unique x(1) assms(3) by blast
    with x(2) g(3) [of r] assms(4,7) have super: "am_outcome receipt = O_Supersession (in_id r)" by simp
    have "am_outcome receipt = check_supersession c b (fold_occurrence E c b outcome)"
      by (simp add: committed(4) receipt_for_def Let_def)
    with super have "outcome = O_Supersession (in_id r)"
      and later: "later_than (se_observed_at_ms (ic_evidence c))
        (Option.bind (find (\<lambda>x. in_id x = in_id r) (bu_records b)) (\<lambda>r. list_max (user_times r)))"
      by (auto simp: check_supersession_def fold_occurrence_def Let_def split: intel_outcome.splits option.splits if_splits)
    then have "se_speaker (ic_evidence c) = ''user''"
      using committed(3)
      by (auto simp: classify_def outcome_of_def consolidate_def split: option.splits if_splits)
    moreover have "find (\<lambda>x. in_id x = in_id r) (bu_records b) = Some r"
    proof -
      obtain y where y: "find (\<lambda>x. in_id x = in_id r) (bu_records b) = Some y"
        using assms(3) by (cases "find (\<lambda>x. in_id x = in_id r) (bu_records b)") (auto simp: find_None_iff)
      then have "y \<in> set (bu_records b)" "in_id y = in_id r" by (auto simp: find_Some_iff)
      with unique assms(3) y show ?thesis by metis
    qed
    ultimately show ?thesis
      using later by (auto simp: later_than_def list_max_Some split: option.splits)
  qed
qed

end
