(* ===== verification/Assess_Examples.thy ===== *)
theory Assess_Examples
  imports Assess_Properties
begin

text \<open>
  A concrete assessment history: a user decision is admitted, then a later user decision
  supersedes it. The codec writes enough of each value to tell the sample values apart.
\<close>

section \<open>Certain answers\<close>

definition sure :: "string list \<Rightarrow> string \<Rightarrow> choice_answer" where
  "sure ks k = \<lparr>ca_choice = k, ca_probabilities = map (\<lambda>x. (x, F64_Finite (if x = k then 1 else 0))) ks,
     ca_confidence = F64_Finite 1\<rparr>"

definition certain :: answer where
  "certain = A_Noul \<lparr>na_noul = F64_Finite 1\<rparr>"

definition kind_options :: "string list" where
  "kind_options = [''constraint'', ''decision'', ''finding'', ''noise'', ''pitfall'']"

definition sure_response :: "string list \<Rightarrow> string \<Rightarrow> system_one_response" where
  "sure_response ks k =
     \<lparr>srs_model = JEV_MODEL_PINNED,
      srs_answers = [(''atomic'', certain), (''durable'', certain), (''kind'', A_Choice (sure kind_options ''decision'')),
        (''novelty'', A_Choice (sure ks k)), (''scope'', certain), (''support'', certain), (''utility'', certain)],
      srs_usage = \<lparr>us_input_tokens = 1, us_output_tokens = 1\<rparr>\<rparr>"

lemma gate_quotients: "quotient_of (19 / 20) = (19, 20)" "quotient_of (9 / 10) = (9, 10)"
  "quotient_of (1 / 10) = (1, 10)" "quotient_of (1 / 20) = (1, 20)"
proof -
  have "gcd 19 (20 :: int) = 1" "gcd 9 (10 :: int) = 1" by code_simp+
  then show "quotient_of (19 / 20) = (19, 20)" "quotient_of (9 / 10) = (9, 10)"
    "quotient_of (1 / 10) = (1, 10)" "quotient_of (1 / 20) = (1, 20)"
    using quotient_of_Fract [of 19 20] quotient_of_Fract [of 9 10] quotient_of_Fract [of 1 10]
      quotient_of_Fract [of 1 20]
    by (simp_all add: Fract_of_int_quotient Rat.normalize_def Let_def)
qed

lemma gate_exponents: "exponent (19 / 20) = - 1" "exponent (9 / 10) = - 1" "exponent (1 / 10) = - 4"
  "exponent (1 / 20) = - 5"
  by (simp_all add: exponent_def gate_quotients bit_length.simps pow2_def)

lemma gate_floors: "\<lfloor>42784196460019712 / 5 :: rat\<rfloor> = 8556839292003942"
  "\<lfloor>40532396646334464 / 5 :: rat\<rfloor> = 8106479329266892" "\<lfloor>36028797018963968 / 5 :: rat\<rfloor> = 7205759403792793"
  by (simp_all add: floor_eq_iff)

lemma literals:
  "f64_lit (19 / 20) = F64_Finite (4278419646001971 / 4503599627370496)"
  "f64_lit (9 / 10) = F64_Finite (8106479329266893 / 9007199254740992)"
  "f64_lit (1 / 10) = F64_Finite (3602879701896397 / 36028797018963968)"
  "f64_lit (1 / 20) = F64_Finite (3602879701896397 / 72057594037927936)"
  by (simp_all add: f64_lit_def f64_round_def gate_exponents pow2_def round_even_def Let_def gate_floors)

lemma f64_round_01 [simp]: "f64_round 0 = F64_Finite 0" "f64_round 1 = F64_Finite 1"
proof -
  have "bit_length 1 = 1" by (simp add: bit_length.simps)
  moreover have "quotient_of 1 = (1, 1)" by simp
  ultimately have "exponent 1 = 0" by (simp add: exponent_def pow2_def)
  moreover have "round_even (2 ^ 52) = 2 ^ 52" by (simp add: round_even_def Let_def)
  ultimately show "f64_round 1 = F64_Finite 1" by (simp add: f64_round_def pow2_def Let_def)
qed (simp add: f64_round_def)

lemma sure_sum:
  assumes "distinct ks" and "seen \<Longrightarrow> k \<notin> set ks"
  shows "foldl f64_add (F64_Finite (if seen then 1 else 0)) (map (\<lambda>x. F64_Finite (if x = k then 1 else 0)) ks)
    = F64_Finite (if seen \<or> k \<in> set ks then 1 else 0)"
  using assms
proof (induction ks arbitrary: seen)
  case (Cons x ks)
  show ?case
  proof (cases "x = k")
    case True
    with Cons.prems have "\<not> seen" "k \<notin> set ks" by auto
    with True Cons.IH [of True] Cons.prems show ?thesis by simp
  next
    case False
    with Cons.IH [of seen] Cons.prems show ?thesis by (cases seen) simp_all
  qed
qed simp

lemma sure_ok:
  assumes "distinct ks" and "k \<in> set ks"
  shows "choice_ok (Some ks) (sure ks k)"
proof -
  have "f64_sum (map (\<lambda>x. F64_Finite (if x = k then 1 else 0)) ks) = F64_Finite 1"
    using sure_sum [OF assms(1), of False k] assms(2) by (simp add: f64_sum_def)
  moreover have "bt_values (ca_probabilities (sure ks k)) = map (\<lambda>x. F64_Finite (if x = k then 1 else 0)) ks"
    "bt_keys (ca_probabilities (sure ks k)) = ks"
    by (simp_all add: sure_def bt_values_def bt_keys_def comp_def)
  moreover have "\<not> f64_lit (5 / 100) < F64_Finite 0" by (simp add: literals)
  ultimately show ?thesis
    using assms(2) by (auto simp: choice_ok_def in_unit_def sure_def f64_sub_def)
qed

lemma certain_ok: "answer_ok valid (Q_Noul i c) certain"
  by (simp add: certain_def in_unit_def)

lemma bt_get_options:
  "bt_get (question_options qs) i = map_option (\<lambda>q. case q of Q_Choice _ criteria \<Rightarrow> bt_keys criteria | _ \<Rightarrow> []) (bt_get qs i)"
  by (simp add: question_options_def bt_get_mapped)

lemma kind_asked:
  "\<exists>ins criteria. bt_get (assessment_questions novelty) ''kind'' = Some (Q_Choice ins criteria)
     \<and> bt_keys criteria = kind_options"
  by (simp add: assessment_questions_def bt_get_mapped kind_question_def choice_question_def
      kind_options_def bt_keys_def)

lemma sure_response_valid:
  assumes "bt_ok novelty" and "k \<in> set (bt_keys novelty)"
  shows "validate_response (sure_response (bt_keys novelty) k) (assessment_questions novelty)
    (question_options (assessment_questions novelty)) = Inr ()"
proof -
  let ?r = "sure_response (bt_keys novelty) k" and ?qs = "assessment_questions novelty"
  have "bt_keys (srs_answers ?r) = bt_keys ?qs"
    unfolding assessment_questions_keys by (simp add: sure_response_def bt_keys_def)
  moreover have "\<exists>a. bt_get (srs_answers ?r) i = Some a \<and> answer_ok (bt_get (question_options ?qs) i) q a"
    if "bt_get ?qs i = Some q" for i q
  proof -
    have kinds: "choice_ok (Some kind_options) (sure kind_options ''decision'')"
      by (rule sure_ok) (simp_all add: kind_options_def)
    have "choice_ok (Some (bt_keys novelty)) (sure (bt_keys novelty) k)"
      using assms bt_ok_distinct [OF assms(1)] by (intro sure_ok) (simp_all add: bt_keys_def)
    moreover have "bt_get (srs_answers ?r) ''novelty'' = Some (A_Choice (sure (bt_keys novelty) k))"
      "bt_get (srs_answers ?r) ''kind'' = Some (A_Choice (sure kind_options ''decision''))"
      by (simp_all add: sure_response_def)
    moreover have "bt_get (srs_answers ?r) j = Some certain"
      if "j \<in> {''support'', ''atomic'', ''scope'', ''durable'', ''utility''}" for j
      using that unfolding insert_iff empty_iff by (elim disjE) (simp_all add: sure_response_def)
    moreover obtain ins where "bt_get ?qs ''novelty'' = Some (Q_Choice ins novelty)"
      using assessment_questions_get(1) by blast
    moreover obtain ins' criteria where "bt_get ?qs ''kind'' = Some (Q_Choice ins' criteria)"
      "bt_keys criteria = kind_options"
      using kind_asked by blast
    moreover have "i \<in> set (bt_keys ?qs)" using that by (simp add: bt_keys_iff bt_contains_iff_Some)
    then have "i = ''novelty'' \<or> i = ''kind'' \<or> i \<in> {''support'', ''atomic'', ''scope'', ''durable'', ''utility''}"
      unfolding assessment_questions_keys list.set insert_iff empty_iff by (elim disjE) simp_all
    then consider "i = ''novelty''" | "i = ''kind''"
      | "i \<in> {''support'', ''atomic'', ''scope'', ''durable'', ''utility''}"
      by (elim disjE)
    then show ?thesis
    proof cases
      case 3
      from assessment_questions_get(3) [OF this] obtain ins2 crit2 where
        "bt_get ?qs i = Some (Q_Noul ins2 crit2)" by blast
      with that have "q = Q_Noul ins2 crit2" by simp
      with calculation(4) [OF 3] certain_ok show ?thesis by simp
    next
      case 1
      with that calculation(5) have "q = Q_Choice ins novelty" by simp
      with 1 calculation kinds show ?thesis by (simp add: bt_get_options)
    next
      case 2
      with that calculation(6) have "q = Q_Choice ins' criteria" by simp
      with 2 calculation kinds show ?thesis by (simp add: bt_get_options)
    qed
  qed
  ultimately have "response_ok ?r ?qs (question_options ?qs) JEV_MODEL_PINNED"
    by (simp add: response_ok_def) (simp add: sure_response_def)
  moreover have "bt_ok (srs_answers ?r)" by (simp add: sure_response_def)
  ultimately show ?thesis
    unfolding validate_response_def
    by (subst validate_response_for_model_ok) (simp_all add: assessment_questions_ok)
qed

lemma sure_distributions:
  "complete_distributions (assessment_questions novelty) (sure_response (bt_keys novelty) k)"
  by (simp add: complete_distributions_def assessment_questions_def sure_response_def sure_def
      support_question_def atomic_question_def scope_question_def durable_question_def certain_def
      utility_question_def noul_question_def kind_question_def choice_question_def kind_options_def
      bt_keys_def comp_def)

lemma one_passes: "f64_lit (19 / 20) \<le> F64_Finite 1" "f64_lit (9 / 10) \<le> F64_Finite 1"
  "\<not> F64_Finite 1 \<le> f64_lit (1 / 10)" "\<not> F64_Finite 1 < f64_lit (9 / 10)"
  by (simp_all add: literals)

lemma sure_strong: "k \<in> set ks \<Longrightarrow> strong (sure ks k)"
proof -
  assume "k \<in> set ks"
  then have "bt_get (map (\<lambda>x. (x, F64_Finite (if x = k then 1 else 0))) ks) k = Some (F64_Finite 1)"
    by (induction ks) auto
  then show ?thesis using one_passes by (simp add: strong_def sure_def)
qed

lemma classify_sure:
  assumes "k \<in> set ks" and "k \<noteq> ''unknown''"
  shows "classify c (sure_response ks k) = Some (map_sum id (\<lambda>out. (out, IK_Decision)) (consolidate c k))"
proof -
  have "meaningful_kind (sure kind_options ''decision'') = F64_Finite 1"
    by (simp add: meaningful_kind_def sure_def kind_options_def f64_sum_def)
  then show ?thesis
    using assms sure_strong [OF assms(1)] one_passes
    by (simp add: classify_def sure_response_def choice_of_def gates_of_def noul_of_def certain_def
        outcome_of_def gates_refuse_def gates_pass_def)
      (simp add: sure_def kind_of_choice_def)
qed

section \<open>The history\<close>

definition sample_codec :: codec where
  "sample_codec =
     \<lparr>cx_hash = (\<lambda>m. m), cx_lower = (\<lambda>w. w), cx_split = (\<lambda>_. [''word'']), cx_value = (\<lambda>_. []),
      cx_evidence = se_message, cx_context = (\<lambda>_. []), cx_questions = (\<lambda>_. []), cx_decision = fst,
      cx_bundle = (\<lambda>_. [])\<rparr>"

definition said :: "string \<Rightarrow> int \<Rightarrow> string \<Rightarrow> session_evidence" where
  "said message time quote =
     \<lparr>se_source = ''s'', se_snapshot = ''x'', se_session = ''t'', se_message = message, se_pointer = ''/p'',
      se_line = 1, se_quote = quote, se_speaker = ''user'', se_observed_at_ms = Some time\<rparr>"

definition proposal :: "string \<Rightarrow> session_evidence \<Rightarrow> intelligence_candidate" where
  "proposal i e =
     \<lparr>ic_id = i, ic_scope = ''private'', ic_repositories = [''r''], ic_evidence = e, ic_context = se_quote e,
      ic_evidence_bundle = [], ic_context_coverage = None\<rparr>"

definition identified :: "session_evidence \<Rightarrow> intelligence_candidate" where
  "identified e = proposal (candidate_identity sample_codec (proposal [] e)) e"

definition first_evidence :: session_evidence where
  "first_evidence = said ''m1'' 10 ''Always indent with spaces''"

definition later_evidence :: session_evidence where
  "later_evidence = said ''m2'' 20 ''Never indent with spaces.''"

lemma identified_id: "ic_id (identified e) = candidate_identity sample_codec (identified e)"
  by (simp add: identified_def proposal_def candidate_identity_def Let_def)

lemma identified_fields [simp]:
  "ic_scope (identified e) = ''private''" "ic_repositories (identified e) = [''r'']"
  "ic_evidence (identified e) = e" "ic_context (identified e) = se_quote e"
  "ic_evidence_bundle (identified e) = []" "ic_context_coverage (identified e) = None"
  by (simp_all add: identified_def proposal_def)

lemma private_not_blank [simp]: "\<not> blank ''private''" "\<not> blank ''r''"
  by (simp_all add: ascii_ws_def ws2_def ws3_def)

declare blank.simps [simp del]

lemma sample_candidate_valid:
  assumes "bundle_validate sample_codec b = Inr ()" and "bu_scope b = ''private''"
    and "e \<in> {first_evidence, later_evidence}"
  shows "validate_candidate sample_codec (identified e) b = Inr ()"
proof -
  have "se_quote e \<in> set (text_lines (se_quote e))"
    using assms(3) by (auto simp: first_evidence_def later_evidence_def said_def text_lines_def strip_cr_def)
  with assms show ?thesis
    by (auto simp: validate_candidate_def identified_id [symmetric] Let_def first_evidence_def
        later_evidence_def said_def starts_with_def)
qed

definition first_receipt :: assessment where
  "first_receipt = receipt_for sample_codec (identified first_evidence)
     (state_json (identified first_evidence) []) (assessment_questions novelty_base) 
     (assess_key sample_codec (identified first_evidence) (state_json (identified first_evidence) [])
       (assessment_questions novelty_base))
     (sure_response (bt_keys novelty_base) ''novel'') O_Admitted"

definition first_record :: intelligence where
  "first_record = new_record sample_codec (identified first_evidence) (am_id first_receipt) IK_Decision"

definition first_bundle :: intel_bundle where
  "first_bundle = (bundle_new ''private'')\<lparr>bu_records := [first_record], bu_assessments := [first_receipt]\<rparr>"

lemma receipt_validate:
  assumes "receipt = receipt_for E c state (assessment_questions novelty) key (sure_response (bt_keys novelty) k) out"
    and "bt_ok novelty" and "k \<in> set (bt_keys novelty)" and "ic_scope c = scope"
  shows "assessment_validate E scope receipt = Inr ()"
  using sure_response_valid [OF assms(2,3)] assms(4)
  by (simp add: assms(1) assessment_validate_def receipt_for_def Let_def assessment_questions_keys
      RUBRIC_VERSION_def assessment_identity_def decision_fields_of_def)
    (simp add: sure_response_def)

lemma receipt_fields [simp]:
  "am_candidate_id (receipt_for E c state asked key response out) = ic_id c"
  "am_outcome (receipt_for E c state asked key response out) = out"
  "am_repositories (receipt_for E c state asked key response out) = ic_repositories c"
  "am_evidence_digest (receipt_for E c state asked key response out) = evidence_digest E (ic_evidence c)"
  by (simp_all add: receipt_for_def Let_def)

lemma novelty_base_ok: "bt_ok novelty_base" "bt_keys novelty_base = [''novel'', ''unknown'']"
  by (simp_all add: novelty_base_def bt_keys_def)

lemma first_bundle_valid: "bundle_validate sample_codec first_bundle = Inr ()"
proof -
  have "assessment_validate sample_codec ''private'' first_receipt = Inr ()"
    by (rule receipt_validate [OF first_receipt_def]) (simp_all add: novelty_base_ok)
  moreover have "receipt_of first_bundle (am_id first_receipt) = Some first_receipt"
    by (simp add: receipt_of_def first_bundle_def)
  moreover have "in_evidence first_record = [first_evidence]" "in_assessments first_record = [am_id first_receipt]"
    by (simp_all add: first_record_def new_record_def)
  ultimately have "record_validate sample_codec first_bundle first_record = Inr ()"
    unfolding record_validate_def status_from_receipts_def interpretation_of_def evidence_bound_def receipts_of_def
      admission_of_def
    by (simp add: Let_def map_filter_simps)
      (simp add: first_record_def new_record_def first_bundle_def first_receipt_def bundle_new_def record_id_def)
  with \<open>assessment_validate sample_codec ''private'' first_receipt = Inr ()\<close> show ?thesis
    by (simp add: bundle_validate_def first_bundle_def bundle_new_def)
qed

lemma first_assess:
  "assess sample_codec (identified first_evidence) (bundle_new ''private'')
     (sure_response (bt_keys novelty_base) ''novel'') = Some (first_bundle, Inr first_receipt)"
proof -
  have valid: "bundle_validate sample_codec (bundle_new ''private'') = Inr ()"
    by (simp add: bundle_validate_def bundle_new_def)
  have scope: "bu_scope (bundle_new ''private'') = ''private''" by (simp add: bundle_new_def)
  have related: "related_records sample_codec (identified first_evidence) (bundle_new ''private'') = []"
    by (simp add: related_records_def bundle_new_def)
  have qs: "questions sample_codec (identified first_evidence) (bundle_new ''private'')
      = Inr (state_json (identified first_evidence) [], assessment_questions novelty_base,
          assess_key sample_codec (identified first_evidence) (state_json (identified first_evidence) [])
            (assessment_questions novelty_base))"
    using sample_candidate_valid [OF valid scope, of first_evidence]
    by (simp add: questions_def related Let_def novelty_criteria_def)
  have novel: "''novel'' \<in> set (bt_keys novelty_base)" by (simp add: novelty_base_ok)
  have cls: "classify (identified first_evidence) (sure_response (bt_keys novelty_base) ''novel'')
      = Some (Inr (O_Admitted, IK_Decision))"
    by (subst classify_sure [OF novel]) (simp_all add: consolidate_def)
  have "check_supersession c (bundle_new s) (fold_occurrence E c (bundle_new s) O_Admitted) = O_Admitted" for c s E
    by (simp add: check_supersession_def fold_occurrence_def bundle_new_def)
  moreover have "commit_receipt sample_codec (identified first_evidence) (bundle_new ''private'') first_receipt IK_Decision
      = (first_bundle, Inr first_receipt)"
  proof -
    have "am_outcome first_receipt = O_Admitted" by (simp add: first_receipt_def)
    then have "materialize sample_codec (identified first_evidence) (bundle_new ''private'') first_receipt IK_Decision
        = Inr ((bundle_new ''private'')\<lparr>bu_records := [first_record]\<rparr>)"
      by (simp add: materialize_def Let_def first_record_def) (simp add: bundle_new_def)
    moreover have "(bundle_new ''private'')\<lparr>bu_records := [first_record], bu_assessments := [first_receipt]\<rparr> = first_bundle"
      by (simp add: first_bundle_def)
    ultimately show ?thesis using first_bundle_valid
      by (simp add: commit_receipt_def Let_def) (simp add: bundle_new_def first_bundle_def)
  qed
  ultimately show ?thesis
    using sure_response_valid [OF novelty_base_ok(1) novel] sure_distributions [of novelty_base "''novel''"]
    by (simp add: assess_def qs cls first_receipt_def)
qed

section \<open>The supersession\<close>

definition target :: string where
  "target = in_id first_record"

definition replacing :: string where
  "replacing = ''supersedes:'' @ target"

definition second_novelty :: "(string, string option) btree" where
  "second_novelty = novelty_criteria [first_record]"

definition second_state :: json where
  "second_state = state_json (identified later_evidence) [first_record]"

definition second_receipt :: assessment where
  "second_receipt = receipt_for sample_codec (identified later_evidence) second_state
     (assessment_questions second_novelty)
     (assess_key sample_codec (identified later_evidence) second_state (assessment_questions second_novelty))
     (sure_response (bt_keys second_novelty) replacing) (O_Supersession target)"

definition second_record :: intelligence where
  "second_record = (new_record sample_codec (identified later_evidence) (am_id second_receipt) IK_Decision)
     \<lparr>in_supersedes := Some target\<rparr>"

definition second_bundle :: intel_bundle where
  "second_bundle = first_bundle
     \<lparr>bu_assessments := [first_receipt, second_receipt],
      bu_records := sort_key in_id [supersede (am_id second_receipt) first_record, second_record]\<rparr>"

lemma first_record_fields [simp]:
  "in_scope first_record = ''private''" "in_repositories first_record = [''r'']"
  "in_statement first_record = se_quote first_evidence" "in_status first_record = IS_Admitted"
  "in_evidence first_record = [first_evidence]" "in_contradicts first_record = []"
  "in_supersedes first_record = None" "in_assessments first_record = [am_id first_receipt]"
  "in_interpretation_class first_record = EC_Inferred"
  by (simp_all add: first_record_def new_record_def)

lemma second_record_fields [simp]:
  "in_id second_record = record_id sample_codec (identified later_evidence)"
  "in_scope second_record = ''private''" "in_repositories second_record = [''r'']"
  "in_statement second_record = se_quote later_evidence" "in_status second_record = IS_Admitted"
  "in_evidence second_record = [later_evidence]" "in_contradicts second_record = []"
  "in_supersedes second_record = Some target" "in_assessments second_record = [am_id second_receipt]"
  "in_interpretation_class second_record = EC_Inferred"
  by (simp_all add: second_record_def new_record_def)

lemma identities_differ: "candidate_identity sample_codec (identified first_evidence)
    \<noteq> candidate_identity sample_codec (identified later_evidence)"
  by (simp add: candidate_identity_def Let_def sample_codec_def sha256_hex_def lineage_def
      first_evidence_def later_evidence_def said_def)

lemma target_id: "target = record_id sample_codec (identified first_evidence)"
  by (simp add: target_def first_record_def new_record_def)

lemma ids_differ: "record_id sample_codec (identified later_evidence) \<noteq> target"
  using identities_differ by (simp add: target_id record_id_def identified_id sample_codec_def sha256_hex_def)

lemma receipt_id: "am_id (receipt_for sample_codec c state asked key response out)
    = ''intel-assessment:'' @ ic_id c @ [NUL, NUL]"
  by (simp add: receipt_for_def Let_def assessment_identity_def sample_codec_def sha256_hex_def
      decision_fields_of_def)

lemma receipts_differ: "am_id second_receipt \<noteq> am_id first_receipt"
  using identities_differ by (simp add: first_receipt_def second_receipt_def receipt_id identified_id)

lemma second_novelty_ok: "bt_ok second_novelty" "replacing \<in> set (bt_keys second_novelty)"
proof -
  show "bt_ok second_novelty" by (simp only: second_novelty_def novelty_criteria_ok)
  show "replacing \<in> set (bt_keys second_novelty)"
    unfolding second_novelty_def novelty_criteria_def bt_keys_iff bt_contains_extend replacing_def
    by (simp add: consolidation_options_def consolidations_def target_def)
qed

lemma second_receipts:
  "receipt_of second_bundle (am_id first_receipt) = Some first_receipt"
  "receipt_of second_bundle (am_id second_receipt) = Some second_receipt"
  using receipts_differ by (auto simp: receipt_of_def second_bundle_def)

lemma second_bundle_members [simp]:
  "bu_scope second_bundle = ''private''" "bu_version second_bundle = 1"
  "set (bu_records second_bundle) = {supersede (am_id second_receipt) first_record, second_record}"
  "bu_assessments second_bundle = [first_receipt, second_receipt]"
  by (auto simp: second_bundle_def first_bundle_def bundle_new_def)

lemma superseded_fields [simp]:
  "in_id (supersede i r) = in_id r" "in_scope (supersede i r) = in_scope r"
  "in_repositories (supersede i r) = in_repositories r" "in_statement (supersede i r) = in_statement r"
  "in_status (supersede i r) = IS_Superseded" "in_evidence (supersede i r) = in_evidence r"
  "in_contradicts (supersede i r) = in_contradicts r" "in_supersedes (supersede i r) = in_supersedes r"
  "in_assessments (supersede i r) = in_assessments r @ [i]"
  "in_interpretation_class (supersede i r) = in_interpretation_class r"
  by (simp_all add: record_updates)

lemma second_bundle_valid: "bundle_validate sample_codec second_bundle = Inr ()"
proof -
  have r1: "assessment_validate sample_codec ''private'' first_receipt = Inr ()"
    by (rule receipt_validate [OF first_receipt_def]) (simp_all add: novelty_base_ok)
  have r2: "assessment_validate sample_codec ''private'' second_receipt = Inr ()"
    by (rule receipt_validate [OF second_receipt_def]) (simp_all add: second_novelty_ok)
  have a1: "am_outcome first_receipt = O_Admitted" "am_repositories first_receipt = [''r'']"
    "am_evidence_digest first_receipt = evidence_digest sample_codec first_evidence"
    "am_candidate_id first_receipt = ic_id (identified first_evidence)"
    by (simp_all add: first_receipt_def)
  have a2: "am_outcome second_receipt = O_Supersession target" "am_repositories second_receipt = [''r'']"
    "am_evidence_digest second_receipt = evidence_digest sample_codec later_evidence"
    "am_candidate_id second_receipt = ic_id (identified later_evidence)"
    by (simp_all add: second_receipt_def)
  have t: "in_id first_record = target" by (simp add: target_def)
  have v1: "record_validate sample_codec second_bundle (supersede (am_id second_receipt) first_record) = Inr ()"
    using a1 a2
    by (auto simp: record_validate_def Let_def status_from_receipts_def evidence_bound_def receipts_of_def
        admission_of_def map_filter_simps second_receipts t target_id record_id_def)
  have v2: "record_validate sample_codec second_bundle second_record = Inr ()"
    using a1 a2 ids_differ
    by (auto simp: record_validate_def Let_def status_from_receipts_def evidence_bound_def receipts_of_def
        interpretation_of_def admission_of_def map_filter_simps second_receipts t record_id_def)
  have "mset (map in_id (bu_records second_bundle)) = {# target, in_id second_record #}"
    by (simp add: second_bundle_def t)
  then have "distinct (map in_id (bu_records second_bundle))"
    using ids_differ by (metis (no_types) distinct_length_2_or_more distinct_singleton mset.simps mset_eq_imp_distinct_iff second_record_fields(1))
  moreover have "distinct (map am_id (bu_assessments second_bundle))" using receipts_differ by auto
  ultimately show ?thesis
    using r1 r2 v1 v2 distinct_by_set [of "map in_id (bu_records second_bundle)"]
      distinct_by_set [of "map am_id (bu_assessments second_bundle)"]
    unfolding bundle_validate_def by simp
qed

lemma second_assess:
  "assess sample_codec (identified later_evidence) first_bundle
     (sure_response (bt_keys second_novelty) replacing) = Some (second_bundle, Inr second_receipt)"
proof -
  have scope: "bu_scope first_bundle = ''private''" and recs: "bu_records first_bundle = [first_record]"
    by (simp_all add: first_bundle_def bundle_new_def)
  have apart: "\<not> same_occurrence sample_codec first_record (identified later_evidence)"
    by (simp add: same_occurrence_def first_evidence_def later_evidence_def said_def)
  have "0 < overlap sample_codec (in_statement first_record) (words sample_codec (se_quote later_evidence))"
    by (simp add: overlap_def words_def sample_codec_def stop_words_def)
  then have related: "related_records sample_codec (identified later_evidence) first_bundle = [first_record]"
    using apart by (simp add: related_records_def recs)
  have qs: "questions sample_codec (identified later_evidence) first_bundle
      = Inr (second_state, assessment_questions second_novelty,
          assess_key sample_codec (identified later_evidence) second_state (assessment_questions second_novelty))"
    using sample_candidate_valid [OF first_bundle_valid scope, of later_evidence]
    by (simp add: questions_def related Let_def second_state_def second_novelty_def)
  have cls: "classify (identified later_evidence) (sure_response (bt_keys second_novelty) replacing)
      = Some (Inr (O_Supersession target, IK_Decision))"
    by (subst classify_sure [OF second_novelty_ok(2)])
      (simp_all add: consolidate_def strip_prefix_def starts_with_def later_evidence_def said_def replacing_def)
  have later: "check_supersession (identified later_evidence) first_bundle
      (fold_occurrence sample_codec (identified later_evidence) first_bundle (O_Supersession target)) = O_Supersession target"
    using apart
    by (simp add: check_supersession_def fold_occurrence_def recs target_def user_times_def map_filter_simps
        list_max_def later_than_def) (simp add: first_evidence_def later_evidence_def said_def)
  have "commit_receipt sample_codec (identified later_evidence) first_bundle second_receipt IK_Decision
      = (second_bundle, Inr second_receipt)"
  proof -
    have out: "am_outcome second_receipt = O_Supersession target" by (simp add: second_receipt_def)
    have new: "in_id first_record \<noteq> in_id (new_record sample_codec (identified later_evidence) (am_id second_receipt) IK_Decision)"
      using ids_differ by (simp add: new_record_def target_def)
    have "materialize sample_codec (identified later_evidence) first_bundle second_receipt IK_Decision
        = Inr (first_bundle\<lparr>bu_records := [supersede (am_id second_receipt) first_record, second_record]\<rparr>)"
      using new by (simp add: materialize_def Let_def out recs second_record_def) (simp add: target_def)
    moreover have "\<not> (\<exists>a \<in> set (bu_assessments first_bundle). am_id a = am_id second_receipt)"
      using receipts_differ by (auto simp: first_bundle_def)
    moreover have "first_bundle\<lparr>bu_records := [supersede (am_id second_receipt) first_record, second_record],
        bu_assessments := bu_assessments (first_bundle\<lparr>bu_records := [supersede (am_id second_receipt) first_record, second_record]\<rparr>) @ [second_receipt],
        bu_records := sort_key in_id [supersede (am_id second_receipt) first_record, second_record]\<rparr> = second_bundle"
      by (simp add: second_bundle_def) (simp add: first_bundle_def bundle_new_def)
    ultimately show ?thesis using second_bundle_valid
      by (simp add: commit_receipt_def Let_def)
  qed
  then show ?thesis
    using sure_response_valid [OF second_novelty_ok] sure_distributions [of second_novelty replacing]
    by (simp add: assess_def qs cls later second_receipt_def)
qed

section \<open>Witnesses\<close>

theorem assess_total_witness:
  "assess sample_codec (identified first_evidence) (bundle_new ''private'')
     (sure_response (bt_keys novelty_base) ''novel'') \<noteq> None"
  by (rule assess_total) (simp add: sure_response_def)

theorem assess_only_adds_witness:
  "bundle_validate sample_codec second_bundle = Inr () \<and> bu_scope second_bundle = bu_scope first_bundle
   \<and> bu_assessments second_bundle = bu_assessments first_bundle @ [second_receipt]
   \<and> (\<exists>r' \<in> set (bu_records second_bundle). grown first_record r')"
proof -
  have "first_record \<in> set (bu_records first_bundle)" by (simp add: first_bundle_def)
  moreover have "am_id second_receipt \<notin> am_id ` set (bu_assessments first_bundle)"
    using receipts_differ by (auto simp: first_bundle_def)
  ultimately show ?thesis using assess_only_adds [OF second_assess] by simp
qed

theorem assess_admission_gates_witness:
  "\<exists>g. gates_of (srs_answers (sure_response (bt_keys novelty_base) ''novel'')) = Some g \<and> gates_pass g"
proof -
  have "first_record \<in> set (bu_records first_bundle)" "in_id first_record \<notin> in_id ` set (bu_records (bundle_new ''private''))"
    by (simp_all add: first_bundle_def bundle_new_def)
  from assess_admission_gates [OF first_assess this] show ?thesis by blast
qed

theorem supersession_needs_later_user_witness:
  "\<exists>t. se_observed_at_ms later_evidence = Some t \<and> list_all (\<lambda>u. u < t) (user_times first_record)"
proof -
  have "first_record \<in> set (bu_records first_bundle)" by (simp add: first_bundle_def)
  from supersession_needs_later_user [OF second_assess first_bundle_valid this, of "supersede (am_id second_receipt) first_record"]
  show ?thesis by (auto simp: list_all_iff)
qed

end
