(* ===== verification/Federation_Policy.thy ===== *)
theory Federation_Policy
  imports Intelligence
begin

text \<open>
  Federation: the wire types of \<^verbatim>\<open>crates/chaosbox/src/federation/mod.rs\<close> and the grants of
  \<^verbatim>\<open>federation/policy.rs\<close>.
\<close>

section \<open>Identities and grants\<close>

datatype error_code = FE_Denied | FE_InvalidRequest | FE_Unavailable | FE_SnapshotUnavailable | FE_InvalidResponse

record fed_identity =
  fi_provider :: string
  fi_owner :: string
  fi_scope :: string

definition label :: "string \<Rightarrow> bool" where
  "label s \<longleftrightarrow> s \<noteq> [] \<and> length s \<le> 128 \<and> (\<forall>c \<in> set s. is_alnum c \<or> c \<in> set ''._-'')"

definition identity_validate :: "fed_identity \<Rightarrow> error_code + unit" where
  "identity_validate i =
     (if \<not> label (fi_provider i) \<or> \<not> label (fi_owner i) \<or> \<not> starts_with (fi_scope i) ''private:''
        \<or> length (fi_scope i) \<le> 8 \<or> 256 < length (fi_scope i)
      then Inl FE_InvalidRequest else Inr ())"

definition fed_hash :: "string \<Rightarrow> bool" where
  "fed_hash s \<longleftrightarrow> length s = 64 \<and> (\<forall>c \<in> set s. is_lowhex c)"

definition intel_id :: "string \<Rightarrow> bool" where
  "intel_id s \<longleftrightarrow> (case strip_prefix s ''intel:'' of None \<Rightarrow> False | Some h \<Rightarrow> fed_hash h)"

datatype sharing_mode = SM_Selected | SM_AllAdmitted

record fed_project =
  fp_repo :: string

record fed_grant =
  fg_recipient :: string
  fg_project :: string
  fg_revision :: u64
  fg_mode :: sharing_mode
  fg_records :: "string list"

record fed_policy =
  fo_version :: u32
  fo_identity :: fed_identity
  fo_projects :: "(string, fed_project) btree"
  fo_grants :: "fed_grant list"

text \<open>The loop over the grants with the pairs seen so far.\<close>

fun grants_valid :: "(string, fed_project) btree \<Rightarrow> (string \<times> string) list \<Rightarrow> fed_grant list \<Rightarrow> bool" where
  "grants_valid projects seen [] \<longleftrightarrow> True"
| "grants_valid projects seen (g # gs) \<longleftrightarrow>
     label (fg_recipient g) \<and> fg_revision g \<noteq> 0 \<and> bt_contains projects (fg_project g)
     \<and> (fg_recipient g, fg_project g) \<notin> set seen \<and> length (fg_records g) \<le> 100000
     \<and> (\<forall>i \<in> set (fg_records g). intel_id i)
     \<and> \<not> (fg_mode g = SM_AllAdmitted \<and> fg_records g \<noteq> [])
     \<and> grants_valid projects ((fg_recipient g, fg_project g) # seen) gs"

definition policy_validate :: "fed_policy \<Rightarrow> error_code + unit" where
  "policy_validate p =
     all_ok
      [identity_validate (fo_identity p),
       ensure (fo_version p = 1 \<and> length (fo_projects p) \<le> 1024 \<and> length (fo_grants p) \<le> 4096
         \<and> (\<forall>(key, project) \<in> set (fo_projects p). \<not> blank key \<and> length key \<le> 256
              \<and> \<not> blank (fp_repo project) \<and> length (fp_repo project) \<le> 256)) FE_InvalidRequest,
       ensure (grants_valid (fo_projects p) [] (fo_grants p)) FE_InvalidRequest]"

definition policy_grant :: "fed_policy \<Rightarrow> string \<Rightarrow> string \<Rightarrow> fed_grant option" where
  "policy_grant p recipient project =
     find (\<lambda>g. fg_recipient g = recipient \<and> fg_project g = project) (fo_grants p)"

definition policy_repo :: "fed_policy \<Rightarrow> string \<Rightarrow> string \<Rightarrow> error_code + string" where
  "policy_repo p recipient project =
     (case bt_get (fo_projects p) project of
        None \<Rightarrow> Inl FE_Denied
      | Some mapping \<Rightarrow>
          if recipient \<noteq> fi_owner (fo_identity p) \<and> policy_grant p recipient project = None
          then Inl FE_Denied else Inr (fp_repo mapping))"

definition eligible :: "fed_policy \<Rightarrow> string \<Rightarrow> string \<Rightarrow> intelligence \<Rightarrow> bool" where
  "eligible p recipient project r \<longleftrightarrow>
     in_scope r = fi_scope (fo_identity p)
     \<and> (case policy_repo p recipient project of Inl _ \<Rightarrow> False | Inr repo \<Rightarrow> repo \<in> set (in_repositories r))
     \<and> in_status r \<in> {IS_Admitted, IS_Disputed}
     \<and> (recipient = fi_owner (fo_identity p)
        \<or> (case policy_grant p recipient project of
             None \<Rightarrow> False | Some g \<Rightarrow> fg_mode g = SM_AllAdmitted \<or> in_id r \<in> set (fg_records g)))"

section \<open>The wire\<close>

record context_request =
  cr_project :: string
  cr_query :: string
  cr_limit :: nat
  cr_max_chars :: nat

definition request_validate :: "context_request \<Rightarrow> error_code + unit" where
  "request_validate a =
     (if blank (cr_project a) \<or> 256 < length (cr_project a) \<or> blank (cr_query a)
        \<or> 2048 < length (cr_query a) \<or> \<not> (1 \<le> cr_limit a \<and> cr_limit a \<le> 20)
        \<or> \<not> (256 \<le> cr_max_chars a \<and> cr_max_chars a \<le> 32000)
      then Inl FE_InvalidRequest else Inr ())"

record fed_handle =
  fh_provider :: string
  fh_owner :: string
  fh_scope :: string
  fh_project :: string
  fh_snapshot :: string
  fh_id :: string

datatype fed_request = FR_Context context_request | FR_Evidence fed_handle nat

record citation =
  ci_source :: string
  ci_snapshot :: string
  ci_session :: string
  ci_message :: string
  ci_pointer :: string
  ci_line :: nat
  ci_speaker :: string
  ci_lineage :: string

definition citation_of :: "codec \<Rightarrow> session_evidence \<Rightarrow> citation" where
  "citation_of E e =
     \<lparr>ci_source = se_source e, ci_snapshot = se_snapshot e, ci_session = se_session e,
      ci_message = se_message e, ci_pointer = se_pointer e, ci_line = se_line e,
      ci_speaker = se_speaker e, ci_lineage = lineage E e\<rparr>"

record fed_record =
  fr_id :: string
  fr_qualified_id :: string
  fr_handle :: fed_handle
  fr_statement :: string
  fr_kind :: intelligence_kind
  fr_status :: intelligence_status
  fr_interpretation_class :: evidence_class
  fr_citations :: "citation list"
  fr_evidence_count :: nat
  fr_assessment_count :: nat
  fr_needs_revalidation :: bool
  fr_contradicts :: "string list"
  fr_supersedes :: "string option"
  fr_omitted_relationships :: nat
  fr_same_origin :: "string list"

record context_packet =
  cp_identity :: fed_identity
  cp_project :: string
  cp_snapshot :: string
  cp_policy_version :: string
  cp_records :: "fed_record list"
  cp_omitted :: nat

record receipt_projection =
  rp_id :: string
  rp_rubric_version :: string
  rp_model_requested :: string
  rp_state_omitted :: bool

record evidence_packet =
  ep_record :: fed_record
  ep_policy_version :: string
  ep_evidence :: "session_evidence list"
  ep_receipts :: "receipt_projection list"
  ep_omitted_evidence :: nat
  ep_omitted_receipts :: nat
  ep_is_projection :: bool

datatype fed_reply = RP_Context context_packet | RP_Evidence evidence_packet

record source_status =
  ss_identity :: fed_identity
  ss_snapshot :: "string option"
  ss_policy_version :: "string option"
  ss_error :: "error_code option"
  ss_omitted :: nat

record fed_packet =
  fk_version :: u32
  fk_project :: string
  fk_snapshot :: string
  fk_records :: "fed_record list"
  fk_sources :: "source_status list"
  fk_degraded :: bool
  fk_exhaustive :: bool
  fk_historical_data_not_instructions :: bool
  fk_omitted :: nat

text \<open>
  The serializers of federation: how many characters the JSON of a record array or an
  evidence packet has, and the texts that enter a digest.
\<close>

record fed_codec =
  fx_codec :: codec
  fx_chars_records :: "fed_record list \<Rightarrow> nat"
  fx_chars_evidence :: "evidence_packet \<Rightarrow> nat"
  fx_policy :: "fed_policy \<Rightarrow> string"
  fx_view :: "source_status list \<times> fed_record list \<Rightarrow> string"
  fx_origin :: "string \<times> intelligence_kind \<times> intelligence_status \<times> string \<times> nat \<times> string \<Rightarrow> string"

definition fed_policy_digest :: "fed_codec \<Rightarrow> fed_policy \<Rightarrow> string" where
  "fed_policy_digest F p = sha256_hex (cx_hash (fx_codec F)) [''federation-policy-v1'', fx_policy F p]"

section \<open>What a grant means\<close>

text \<open>
  The meaning of a policy, apart from its lookups: the record is in the owner's scope,
  belongs to the repository the owner mapped the project to, is current, and, for anyone but
  the owner, is covered by a grant to this recipient for this project.
\<close>

definition granted :: "fed_policy \<Rightarrow> string \<Rightarrow> string \<Rightarrow> intelligence \<Rightarrow> bool" where
  "granted p recipient project r \<longleftrightarrow>
     in_scope r = fi_scope (fo_identity p) \<and> in_status r \<in> {IS_Admitted, IS_Disputed}
     \<and> (\<exists>mapping. bt_get (fo_projects p) project = Some mapping \<and> fp_repo mapping \<in> set (in_repositories r))
     \<and> (recipient = fi_owner (fo_identity p)
        \<or> (\<exists>g \<in> set (fo_grants p). fg_recipient g = recipient \<and> fg_project g = project
             \<and> (fg_mode g = SM_AllAdmitted \<or> in_id r \<in> set (fg_records g))))"

lemma policy_grant_Some:
  "policy_grant p recipient project = Some g \<Longrightarrow>
     g \<in> set (fo_grants p) \<and> fg_recipient g = recipient \<and> fg_project g = project"
  by (auto simp: policy_grant_def find_Some_iff)

lemma eligible_granted: "eligible p recipient project r \<Longrightarrow> granted p recipient project r"
  by (auto simp: eligible_def granted_def policy_repo_def split: option.splits if_splits
      dest!: policy_grant_Some)

text \<open>In a policy with one grant per recipient and project the lookup loses nothing.\<close>

lemma grants_valid_unique:
  assumes "grants_valid projects seen gs" and "g \<in> set gs"
  shows "find (\<lambda>g'. fg_recipient g' = fg_recipient g \<and> fg_project g' = fg_project g) gs = Some g
    \<and> (fg_recipient g, fg_project g) \<notin> set seen"
  using assms
proof (induction gs arbitrary: seen)
  case (Cons g' gs)
  show ?case
  proof (cases "g = g'")
    case False
    with Cons.prems Cons.IH [of "(fg_recipient g', fg_project g') # seen"] show ?thesis by auto
  qed (use Cons.prems in simp)
qed simp

lemma eligible_iff_granted:
  assumes "policy_validate p = Inr ()"
  shows "eligible p recipient project r \<longleftrightarrow> granted p recipient project r"
proof
  assume g: "granted p recipient project r"
  then obtain mapping where m: "bt_get (fo_projects p) project = Some mapping"
    "fp_repo mapping \<in> set (in_repositories r)" by (auto simp: granted_def)
  have valid: "grants_valid (fo_projects p) [] (fo_grants p)"
    using assms by (simp add: policy_validate_def)
  show "eligible p recipient project r"
  proof (cases "recipient = fi_owner (fo_identity p)")
    case True
    with g m show ?thesis by (auto simp: eligible_def granted_def policy_repo_def)
  next
    case False
    with g obtain x where x: "x \<in> set (fo_grants p)" "fg_recipient x = recipient" "fg_project x = project"
      "fg_mode x = SM_AllAdmitted \<or> in_id r \<in> set (fg_records x)" by (auto simp: granted_def)
    from grants_valid_unique [OF valid x(1)] x(2,3) have "policy_grant p recipient project = Some x"
      by (simp add: policy_grant_def)
    with g m x(4) show ?thesis by (auto simp: eligible_def granted_def policy_repo_def)
  qed
qed (rule eligible_granted)

end
