(* ===== verification/Federation_Provider.thy ===== *)
theory Federation_Provider
  imports Federation_Policy "HOL-Library.Sublist"
begin

text \<open>
  The authorized projection of one owner's knowledge: \<^verbatim>\<open>Reader\<close> of
  \<^verbatim>\<open>crates/chaosbox/src/federation/provider.rs\<close>. The knowledge source is a parameter; a
  context request and an evidence request read the current generation once.
\<close>

section \<open>Projection\<close>

record fed_snapshot =
  sn_id :: string
  sn_bundle :: intel_bundle

record knowledge_source =
  ks_current :: "string \<Rightarrow> error_code + fed_snapshot"
  ks_snapshot :: "string \<Rightarrow> string \<Rightarrow> error_code + fed_snapshot option"

definition snapshot_check :: "fed_codec \<Rightarrow> fed_policy \<Rightarrow> fed_snapshot \<Rightarrow> error_code + unit" where
  "snapshot_check F p s =
     (if bundle_validate (fx_codec F) (sn_bundle s) \<noteq> Inr () then Inl FE_InvalidResponse
      else if bu_scope (sn_bundle s) \<noteq> fi_scope (fo_identity p) \<or> \<not> fed_hash (sn_id s)
      then Inl FE_InvalidResponse else Inr ())"

definition allowed :: "fed_policy \<Rightarrow> string \<Rightarrow> string \<Rightarrow> intel_bundle \<Rightarrow> string btset" where
  "allowed p recipient project b = bs_of (map in_id (filter (eligible p recipient project) (bu_records b)))"

definition qualified_id :: "fed_identity \<Rightarrow> string \<Rightarrow> string" where
  "qualified_id i x = fi_provider i @ ''::'' @ x"

definition project_record ::
  "fed_codec \<Rightarrow> fed_policy \<Rightarrow> intelligence \<Rightarrow> string \<Rightarrow> fed_snapshot \<Rightarrow> string btset \<Rightarrow> fed_record" where
  "project_record F p r project s visible =
     (let i = fo_identity p;
          contradicts = map (qualified_id i) (filter (\<lambda>x. x \<in> set visible) (in_contradicts r));
          supersedes = (case in_supersedes r of
              None \<Rightarrow> None | Some x \<Rightarrow> if x \<in> set visible then Some (qualified_id i x) else None);
          latest = (case in_assessments r of [] \<Rightarrow> None | xs \<Rightarrow> receipt_of (sn_bundle s) (last xs))
      in \<lparr>fr_id = in_id r, fr_qualified_id = qualified_id i (in_id r),
          fr_handle = \<lparr>fh_provider = fi_provider i, fh_owner = fi_owner i, fh_scope = fi_scope i,
            fh_project = project, fh_snapshot = sn_id s, fh_id = in_id r\<rparr>,
          fr_statement = in_statement r, fr_kind = in_kind r, fr_status = in_status r,
          fr_interpretation_class = in_interpretation_class r,
          fr_citations = citation_of (fx_codec F) (hd (in_evidence r))
            # (if 1 < length (in_evidence r) then [citation_of (fx_codec F) (last (in_evidence r))] else []),
          fr_evidence_count = length (in_evidence r), fr_assessment_count = length (in_assessments r),
          fr_needs_revalidation = (case latest of None \<Rightarrow> True | Some a \<Rightarrow> am_rubric_version a \<noteq> RUBRIC_VERSION),
          fr_contradicts = contradicts, fr_supersedes = supersedes,
          fr_omitted_relationships = length (in_contradicts r) - length contradicts
            + of_bool (in_supersedes r \<noteq> None \<and> supersedes = None),
          fr_same_origin = []\<rparr>)"

section \<open>Context\<close>

text \<open>Records are tried in rank order; one that does not fit is left out and the next tried.\<close>

fun fit_records ::
  "(fed_record list \<Rightarrow> nat) \<Rightarrow> nat \<Rightarrow> nat \<Rightarrow> fed_record list \<Rightarrow> fed_record list \<Rightarrow> fed_record list" where
  "fit_records chars limit max_chars taken [] = taken"
| "fit_records chars limit max_chars taken (r # rs) =
     (if length taken = limit then taken
      else if max_chars < chars (taken @ [r]) then fit_records chars limit max_chars taken rs
      else fit_records chars limit max_chars (taken @ [r]) rs)"

definition ranked_records ::
  "codec \<Rightarrow> string \<Rightarrow> string btset \<Rightarrow> intel_bundle \<Rightarrow> intelligence list" where
  "ranked_records E query visible b =
     (let tokens = words E query
      in sort_key (\<lambda>r. (- int (overlap E (in_statement r) tokens), in_id r))
           (filter (\<lambda>r. in_id r \<in> set visible \<and> 0 < overlap E (in_statement r) tokens) (bu_records b)))"

definition reader_context ::
  "fed_codec \<Rightarrow> fed_policy \<Rightarrow> string \<Rightarrow> context_request \<Rightarrow> fed_snapshot \<Rightarrow> context_packet" where
  "reader_context F p recipient args s =
     (let visible = allowed p recipient (cr_project args) (sn_bundle s);
          ranked = ranked_records (fx_codec F) (cr_query args) visible (sn_bundle s);
          records = fit_records (fx_chars_records F) (cr_limit args) (cr_max_chars args) []
            (map (\<lambda>r. project_record F p r (cr_project args) s visible) ranked)
      in \<lparr>cp_identity = fo_identity p, cp_project = cr_project args, cp_snapshot = sn_id s,
          cp_policy_version = fed_policy_digest F p, cp_records = records,
          cp_omitted = length ranked - length records\<rparr>)"

section \<open>Evidence\<close>

fun fit_evidence ::
  "(evidence_packet \<Rightarrow> nat) \<Rightarrow> nat \<Rightarrow> session_evidence list \<Rightarrow> evidence_packet \<Rightarrow> evidence_packet" where
  "fit_evidence chars max_chars [] k = k"
| "fit_evidence chars max_chars (e # es) k =
     (let k' = k\<lparr>ep_evidence := ep_evidence k @ [e], ep_omitted_evidence := ep_omitted_evidence k - 1\<rparr>
      in fit_evidence chars max_chars es (if max_chars < chars k' then k else k'))"

fun fit_receipts ::
  "(evidence_packet \<Rightarrow> nat) \<Rightarrow> nat \<Rightarrow> intel_bundle \<Rightarrow> string list \<Rightarrow> evidence_packet
   \<Rightarrow> error_code + evidence_packet" where
  "fit_receipts chars max_chars b [] k = Inr k"
| "fit_receipts chars max_chars b (i # ids) k =
     (case receipt_of b i of
        None \<Rightarrow> Inl FE_InvalidResponse
      | Some a \<Rightarrow>
          (let k' = k\<lparr>ep_receipts := ep_receipts k @ [\<lparr>rp_id = i, rp_rubric_version = am_rubric_version a,
                     rp_model_requested = am_model_requested a, rp_state_omitted = True\<rparr>],
                   ep_omitted_receipts := ep_omitted_receipts k - 1\<rparr>
           in fit_receipts chars max_chars b ids (if max_chars < chars k' then k else k')))"

text \<open>The ids visible to a drill-down: allowed in the handle's generation and now.\<close>

definition visible_now :: "fed_policy \<Rightarrow> string \<Rightarrow> string \<Rightarrow> intel_bundle \<Rightarrow> intel_bundle \<Rightarrow> string btset" where
  "visible_now p recipient project old current =
     filter (\<lambda>i. i \<in> set (allowed p recipient project current)) (allowed p recipient project old)"

definition reader_evidence ::
  "fed_codec \<Rightarrow> fed_policy \<Rightarrow> string \<Rightarrow> fed_handle \<Rightarrow> nat \<Rightarrow> fed_snapshot \<Rightarrow> fed_snapshot
   \<Rightarrow> error_code + evidence_packet" where
  "reader_evidence F p recipient h max_chars s current =
     (let visible = visible_now p recipient (fh_project h) (sn_bundle s) (sn_bundle current)
      in case find (\<lambda>r. in_id r = fh_id h \<and> in_id r \<in> set visible) (bu_records (sn_bundle s)) of
           None \<Rightarrow> Inl FE_Denied
         | Some r \<Rightarrow>
             (let k = \<lparr>ep_record = project_record F p r (fh_project h) s visible,
                    ep_policy_version = fed_policy_digest F p, ep_evidence = [], ep_receipts = [],
                    ep_omitted_evidence = length (in_evidence r),
                    ep_omitted_receipts = length (in_assessments r), ep_is_projection = True\<rparr>
              in if max_chars < fx_chars_evidence F k then Inl FE_InvalidRequest
                 else fit_receipts (fx_chars_evidence F) max_chars (sn_bundle s) (take 3 (rev (in_assessments r)))
                   (fit_evidence (fx_chars_evidence F) max_chars (take 10 (in_evidence r)) k)))"

section \<open>Requests\<close>

definition reader_new :: "fed_policy \<Rightarrow> error_code + fed_policy" where
  "reader_new p = (case policy_validate p of Inl e \<Rightarrow> Inl e | Inr _ \<Rightarrow> Inr p)"

definition reader_query ::
  "fed_codec \<Rightarrow> knowledge_source \<Rightarrow> fed_policy \<Rightarrow> string \<Rightarrow> fed_request \<Rightarrow> error_code + fed_reply" where
  "reader_query F src p recipient request =
     (case policy_validate p of
        Inl e \<Rightarrow> Inl e
      | Inr _ \<Rightarrow>
          (case request of
             FR_Context args \<Rightarrow>
               (case all_ok [request_validate args, map_sum id (\<lambda>_. ()) (policy_repo p recipient (cr_project args))] of
                  Inl e \<Rightarrow> Inl e
                | Inr _ \<Rightarrow>
                    (case ks_current src (fi_scope (fo_identity p)) of
                       Inl e \<Rightarrow> Inl e
                     | Inr s \<Rightarrow>
                         (case snapshot_check F p s of
                            Inl e \<Rightarrow> Inl e
                          | Inr _ \<Rightarrow> Inr (RP_Context (reader_context F p recipient args s)))))
           | FR_Evidence h max_chars \<Rightarrow>
               (let i = fo_identity p in
                if \<not> (256 \<le> max_chars \<and> max_chars \<le> 32000) \<or> \<not> fed_hash (fh_snapshot h) \<or> \<not> intel_id (fh_id h)
                then Inl FE_InvalidRequest
                else if fh_provider h \<noteq> fi_provider i \<or> fh_owner h \<noteq> fi_owner i \<or> fh_scope h \<noteq> fi_scope i
                then Inl FE_Denied
                else case policy_repo p recipient (fh_project h) of
                  Inl e \<Rightarrow> Inl e
                | Inr _ \<Rightarrow>
                    (case ks_current src (fi_scope i) of
                       Inl e \<Rightarrow> Inl e
                     | Inr current \<Rightarrow>
                         (case snapshot_check F p current of
                            Inl e \<Rightarrow> Inl e
                          | Inr _ \<Rightarrow>
                              if \<not> (\<exists>r \<in> set (bu_records (sn_bundle current)).
                                  in_id r = fh_id h \<and> eligible p recipient (fh_project h) r)
                              then Inl FE_Denied
                              else case (if sn_id current = fh_snapshot h then Inr current
                                         else case ks_snapshot src (fi_scope i) (fh_snapshot h) of
                                             Inl e \<Rightarrow> Inl e
                                           | Inr None \<Rightarrow> Inl FE_SnapshotUnavailable
                                           | Inr (Some s) \<Rightarrow> Inr s) of
                                Inl e \<Rightarrow> Inl e
                              | Inr s \<Rightarrow>
                                  (case snapshot_check F p s of
                                     Inl e \<Rightarrow> Inl e
                                   | Inr _ \<Rightarrow>
                                       if sn_id s \<noteq> fh_snapshot h then Inl FE_InvalidResponse
                                       else map_sum id RP_Evidence
                                         (reader_evidence F p recipient h max_chars s current)))))))"

section \<open>What is disclosed\<close>

lemma allowed_iff:
  "x \<in> set (allowed p recipient project b) \<longleftrightarrow>
     (\<exists>r \<in> set (bu_records b). in_id r = x \<and> eligible p recipient project r)"
  by (auto simp: allowed_def)

lemma snapshot_check_ok:
  "snapshot_check F p s = Inr () \<longleftrightarrow> bundle_validate (fx_codec F) (sn_bundle s) = Inr ()
     \<and> bu_scope (sn_bundle s) = fi_scope (fo_identity p) \<and> fed_hash (sn_id s)"
  by (auto simp: snapshot_check_def)

lemma allowed_member:
  assumes "distinct (map in_id (bu_records b))" and "r \<in> set (bu_records b)"
  shows "in_id r \<in> set (allowed p recipient project b) \<longleftrightarrow> eligible p recipient project r"
  using assms by (auto simp: allowed_iff distinct_map dest: inj_onD)

lemma fit_records_props:
  assumes "length taken \<le> limit"
  shows "\<exists>rs'. fit_records chars limit m taken rs = taken @ rs' \<and> set rs' \<subseteq> set rs
    \<and> length (taken @ rs') \<le> limit \<and> (rs' = [] \<or> chars (taken @ rs') \<le> m)
    \<and> (distinct (map f rs) \<longrightarrow> distinct (map f rs'))"
  using assms
proof (induction rs arbitrary: taken)
  case (Cons r rs)
  consider "length taken = limit" | "length taken \<noteq> limit" "m < chars (taken @ [r])"
    | "length taken \<noteq> limit" "\<not> m < chars (taken @ [r])" by blast
  then show ?case
  proof cases
    case 2
    with Cons.IH [OF Cons.prems] show ?thesis by auto
  next
    case 3
    then have "length (taken @ [r]) \<le> limit" using Cons.prems by simp
    from Cons.IH [OF this] obtain rs' where rs': "fit_records chars limit m (taken @ [r]) rs = taken @ [r] @ rs'"
      "set rs' \<subseteq> set rs" "length (taken @ [r] @ rs') \<le> limit"
      "rs' = [] \<or> chars (taken @ [r] @ rs') \<le> m" "distinct (map f rs) \<longrightarrow> distinct (map f rs')"
      by auto
    with 3 show ?thesis by (intro exI [of _ "r # rs'"]) auto
  qed (use Cons.prems in auto)
qed simp

text \<open>What a disclosed record is, for a recipient and a project.\<close>

definition disclosable :: "fed_policy \<Rightarrow> string \<Rightarrow> string \<Rightarrow> intel_bundle \<Rightarrow> intelligence \<Rightarrow> fed_record \<Rightarrow> bool" where
  "disclosable p recipient project b r d \<longleftrightarrow>
     r \<in> set (bu_records b) \<and> granted p recipient project r
     \<and> fr_id d = in_id r \<and> fr_statement d = in_statement r \<and> fr_status d = in_status r
     \<and> (\<forall>x \<in> set (fr_contradicts d) \<union> set_option (fr_supersedes d). \<exists>o' \<in> set (bu_records b).
          granted p recipient project o' \<and> x = qualified_id (fo_identity p) (in_id o'))"

lemma project_disclosable:
  assumes "r \<in> set (bu_records b)" and "eligible p recipient project r"
    and "set visible \<subseteq> set (allowed p recipient project b)"
  shows "disclosable p recipient project b r (project_record F p r project s visible)"
proof -
  have "\<exists>o' \<in> set (bu_records b). granted p recipient project o'
      \<and> qualified_id (fo_identity p) x = qualified_id (fo_identity p) (in_id o')"
    if "x \<in> set visible" for x
    using assms(3) that by (force simp: allowed_iff subset_iff dest: eligible_granted)
  with assms(1) eligible_granted [OF assms(2)] show ?thesis
    by (auto simp: disclosable_def project_record_def Let_def split: option.splits if_splits)
qed

text \<open>
  C24. A context reply discloses only what the policy grants: every record in it is the
  projection of a record of the current generation that the owner's policy grants to the
  recipient for this project (right scope, mapped repository, admitted or disputed, and
  covered by a grant when the recipient is not the owner), its relationships name only such
  records, and the reply respects the limit and the character budget.
\<close>

theorem context_discloses_granted:
  assumes "reader_query F src p recipient (FR_Context args) = Inr (RP_Context k)"
  shows "\<exists>s. ks_current src (fi_scope (fo_identity p)) = Inr s
    \<and> (\<forall>d \<in> set (cp_records k). \<exists>r. disclosable p recipient (cr_project args) (sn_bundle s) r d)
    \<and> length (cp_records k) \<le> cr_limit args
    \<and> (cp_records k = [] \<or> fx_chars_records F (cp_records k) \<le> cr_max_chars args)"
proof -
  obtain s where s: "ks_current src (fi_scope (fo_identity p)) = Inr s"
    and k: "k = reader_context F p recipient args s" and ok: "snapshot_check F p s = Inr ()"
    using assms by (auto simp: reader_query_def split: sum.splits)
  from ok have ids: "distinct (map in_id (bu_records (sn_bundle s)))"
    unfolding snapshot_check_ok by (blast dest: bundle_valid(1))
  let ?visible = "allowed p recipient (cr_project args) (sn_bundle s)"
  let ?ranked = "ranked_records (fx_codec F) (cr_query args) ?visible (sn_bundle s)"
  let ?all = "map (\<lambda>r. project_record F p r (cr_project args) s ?visible) ?ranked"
  from fit_records_props [of "[]" "cr_limit args" "fx_chars_records F" "cr_max_chars args" ?all fr_id]
  have recs: "set (cp_records k) \<subseteq> set ?all" "length (cp_records k) \<le> cr_limit args"
    "cp_records k = [] \<or> fx_chars_records F (cp_records k) \<le> cr_max_chars args"
    by (auto simp: k reader_context_def Let_def)
  have "\<exists>r. disclosable p recipient (cr_project args) (sn_bundle s) r d" if d: "d \<in> set ?all" for d
  proof -
    from d obtain x where x: "x \<in> set ?ranked" "d = project_record F p x (cr_project args) s ?visible"
      by auto
    then have x_in: "x \<in> set (bu_records (sn_bundle s))" and "in_id x \<in> set ?visible"
      by (simp_all add: ranked_records_def Let_def)
    then have "eligible p recipient (cr_project args) x" by (simp add: allowed_member [OF ids])
    from project_disclosable [OF x_in this] x(2) show ?thesis by blast
  qed
  with s recs show ?thesis by blast
qed

section \<open>Evidence stays exact and bounded\<close>

text \<open>What the two bounded loops keep.\<close>

lemma fit_evidence_props:
  assumes "fit_evidence chars m es k = k'" and "chars k \<le> m" and "length es \<le> ep_omitted_evidence k"
  shows "chars k' \<le> m \<and> ep_record k' = ep_record k \<and> ep_receipts k' = ep_receipts k
    \<and> ep_policy_version k' = ep_policy_version k \<and> ep_is_projection k' = ep_is_projection k
    \<and> ep_omitted_receipts k' = ep_omitted_receipts k
    \<and> (\<exists>es'. subseq es' es \<and> ep_evidence k' = ep_evidence k @ es')
    \<and> length (ep_evidence k') + ep_omitted_evidence k' = length (ep_evidence k) + ep_omitted_evidence k"
  using assms
proof (induction es arbitrary: k)
  case (Cons e es)
  let ?k = "k\<lparr>ep_evidence := ep_evidence k @ [e], ep_omitted_evidence := ep_omitted_evidence k - 1\<rparr>"
  show ?case
  proof (cases "m < chars ?k")
    case True
    with Cons.prems(1) have "fit_evidence chars m es k = k'" by (simp add: Let_def)
    moreover have "length es \<le> ep_omitted_evidence k" using Cons.prems(3) by simp
    ultimately show ?thesis using Cons.IH [of k] Cons.prems(2) list_emb_Cons by blast
  next
    case False
    with Cons.prems have "fit_evidence chars m es ?k = k'" by (simp add: Let_def)
    moreover have "chars ?k \<le> m" "length es \<le> ep_omitted_evidence ?k" using False Cons.prems(3) by simp_all
    ultimately have ih: "chars k' \<le> m \<and> ep_record k' = ep_record ?k \<and> ep_receipts k' = ep_receipts ?k
      \<and> ep_policy_version k' = ep_policy_version ?k \<and> ep_is_projection k' = ep_is_projection ?k
      \<and> ep_omitted_receipts k' = ep_omitted_receipts ?k"
      "length (ep_evidence k') + ep_omitted_evidence k' = length (ep_evidence ?k) + ep_omitted_evidence ?k"
      and "\<exists>es'. subseq es' es \<and> ep_evidence k' = ep_evidence ?k @ es'"
      using Cons.IH [of ?k] by blast+
    then obtain es' where "subseq (e # es') (e # es)" "ep_evidence k' = ep_evidence k @ e # es'" by auto
    with ih Cons.prems(3) show ?thesis by (intro conjI exI [of _ "e # es'"]) simp_all
  qed
qed auto

lemma fit_receipts_props:
  assumes "fit_receipts chars m b ids k = Inr k'" and "chars k \<le> m" and "length ids \<le> ep_omitted_receipts k"
    and "\<forall>x \<in> set (ep_receipts k). rp_state_omitted x"
  shows "chars k' \<le> m \<and> ep_record k' = ep_record k \<and> ep_evidence k' = ep_evidence k
    \<and> ep_policy_version k' = ep_policy_version k \<and> ep_is_projection k' = ep_is_projection k
    \<and> ep_omitted_evidence k' = ep_omitted_evidence k
    \<and> (\<exists>ids'. subseq ids' ids \<and> map rp_id (ep_receipts k') = map rp_id (ep_receipts k) @ ids')
    \<and> (\<forall>x \<in> set (ep_receipts k'). rp_state_omitted x)
    \<and> length (ep_receipts k') + ep_omitted_receipts k' = length (ep_receipts k) + ep_omitted_receipts k"
  using assms
proof (induction ids arbitrary: k)
  case (Cons i ids)
  from Cons.prems(1) obtain a where a: "receipt_of b i = Some a" by (auto split: option.splits)
  let ?k = "k\<lparr>ep_receipts := ep_receipts k @ [\<lparr>rp_id = i, rp_rubric_version = am_rubric_version a,
       rp_model_requested = am_model_requested a, rp_state_omitted = True\<rparr>],
     ep_omitted_receipts := ep_omitted_receipts k - 1\<rparr>"
  show ?case
  proof (cases "m < chars ?k")
    case True
    with Cons.prems(1) a have "fit_receipts chars m b ids k = Inr k'" by (simp add: Let_def)
    moreover have "length ids \<le> ep_omitted_receipts k" using Cons.prems(3) by simp
    ultimately show ?thesis using Cons.IH [of k] Cons.prems(2,4) list_emb_Cons by blast
  next
    case False
    with Cons.prems a have "fit_receipts chars m b ids ?k = Inr k'" by (simp add: Let_def)
    moreover have "chars ?k \<le> m" "length ids \<le> ep_omitted_receipts ?k" "\<forall>x \<in> set (ep_receipts ?k). rp_state_omitted x"
      using False Cons.prems(3,4) by auto
    ultimately have ih: "chars k' \<le> m \<and> ep_record k' = ep_record ?k \<and> ep_evidence k' = ep_evidence ?k
      \<and> ep_policy_version k' = ep_policy_version ?k \<and> ep_is_projection k' = ep_is_projection ?k
      \<and> ep_omitted_evidence k' = ep_omitted_evidence ?k \<and> (\<forall>x \<in> set (ep_receipts k'). rp_state_omitted x)"
      "length (ep_receipts k') + ep_omitted_receipts k' = length (ep_receipts ?k) + ep_omitted_receipts ?k"
      and "\<exists>ids'. subseq ids' ids \<and> map rp_id (ep_receipts k') = map rp_id (ep_receipts ?k) @ ids'"
      using Cons.IH [of ?k] by blast+
    then obtain ids' where "subseq (i # ids') (i # ids)" "map rp_id (ep_receipts k') = map rp_id (ep_receipts k) @ i # ids'"
      by auto
    with ih Cons.prems(3) show ?thesis by (intro conjI exI [of _ "i # ids'"]) simp_all
  qed
qed auto

lemma evidence_reply:
  assumes "reader_query F src p recipient (FR_Evidence h m) = Inr reply"
  obtains k current s r where "reply = RP_Evidence k"
    and "ks_current src (fi_scope (fo_identity p)) = Inr current"
    and "s = current \<or> ks_snapshot src (fi_scope (fo_identity p)) (fh_snapshot h) = Inr (Some s)"
    and "sn_id s = fh_snapshot h" and "snapshot_check F p s = Inr ()"
    and "\<exists>r' \<in> set (bu_records (sn_bundle current)). in_id r' = fh_id h \<and> eligible p recipient (fh_project h) r'"
    and "r \<in> set (bu_records (sn_bundle s))" and "in_id r = fh_id h" and "eligible p recipient (fh_project h) r"
    and "ep_record k = project_record F p r (fh_project h) s
      (visible_now p recipient (fh_project h) (sn_bundle s) (sn_bundle current))"
    and "fr_handle (ep_record k) = h" and "fx_chars_evidence F k \<le> m" and "ep_is_projection k"
    and "ep_policy_version k = fed_policy_digest F p"
    and "subseq (ep_evidence k) (take 10 (in_evidence r))"
    and "length (ep_evidence k) + ep_omitted_evidence k = length (in_evidence r)"
    and "subseq (map rp_id (ep_receipts k)) (take 3 (rev (in_assessments r)))"
    and "length (ep_receipts k) + ep_omitted_receipts k = length (in_assessments r)"
    and "\<forall>x \<in> set (ep_receipts k). rp_state_omitted x"
proof -
  let ?scope = "fi_scope (fo_identity p)"
  obtain current s k where reply: "reply = RP_Evidence k" and c: "ks_current src ?scope = Inr current"
    and s: "s = current \<or> ks_snapshot src ?scope (fh_snapshot h) = Inr (Some s)"
    and id: "sn_id s = fh_snapshot h" and ok: "snapshot_check F p s = Inr ()"
    and now: "\<exists>r \<in> set (bu_records (sn_bundle current)). in_id r = fh_id h \<and> eligible p recipient (fh_project h) r"
    and own: "fh_provider h = fi_provider (fo_identity p)" "fh_owner h = fi_owner (fo_identity p)" "fh_scope h = ?scope"
    and k: "reader_evidence F p recipient h m s current = Inr k"
    using assms by (auto simp: reader_query_def Let_def map_sum_def split: sum.splits if_splits option.splits)
  from ok have ids: "distinct (map in_id (bu_records (sn_bundle s)))"
    unfolding snapshot_check_ok by (blast dest: bundle_valid(1))
  let ?visible = "visible_now p recipient (fh_project h) (sn_bundle s) (sn_bundle current)"
  let ?k = "\<lambda>r. \<lparr>ep_record = project_record F p r (fh_project h) s ?visible,
     ep_policy_version = fed_policy_digest F p, ep_evidence = [], ep_receipts = [],
     ep_omitted_evidence = length (in_evidence r), ep_omitted_receipts = length (in_assessments r), ep_is_projection = True\<rparr>"
  obtain r where r: "r \<in> set (bu_records (sn_bundle s))" "in_id r = fh_id h" "in_id r \<in> set ?visible"
    and first: "fx_chars_evidence F (?k r) \<le> m"
    and fit: "fit_receipts (fx_chars_evidence F) m (sn_bundle s) (take 3 (rev (in_assessments r)))
      (fit_evidence (fx_chars_evidence F) m (take 10 (in_evidence r)) (?k r)) = Inr k"
    using k by (auto simp: reader_evidence_def visible_now_def Let_def find_Some_iff not_less
        dest: nth_mem split: option.splits if_splits)
  from r(3) have "in_id r \<in> set (allowed p recipient (fh_project h) (sn_bundle s))" by (simp add: visible_now_def)
  then have el: "eligible p recipient (fh_project h) r" unfolding allowed_member [OF ids r(1)] .
  note e = fit_evidence_props [where chars = "fx_chars_evidence F" and m = m and k = "?k r"
    and es = "take 10 (in_evidence r)", OF refl first]
  note f = fit_receipts_props [OF fit]
  have same: "ep_record k = ep_record (?k r)" using e f by simp
  have handle: "fr_handle (ep_record k) = h"
    unfolding same using own id r(2) by (simp add: project_record_def Let_def)
  show thesis
    by (rule that [OF reply c s id ok now r(1,2) el _ handle]) (use e f in auto)
qed

text \<open>
  C25. Evidence is served at the exact generation of the handle and under the present policy:
  the record of the reply is the handle's record in the generation the handle names, granted
  there, and a record of the same id is granted in the current generation too, so a handle
  kept from before cannot resurrect withdrawn knowledge. The reply stays in the character
  budget, shows at most ten of the record's own occurrences and at most three of its receipts
  with their state left out, and counts everything it omits.
\<close>

theorem evidence_exact_and_current:
  assumes "reader_query F src p recipient (FR_Evidence h m) = Inr (RP_Evidence k)"
  shows "\<exists>current s r r'. ks_current src (fi_scope (fo_identity p)) = Inr current
    \<and> (s = current \<or> ks_snapshot src (fi_scope (fo_identity p)) (fh_snapshot h) = Inr (Some s))
    \<and> sn_id s = fh_snapshot h \<and> fh_scope h = fi_scope (fo_identity p)
    \<and> disclosable p recipient (fh_project h) (sn_bundle s) r (ep_record k) \<and> in_id r = fh_id h
    \<and> r' \<in> set (bu_records (sn_bundle current)) \<and> in_id r' = fh_id h \<and> granted p recipient (fh_project h) r'
    \<and> fr_handle (ep_record k) = h \<and> fx_chars_evidence F k \<le> m
    \<and> subseq (ep_evidence k) (take 10 (in_evidence r))
    \<and> length (ep_evidence k) + ep_omitted_evidence k = length (in_evidence r)
    \<and> subseq (map rp_id (ep_receipts k)) (take 3 (rev (in_assessments r)))
    \<and> length (ep_receipts k) + ep_omitted_receipts k = length (in_assessments r)
    \<and> (\<forall>x \<in> set (ep_receipts k). rp_state_omitted x)"
  using assms
proof (cases rule: evidence_reply)
  case (1 k' current s r)
  have "set (visible_now p recipient (fh_project h) (sn_bundle s) (sn_bundle current))
      \<subseteq> set (allowed p recipient (fh_project h) (sn_bundle s))" by (auto simp: visible_now_def)
  from project_disclosable [OF 1(7,9) this]
  have d: "disclosable p recipient (fh_project h) (sn_bundle s) r (ep_record k')" unfolding 1(10) .
  have "fh_scope (fr_handle (ep_record k')) = fi_scope (fo_identity p)"
    unfolding 1(10) by (simp add: project_record_def Let_def)
  then have scope: "fh_scope h = fi_scope (fo_identity p)" unfolding 1(11) .
  from 1(6) obtain r' where r': "r' \<in> set (bu_records (sn_bundle current))" "in_id r' = fh_id h"
    "granted p recipient (fh_project h) r'" using eligible_granted by blast
  have "k' = k" using 1(1) by simp
  show ?thesis unfolding \<open>k' = k\<close> [symmetric]
    by (rule exI [of _ current], rule exI [of _ s], rule exI [of _ r], rule exI [of _ r'])
      (use 1(2-4,8,11,12,15-19) d scope r' in simp)
qed

end
