(* ===== verification/Federation_View.thy ===== *)
theory Federation_View
  imports Federation_Provider
begin

text \<open>
  The combined view of several owners: \<^verbatim>\<open>Federator\<close> of
  \<^verbatim>\<open>crates/chaosbox/src/federation/reader.rs\<close>. A provider is asked over a transport that
  is not under verification: what it answers to a request, and after how many milliseconds,
  are fields of its record.
\<close>

section \<open>Providers and deadlines\<close>

record fed_provider =
  pv_identity :: fed_identity
  pv_supports :: "string \<Rightarrow> bool"
  pv_query :: "fed_request \<Rightarrow> error_code + fed_reply"
  pv_takes :: "fed_request \<Rightarrow> nat"
  pv_panics :: "fed_request \<Rightarrow> bool"

record federator =
  fd_local :: fed_provider
  fd_peers :: "fed_provider list"
  fd_deadline :: nat

fun providers_valid :: "string btset \<Rightarrow> fed_provider list \<Rightarrow> error_code + unit" where
  "providers_valid ids [] = Inr ()"
| "providers_valid ids (p # ps) =
     (case identity_validate (pv_identity p) of
        Inl e \<Rightarrow> Inl e
      | Inr _ \<Rightarrow>
          if fi_provider (pv_identity p) \<in> set ids then Inl FE_InvalidRequest
          else providers_valid (bs_insert (fi_provider (pv_identity p)) ids) ps)"

definition federator_new :: "fed_provider \<Rightarrow> fed_provider list \<Rightarrow> nat \<Rightarrow> error_code + federator" where
  "federator_new local peers timeout_ms =
     (if 8 < length peers \<or> \<not> (100 \<le> timeout_ms \<and> timeout_ms \<le> 30000) then Inl FE_InvalidRequest
      else case providers_valid [] (local # peers) of
        Inl e \<Rightarrow> Inl e
      | Inr _ \<Rightarrow> Inr \<lparr>fd_local = local, fd_peers = peers, fd_deadline = timeout_ms\<rparr>)"

text \<open>\<open>tokio::time::timeout\<close> around one query.\<close>

definition ask_within :: "nat \<Rightarrow> fed_provider \<Rightarrow> fed_request \<Rightarrow> error_code + fed_reply" where
  "ask_within ms p request = (if pv_takes p request \<le> ms then pv_query p request else Inl FE_Unavailable)"

section \<open>Validation of replies\<close>

definition intel_ref :: "fed_identity \<Rightarrow> string \<Rightarrow> bool" where
  "intel_ref i x \<longleftrightarrow> (case strip_prefix x (fi_provider i @ ''::intel:'') of None \<Rightarrow> False | Some h \<Rightarrow> fed_hash h)"

definition citation_ok :: "codec \<Rightarrow> citation \<Rightarrow> bool" where
  "citation_ok E c \<longleftrightarrow> ci_line c \<noteq> 0 \<and> fed_hash (ci_snapshot c)
     \<and> ci_lineage c = sha256_hex (cx_hash E) [ci_source c, ci_session c, ci_message c, ci_pointer c]"

definition validate_record ::
  "codec \<Rightarrow> fed_record \<Rightarrow> fed_identity \<Rightarrow> string \<Rightarrow> string \<Rightarrow> error_code + unit" where
  "validate_record E d i project snapshot =
     (let h = fr_handle d in
      ensure (fh_provider h = fi_provider i \<and> fh_owner h = fi_owner i \<and> fh_scope h = fi_scope i
          \<and> fh_project h = project \<and> fh_snapshot h = snapshot \<and> fh_id h = fr_id d
          \<and> intel_id (fr_id d) \<and> fr_qualified_id d = qualified_id i (fr_id d)
          \<and> \<not> blank (fr_statement d)
          \<and> 1 \<le> length (fr_citations d) \<and> length (fr_citations d) \<le> 2
          \<and> length (fr_citations d) \<le> fr_evidence_count d \<and> fr_assessment_count d \<noteq> 0
          \<and> fr_interpretation_class d = EC_Inferred \<and> fr_status d \<in> {IS_Admitted, IS_Disputed}
          \<and> (\<forall>c \<in> set (fr_citations d). citation_ok E c)
          \<and> (\<forall>x \<in> set (fr_contradicts d). intel_ref i x)
          \<and> (case fr_supersedes d of None \<Rightarrow> True | Some x \<Rightarrow> intel_ref i x)) FE_InvalidResponse)"

fun records_valid ::
  "codec \<Rightarrow> fed_identity \<Rightarrow> string \<Rightarrow> string \<Rightarrow> string btset \<Rightarrow> fed_record list \<Rightarrow> error_code + unit" where
  "records_valid E i project snapshot seen [] = Inr ()"
| "records_valid E i project snapshot seen (d # ds) =
     (case validate_record E d i project snapshot of
        Inl e \<Rightarrow> Inl e
      | Inr _ \<Rightarrow>
          if fr_id d \<in> set seen \<or> fr_same_origin d \<noteq> [] then Inl FE_InvalidResponse
          else records_valid E i project snapshot (bs_insert (fr_id d) seen) ds)"

definition validate_packet ::
  "fed_codec \<Rightarrow> context_packet \<Rightarrow> fed_identity \<Rightarrow> context_request \<Rightarrow> error_code + unit" where
  "validate_packet F k i args =
     (if cp_identity k \<noteq> i \<or> cp_project k \<noteq> cr_project args \<or> \<not> fed_hash (cp_snapshot k)
        \<or> \<not> fed_hash (cp_policy_version k) \<or> cr_limit args < length (cp_records k)
        \<or> cr_max_chars args < fx_chars_records F (cp_records k)
      then Inl FE_InvalidResponse
      else records_valid (fx_codec F) i (cr_project args) (cp_snapshot k) [] (cp_records k))"

section \<open>Assembly\<close>

definition origin_key :: "fed_codec \<Rightarrow> fed_record \<Rightarrow> string" where
  "origin_key F d =
     (let c = hd (fr_citations d)
      in fx_origin F (fr_statement d, fr_kind d, fr_status d, ci_lineage c, ci_line c, ci_speaker c))"

text \<open>The map of origins holds, per key, the qualified ids of the records in their order.\<close>

definition group_origins :: "fed_codec \<Rightarrow> fed_record list \<Rightarrow> fed_record list" where
  "group_origins F ds =
     map (\<lambda>d. d\<lparr>fr_same_origin :=
          filter (\<lambda>x. x \<noteq> fr_qualified_id d)
            (map fr_qualified_id (filter (\<lambda>d'. origin_key F d' = origin_key F d) ds))\<rparr>) ds"

text \<open>First every group's first record, then every group's second, and so on.\<close>

definition interleaved :: "nat \<Rightarrow> 'a list list \<Rightarrow> 'a list" where
  "interleaved limit groups =
     concat (map (\<lambda>position. List.map_filter
         (\<lambda>g. if position < length g then Some (g ! position) else None) groups) [0..<limit])"

fun fit_view :: "fed_codec \<Rightarrow> nat \<Rightarrow> nat \<Rightarrow> fed_record list \<Rightarrow> fed_record list \<Rightarrow> fed_record list" where
  "fit_view F limit max_chars taken [] = taken"
| "fit_view F limit max_chars taken (d # ds) =
     (if length taken = limit then taken
      else let proposed = group_origins F (taken @ [d])
           in fit_view F limit max_chars
                (if fx_chars_records F proposed \<le> max_chars then proposed else taken) ds)"

definition read_result ::
  "fed_codec \<Rightarrow> context_request \<Rightarrow> fed_identity \<times> (error_code + fed_reply) \<Rightarrow> error_code + context_packet" where
  "read_result F args x =
     (case snd x of
        Inl e \<Rightarrow> Inl e
      | Inr (RP_Evidence _) \<Rightarrow> Inl FE_InvalidResponse
      | Inr (RP_Context k) \<Rightarrow>
          (case validate_packet F k (fst x) args of Inl e \<Rightarrow> Inl e | Inr _ \<Rightarrow> Inr k))"

definition source_of ::
  "fed_codec \<Rightarrow> context_request \<Rightarrow> fed_identity \<times> (error_code + fed_reply) \<Rightarrow> source_status" where
  "source_of F args x =
     (case read_result F args x of
        Inl e \<Rightarrow> \<lparr>ss_identity = fst x, ss_snapshot = None, ss_policy_version = None, ss_error = Some e, ss_omitted = 0\<rparr>
      | Inr k \<Rightarrow> \<lparr>ss_identity = fst x, ss_snapshot = Some (cp_snapshot k),
          ss_policy_version = Some (cp_policy_version k), ss_error = None, ss_omitted = cp_omitted k\<rparr>)"

definition accepted_packets ::
  "fed_codec \<Rightarrow> context_request \<Rightarrow> (fed_identity \<times> (error_code + fed_reply)) list \<Rightarrow> context_packet list" where
  "accepted_packets F args results =
     List.map_filter (\<lambda>x. case read_result F args x of Inl _ \<Rightarrow> None | Inr k \<Rightarrow> Some k) results"

definition assemble ::
  "fed_codec \<Rightarrow> context_request \<Rightarrow> (fed_identity \<times> (error_code + fed_reply)) list \<Rightarrow> fed_packet" where
  "assemble F args results =
     (let sources = map (source_of F args) results;
          groups = map cp_records (accepted_packets F args results);
          records = fit_view F (cr_limit args) (cr_max_chars args) [] (interleaved (cr_limit args) groups)
      in \<lparr>fk_version = 1, fk_project = cr_project args,
          fk_snapshot = sha256_hex (cx_hash (fx_codec F)) [''federation-view-v1'', fx_view F (sources, records)],
          fk_records = records, fk_sources = sources,
          fk_degraded = (\<exists>x \<in> set sources. ss_error x \<noteq> None), fk_exhaustive = False,
          fk_historical_data_not_instructions = True,
          fk_omitted = sum_list (map length groups) - length records\<rparr>)"

section \<open>Queries\<close>

text \<open>
  The local provider is asked first, with half of the deadline when peers will be asked;
  the peers share what is left. A peer task that panics fails the whole query.
\<close>

definition federator_results ::
  "federator \<Rightarrow> context_request \<Rightarrow> nat \<Rightarrow> nat \<Rightarrow> (fed_identity \<times> (error_code + fed_reply)) list" where
  "federator_results f args local_ms left =
     (pv_identity (fd_local f), ask_within local_ms (fd_local f) (FR_Context args))
     # map (\<lambda>p. (pv_identity p, ask_within left p (FR_Context args)))
         (filter (\<lambda>p. pv_supports p (cr_project args)) (fd_peers f))"

definition federator_context :: "fed_codec \<Rightarrow> federator \<Rightarrow> context_request \<Rightarrow> error_code + fed_packet" where
  "federator_context F f args =
     (case request_validate args of
        Inl e \<Rightarrow> Inl e
      | Inr _ \<Rightarrow>
          if \<not> pv_supports (fd_local f) (cr_project args) then Inl FE_Denied
          else
            (let request = FR_Context args;
                 peers = filter (\<lambda>p. pv_supports p (cr_project args)) (fd_peers f);
                 local_ms = (if peers \<noteq> [] then fd_deadline f div 2 else fd_deadline f);
                 left = fd_deadline f - min local_ms (pv_takes (fd_local f) request)
             in if \<exists>p \<in> set peers. pv_takes p request \<le> left \<and> pv_panics p request then Inl FE_Unavailable
                else Inr (assemble F args (federator_results f args local_ms left))))"

definition accept_evidence ::
  "fed_codec \<Rightarrow> fed_identity \<Rightarrow> fed_handle \<Rightarrow> nat \<Rightarrow> fed_reply \<Rightarrow> error_code + evidence_packet" where
  "accept_evidence F i h max_chars reply =
     (case reply of
        RP_Context _ \<Rightarrow> Inl FE_InvalidResponse
      | RP_Evidence k \<Rightarrow>
          (case validate_record (fx_codec F) (ep_record k) i (fh_project h) (fh_snapshot h) of
             Inl e \<Rightarrow> Inl e
           | Inr _ \<Rightarrow>
               if fr_handle (ep_record k) \<noteq> h \<or> max_chars < fx_chars_evidence F k \<or> \<not> ep_is_projection k
                 \<or> \<not> fed_hash (ep_policy_version k) \<or> 10 < length (ep_evidence k) \<or> 3 < length (ep_receipts k)
                 \<or> (\<exists>x \<in> set (ep_receipts k). \<not> rp_state_omitted x)
               then Inl FE_InvalidResponse else Inr k))"

definition federator_evidence :: "fed_codec \<Rightarrow> federator \<Rightarrow> fed_handle \<Rightarrow> nat \<Rightarrow> error_code + evidence_packet" where
  "federator_evidence F f h max_chars =
     (if \<not> (256 \<le> max_chars \<and> max_chars \<le> 32000) \<or> \<not> fed_hash (fh_snapshot h) \<or> \<not> intel_id (fh_id h)
      then Inl FE_InvalidRequest
      else case find (\<lambda>p. fi_provider (pv_identity p) = fh_provider h \<and> pv_supports p (fh_project h))
             (fd_local f # fd_peers f) of
        None \<Rightarrow> Inl FE_Denied
      | Some p \<Rightarrow>
          if fi_owner (pv_identity p) \<noteq> fh_owner h \<or> fi_scope (pv_identity p) \<noteq> fh_scope h then Inl FE_Denied
          else case ask_within (fd_deadline f) p (FR_Evidence h max_chars) of
            Inl e \<Rightarrow> Inl e
          | Inr reply \<Rightarrow> accept_evidence F (pv_identity p) h max_chars reply)"

section \<open>The assembled view\<close>

definition same_record :: "fed_record \<Rightarrow> fed_record \<Rightarrow> bool" where
  "same_record d d' \<longleftrightarrow> d\<lparr>fr_same_origin := []\<rparr> = d'\<lparr>fr_same_origin := []\<rparr>"

lemma origin_key_same: "same_record d d' \<Longrightarrow> origin_key F d = origin_key F d'"
  by (cases d; cases d') (simp add: same_record_def origin_key_def)

lemma list_all2_group: "list_all2 same_record (group_origins F ds) ds"
  by (simp add: group_origins_def list_all2_conv_all_nth same_record_def)

lemma same_record_trans: "same_record a b \<Longrightarrow> same_record b c \<Longrightarrow> same_record a c"
  by (simp add: same_record_def)

text \<open>
  The returned records are a subsequence of the candidates (up to the grouping, which only
  fills in the origins), within both bounds, and are always grouped among themselves.
\<close>

definition grouped :: "fed_codec \<Rightarrow> fed_record list \<Rightarrow> bool" where
  "grouped F ds \<longleftrightarrow> (\<forall>d \<in> set ds. fr_same_origin d =
     filter (\<lambda>x. x \<noteq> fr_qualified_id d)
       (map fr_qualified_id (filter (\<lambda>d'. origin_key F d' = origin_key F d) ds)))"

lemma grouped_map:
  "map fr_qualified_id (filter (\<lambda>d'. origin_key F d' = x) (group_origins F ds))
   = map fr_qualified_id (filter (\<lambda>d'. origin_key F d' = x) ds)"
  by (simp add: group_origins_def filter_map comp_def origin_key_def)

lemma grouped_group: "grouped F (group_origins F ds)"
  unfolding grouped_def grouped_map
  by (auto simp: group_origins_def origin_key_def)

lemma fit_view_props:
  assumes "length taken \<le> limit" and "taken = [] \<or> fx_chars_records F taken \<le> m" and "grouped F taken"
    and "list_all2 same_record taken ts"
  shows "\<exists>us. subseq us ds \<and> list_all2 same_record (fit_view F limit m taken ds) (ts @ us)
    \<and> length (fit_view F limit m taken ds) \<le> limit \<and> grouped F (fit_view F limit m taken ds)
    \<and> (fit_view F limit m taken ds = [] \<or> fx_chars_records F (fit_view F limit m taken ds) \<le> m)"
  using assms
proof (induction ds arbitrary: taken ts)
  case (Cons d ds)
  let ?p = "group_origins F (taken @ [d])"
  consider (full) "length taken = limit"
    | (skip) "length taken \<noteq> limit" "\<not> fx_chars_records F ?p \<le> m"
    | (take) "length taken \<noteq> limit" "fx_chars_records F ?p \<le> m" by blast
  then show ?case
  proof cases
    case full
    with Cons.prems show ?thesis by (intro exI [of _ "[]"]) auto
  next
    case skip
    with Cons.IH [OF Cons.prems] show ?thesis by (auto simp: Let_def intro: list_emb_Cons)
  next
    case take
    have len: "length ?p \<le> limit" using take(1) Cons.prems(1) by (simp add: group_origins_def)
    have "list_all2 same_record ?p (taken @ [d])" by (rule list_all2_group)
    moreover have "list_all2 same_record (taken @ [d]) (ts @ [d])"
      using list_all2_appendI [OF Cons.prems(4), of "[d]" "[d]"] by (simp add: same_record_def [of d d])
    ultimately have "list_all2 same_record ?p (ts @ [d])"
      by (rule list_all2_trans [rotated]) (rule same_record_trans)
    from Cons.IH [OF len _ grouped_group this] take obtain us where "subseq us ds"
      "list_all2 same_record (fit_view F limit m ?p ds) ((ts @ [d]) @ us)"
      "length (fit_view F limit m ?p ds) \<le> limit" "grouped F (fit_view F limit m ?p ds)"
      "fit_view F limit m ?p ds = [] \<or> fx_chars_records F (fit_view F limit m ?p ds) \<le> m" by blast
    with take show ?thesis by (intro exI [of _ "d # us"]) (simp add: Let_def)
  qed
qed (auto intro: exI [of _ "[]"])

lemma count_position:
  "length (List.map_filter (\<lambda>g. if n < length g then Some (g ! n) else None) gs)
     + sum_list (map (\<lambda>g. min n (length g)) gs) = sum_list (map (\<lambda>g. min (Suc n) (length g)) gs)"
  by (induction gs) (auto simp: List.map_filter_def)

lemma length_interleaved: "length (interleaved n gs) = sum_list (map (\<lambda>g. min n (length g)) gs)"
proof (induction n)
  case (Suc n)
  with count_position [of n gs] show ?case by (simp add: interleaved_def)
qed (simp add: interleaved_def)

lemma set_interleaved: "set (interleaved n gs) \<subseteq> \<Union> (set (map set gs))"
  by (auto simp: interleaved_def List.map_filter_def split: if_splits)

lemma length_interleaved_le: "length (interleaved n gs) \<le> sum_list (map length gs)"
  unfolding length_interleaved by (induction gs) auto

lemma read_result_Inr:
  "read_result F args (i, r) = Inr k \<longleftrightarrow> r = Inr (RP_Context k) \<and> validate_packet F k i args = Inr ()"
  by (auto simp: read_result_def split: sum.splits fed_reply.splits)

lemma source_failed: "(ss_error (source_of F args x) \<noteq> None) = (\<exists>e. read_result F args x = Inl e)"
  by (simp add: source_of_def split: sum.split)

lemma accepted_iff:
  "k \<in> set (accepted_packets F args results) \<longleftrightarrow>
     (\<exists>i. (i, Inr (RP_Context k)) \<in> set results \<and> validate_packet F k i args = Inr ())"
proof -
  have "k \<in> set (accepted_packets F args results) \<longleftrightarrow> (\<exists>x \<in> set results. read_result F args x = Inr k)"
    by (induction results) (auto simp: accepted_packets_def List.map_filter_def split: sum.splits)
  also have "\<dots> \<longleftrightarrow> (\<exists>i r. (i, r) \<in> set results \<and> read_result F args (i, r) = Inr k)" by auto
  finally show ?thesis unfolding read_result_Inr by blast
qed

lemma records_valid_member:
  "records_valid E i project snapshot seen ds = Inr () \<Longrightarrow> d \<in> set ds \<Longrightarrow>
     validate_record E d i project snapshot = Inr ()"
  by (induction ds arbitrary: seen) (auto split: sum.splits if_splits)

lemma same_record_valid:
  "same_record d d' \<Longrightarrow> validate_record E d i project snapshot = validate_record E d' i project snapshot"
  by (cases d; cases d') (simp add: same_record_def validate_record_def)

lemma packet_record_valid:
  assumes "validate_packet F k i args = Inr ()" and "d \<in> set (cp_records k)"
  shows "validate_record (fx_codec F) d i (cr_project args) (cp_snapshot k) = Inr ()"
  using assms by (auto simp: validate_packet_def split: if_splits dest: records_valid_member)

lemma all2_member: "list_all2 P xs ys \<Longrightarrow> x \<in> set xs \<Longrightarrow> \<exists>y \<in> set ys. P x y"
  by (induction rule: list_all2_induct) auto

lemma fit_view_from_nothing:
  obtains us where "subseq us ds" and "list_all2 same_record (fit_view F limit m [] ds) us"
    and "length (fit_view F limit m [] ds) \<le> limit" and "grouped F (fit_view F limit m [] ds)"
    and "fit_view F limit m [] ds = [] \<or> fx_chars_records F (fit_view F limit m [] ds) \<le> m"
  using fit_view_props [of "[]" limit F m "[]" ds] by (auto simp: grouped_def)

text \<open>
  Who is asked, with how many milliseconds each: the local provider with the whole deadline,
  or half of it when a peer serves the project, and then those peers in their order with what
  is left. And what a provider's own answer is worth: the packet it sent, when it answers in
  time, with context, and the packet passes the validation for its pinned identity.
\<close>

definition asked_with :: "federator \<Rightarrow> context_request \<Rightarrow> (fed_provider \<times> nat) list" where
  "asked_with f args =
     (let peers = filter (\<lambda>p. pv_supports p (cr_project args)) (fd_peers f);
          share = (if peers = [] then fd_deadline f else fd_deadline f div 2);
          used = min share (pv_takes (fd_local f) (FR_Context args))
      in (fd_local f, share) # map (\<lambda>p. (p, fd_deadline f - used)) peers)"

definition valid_answer :: "fed_codec \<Rightarrow> context_request \<Rightarrow> fed_provider \<times> nat \<Rightarrow> context_packet option" where
  "valid_answer F args x =
     (case x of (p, ms) \<Rightarrow>
        if ms < pv_takes p (FR_Context args) then None
        else case pv_query p (FR_Context args) of
          Inr (RP_Context c) \<Rightarrow> if validate_packet F c (pv_identity p) args = Inr () then Some c else None
        | _ \<Rightarrow> None)"

lemma valid_answer_read:
  "valid_answer F args (p, ms) =
     (case read_result F args (pv_identity p, ask_within ms p (FR_Context args)) of Inl _ \<Rightarrow> None | Inr c \<Rightarrow> Some c)"
  by (auto simp: valid_answer_def read_result_def ask_within_def split: sum.splits fed_reply.splits)

lemma valid_answer_Some:
  "valid_answer F args (p, ms) = Some c \<longleftrightarrow>
     read_result F args (pv_identity p, ask_within ms p (FR_Context args)) = Inr c"
  by (auto simp: valid_answer_read split: sum.splits)

lemma valid_answer_None:
  "valid_answer F args x = None \<longleftrightarrow>
     (\<exists>e. read_result F args ((\<lambda>(p, ms). (pv_identity p, ask_within ms p (FR_Context args))) x) = Inl e)"
  by (cases x) (auto simp: valid_answer_read split: sum.splits)

definition asked_results ::
  "federator \<Rightarrow> context_request \<Rightarrow> (fed_identity \<times> (error_code + fed_reply)) list" where
  "asked_results f args =
     map (\<lambda>(p, ms). (pv_identity p, ask_within ms p (FR_Context args))) (asked_with f args)"

lemma federator_context_asked:
  assumes "federator_context F f args = Inr k"
  shows "k = assemble F args (asked_results f args)"
    and "\<forall>(p, ms) \<in> set (tl (asked_with f args)).
      pv_takes p (FR_Context args) \<le> ms \<longrightarrow> \<not> pv_panics p (FR_Context args)"
  using assms
  by (auto simp: federator_context_def federator_results_def asked_results_def asked_with_def Let_def
      comp_def split: sum.splits if_splits)

lemma accepted_asked:
  "accepted_packets F args (asked_results f args) = List.map_filter (valid_answer F args) (asked_with f args)"
proof -
  have "valid_answer F args = (\<lambda>x. case read_result F args ((\<lambda>(p, ms). (pv_identity p, ask_within ms p (FR_Context args))) x)
      of Inl _ \<Rightarrow> None | Inr c \<Rightarrow> Some c)"
    by (rule ext) (auto simp: valid_answer_read)
  then show ?thesis
    by (simp add: accepted_packets_def asked_results_def List.map_filter_def filter_map comp_def)
qed

text \<open>What a source says of a provider that gave this answer, or none.\<close>

definition source_tells :: "fed_provider \<Rightarrow> context_packet option \<Rightarrow> source_status \<Rightarrow> bool" where
  "source_tells p answer s \<longleftrightarrow> ss_identity s = pv_identity p \<and>
     (case answer of
        None \<Rightarrow> ss_error s \<noteq> None \<and> ss_snapshot s = None
      | Some c \<Rightarrow> ss_error s = None \<and> ss_snapshot s = Some (cp_snapshot c)
          \<and> ss_policy_version s = Some (cp_policy_version c) \<and> ss_omitted s = cp_omitted c)"

lemma source_tells_of:
  "source_tells p (valid_answer F args (p, ms)) (source_of F args (pv_identity p, ask_within ms p (FR_Context args)))"
  by (simp add: source_tells_def source_of_def valid_answer_read split: sum.split)

lemma sources_asked:
  "list_all2 (\<lambda>x s. source_tells (fst x) (valid_answer F args x) s) (asked_with f args)
     (map (source_of F args) (asked_results f args))"
  by (auto simp: asked_results_def list_all2_conv_all_nth source_tells_of split: prod.split)

text \<open>
  C26. The combined view never widens what the providers sent. The sources are the local
  provider and then the supporting peers in their order, each with the generation, policy
  version and omissions of its own valid answer, or with an error when it failed, was late, or
  sent a reply that does not validate; the view is degraded exactly when there is such a
  provider. Every returned record belongs to the valid answer of the provider it names and
  passes the record validation for that provider, this project and that answer's generation;
  the limit and the character budget hold for the records as returned; every record lists
  exactly the other returned records of its origin; and the records of the valid answers that
  are left out are counted. No peer whose task panicked in time is hidden behind a view.
\<close>

theorem federated_view_sound:
  assumes "federator_context F f args = Inr k"
  shows "list_all2 (\<lambda>x s. source_tells (fst x) (valid_answer F args x) s) (asked_with f args) (fk_sources k)
    \<and> fk_degraded k = (\<exists>x \<in> set (asked_with f args). valid_answer F args x = None)
    \<and> (\<forall>(p, ms) \<in> set (tl (asked_with f args)).
        pv_takes p (FR_Context args) \<le> ms \<longrightarrow> \<not> pv_panics p (FR_Context args))
    \<and> (\<forall>d \<in> set (fk_records k). \<exists>p ms c. (p, ms) \<in> set (asked_with f args)
        \<and> valid_answer F args (p, ms) = Some c \<and> (\<exists>d' \<in> set (cp_records c). same_record d d')
        \<and> validate_record (fx_codec F) d (pv_identity p) (cr_project args) (cp_snapshot c) = Inr ())
    \<and> length (fk_records k) \<le> cr_limit args
    \<and> (fk_records k = [] \<or> fx_chars_records F (fk_records k) \<le> cr_max_chars args)
    \<and> grouped F (fk_records k)
    \<and> length (fk_records k) + fk_omitted k
        = sum_list (map (length \<circ> cp_records) (List.map_filter (valid_answer F args) (asked_with f args)))"
proof -
  note k = federator_context_asked(1) [OF assms]
  let ?results = "asked_results f args"
  let ?groups = "map cp_records (accepted_packets F args ?results)"
  let ?ds = "interleaved (cr_limit args) ?groups"
  obtain us where us: "subseq us ?ds" "list_all2 same_record (fk_records k) us"
    and fits: "length (fk_records k) \<le> cr_limit args" "grouped F (fk_records k)"
      "fk_records k = [] \<or> fx_chars_records F (fk_records k) \<le> cr_max_chars args"
    using fit_view_from_nothing [of ?ds F "cr_limit args" "cr_max_chars args"]
    by (auto simp: k assemble_def Let_def)
  have count: "length (fk_records k) \<le> sum_list (map length ?groups)"
    using list_all2_lengthD [OF us(2)] list_emb_length [OF us(1)] length_interleaved_le [of "cr_limit args" ?groups]
    by simp
  have from_valid: "\<exists>p ms c. (p, ms) \<in> set (asked_with f args) \<and> valid_answer F args (p, ms) = Some c
      \<and> (\<exists>d' \<in> set (cp_records c). same_record d d')
      \<and> validate_record (fx_codec F) d (pv_identity p) (cr_project args) (cp_snapshot c) = Inr ()"
    if d: "d \<in> set (fk_records k)" for d
  proof -
    from all2_member [OF us(2) d] obtain d' where d': "d' \<in> set us" "same_record d d'" by blast
    then have "d' \<in> set ?ds" using us(1) by (auto dest: list_emb_set)
    then obtain c where c: "c \<in> set (accepted_packets F args ?results)" "d' \<in> set (cp_records c)"
      using set_interleaved [of "cr_limit args" ?groups] by auto
    from c(1) obtain x where x: "x \<in> set (asked_with f args)" "valid_answer F args x = Some c"
      unfolding accepted_asked by (auto simp: List.map_filter_def)
    obtain p ms where pms: "x = (p, ms)" by (cases x)
    with x(2) have "validate_packet F c (pv_identity p) args = Inr ()"
      unfolding pms valid_answer_Some read_result_Inr by simp
    from packet_record_valid [OF this c(2)]
    have "validate_record (fx_codec F) d (pv_identity p) (cr_project args) (cp_snapshot c) = Inr ()"
      using same_record_valid [OF d'(2)] by simp
    with x pms c(2) d'(2) show ?thesis by blast
  qed
  have sources: "fk_sources k = map (source_of F args) ?results"
    and total: "length (fk_records k) + fk_omitted k = sum_list (map (length \<circ> cp_records) (accepted_packets F args ?results))"
    using count by (simp_all add: k assemble_def Let_def)
  have tells: "list_all2 (\<lambda>x s. source_tells (fst x) (valid_answer F args x) s) (asked_with f args) (fk_sources k)"
    unfolding sources by (rule sources_asked)
  have "fk_degraded k = (\<exists>x \<in> set ?results. \<exists>e. read_result F args x = Inl e)"
    unfolding source_failed [symmetric] by (simp add: k assemble_def Let_def)
  also have "\<dots> = (\<exists>x \<in> set (asked_with f args). valid_answer F args x = None)"
    unfolding valid_answer_None asked_results_def by simp
  finally have degraded: "fk_degraded k = (\<exists>x \<in> set (asked_with f args). valid_answer F args x = None)" .
  show ?thesis
    by (intro conjI ballI)
      (use tells degraded federator_context_asked(2) [OF assms] from_valid fits total [unfolded accepted_asked] in simp_all)
qed

section \<open>An honest provider is accepted\<close>

text \<open>
  What the provider relies on beside a valid bundle: digests are 64 lowercase hex digits, an
  empty array serializes in at most 256 characters, and the occurrences in the bundle have a
  document digest, a line and a quote.
\<close>

definition codec_laws :: "fed_codec \<Rightarrow> bool" where
  "codec_laws F \<longleftrightarrow> (\<forall>x. fed_hash (cx_hash (fx_codec F) x)) \<and> fx_chars_records F [] \<le> 256"

definition occurrences_ok :: "intel_bundle \<Rightarrow> bool" where
  "occurrences_ok b \<longleftrightarrow> (\<forall>r \<in> set (bu_records b). \<not> blank (in_statement r)
     \<and> (\<forall>e \<in> set (in_evidence r). se_line e \<noteq> 0 \<and> fed_hash (se_snapshot e)))"

lemma codec_digest: "codec_laws F \<Longrightarrow> fed_hash (sha256_hex (cx_hash (fx_codec F)) xs)"
  by (simp add: codec_laws_def sha256_hex_def)

lemma member_intel_id:
  assumes "codec_laws F" and "bundle_validate (fx_codec F) b = Inr ()" and "r \<in> set (bu_records b)"
  shows "intel_id (in_id r)" and "intel_ref i (qualified_id i (in_id r))"
proof -
  obtain x where "in_id r = ''intel:'' @ sha256_hex (cx_hash (fx_codec F)) [x]"
    using record_valid(9) [OF bundle_valid(4) [OF assms(2,3)]] by blast
  moreover have "fed_hash (sha256_hex (cx_hash (fx_codec F)) [x])" by (rule codec_digest [OF assms(1)])
  moreover have "strip_prefix (''intel:'' @ y) ''intel:'' = Some y"
    "strip_prefix (fi_provider i @ ''::'' @ ''intel:'' @ y) (fi_provider i @ ''::intel:'') = Some y" for y
    by (simp_all add: strip_prefix_Some)
  ultimately show "intel_id (in_id r)" "intel_ref i (qualified_id i (in_id r))"
    by (simp_all add: intel_id_def intel_ref_def qualified_id_def)
qed

lemma project_valid:
  assumes laws: "codec_laws F" and valid: "bundle_validate (fx_codec F) (sn_bundle s) = Inr ()"
    and occ: "occurrences_ok (sn_bundle s)" and r: "r \<in> set (bu_records (sn_bundle s))"
    and el: "eligible p recipient project r"
    and visible: "set visible \<subseteq> in_id ` set (bu_records (sn_bundle s))"
  shows "validate_record (fx_codec F) (project_record F p r project s visible) (fo_identity p) project (sn_id s) = Inr ()"
proof -
  note rv = record_valid [OF bundle_valid(4) [OF valid r]]
  have ref: "intel_ref (fo_identity p) (qualified_id (fo_identity p) x)" if x: "x \<in> set visible" for x
    using visible x member_intel_id(2) [OF laws valid] by blast
  have cited: "citation_ok (fx_codec F) (citation_of (fx_codec F) e)" if e: "e \<in> set (in_evidence r)" for e
    using occ r e by (auto simp: occurrences_ok_def citation_ok_def citation_of_def lineage_def)
  have status: "in_status r = IS_Admitted \<or> in_status r = IS_Disputed" using el by (simp add: eligible_def)
  have ev: "hd (in_evidence r) \<in> set (in_evidence r)" "last (in_evidence r) \<in> set (in_evidence r)"
    "Suc 0 \<le> length (in_evidence r)" using rv(2) by (simp_all add: Suc_le_eq)
  show ?thesis
    using rv(2,4,8) status ev cited ref member_intel_id(1) [OF laws valid r] occ r
    by (auto simp: validate_record_def project_record_def Let_def occurrences_ok_def split: option.splits)
qed

lemma records_valid_iff:
  "records_valid E i project snapshot seen ds = Inr () \<longleftrightarrow>
     (\<forall>d \<in> set ds. validate_record E d i project snapshot = Inr () \<and> fr_same_origin d = [] \<and> fr_id d \<notin> set seen)
     \<and> distinct (map fr_id ds)"
proof (induction ds arbitrary: seen)
  case (Cons a ds)
  show ?case
  proof (cases "validate_record E a i project snapshot = Inr () \<and> fr_id a \<notin> set seen \<and> fr_same_origin a = []")
    case True
    with Cons.IH [of "bs_insert (fr_id a) seen"] show ?thesis by (auto simp: image_iff)
  next
    case False
    then show ?thesis by (auto split: sum.split)
  qed
qed simp

lemma ranked_members:
  assumes "r \<in> set (ranked_records E q visible b)"
  shows "r \<in> set (bu_records b)" and "in_id r \<in> set visible"
  using assms by (simp_all add: ranked_records_def Let_def)

lemma ranked_distinct:
  "distinct (map in_id (bu_records b)) \<Longrightarrow> distinct (map in_id (ranked_records E q visible b))"
  unfolding ranked_records_def Let_def distinct_map by (auto intro: inj_on_subset)

lemma project_fields [simp]:
  "fr_id (project_record F p r project s visible) = in_id r"
  "fr_same_origin (project_record F p r project s visible) = []"
  by (simp_all add: project_record_def Let_def)

lemma allowed_ids: "set (allowed p recipient project b) \<subseteq> in_id ` set (bu_records b)"
  by (auto simp: allowed_def)

lemma context_reply_valid:
  assumes laws: "codec_laws F" and ok: "snapshot_check F p s = Inr ()" and occ: "occurrences_ok (sn_bundle s)"
    and req: "request_validate args = Inr ()"
  shows "validate_packet F (reader_context F p recipient args s) (fo_identity p) args = Inr ()"
proof -
  let ?b = "sn_bundle s" and ?project = "cr_project args"
  from ok have valid: "bundle_validate (fx_codec F) ?b = Inr ()" and hash: "fed_hash (sn_id s)"
    unfolding snapshot_check_ok by auto
  note ids = bundle_valid(1) [OF valid]
  let ?visible = "allowed p recipient ?project ?b"
  let ?ranked = "ranked_records (fx_codec F) (cr_query args) ?visible ?b"
  let ?all = "map (\<lambda>r. project_record F p r ?project s ?visible) ?ranked"
  let ?records = "fit_records (fx_chars_records F) (cr_limit args) (cr_max_chars args) [] ?all"
  from fit_records_props [of "[]" "cr_limit args" "fx_chars_records F" "cr_max_chars args" ?all fr_id]
  have recs: "set ?records \<subseteq> set ?all" "length ?records \<le> cr_limit args"
    "?records = [] \<or> fx_chars_records F ?records \<le> cr_max_chars args"
    "distinct (map fr_id ?all) \<longrightarrow> distinct (map fr_id ?records)"
    by auto
  have "distinct (map fr_id ?all)" using ranked_distinct [OF ids] by (simp add: comp_def)
  then have dist: "distinct (map fr_id ?records)" using recs(4) by simp
  have each: "validate_record (fx_codec F) d (fo_identity p) ?project (sn_id s) = Inr () \<and> fr_same_origin d = []"
    if d: "d \<in> set ?all" for d
  proof -
    from d obtain r where r: "r \<in> set ?ranked" "d = project_record F p r ?project s ?visible" by auto
    from ranked_members [OF r(1)] have m: "r \<in> set (bu_records ?b)" "eligible p recipient ?project r"
      by (simp_all add: allowed_member [OF ids])
    from project_valid [OF laws valid occ m allowed_ids] show ?thesis by (simp add: r(2))
  qed
  have "records_valid (fx_codec F) (fo_identity p) ?project (sn_id s) [] ?records = Inr ()"
    unfolding records_valid_iff using each recs(1) dist by auto
  moreover have "fx_chars_records F ?records \<le> cr_max_chars args"
    using recs(3) laws req by (auto simp: codec_laws_def request_validate_def split: if_splits)
  moreover have "fed_hash (fed_policy_digest F p)" unfolding fed_policy_digest_def by (rule codec_digest [OF laws])
  ultimately show ?thesis using recs(2) hash
    by (simp add: validate_packet_def reader_context_def Let_def not_less)
qed

lemma evidence_reply_valid:
  assumes laws: "codec_laws F" and reply: "reader_query F src p recipient (FR_Evidence h m) = Inr reply"
    and occ: "\<And>s. ks_current src (fi_scope (fo_identity p)) = Inr s \<Longrightarrow> occurrences_ok (sn_bundle s)"
    "\<And>i s. ks_snapshot src (fi_scope (fo_identity p)) i = Inr (Some s) \<Longrightarrow> occurrences_ok (sn_bundle s)"
  shows "\<exists>k. accept_evidence F (fo_identity p) h m reply = Inr k"
  using reply
proof (cases rule: evidence_reply)
  case (1 k current s r)
  from 1(5) have valid: "bundle_validate (fx_codec F) (sn_bundle s) = Inr ()" unfolding snapshot_check_ok by blast
  have "occurrences_ok (sn_bundle s)" using 1(2,3) occ by blast
  moreover have "set (visible_now p recipient (fh_project h) (sn_bundle s) (sn_bundle current))
      \<subseteq> in_id ` set (bu_records (sn_bundle s))" using allowed_ids by (fastforce simp: visible_now_def)
  ultimately have "validate_record (fx_codec F) (ep_record k) (fo_identity p) (fh_project h) (sn_id s) = Inr ()"
    unfolding 1(10) using project_valid [OF laws valid _ 1(7,9)] by blast
  moreover have "length (ep_evidence k) \<le> 10" "length (ep_receipts k) \<le> 3"
    using list_emb_length [OF 1(15)] list_emb_length [OF 1(17)] by simp_all
  moreover have "fed_hash (ep_policy_version k)"
    unfolding 1(14) fed_policy_digest_def by (rule codec_digest [OF laws])
  ultimately show ?thesis using 1(1,4,11-13,19) by (auto simp: accept_evidence_def not_less)
qed

text \<open>
  C39. The two ends of federation agree: whatever reply an owner's provider gives, the
  federator that pinned its identity accepts it, for a context request under the federator's
  limit and character budget and for an evidence request at its exact handle, as long as
  digests have their form and the occurrences of the owner's bundles have a quote, a line and
  a document digest.
\<close>

theorem honest_provider_accepted:
  assumes "codec_laws F" and "reader_query F src p recipient request = Inr reply"
    and "\<And>s. ks_current src (fi_scope (fo_identity p)) = Inr s \<Longrightarrow> occurrences_ok (sn_bundle s)"
    and "\<And>i s. ks_snapshot src (fi_scope (fo_identity p)) i = Inr (Some s) \<Longrightarrow> occurrences_ok (sn_bundle s)"
  shows "case request of
      FR_Context args \<Rightarrow> \<exists>k. read_result F args (fo_identity p, Inr reply) = Inr k
    | FR_Evidence h m \<Rightarrow> \<exists>k. accept_evidence F (fo_identity p) h m reply = Inr k"
proof (cases request)
  case (FR_Context args)
  then obtain s where "ks_current src (fi_scope (fo_identity p)) = Inr s" "snapshot_check F p s = Inr ()"
    "request_validate args = Inr ()" "reply = RP_Context (reader_context F p recipient args s)"
    using assms(2) by (auto simp: reader_query_def split: sum.splits)
  with context_reply_valid [OF assms(1)] assms(3) FR_Context show ?thesis by (simp add: read_result_Inr)
next
  case (FR_Evidence h m)
  with evidence_reply_valid [OF assms(1) _ assms(3,4)] assms(2) show ?thesis by simp
qed

end
