(* ===== verification/Federation_Examples.thy ===== *)
theory Federation_Examples
  imports Federation_View Assess_Examples
begin

text \<open>
  Inputs at which the federation theorems apply: an owner with one admitted record, a
  recipient with a grant for the project, and the recipient's federator.
\<close>

definition digest64 :: string where
  "digest64 = replicate 64 (CHR ''a'')"

definition share_codec :: codec where
  "share_codec = sample_codec\<lparr>cx_hash := \<lambda>_. digest64\<rparr>"

definition share_fed :: fed_codec where
  "share_fed =
     \<lparr>fx_codec = share_codec, fx_chars_records = \<lambda>ds. 2 + 100 * length ds,
      fx_chars_evidence = \<lambda>k. 100 + 10 * length (ep_evidence k) + 10 * length (ep_receipts k),
      fx_policy = \<lambda>_. [], fx_view = \<lambda>_. [], fx_origin = fst\<rparr>"

definition share_candidate :: intelligence_candidate where
  "share_candidate = (proposal ''c'' (first_evidence\<lparr>se_snapshot := digest64\<rparr>))\<lparr>ic_scope := ''private:o''\<rparr>"

definition share_receipt :: assessment where
  "share_receipt = receipt_for share_codec share_candidate JNull (assessment_questions novelty_base) []
     (sure_response (bt_keys novelty_base) ''novel'') O_Admitted"

definition share_record :: intelligence where
  "share_record = new_record share_codec share_candidate (am_id share_receipt) IK_Decision"

definition share_bundle :: intel_bundle where
  "share_bundle = (bundle_new ''private:o'')\<lparr>bu_records := [share_record], bu_assessments := [share_receipt]\<rparr>"

definition share_snapshot :: fed_snapshot where
  "share_snapshot = \<lparr>sn_id = digest64, sn_bundle = share_bundle\<rparr>"

definition share_source :: knowledge_source where
  "share_source = \<lparr>ks_current = \<lambda>_. Inr share_snapshot, ks_snapshot = \<lambda>_ _. Inr None\<rparr>"

definition share_policy :: fed_policy where
  "share_policy =
     \<lparr>fo_version = 1, fo_identity = \<lparr>fi_provider = ''p'', fi_owner = ''o'', fi_scope = ''private:o''\<rparr>,
      fo_projects = [(''r'', \<lparr>fp_repo = ''r''\<rparr>)],
      fo_grants = [\<lparr>fg_recipient = ''u'', fg_project = ''r'', fg_revision = 1, fg_mode = SM_AllAdmitted, fg_records = []\<rparr>]\<rparr>"

definition share_args :: context_request where
  "share_args = \<lparr>cr_project = ''r'', cr_query = ''r'', cr_limit = 5, cr_max_chars = 256\<rparr>"

lemma digest64_hash [simp]: "fed_hash digest64"
  by (simp add: fed_hash_def digest64_def is_lowhex_def)

lemma share_codec_hash [simp]: "sha256_hex (cx_hash share_codec) xs = digest64"
  by (simp add: share_codec_def sha256_hex_def)

lemma share_scope [simp]: "\<not> blank ''private:o''"
  by (simp add: blank.simps ascii_ws_def ws2_def ws3_def)

lemma share_candidate_fields [simp]:
  "ic_scope share_candidate = ''private:o''" "ic_repositories share_candidate = [''r'']" "ic_id share_candidate = ''c''"
  by (simp_all add: share_candidate_def proposal_def)

lemma share_receipt_valid: "assessment_validate share_codec ''private:o'' share_receipt = Inr ()"
  by (rule receipt_validate [OF share_receipt_def]) (simp_all add: novelty_base_ok)

lemma share_record_fields [simp]:
  "in_id share_record = ''intel:'' @ digest64" "in_scope share_record = ''private:o''"
  "in_repositories share_record = [''r'']" "in_statement share_record = se_quote (ic_evidence share_candidate)"
  "in_interpretation_class share_record = EC_Inferred" "in_status share_record = IS_Admitted"
  "in_evidence share_record = [ic_evidence share_candidate]" "in_contradicts share_record = []"
  "in_supersedes share_record = None" "in_assessments share_record = [am_id share_receipt]"
  by (simp_all add: share_record_def new_record_def record_id_def)

lemma share_receipt_fields [simp]:
  "am_candidate_id share_receipt = ''c''" "am_outcome share_receipt = O_Admitted"
  "am_repositories share_receipt = [''r'']"
  "am_evidence_digest share_receipt = digest64" "evidence_digest share_codec e = digest64"
  by (simp_all add: share_receipt_def evidence_digest_def)

lemma share_bundle_fields [simp]:
  "bu_version share_bundle = 1" "bu_scope share_bundle = ''private:o''"
  "bu_records share_bundle = [share_record]" "bu_assessments share_bundle = [share_receipt]"
  by (simp_all add: share_bundle_def bundle_new_def)

lemma share_record_valid: "record_validate share_codec share_bundle share_record = Inr ()"
proof -
  have r: "receipt_of share_bundle (am_id share_receipt) = Some share_receipt" by (simp add: receipt_of_def)
  have "receipts_of share_bundle share_record = [share_receipt]" by (simp add: receipts_of_def map_filter_simps r)
  moreover have "interpretation_of share_codec share_bundle share_record = Some share_receipt"
    by (simp add: interpretation_of_def map_filter_simps r)
  ultimately show ?thesis
    by (simp add: record_validate_def Let_def r evidence_bound_def status_from_receipts_def admission_of_def)
qed

lemma share_valid: "bundle_validate share_codec share_bundle = Inr ()"
proof -
  have "bu_version share_bundle = 1 \<and> \<not> blank (bu_scope share_bundle)"
    by (rule conjI) (simp, simp only: share_bundle_fields share_scope not_False_eq_True)
  moreover have "length (bs_of (map in_id (bu_records share_bundle))) = length (bu_records share_bundle)"
    "length (bs_of (map am_id (bu_assessments share_bundle))) = length (bu_assessments share_bundle)"
    unfolding distinct_by_set [of "map in_id (bu_records share_bundle)", unfolded length_map]
      distinct_by_set [of "map am_id (bu_assessments share_bundle)", unfolded length_map]
    by simp_all
  moreover have "check_all (record_validate share_codec share_bundle) (bu_records share_bundle) = Inr ()"
    "check_all (assessment_validate share_codec (bu_scope share_bundle)) (bu_assessments share_bundle) = Inr ()"
    by (simp_all add: share_receipt_valid share_record_valid)
  ultimately show ?thesis by (simp only: bundle_validate_def all_ok_iff ensure_ok list.set ball_simps simp_thms insert_iff empty_iff) 
qed

lemma share_identity [simp]:
  "fi_provider (fo_identity share_policy) = ''p''" "fi_owner (fo_identity share_policy) = ''o''"
  "fi_scope (fo_identity share_policy) = ''private:o''"
  by (simp_all add: share_policy_def)

lemma r_no_space [simp]: "\<not> ascii_ws (CHR ''r'')"
  by (simp add: ascii_ws_def)

lemma share_labels: "label ''p''" "label ''o''" "label ''u''"
  by (simp_all add: label_def is_alnum_def is_lower_def)

lemma share_policy_valid: "policy_validate share_policy = Inr ()"
proof -
  have "identity_validate (fo_identity share_policy) = Inr ()"
    by (simp add: identity_validate_def share_labels starts_with_def)
  moreover have "\<not> blank ''r''" by simp
  ultimately show ?thesis
    by (simp add: policy_validate_def share_policy_def share_labels bt_contains_def)
qed

lemma share_checked: "snapshot_check share_fed share_policy share_snapshot = Inr ()"
  using share_valid by (simp add: snapshot_check_ok share_fed_def share_snapshot_def)

lemma share_eligible: "eligible share_policy ''u'' ''r'' share_record"
  by (simp add: eligible_def policy_repo_def policy_grant_def share_policy_def bt_get_def)

lemma share_args_valid: "request_validate share_args = Inr ()"
  by (simp add: request_validate_def share_args_def)

lemma share_repo: "policy_repo share_policy ''u'' ''r'' = Inr ''r''"
  by (simp add: policy_repo_def policy_grant_def share_policy_def bt_get_def)

definition share_packet :: context_packet where
  "share_packet = reader_context share_fed share_policy ''u'' share_args share_snapshot"

lemma share_context:
  "reader_query share_fed share_source share_policy ''u'' (FR_Context share_args) = Inr (RP_Context share_packet)"
proof -
  have "cr_project share_args = ''r''" by (simp add: share_args_def)
  then show ?thesis
    by (simp add: reader_query_def share_policy_valid share_args_valid share_repo share_source_def share_checked
        share_packet_def all_ok.simps)
qed

definition share_handle :: fed_handle where
  "share_handle = \<lparr>fh_provider = ''p'', fh_owner = ''o'', fh_scope = ''private:o'', fh_project = ''r'',
     fh_snapshot = digest64, fh_id = ''intel:'' @ digest64\<rparr>"

lemma share_handle_fields [simp]:
  "fh_provider share_handle = ''p''" "fh_owner share_handle = ''o''" "fh_scope share_handle = ''private:o''"
  "fh_project share_handle = ''r''" "fh_snapshot share_handle = digest64" "fh_id share_handle = ''intel:'' @ digest64"
  by (simp_all add: share_handle_def)

lemma share_evidence:
  obtains k where "reader_query share_fed share_source share_policy ''u'' (FR_Evidence share_handle 256) = Inr (RP_Evidence k)"
proof -
  have "allowed share_policy ''u'' ''r'' share_bundle = [''intel:'' @ digest64]"
    by (simp add: allowed_def share_eligible)
  then have visible: "visible_now share_policy ''u'' ''r'' share_bundle share_bundle = [''intel:'' @ digest64]"
    by (simp add: visible_now_def)
  have r: "receipt_of share_bundle (am_id share_receipt) = Some share_receipt" by (simp add: receipt_of_def)
  have e: "\<exists>k. reader_evidence share_fed share_policy ''u'' share_handle 256 share_snapshot share_snapshot = Inr k"
    by (simp add: reader_evidence_def Let_def share_snapshot_def visible r share_fed_def)
  have "strip_prefix (''intel:'' @ digest64) ''intel:'' = Some digest64" by (simp only: strip_prefix_Some)
  then have i: "intel_id (fh_id share_handle)" by (simp add: intel_id_def)
  have s: "sn_id share_snapshot = digest64" "bu_records (sn_bundle share_snapshot) = [share_record]"
    by (simp_all add: share_snapshot_def)
  from e obtain k where "reader_evidence share_fed share_policy ''u'' share_handle 256 share_snapshot share_snapshot = Inr k" ..
  then have "reader_query share_fed share_source share_policy ''u'' (FR_Evidence share_handle 256) = Inr (RP_Evidence k)"
    by (simp add: reader_query_def share_policy_valid share_source_def share_checked share_repo share_eligible i [simplified] s)
  then show thesis by (rule that)
qed

lemma share_packet_records:
  obtains d where "cp_records share_packet = [d]"
proof -
  have "words share_codec x = [''word'']" for x
    by (simp add: words_def share_codec_def sample_codec_def stop_words_def)
  moreover have "allowed share_policy ''u'' ''r'' share_bundle = [''intel:'' @ digest64]"
    by (simp add: allowed_def share_eligible)
  ultimately have "ranked_records (fx_codec share_fed) q (allowed share_policy ''u'' ''r'' share_bundle) share_bundle
      = [share_record]" for q
    by (simp add: ranked_records_def Let_def overlap_def share_fed_def)
  then have "\<exists>d. cp_records share_packet = [d]"
    by (simp add: share_packet_def reader_context_def Let_def share_args_def share_snapshot_def)
      (simp add: share_fed_def)
  then show thesis using that by blast
qed

definition absent_local :: fed_provider where
  "absent_local =
     \<lparr>pv_identity = \<lparr>fi_provider = ''l'', fi_owner = ''u'', fi_scope = ''private:u''\<rparr>, pv_supports = \<lambda>_. True,
      pv_query = \<lambda>_. Inl FE_Unavailable, pv_takes = \<lambda>_. 10, pv_panics = \<lambda>_. False\<rparr>"

definition share_peer :: fed_provider where
  "share_peer =
     \<lparr>pv_identity = fo_identity share_policy, pv_supports = \<lambda>project. project = ''r'',
      pv_query = reader_query share_fed share_source share_policy ''u'', pv_takes = \<lambda>_. 100, pv_panics = \<lambda>_. False\<rparr>"

definition share_federator :: federator where
  "share_federator = \<lparr>fd_local = absent_local, fd_peers = [share_peer], fd_deadline = 1000\<rparr>"

lemma share_laws: "codec_laws share_fed"
  by (simp add: codec_laws_def share_fed_def share_codec_def)

lemma share_occurrences: "occurrences_ok share_bundle"
proof -
  have "\<not> blank (se_quote (ic_evidence share_candidate))" "se_line (ic_evidence share_candidate) = 1"
    "se_snapshot (ic_evidence share_candidate) = digest64"
    by (simp_all add: share_candidate_def proposal_def first_evidence_def said_def blank.simps ascii_ws_def ws2_def ws3_def)
  then show ?thesis by (simp add: occurrences_ok_def)
qed

theorem context_discloses_granted_witness:
  "\<exists>d r. cp_records share_packet = [d] \<and> disclosable share_policy ''u'' (cr_project share_args) share_bundle r d"
proof -
  obtain d where d: "cp_records share_packet = [d]" by (rule share_packet_records)
  have "ks_current share_source (fi_scope (fo_identity share_policy)) = Inr s \<Longrightarrow> sn_bundle s = share_bundle" for s
    by (auto simp: share_source_def share_snapshot_def)
  with context_discloses_granted [OF share_context] d show ?thesis by auto
qed

theorem evidence_exact_and_current_witness:
  "\<exists>k. reader_query share_fed share_source share_policy ''u'' (FR_Evidence share_handle 256) = Inr (RP_Evidence k)
     \<and> fr_handle (ep_record k) = share_handle \<and> fx_chars_evidence share_fed k \<le> 256"
proof -
  obtain k where k: "reader_query share_fed share_source share_policy ''u'' (FR_Evidence share_handle 256) = Inr (RP_Evidence k)"
    by (rule share_evidence)
  from evidence_exact_and_current [OF k] k show ?thesis by blast
qed

text \<open>The local provider fails and the peer answers: one source of two, one record in all.\<close>

theorem federated_view_sound_witness:
  "\<exists>k. federator_context share_fed share_federator share_args = Inr k \<and> length (fk_sources k) = 2
     \<and> fk_degraded k \<and> length (fk_records k) + fk_omitted k = 1"
proof -
  have "\<exists>k. federator_context share_fed share_federator share_args = Inr k"
    by (simp add: federator_context_def share_args_valid Let_def share_federator_def absent_local_def share_peer_def)
  then obtain k where k: "federator_context share_fed share_federator share_args = Inr k" ..
  have asked: "asked_with share_federator share_args = [(absent_local, 500), (share_peer, 990)]"
    by (simp add: asked_with_def Let_def share_federator_def share_peer_def absent_local_def share_args_def)
  have valid: "validate_packet share_fed share_packet (fo_identity share_policy) share_args = Inr ()"
    using context_reply_valid [OF share_laws share_checked _ share_args_valid, of "''u''"] share_occurrences
    by (simp add: share_packet_def share_snapshot_def)
  have answers: "valid_answer share_fed share_args (absent_local, 500) = None"
    "valid_answer share_fed share_args (share_peer, 990) = Some share_packet"
    using share_context valid
    by (simp_all add: valid_answer_def absent_local_def) (simp add: share_peer_def)
  obtain d where "cp_records share_packet = [d]" by (rule share_packet_records)
  with federated_view_sound [OF k] k answers show ?thesis
    by (auto simp: asked List.map_filter_def dest: list_all2_lengthD)
qed

theorem honest_provider_accepted_witness:
  "\<exists>k. read_result share_fed share_args (fo_identity share_policy, Inr (RP_Context share_packet)) = Inr k"
proof -
  have "ks_current share_source i = Inr s \<Longrightarrow> occurrences_ok (sn_bundle s)"
    "ks_snapshot share_source i j = Inr (Some s) \<Longrightarrow> occurrences_ok (sn_bundle s)" for i j s
    using share_occurrences by (auto simp: share_source_def share_snapshot_def)
  from honest_provider_accepted [OF share_laws share_context this] show ?thesis by simp
qed

end
