(* ===== verification/Sync_Receipts.thy ===== *)
theory Sync_Receipts
  imports Assess Rows
begin

text \<open>
  Checking a receipt that an enrolled peer sent: \<^verbatim>\<open>validate_replication_receipt\<close> and its
  helpers in \<^verbatim>\<open>crates/chaosbox/src/intelligence/assess.rs\<close>, and the capsule validation of
  \<^verbatim>\<open>crates/chaosbox/src/sync/mod.rs\<close>. A panic is the error \<open>Panicked\<close>; it unwinds as an
  early return does.
\<close>

datatype sync_error = Refused string | Jev jev_error | Stored store_error | Panicked

definition refuse_unless :: "bool \<Rightarrow> string \<Rightarrow> sync_error + unit" where
  "refuse_unless ok message = ensure ok (Refused message)"

definition refused :: "string + 'a \<Rightarrow> sync_error + 'a" where
  "refused r = map_sum Refused id r"

lemma map_sum_Inr: "map_sum f g r = Inr y \<longleftrightarrow> (\<exists>x. r = Inr x \<and> y = g x)"
  by (cases r) auto

lemma refused_Inr [simp]: "refused r = Inr x \<longleftrightarrow> r = Inr x"
  by (auto simp: refused_def map_sum_Inr)

lemma refuse_unless_ok [simp]: "refuse_unless ok m = Inr () \<longleftrightarrow> ok"
  by (simp add: refuse_unless_def)

section \<open>JSON values\<close>

text \<open>\<open>value[key]\<close>: absent keys and other values read as null.\<close>

definition jfield :: "json \<Rightarrow> string \<Rightarrow> json" where
  "jfield j k = (case j of JObject kvs \<Rightarrow> (case map_of kvs k of None \<Rightarrow> JNull | Some v \<Rightarrow> v) | _ \<Rightarrow> JNull)"

text \<open>\<open>value[key] = v\<close>: null becomes an object, any other value that is not one panics.\<close>

definition jset :: "json \<Rightarrow> string \<Rightarrow> json \<Rightarrow> json option" where
  "jset j k v = (case j of
       JNull \<Rightarrow> Some (JObject [(k, v)])
     | JObject kvs \<Rightarrow> Some (JObject (if k \<in> fst ` set kvs
          then map (\<lambda>(k', v'). if k' = k then (k', v) else (k', v')) kvs else kvs @ [(k, v)]))
     | _ \<Rightarrow> None)"

text \<open>Equality of values: objects are compared as maps.\<close>

fun json_eq :: "json \<Rightarrow> json \<Rightarrow> bool"
  and jsons_eq :: "json list \<Rightarrow> json list \<Rightarrow> bool"
  and fields_eq :: "(string \<times> json) list \<Rightarrow> (string \<times> json) list \<Rightarrow> bool" where
  "json_eq (JArray xs) (JArray ys) = jsons_eq xs ys"
| "json_eq (JObject a) (JObject b) = (length a = length b \<and> fields_eq a b)"
| "json_eq x y = (x = y)"
| "jsons_eq [] [] = True"
| "jsons_eq (x # xs) (y # ys) = (json_eq x y \<and> jsons_eq xs ys)"
| "jsons_eq _ _ = False"
| "fields_eq [] b = True"
| "fields_eq ((k, v) # a) b =
     ((case map_of b k of None \<Rightarrow> False | Some w \<Rightarrow> json_eq v w) \<and> fields_eq a b)"

fun jstr :: "json \<Rightarrow> string option" where
  "jstr (JString s) = Some s"
| "jstr _ = None"

fun jarray :: "json \<Rightarrow> json list option" where
  "jarray (JArray xs) = Some xs"
| "jarray _ = None"

text \<open>\<open>as_i64\<close>: an integer literal in range; \<open>-0\<close> is a float.\<close>

definition nat_of_digits :: "string \<Rightarrow> nat" where
  "nat_of_digits s = foldl (\<lambda>n c. 10 * n + (byte c - 48)) 0 s"

definition int_of_text :: "string \<Rightarrow> int option" where
  "int_of_text s =
     (let negative = starts_with s ''-''; digits = (if negative then drop 1 s else s);
          i = (if negative then - int (nat_of_digits digits) else int (nat_of_digits digits))
      in if digits = [] \<or> \<not> list_all is_digit digits \<or> (negative \<and> i = 0)
           \<or> \<not> (- (2 ^ 63) \<le> i \<and> i < 2 ^ 63)
         then None else Some i)"

fun ji64 :: "json \<Rightarrow> int option" where
  "ji64 (JNumber s) = int_of_text s"
| "ji64 _ = None"

section \<open>Receipts from peers\<close>

definition replication_kind :: "assessment \<Rightarrow> sync_error + intelligence_kind" where
  "replication_kind receipt =
     (case choice_of (srs_answers (am_response receipt)) ''kind'' of
        None \<Rightarrow> Inl (Refused ''original admission lacks classification'')
      | Some a \<Rightarrow>
          if ca_choice a = ''decision'' then Inr IK_Decision
          else if ca_choice a = ''constraint'' then Inr IK_Constraint
          else if ca_choice a = ''pitfall'' then Inr IK_Pitfall
          else if ca_choice a = ''finding'' then Inr IK_Finding
          else Inl (Refused ''original admission has no meaningful classification''))"

definition replication_neighbor ::
  "intel_bundle \<Rightarrow> intelligence_candidate \<Rightarrow> json \<Rightarrow> sync_error + intelligence" where
  "replication_neighbor b c item =
     (case find (\<lambda>r. jfield item ''id'' = JString (in_id r)) (bu_records b) of
        None \<Rightarrow> Inl (Refused ''missing comparison evidence'')
      | Some r \<Rightarrow>
          if jfield item ''statement'' \<noteq> JString (in_statement r)
            \<or> \<not> json_eq (jfield item ''repositories'') (jtexts (ic_repositories c))
            \<or> in_repositories r \<noteq> ic_repositories c
            \<or> \<not> (\<exists>e \<in> set (in_evidence r). json_eq (evidence_json e) (jfield item ''source''))
          then Inl (Refused ''comparison input is not bound to retained evidence'')
          else Inr r)"

text \<open>The comparison items in order: no id twice, and each bound to a retained record.\<close>

fun neighbor_criteria ::
  "intel_bundle \<Rightarrow> intelligence_candidate \<Rightarrow> string btset \<Rightarrow> json list \<Rightarrow> (string, string option) btree
   \<Rightarrow> sync_error + (string, string option) btree" where
  "neighbor_criteria b c seen [] criteria = Inr criteria"
| "neighbor_criteria b c seen (item # items) criteria =
     (case jstr (jfield item ''id'') of
        None \<Rightarrow> Inl (Refused ''missing comparison identity'')
      | Some i \<Rightarrow>
          if i \<in> set seen then Inl (Refused ''duplicate comparison identity'')
          else case replication_neighbor b c item of
            Inl e \<Rightarrow> Inl e
          | Inr r \<Rightarrow> neighbor_criteria b c (bs_insert i seen) items
              (bt_extend criteria (consolidation_options i (in_statement r))))"

definition replay_outcome ::
  "codec \<Rightarrow> intelligence_candidate \<Rightarrow> assessment \<Rightarrow> intel_bundle \<Rightarrow> json list \<Rightarrow> sync_error + unit" where
  "replay_outcome E c receipt b related =
     (case classify c (am_response receipt) of
        None \<Rightarrow> Inl Panicked
      | Some (Inl e) \<Rightarrow> Inl (Refused e)
      | Some (Inr (outcome0, _)) \<Rightarrow>
          (let outcome = (case outcome0 of
                 O_Supersession i \<Rightarrow>
                   if later_than (se_observed_at_ms (ic_evidence c))
                        (Option.bind (find (\<lambda>r. jfield r ''id'' = JString i) related)
                           (\<lambda>r. ji64 (jfield r ''latest_user_evidence_ms'')))
                   then outcome0 else O_Abstained
               | _ \<Rightarrow> outcome0)
           in if outcome = am_outcome receipt then Inr ()
              else if outcome = O_Admitted
                \<and> (case am_outcome receipt of
                     O_Duplicate i \<Rightarrow> \<exists>r \<in> set (bu_records b). in_id r = i \<and> same_occurrence E r c
                   | O_Abstained \<Rightarrow> \<exists>r \<in> set (bu_records b). in_status r = IS_Superseded \<and> same_occurrence E r c
                   | _ \<Rightarrow> False)
              then Inr ()
              else Inl (Refused ''receipt outcome does not replay from its typed answers'')))"

definition validate_replication_receipt ::
  "codec \<Rightarrow> intelligence_candidate \<Rightarrow> assessment \<Rightarrow> intel_bundle \<Rightarrow> sync_error + unit" where
  "validate_replication_receipt E c receipt b =
     (case assessment_validate E (ic_scope c) receipt of
        Inl e \<Rightarrow> Inl (Refused e)
      | Inr _ \<Rightarrow>
          (case questions E c (bundle_new (ic_scope c)) of
             Inl e \<Rightarrow> Inl (Refused e)
           | Inr (base, asked, _) \<Rightarrow>
               (case am_state receipt of
                  None \<Rightarrow> Inl (Refused ''legacy receipt lacks replayable state'')
                | Some state \<Rightarrow>
                    if am_rubric_version receipt \<noteq> RUBRIC_VERSION \<or> am_candidate_id receipt \<noteq> ic_id c
                      \<or> am_repositories receipt \<noteq> ic_repositories c
                      \<or> am_evidence_digest receipt \<noteq> evidence_digest E (ic_evidence c)
                    then Inl (Refused ''receipt is not bound to the current candidate/policy'')
                    else (case jset state ''related'' (JArray []) of
                      None \<Rightarrow> Inl Panicked
                    | Some source_state \<Rightarrow>
                        if \<not> json_eq source_state base
                        then Inl (Refused ''receipt context differs from source capsule'')
                        else (case jarray (jfield state ''related'') of
                          None \<Rightarrow> Inl (Refused ''missing comparison state'')
                        | Some related \<Rightarrow>
                            if 4 < length related then Inl (Refused ''unbounded comparison state'')
                            else (case bt_get asked ''novelty'' of
                              Some (Q_Choice instructions criteria) \<Rightarrow>
                                (case neighbor_criteria b c [] related criteria of
                                   Inl e \<Rightarrow> Inl e
                                 | Inr criteria' \<Rightarrow>
                                     (let asked' = bt_insert ''novelty'' (Q_Choice instructions criteria') asked
                                      in if am_questions receipt \<noteq> asked' \<or> am_cache_key receipt \<noteq> assess_key E c state asked'
                                         then Inl (Refused ''receipt questions/cache differ from replayable inputs'')
                                         else replay_outcome E c receipt b related))
                            | None \<Rightarrow> Inl (Refused ''missing novelty question'')
                            | _ \<Rightarrow> Inl (Refused ''invalid novelty question'')))))))"

section \<open>Publications\<close>

record publication =
  pb_bundle :: intel_bundle
  pb_candidates :: "intelligence_candidate list"

text \<open>Contradictions and the supersession that the receipts record for one item.\<close>

fun replay_links ::
  "codec \<Rightarrow> string \<Rightarrow> assessment list \<Rightarrow> string btset \<Rightarrow> string option
   \<Rightarrow> sync_error + string btset \<times> string option" where
  "replay_links E i [] cs old = Inr (cs, old)"
| "replay_links E i (a # rest) cs old =
     (let origin = ''intel:'' @ sha256_hex (cx_hash E) [am_candidate_id a] in
      case am_outcome a of
        O_Contradiction other \<Rightarrow>
          replay_links E i rest
            (if origin = i then bs_insert other cs else if other = i then bs_insert origin cs else cs) old
      | O_Supersession other \<Rightarrow>
          if origin = i
          then (if old \<noteq> None \<and> old \<noteq> Some other then Inl (Refused ''ambiguous supersession metadata'')
                else replay_links E i rest cs (Some other))
          else replay_links E i rest cs old
      | _ \<Rightarrow> replay_links E i rest cs old)"

definition record_metadata :: "codec \<Rightarrow> intel_bundle \<Rightarrow> intelligence \<Rightarrow> sync_error + unit" where
  "record_metadata E b r =
     (case find (\<lambda>a. (case in_assessments r of [] \<Rightarrow> False | i # _ \<Rightarrow> i = am_id a)) (bu_assessments b) of
        None \<Rightarrow> Inl (Refused ''missing original admission'')
      | Some primary \<Rightarrow>
          (case replication_kind primary of
             Inl e \<Rightarrow> Inl e
           | Inr kind \<Rightarrow>
               if in_kind r \<noteq> kind then Inl (Refused ''classification does not match the original admission'')
               else case replay_links E (in_id r) (bu_assessments b) [] None of
                 Inl e \<Rightarrow> Inl e
               | Inr (cs, old) \<Rightarrow>
                   refuse_unless (bs_of (in_contradicts r) = cs \<and> in_supersedes r = old)
                     ''relationships do not replay from retained receipts''))"

definition validate_metadata :: "codec \<Rightarrow> intel_bundle \<Rightarrow> sync_error + unit" where
  "validate_metadata E b = check_all (record_metadata E b) (bu_records b)"

definition publication_validate :: "codec \<Rightarrow> string \<Rightarrow> publication \<Rightarrow> sync_error + unit" where
  "publication_validate E scope p =
     (let b = pb_bundle p;
          candidates = bt_extend [] (map (\<lambda>c. (ic_id c, c)) (pb_candidates p)) in
      all_ok
       [refused (bundle_validate E b),
        refuse_unless (bu_scope b = scope) ''publication scope mismatch'',
        refuse_unless (length candidates = length (pb_candidates p)) ''duplicate source capsule'',
        refuse_unless (bt_keys candidates = bs_of (map am_candidate_id (bu_assessments b)))
          ''source capsules must match retained receipt inputs'',
        check_all (\<lambda>receipt. case bt_get candidates (am_candidate_id receipt) of
             None \<Rightarrow> Inl (Refused ''missing source capsule for receipt'')
           | Some c \<Rightarrow> validate_replication_receipt E c receipt b) (bu_assessments b),
        validate_metadata E b])"

end
