(* ===== verification/Sync_Replica.thy ===== *)
theory Sync_Replica
  imports Sync_Events
begin

text \<open>
  The replica of \<^verbatim>\<open>crates/chaosbox/src/sync/mod.rs\<close>: a bounded set of authenticated events
  of one user and scope.
\<close>

record replica =
  rl_user :: string
  rl_scope :: string
  rl_events :: "(string, signed_event) btree"
  rl_bytes :: nat

definition replica_new :: "string \<Rightarrow> string \<Rightarrow> replica" where
  "replica_new user scope = \<lparr>rl_user = user, rl_scope = scope, rl_events = [], rl_bytes = 0\<rparr>"

definition receive :: "sync_codec \<Rightarrow> replica \<Rightarrow> signed_event \<Rightarrow> (replica, sync_error, unit) outcome" where
  "receive S r e =
     (case event_validate S (rl_user r) (rl_scope r) e of
        Inl x \<Rightarrow> (r, Inl x)
      | Inr _ \<Rightarrow>
          (case bt_get (rl_events r) (sev_id e) of
             Some old \<Rightarrow>
               if sx_event S old \<noteq> sx_event S e then (r, Inl (Refused ''event identity collision'')) else (r, Inr ())
           | None \<Rightarrow>
               if length (rl_events r) = MAX_EVENTS
               then (r, Inl (Refused ''replica event ceiling; partition the scope''))
               else
                 (let bytes = rl_bytes r + length (sx_event S e) in
                  if 2 ^ 64 \<le> bytes then (r, Inl (Refused ''replica byte overflow''))
                  else if MAX_REPLICA_BYTES < bytes
                  then (r, Inl (Refused ''replica byte ceiling; partition the scope''))
                  else (r\<lparr>rl_bytes := bytes, rl_events := bt_insert (sev_id e) e (rl_events r)\<rparr>, Inr ()))))"

definition heads :: "replica \<Rightarrow> string list" where
  "heads r =
     (let parents = bs_of (concat (map sev_parents (bt_values (rl_events r))))
      in filter (\<lambda>i. i \<notin> set parents) (bt_keys (rl_events r)))"

definition replica_digest :: "sync_codec \<Rightarrow> replica \<Rightarrow> string" where
  "replica_digest S r = sha256_hex (cx_hash (sx_codec S))
     [rl_user r, rl_scope r, sx_ids S (bt_keys (rl_events r))]"

text \<open>Receiving several events, stopping at the first refusal.\<close>

fun receive_all :: "sync_codec \<Rightarrow> replica \<Rightarrow> signed_event list \<Rightarrow> (replica, sync_error, unit) outcome" where
  "receive_all S r [] = (r, Inr ())"
| "receive_all S r (e # es) =
     (case receive S r e of
        (r', Inl x) \<Rightarrow> (r', Inl x)
      | (r', Inr _) \<Rightarrow> receive_all S r' es)"

section \<open>Invariant\<close>

definition event_bytes :: "sync_codec \<Rightarrow> (string, signed_event) btree \<Rightarrow> nat" where
  "event_bytes S m = sum_list (map (length \<circ> sx_event S) (bt_values m))"

definition replica_ok :: "sync_codec \<Rightarrow> replica \<Rightarrow> bool" where
  "replica_ok S r \<longleftrightarrow> bt_ok (rl_events r)
     \<and> (\<forall>(i, e) \<in> set (rl_events r). sev_id e = i \<and> event_validate S (rl_user r) (rl_scope r) e = Inr ())
     \<and> length (rl_events r) \<le> MAX_EVENTS \<and> rl_bytes r = event_bytes S (rl_events r)
     \<and> rl_bytes r \<le> MAX_REPLICA_BYTES"

lemma replica_ok_new: "replica_ok S (replica_new user scope)"
  by (simp add: replica_ok_def replica_new_def event_bytes_def bt_values_def)

lemma length_bt_insert: "bt_get m k = None \<Longrightarrow> length (bt_insert k v m) = Suc (length m)"
  by (induction m) (auto split: if_splits)

lemma event_bytes_insert:
  "bt_get m k = None \<Longrightarrow> event_bytes S (bt_insert k e m) = event_bytes S m + length (sx_event S e)"
  by (induction m) (auto simp: event_bytes_def bt_values_def split: if_splits)

lemma receive_cases:
  obtains (refused) x where "receive S r e = (r, Inl x)"
  | (known) old where "bt_get (rl_events r) (sev_id e) = Some old" "sx_event S old = sx_event S e"
      "event_validate S (rl_user r) (rl_scope r) e = Inr ()" "receive S r e = (r, Inr ())"
  | (added) r' where "bt_get (rl_events r) (sev_id e) = None"
      "event_validate S (rl_user r) (rl_scope r) e = Inr ()"
      "length (rl_events r) \<noteq> MAX_EVENTS" "rl_bytes r + length (sx_event S e) \<le> MAX_REPLICA_BYTES"
      "r' = r\<lparr>rl_bytes := rl_bytes r + length (sx_event S e), rl_events := bt_insert (sev_id e) e (rl_events r)\<rparr>"
      "receive S r e = (r', Inr ())"
proof (cases "event_validate S (rl_user r) (rl_scope r) e")
  case (Inl x)
  then show thesis using refused by (simp add: receive_def)
next
  case (Inr u)
  show thesis
  proof (cases "bt_get (rl_events r) (sev_id e)")
    case None
    note step = receive_def Inr None sum.case option.case
    consider "length (rl_events r) = MAX_EVENTS"
      | "length (rl_events r) \<noteq> MAX_EVENTS" "2 ^ 64 \<le> rl_bytes r + length (sx_event S e)"
      | "length (rl_events r) \<noteq> MAX_EVENTS" "\<not> 2 ^ 64 \<le> rl_bytes r + length (sx_event S e)"
        "MAX_REPLICA_BYTES < rl_bytes r + length (sx_event S e)"
      | "length (rl_events r) \<noteq> MAX_EVENTS" "\<not> 2 ^ 64 \<le> rl_bytes r + length (sx_event S e)"
        "\<not> MAX_REPLICA_BYTES < rl_bytes r + length (sx_event S e)" by blast
    then show thesis
    proof cases
      case 4
      with added [OF None] Inr show thesis by (simp add: step Let_def)
    qed (rule refused, simp add: step Let_def)+
  next
    case (Some old)
    then show thesis
      by (cases "sx_event S old = sx_event S e") (use Inr refused known in \<open>auto simp: receive_def\<close>)
  qed
qed

lemma receive_keeps:
  assumes "replica_ok S r" and "receive S r e = (r', res)"
  shows "replica_ok S r' \<and> rl_user r' = rl_user r \<and> rl_scope r' = rl_scope r
    \<and> set (rl_events r) \<subseteq> set (rl_events r') \<and> (isl res \<longrightarrow> r' = r)"
proof (cases rule: receive_cases [of S r e])
  case (added r1)
  then have r': "r' = r1" "res = Inr ()" using assms(2) by auto
  have ok: "bt_ok (rl_events r)" using assms(1) by (simp add: replica_ok_def)
  have sub: "e' \<in> set (rl_events r) \<Longrightarrow> fst e' \<noteq> sev_id e" for e'
    using added(1) bt_get_iff_in_set [OF ok, of "sev_id e"] by (cases e') auto
  have "length (rl_events r) < MAX_EVENTS" using assms(1) added(3) by (auto simp: replica_ok_def)
  then show ?thesis
    using assms(1) added r' sub
    by (auto simp: replica_ok_def bt_ok_insert length_bt_insert event_bytes_insert set_bt_insert)
qed (use assms in auto)

section \<open>Convergence\<close>

text \<open>Serializing gives a text, and parsing it gives back the event.\<close>

definition lossless :: "sync_codec \<Rightarrow> signed_event set \<Rightarrow> bool" where
  "lossless S es \<longleftrightarrow> (\<forall>e \<in> es. sx_event S e \<noteq> [] \<and> sx_parse S (sx_event S e) = Some e)"

lemma lossless_inj: "lossless S es \<Longrightarrow> a \<in> es \<Longrightarrow> b \<in> es \<Longrightarrow> sx_event S a = sx_event S b \<Longrightarrow> a = b"
  by (metis lossless_def option.inject)

lemma lossless_mono: "lossless S es \<Longrightarrow> fs \<subseteq> es \<Longrightarrow> lossless S fs"
  by (auto simp: lossless_def)

text \<open>The events of a replica.\<close>

abbreviation event_set :: "replica \<Rightarrow> signed_event set" where
  "event_set r \<equiv> snd ` set (rl_events r)"

text \<open>An accepted event is in the replica, with its own content.\<close>

lemma receive_accepted:
  assumes "replica_ok S r" and "lossless S (insert e (event_set r))" and "receive S r e = (r', Inr ())"
  shows "set (rl_events r') = insert (sev_id e, e) (set (rl_events r))"
    and "event_validate S (rl_user r) (rl_scope r) e = Inr ()"
proof -
  have ok: "bt_ok (rl_events r)" using assms(1) by (simp add: replica_ok_def)
  have "set (rl_events r') = insert (sev_id e, e) (set (rl_events r))
    \<and> event_validate S (rl_user r) (rl_scope r) e = Inr ()"
  proof (cases rule: receive_cases [of S r e])
    case (known old)
    then have old: "(sev_id e, old) \<in> set (rl_events r)" by (simp add: bt_get_in_set)
    then have "old \<in> event_set r" by force
    with lossless_inj [OF assms(2) _ _ known(2)] have "old = e" by simp
    with old known assms(3) show ?thesis by auto
  next
    case (added r1)
    then have "fst x \<noteq> sev_id e" if "x \<in> set (rl_events r)" for x
      using bt_get_iff_in_set [OF ok, of "sev_id e"] that by (cases x) auto
    with added assms(3) show ?thesis by (auto simp: set_bt_insert [OF ok])
  qed (use assms in auto)
  then show "set (rl_events r') = insert (sev_id e, e) (set (rl_events r))"
    "event_validate S (rl_user r) (rl_scope r) e = Inr ()" by auto
qed

lemma receive_all_accepted:
  assumes "replica_ok S r" and "lossless S (set es \<union> event_set r)" and "receive_all S r es = (r', Inr ())"
  shows "replica_ok S r' \<and> rl_user r' = rl_user r \<and> rl_scope r' = rl_scope r
    \<and> set (rl_events r') = set (rl_events r) \<union> (\<lambda>e. (sev_id e, e)) ` set es
    \<and> (\<forall>e \<in> set es. event_validate S (rl_user r) (rl_scope r) e = Inr ())"
  using assms
proof (induction es arbitrary: r)
  case (Cons e es)
  then obtain r1 where r1: "receive S r e = (r1, Inr ())" "receive_all S r1 es = (r', Inr ())"
    by (auto split: prod.splits sum.splits)
  from receive_keeps [OF Cons.prems(1) r1(1)] have k: "replica_ok S r1" "rl_user r1 = rl_user r" "rl_scope r1 = rl_scope r"
    by auto
  have "lossless S (insert e (event_set r))" using Cons.prems(2) by (rule lossless_mono) auto
  note acc = receive_accepted [OF Cons.prems(1) this r1(1)]
  then have "lossless S (set es \<union> event_set r1)" using Cons.prems(2) by (elim lossless_mono) auto
  from Cons.IH [OF k(1) this r1(2)] acc k(2,3) show ?case by auto
qed simp

lemma sum_list_sub:
  assumes "distinct xs" and "distinct ys" and "set xs \<subseteq> set ys"
  shows "sum_list (map (f :: 'a \<Rightarrow> nat) xs) \<le> sum_list (map f ys)"
  using assms by (simp add: sum_list_distinct_conv_sum_set sum_mono2)

text \<open>A bounded target set bounds every replica inside it.\<close>

definition fits :: "sync_codec \<Rightarrow> (string, signed_event) btree \<Rightarrow> bool" where
  "fits S m \<longleftrightarrow> bt_ok m \<and> length m \<le> MAX_EVENTS \<and> event_bytes S m \<le> MAX_REPLICA_BYTES"

lemma sub_bounds:
  assumes "bt_ok m" and "bt_ok n" and "set m \<subseteq> set n"
  shows "length m \<le> length n" and "event_bytes S m \<le> event_bytes S n"
    and "e \<in> set n \<Longrightarrow> e \<notin> set m \<Longrightarrow> length m < length n"
proof -
  have d: "distinct m" "distinct n" using assms(1,2) by (auto dest!: bt_ok_distinct simp: distinct_map)
  then show "length m \<le> length n" using assms(3) by (metis card_mono distinct_card finite_set)
  show "event_bytes S m \<le> event_bytes S n"
    using sum_list_sub [OF d assms(3), of "\<lambda>e. length (sx_event S (snd e))"]
    by (simp add: event_bytes_def bt_values_def comp_def)
  show "length m < length n" if "e \<in> set n" "e \<notin> set m"
    using that assms(3) d by (metis distinct_card finite_set psubsetI psubset_card_mono)
qed

lemma receive_in_target:
  assumes r: "replica_ok S r" and fit: "fits S m" and sub: "set (rl_events r) \<subseteq> set m"
    and e: "(sev_id e, e) \<in> set m" and valid: "event_validate S (rl_user r) (rl_scope r) e = Inr ()"
  obtains r' where "receive S r e = (r', Inr ())" and "replica_ok S r'" and "rl_user r' = rl_user r"
    and "rl_scope r' = rl_scope r" and "set (rl_events r') = insert (sev_id e, e) (set (rl_events r))"
proof -
  have ok: "bt_ok (rl_events r)" "bt_ok m" using r fit by (simp_all add: replica_ok_def fits_def)
  have "\<exists>r'. receive S r e = (r', Inr ()) \<and> set (rl_events r') = insert (sev_id e, e) (set (rl_events r))"
  proof (cases "bt_get (rl_events r) (sev_id e)")
    case (Some old)
    then have "(sev_id e, old) \<in> set m" using sub by (auto dest: bt_get_in_set)
    with e ok(2) have "old = e" by (metis bt_get_iff_in_set option.inject)
    with Some valid show ?thesis by (auto simp: receive_def dest: bt_get_in_set)
  next
    case None
    let ?m = "bt_insert (sev_id e) e (rl_events r)"
    have new: "set ?m = insert (sev_id e, e) (set (rl_events r))"
    proof -
      have "fst x \<noteq> sev_id e" if "x \<in> set (rl_events r)" for x
        using None bt_get_iff_in_set [OF ok(1), of "sev_id e"] that by (cases x) auto
      then show ?thesis by (auto simp: set_bt_insert [OF ok(1)])
    qed
    with sub e have "set ?m \<subseteq> set m" by simp
    note bounds = sub_bounds [OF bt_ok_insert [OF ok(1)] ok(2) this]
    have "Suc (length (rl_events r)) \<le> MAX_EVENTS"
      using bounds(1) fit by (simp add: length_bt_insert [OF None] fits_def)
    moreover have "rl_bytes r + length (sx_event S e) \<le> MAX_REPLICA_BYTES"
      using bounds(2) [of S] fit r by (simp add: event_bytes_insert [OF None] fits_def replica_ok_def)
    moreover have "MAX_REPLICA_BYTES < 2 ^ 64" by (simp add: MAX_REPLICA_BYTES_def)
    ultimately show ?thesis using None valid new by (auto simp: receive_def Let_def)
  qed
  then obtain r' where "receive S r e = (r', Inr ())" "set (rl_events r') = insert (sev_id e, e) (set (rl_events r))"
    by blast
  with receive_keeps [OF r this(1)] show thesis by (intro that) auto
qed

lemma receive_all_in_target:
  assumes "fits S m" and "replica_ok S r" and "set (rl_events r) \<subseteq> set m"
    and "\<forall>e \<in> set es. (sev_id e, e) \<in> set m \<and> event_validate S (rl_user r) (rl_scope r) e = Inr ()"
  shows "\<exists>r'. receive_all S r es = (r', Inr ())"
  using assms(2-4)
proof (induction es arbitrary: r)
  case (Cons e es)
  have "(sev_id e, e) \<in> set m" "event_validate S (rl_user r) (rl_scope r) e = Inr ()" using Cons.prems(3) by auto
  from receive_in_target [OF Cons.prems(1) assms(1) Cons.prems(2) this] obtain r1 where r1:
    "receive S r e = (r1, Inr ())" "replica_ok S r1" "rl_user r1 = rl_user r" "rl_scope r1 = rl_scope r"
    "set (rl_events r1) = insert (sev_id e, e) (set (rl_events r))" .
  have "\<exists>r'. receive_all S r1 es = (r', Inr ())"
    by (rule Cons.IH [OF r1(2)]) (use Cons.prems r1 in auto)
  with r1(1) show ?case by simp
qed simp

text \<open>Two replicas of one owner with the same events are the same replica.\<close>

lemma replica_eq:
  assumes "replica_ok S a" and "replica_ok S b" and "rl_user a = rl_user b" and "rl_scope a = rl_scope b"
    and "set (rl_events a) = set (rl_events b)"
  shows "a = b"
proof -
  have "rl_events a = rl_events b"
    using assms by (intro bt_set_eq) (auto simp: replica_ok_def)
  with assms show ?thesis by (cases a; cases b) (simp add: replica_ok_def)
qed

lemma event_set_new [simp]: "event_set (replica_new user scope) = {}"
  by (simp add: replica_new_def)

lemma replica_new_fields [simp]:
  "rl_user (replica_new user scope) = user" "rl_scope (replica_new user scope) = scope"
  "rl_events (replica_new user scope) = []" "rl_bytes (replica_new user scope) = 0"
  by (simp_all add: replica_new_def)

lemma converge:
  assumes "lossless S (set es)" and "receive_all S (replica_new user scope) es = (r, Inr ())" and "set fs = set es"
  shows "receive_all S (replica_new user scope) fs = (r, Inr ())"
proof -
  let ?new = "replica_new user scope"
  note a = receive_all_accepted [OF replica_ok_new, unfolded event_set_new Un_empty_right]
  from a [OF assms(1,2)] have r: "replica_ok S r" "rl_user r = user" "rl_scope r = scope"
    "set (rl_events r) = (\<lambda>e. (sev_id e, e)) ` set es"
    "\<forall>e \<in> set es. event_validate S user scope e = Inr ()" by simp_all
  have "fits S (rl_events r)" using r(1) by (simp add: fits_def replica_ok_def)
  moreover have "\<forall>e \<in> set fs. (sev_id e, e) \<in> set (rl_events r) \<and> event_validate S (rl_user ?new) (rl_scope ?new) e = Inr ()"
    using r assms(3) by simp
  ultimately obtain r' where r': "receive_all S ?new fs = (r', Inr ())"
    using receive_all_in_target [OF _ replica_ok_new] by fastforce
  have "lossless S (set fs)" using assms(1,3) by simp
  from a [OF this r'] have "r' = r" by (intro replica_eq) (use r assms(3) in auto)
  with r' show ?thesis by simp
qed

text \<open>
  C31. Replicas converge. Whatever order and however often events arrive, two replicas of one
  owner that accepted the same set of events are the same replica, so their heads, digest and
  view are the same, and neither refuses what the other accepted.
\<close>

theorem replicas_converge:
  assumes "lossless S (set es)" and "receive_all S (replica_new user scope) es = (r, Inr ())" and "set fs = set es"
  shows "receive_all S (replica_new user scope) fs = (r, Inr ()) \<and> replica_ok S r
    \<and> set (rl_events r) = (\<lambda>e. (sev_id e, e)) ` set es"
  using converge [OF assms] receive_all_accepted [OF replica_ok_new, of S es user scope r] assms by simp

end
