(* ===== verification/Sync_Order.thy ===== *)
theory Sync_Order
  imports Results
begin

text \<open>
  Ordering a causal history: \<^verbatim>\<open>ordered\<close> of \<^verbatim>\<open>crates/chaosbox/src/sync/projection.rs\<close>, Kahn's
  algorithm with a ready queue that puts the ids marked negative last. It serves both the
  event history and the chain of receipts of one record.
\<close>

type_synonym dag = "(string, string btset) btree"

definition parents_of :: "dag \<Rightarrow> string \<Rightarrow> string btset" where
  "parents_of g i = (case bt_get g i of None \<Rightarrow> [] | Some ps \<Rightarrow> ps)"

text \<open>The children of an id, in key order: each lists its parents in a set.\<close>

definition children_of :: "dag \<Rightarrow> string \<Rightarrow> string list" where
  "children_of g p = map fst (filter (\<lambda>(i, ps). p \<in> set ps) g)"

text \<open>\<open>*counts.get_mut(child)? -= 1\<close>, with the new value; 0 has no predecessor.\<close>

fun count_down :: "string \<Rightarrow> (string, nat) btree \<Rightarrow> ((string, nat) btree \<times> nat) option" where
  "count_down x [] = None"
| "count_down x ((k, n) # m) =
     (if k = x then (case n of 0 \<Rightarrow> None | Suc n' \<Rightarrow> Some ((k, n') # m, n'))
      else map_option (\<lambda>(m', n'). ((k, n) # m', n')) (count_down x m))"

fun release ::
  "(string \<Rightarrow> bool) \<Rightarrow> string list \<Rightarrow> (string, nat) btree \<Rightarrow> (bool \<times> string) btset
   \<Rightarrow> ((string, nat) btree \<times> (bool \<times> string) btset) option" where
  "release negative [] counts ready = Some (counts, ready)"
| "release negative (x # xs) counts ready =
     (case count_down x counts of
        None \<Rightarrow> None
      | Some (counts', n) \<Rightarrow>
          release negative xs counts' (if n = 0 then bs_insert (negative x, x) ready else ready))"

lemma count_down_sum: "count_down x m = Some (m', n) \<Longrightarrow> sum_list (map snd m) = Suc (sum_list (map snd m'))"
  by (induction m arbitrary: m') (auto split: if_splits nat.splits)

lemma length_bs_insert: "length (bs_insert x s) \<le> Suc (length s)"
  by (induction s) auto

lemma release_measure:
  "release negative xs counts ready = Some (counts', ready') \<Longrightarrow>
     sum_list (map snd counts') + length ready' \<le> sum_list (map snd counts) + length ready"
proof (induction xs arbitrary: counts ready)
  case (Cons x xs)
  then obtain c1 n where c1: "count_down x counts = Some (c1, n)"
    and r: "release negative xs c1 (if n = 0 then bs_insert (negative x, x) ready else ready) = Some (counts', ready')"
    by (auto split: option.splits)
  from Cons.IH [OF r] count_down_sum [OF c1] length_bs_insert [of "(negative x, x)" ready]
  show ?case by (simp split: if_splits)
qed simp

function drain ::
  "dag \<Rightarrow> (string \<Rightarrow> bool) \<Rightarrow> (string, nat) btree \<Rightarrow> (bool \<times> string) btset \<Rightarrow> string list
   \<Rightarrow> string + string list" where
  "drain g negative counts [] result = Inr result"
| "drain g negative counts ((b, x) # ready) result =
     (case release negative (children_of g x) counts ready of
        None \<Rightarrow> Inl ''missing causal child''
      | Some (counts', ready') \<Rightarrow> drain g negative counts' ready' (result @ [x]))"
  by pat_completeness auto
termination
  by (relation "measure (\<lambda>(g, negative, counts, ready, result). sum_list (map snd counts) + length ready)")
    (auto dest: release_measure)

definition ordered :: "dag \<Rightarrow> (string \<Rightarrow> bool) \<Rightarrow> string + string list" where
  "ordered g negative =
     (if \<exists>(i, ps) \<in> set g. \<exists>p \<in> set ps. \<not> bt_contains g p
      then Inl ''incomplete causal history; last good snapshot retained''
      else
        (let counts = map (\<lambda>(i, ps). (i, length ps)) g;
             ready = bs_of (map (\<lambda>(i, ps). (negative i, i)) (filter (\<lambda>(i, ps). ps = []) g))
         in case drain g negative counts ready [] of
           Inl e \<Rightarrow> Inl e
         | Inr result \<Rightarrow>
             if length result \<noteq> length g
             then Inl ''cyclic causal history; last good snapshot retained''
             else Inr result))"

section \<open>The invariant of the queue\<close>

definition wf_dag :: "dag \<Rightarrow> bool" where
  "wf_dag g \<longleftrightarrow> bt_ok g \<and> (\<forall>(i, ps) \<in> set g. distinct ps \<and> (\<forall>p \<in> set ps. bt_contains g p))"

text \<open>In \<open>xs\<close> no id comes before one of its parents.\<close>

definition parents_first :: "dag \<Rightarrow> string list \<Rightarrow> bool" where
  "parents_first g xs \<longleftrightarrow> (\<forall>us x vs. xs = us @ x # vs \<longrightarrow> set (parents_of g x) \<subseteq> set us)"

lemma parents_first_Nil [simp]: "parents_first g []"
  by (simp add: parents_first_def)

lemma parents_first_snoc:
  "parents_first g (xs @ [x]) \<longleftrightarrow> parents_first g xs \<and> set (parents_of g x) \<subseteq> set xs"
  unfolding parents_first_def
proof (intro iffI conjI allI impI)
  fix us y vs
  assume *: "\<forall>us y vs. xs @ [x] = us @ y # vs \<longrightarrow> set (parents_of g y) \<subseteq> set us" and "xs = us @ y # vs"
  then have "xs @ [x] = us @ y # (vs @ [x])" by simp
  with * show "set (parents_of g y) \<subseteq> set us" by blast
next
  assume "\<forall>us y vs. xs @ [x] = us @ y # vs \<longrightarrow> set (parents_of g y) \<subseteq> set us"
  then show "set (parents_of g x) \<subseteq> set xs" by blast
next
  fix us y vs
  assume *: "(\<forall>us y vs. xs = us @ y # vs \<longrightarrow> set (parents_of g y) \<subseteq> set us) \<and> set (parents_of g x) \<subseteq> set xs"
    and split: "xs @ [x] = us @ y # vs"
  show "set (parents_of g y) \<subseteq> set us"
  proof (cases vs rule: rev_cases)
    case Nil
    with split * show ?thesis by simp
  next
    case (snoc ws z)
    with split have "xs = us @ y # ws" by simp
    with * show ?thesis by blast
  qed
qed

lemma count_down_get:
  "count_down x m = Some (m', n) \<Longrightarrow>
     bt_get m x = Some (Suc n) \<and> (\<forall>y. bt_get m' y = (if y = x then Some n else bt_get m y))"
  by (induction m arbitrary: m') (auto split: if_splits nat.splits)

lemma count_down_defined: "bt_get m x = Some (Suc n) \<Longrightarrow> \<exists>m'. count_down x m = Some (m', n)"
  by (induction m) (auto split: if_splits)

text \<open>Releasing distinct children lowers each count by one and queues those that reach 0.\<close>

lemma release_effect:
  assumes "distinct xs" and "\<forall>x \<in> set xs. \<exists>n. bt_get counts x = Some (Suc n)" and "bs_ok ready"
  shows "\<exists>counts' ready'. release negative xs counts ready = Some (counts', ready') \<and> bs_ok ready'
    \<and> (\<forall>y. bt_get counts' y = (if y \<in> set xs then map_option (\<lambda>n. n - 1) (bt_get counts y) else bt_get counts y))
    \<and> set ready' = set ready \<union> {(negative x, x) | x. x \<in> set xs \<and> bt_get counts x = Some 1}"
  using assms
proof (induction xs arbitrary: counts ready)
  case (Cons x xs)
  then obtain n where n: "bt_get counts x = Some (Suc n)" by auto
  from count_down_defined [OF n] obtain c1 where c1: "count_down x counts = Some (c1, n)" by blast
  note g = count_down_get [OF c1, THEN conjunct2, rule_format]
  let ?ready = "if n = 0 then bs_insert (negative x, x) ready else ready"
  have "distinct xs" "\<forall>y \<in> set xs. \<exists>k. bt_get c1 y = Some (Suc k)" "bs_ok ?ready"
    using Cons.prems g by (auto simp: bs_ok_insert)
  from Cons.IH [OF this] obtain counts' ready' where ih:
    "release negative xs c1 ?ready = Some (counts', ready')" "bs_ok ready'"
    "\<And>y. bt_get counts' y = (if y \<in> set xs then map_option (\<lambda>n. n - 1) (bt_get c1 y) else bt_get c1 y)"
    "set ready' = set ?ready \<union> {(negative y, y) | y. y \<in> set xs \<and> bt_get c1 y = Some 1}" by blast
  have "bt_get counts' y = (if y \<in> set (x # xs) then map_option (\<lambda>n. n - 1) (bt_get counts y) else bt_get counts y)" for y
    using ih(3) [of y] g [of y] n Cons.prems(1) by auto
  moreover have "set ready' = set ready \<union> {(negative y, y) | y. y \<in> set (x # xs) \<and> bt_get counts y = Some 1}"
  proof -
    have "bt_get c1 y = bt_get counts y" if "y \<in> set xs" for y
      using g [of y] that Cons.prems(1) by auto
    then have "{(negative y, y) | y. y \<in> set xs \<and> bt_get c1 y = Some 1}
        = {(negative y, y) | y. y \<in> set xs \<and> bt_get counts y = Some 1}" by auto
    moreover have "set ?ready = set ready \<union> (if bt_get counts x = Some 1 then {(negative x, x)} else {})"
      using n by simp
    ultimately show ?thesis unfolding ih(4) by auto
  qed
  ultimately show ?case using c1 ih(1,2) by (intro exI [of _ counts'] exI [of _ ready']) simp
qed simp

text \<open>
  What holds between two rounds: every count is the number of parents not yet taken, the
  queue holds exactly the ids whose parents are all taken, and the taken ids are in order.
\<close>

definition queue_inv ::
  "dag \<Rightarrow> (string \<Rightarrow> bool) \<Rightarrow> (string, nat) btree \<Rightarrow> (bool \<times> string) btset \<Rightarrow> string list \<Rightarrow> bool" where
  "queue_inv g negative counts ready result \<longleftrightarrow>
     (\<forall>i. bt_get counts i = map_option (\<lambda>ps. card (set ps - set result)) (bt_get g i))
     \<and> set ready = {(negative i, i) | i. bt_contains g i \<and> i \<notin> set result \<and> set (parents_of g i) \<subseteq> set result}
     \<and> bs_ok ready \<and> distinct result \<and> set result \<subseteq> fst ` set g \<and> parents_first g result"

lemma wf_dag_get: "wf_dag g \<Longrightarrow> bt_get g i = Some ps \<longleftrightarrow> (i, ps) \<in> set g"
  by (simp add: wf_dag_def bt_get_iff_in_set)

lemma children_iff: "wf_dag g \<Longrightarrow> x \<in> set (children_of g p) \<longleftrightarrow> (\<exists>ps. bt_get g x = Some ps \<and> p \<in> set ps)"
  by (auto simp: children_of_def wf_dag_get image_iff)

lemma children_distinct: "wf_dag g \<Longrightarrow> distinct (children_of g p)"
  unfolding children_of_def wf_dag_def by (auto dest!: bt_ok_distinct intro: distinct_map_filter)

lemma queue_step:
  assumes wf: "wf_dag g" and inv: "queue_inv g negative counts ((b, x) # ready) result"
  obtains counts' ready' where "release negative (children_of g x) counts ready = Some (counts', ready')"
    and "queue_inv g negative counts' ready' (result @ [x])"
proof -
  have x: "bt_contains g x" "x \<notin> set result" "set (parents_of g x) \<subseteq> set result" "b = negative x"
  proof -
    have "(b, x) \<in> {(negative i, i) | i. bt_contains g i \<and> i \<notin> set result \<and> set (parents_of g i) \<subseteq> set result}"
      using inv by (metis (no_types, lifting) list.set_intros(1) queue_inv_def)
    then show "bt_contains g x" "x \<notin> set result" "set (parents_of g x) \<subseteq> set result" "b = negative x" by auto
  qed
  have counts: "bt_get counts i = map_option (\<lambda>ps. card (set ps - set result)) (bt_get g i)" for i
    using inv by (simp add: queue_inv_def)
  have "\<exists>n. bt_get counts c = Some (Suc n)" if c: "c \<in> set (children_of g x)" for c
  proof -
    from c obtain ps where ps: "bt_get g c = Some ps" "x \<in> set ps" by (auto simp: children_iff [OF wf])
    then have "card (set ps - set result) \<noteq> 0" using x(2) by auto
    with ps counts [of c] show ?thesis by (cases "card (set ps - set result)") auto
  qed
  moreover have ok: "bs_ok ready" using inv by (simp add: queue_inv_def)
  ultimately obtain counts' ready' where r:
    "release negative (children_of g x) counts ready = Some (counts', ready')" "bs_ok ready'"
    and c': "\<And>y. bt_get counts' y = (if y \<in> set (children_of g x) then map_option (\<lambda>n. n - 1) (bt_get counts y) else bt_get counts y)"
    and q': "set ready' = set ready \<union> {(negative y, y) | y. y \<in> set (children_of g x) \<and> bt_get counts y = Some 1}"
    using release_effect [where xs = "children_of g x" and counts = counts and ready = ready and negative = negative,
      OF children_distinct [OF wf]] by blast
  have new_count: "bt_get counts' i = map_option (\<lambda>ps. card (set ps - set (result @ [x]))) (bt_get g i)" for i
  proof (cases "bt_get g i")
    case None
    then show ?thesis using c' [of i] counts [of i] by simp
  next
    case (Some ps)
    have eq: "set ps - set (result @ [x]) = (set ps - set result) - {x}" by auto
    have "i \<in> set (children_of g x) \<longleftrightarrow> x \<in> set ps" using Some by (auto simp: children_iff [OF wf])
    with Some c' [of i] counts [of i] x(2) show ?thesis unfolding eq by (simp add: card_Diff_singleton)
  qed
  have new_ready: "set ready' = {(negative i, i) | i. bt_contains g i \<and> i \<notin> set (result @ [x])
      \<and> set (parents_of g i) \<subseteq> set (result @ [x])}"
  proof -
    let ?old = "{(negative i, i) | i. bt_contains g i \<and> i \<notin> set result \<and> set (parents_of g i) \<subseteq> set result}"
    have "insert (b, x) (set ready) = ?old" using inv by (simp add: queue_inv_def)
    moreover have "(b, x) \<notin> set ready" using inv by (auto simp: queue_inv_def)
    ultimately have rest: "set ready = ?old - {(negative x, x)}" unfolding x(4) by blast
    have fresh: "y \<in> set (children_of g x) \<and> bt_get counts y = Some 1 \<longleftrightarrow>
        bt_contains g y \<and> x \<in> set (parents_of g y) \<and> set (parents_of g y) \<subseteq> insert x (set result)" for y
    proof (cases "bt_get g y")
      case (Some ps)
      have "card (set ps - set result) = 1 \<longleftrightarrow> set ps \<subseteq> insert x (set result)" if "x \<in> set ps"
      proof -
        have mem: "x \<in> set ps - set result" using that x(2) by simp
        have "card (set ps - set result) = 1 \<longleftrightarrow> set ps - set result = {x}"
        proof
          assume "card (set ps - set result) = 1"
          then obtain z where "set ps - set result = {z}" by (rule card_1_singletonE)
          with mem show "set ps - set result = {x}" by simp
        qed simp
        also have "\<dots> \<longleftrightarrow> set ps \<subseteq> insert x (set result)" using mem by blast
        finally show ?thesis .
      qed
      moreover have "bt_get counts y = Some 1 \<longleftrightarrow> card (set ps - set result) = 1"
        unfolding counts [of y] Some by simp
      moreover have "y \<in> set (children_of g x) \<longleftrightarrow> x \<in> set ps" by (simp add: children_iff [OF wf] Some)
      moreover have "bt_contains g y" "parents_of g y = ps" by (simp_all add: bt_contains_def parents_of_def Some)
      ultimately show ?thesis by blast
    qed (simp add: children_iff [OF wf] bt_contains_def)
    have not_taken: "y \<notin> set result" if "x \<in> set (parents_of g y)" for y
    proof
      assume "y \<in> set result"
      then obtain us vs where "result = us @ y # vs" by (meson split_list)
      moreover have "parents_first g result" using inv by (simp add: queue_inv_def)
      ultimately have "x \<in> set us" using that by (auto simp: parents_first_def)
      with \<open>result = us @ y # vs\<close> x(2) show False by simp
    qed
    show ?thesis unfolding q' rest fresh
      using x(1,2,3) not_taken by auto
  qed
  have "queue_inv g negative counts' ready' (result @ [x])"
    using inv x new_count new_ready r(2)
    by (auto simp: queue_inv_def parents_first_snoc bt_contains_keys)
  with r(1) show thesis by (rule that)
qed

section \<open>What the order guarantees\<close>

lemma drain_inv:
  assumes wf: "wf_dag g" and "queue_inv g negative counts ready result"
  obtains xs counts' where "drain g negative counts ready result = Inr xs" and "queue_inv g negative counts' [] xs"
  using assms(2)
proof (induction "sum_list (map snd counts) + length ready" arbitrary: counts ready result thesis rule: less_induct)
  case less
  show ?case
  proof (cases ready)
    case Nil
    with less.prems show ?thesis by simp
  next
    case (Cons e ready1)
    obtain b x where e: "e = (b, x)" by (cases e)
    from less.prems(2) obtain counts' ready' where
      r: "release negative (children_of g x) counts ready1 = Some (counts', ready')"
      and inv: "queue_inv g negative counts' ready' (result @ [x])"
      unfolding Cons e by (rule queue_step [OF wf])
    have "sum_list (map snd counts') + length ready' < sum_list (map snd counts) + length ready"
      using release_measure [OF r] by (simp add: Cons)
    from less.hyps [OF this _ inv] obtain xs counts2 where
      "drain g negative counts' ready' (result @ [x]) = Inr xs" "queue_inv g negative counts2 [] xs" by blast
    with r less.prems(1) show ?thesis by (simp add: Cons e)
  qed
qed

lemma queue_inv_start:
  assumes "wf_dag g"
  shows "queue_inv g negative (map (\<lambda>(i, ps). (i, length ps)) g)
    (bs_of (map (\<lambda>(i, ps). (negative i, i)) (filter (\<lambda>(i, ps). ps = []) g))) []"
proof -
  have "\<forall>(i, ps) \<in> set h. distinct ps \<Longrightarrow>
      bt_get (map (\<lambda>(i, ps). (i, length ps)) h) i = map_option (\<lambda>ps. card (set ps)) (bt_get h i)" for h :: dag and i
    by (induction h) (auto simp: distinct_card)
  moreover have "\<forall>(i, ps) \<in> set g. distinct ps" using assms by (auto simp: wf_dag_def)
  ultimately have "bt_get (map (\<lambda>(i, ps). (i, length ps)) g) i = map_option (\<lambda>ps. card (set ps)) (bt_get g i)" for i
    by blast
  moreover have "(\<exists>ps. (i, ps) \<in> set g \<and> ps = []) \<longleftrightarrow> bt_contains g i \<and> set (parents_of g i) \<subseteq> {}" for i
    by (auto simp: wf_dag_get [OF assms, symmetric] bt_contains_def parents_of_def)
  then have "set (bs_of (map (\<lambda>(i, ps). (negative i, i)) (filter (\<lambda>(i, ps). ps = []) g)))
      = {(negative i, i) | i. bt_contains g i \<and> set (parents_of g i) \<subseteq> {}}" by fastforce
  ultimately show ?thesis by (simp add: queue_inv_def bs_ok_extend)
qed

text \<open>The edges from each id to its parents.\<close>

definition causes :: "dag \<Rightarrow> (string \<times> string) set" where
  "causes g = {(p, i). bt_contains g i \<and> p \<in> set (parents_of g i)}"

definition closed_dag :: "dag \<Rightarrow> bool" where
  "closed_dag g \<longleftrightarrow> (\<forall>(i, ps) \<in> set g. \<forall>p \<in> set ps. bt_contains g p)"

lemma wf_dag_iff: "wf_dag g \<longleftrightarrow> bt_ok g \<and> (\<forall>(i, ps) \<in> set g. distinct ps) \<and> closed_dag g"
  by (auto simp: wf_dag_def closed_dag_def)

lemma parents_in:
  assumes "wf_dag g" and "p \<in> set (parents_of g i)"
  shows "bt_contains g p"
proof -
  from assms(2) obtain ps where "bt_get g i = Some ps" "p \<in> set ps"
    by (cases "bt_get g i") (auto simp: parents_of_def)
  with assms(1) show ?thesis by (auto simp: wf_dag_def dest!: bt_get_in_set)
qed

lemma finite_causes: "wf_dag g \<Longrightarrow> finite (causes g)"
proof -
  assume wf: "wf_dag g"
  have "causes g \<subseteq> (fst ` set g) \<times> (fst ` set g)"
    by (auto simp: causes_def bt_contains_keys [symmetric] parents_in [OF wf])
  then show ?thesis by (rule finite_subset) simp
qed

text \<open>An empty queue with ids left over means a cycle among them.\<close>

lemma exhausted_queue:
  assumes wf: "wf_dag g" and inv: "queue_inv g negative counts [] xs"
  shows "length xs = length g \<longleftrightarrow> acyclic (causes g)"
proof
  have keys: "distinct (map fst g)" using wf by (simp add: wf_dag_def bt_ok_distinct)
  have sub: "set xs \<subseteq> fst ` set g" and dist: "distinct xs" and order: "parents_first g xs"
    using inv by (simp_all add: queue_inv_def)
  {
    assume "length xs = length g"
    then have "card (set xs) = card (fst ` set g)"
      using dist keys distinct_card [of "map fst g"] by (simp add: distinct_card)
    then have all: "set xs = fst ` set g" using sub by (simp add: card_subset_eq)
    have "length (takeWhile (\<lambda>y. y \<noteq> p) xs) < length (takeWhile (\<lambda>y. y \<noteq> i) xs)" if "(p, i) \<in> causes g" for p i
    proof -
      from that have "i \<in> set xs" by (simp add: causes_def all bt_contains_keys)
      then obtain us vs where us: "xs = us @ i # vs" "i \<notin> set us" by (meson split_list_first)
      with order that have "p \<in> set us" by (auto simp: causes_def parents_first_def)
      then obtain ws ws' where ws: "us = ws @ p # ws'" "p \<notin> set ws" by (meson split_list_first)
      have "takeWhile (\<lambda>y. y \<noteq> p) xs = ws" using us ws by (simp add: takeWhile_append takeWhile_tail)
      moreover have "takeWhile (\<lambda>y. y \<noteq> i) xs = us" using us by (simp add: takeWhile_append)
      ultimately show ?thesis by (simp add: ws)
    qed
    then have "acyclic ((causes g)\<inverse>)" by (intro acyclicI_order [where f = "\<lambda>i. length (takeWhile (\<lambda>y. y \<noteq> i) xs)"]) auto
    then show "acyclic (causes g)" by (simp add: acyclic_converse)
  }
  {
    assume "acyclic (causes g)"
    then have wfp: "wf (causes g)" using finite_causes [OF wf] by (rule finite_acyclic_wf [rotated])
    have "fst ` set g \<subseteq> set xs"
    proof (rule ccontr)
      assume "\<not> fst ` set g \<subseteq> set xs"
      then obtain y where "y \<in> fst ` set g - set xs" by blast
      with wfp obtain z where z: "z \<in> fst ` set g - set xs"
        and least: "\<And>p. (p, z) \<in> causes g \<Longrightarrow> p \<notin> fst ` set g - set xs"
        using wfE_min [of "causes g" y "fst ` set g - set xs"] by blast
      have "set (parents_of g z) \<subseteq> set xs"
      proof
        fix p assume p: "p \<in> set (parents_of g z)"
        with z have "(p, z) \<in> causes g" by (simp add: causes_def bt_contains_keys)
        with least parents_in [OF wf p] show "p \<in> set xs" by (auto simp: bt_contains_keys)
      qed
      with z have "(negative z, z) \<in> {(negative i, i) | i. bt_contains g i \<and> i \<notin> set xs \<and> set (parents_of g i) \<subseteq> set xs}"
        by (auto simp: bt_contains_keys)
      then show False using inv unfolding queue_inv_def by auto
    qed
    with sub have "card (set xs) = card (fst ` set g)" by simp
    then show "length xs = length g" using dist keys distinct_card [of "map fst g"] by (simp add: distinct_card)
  }
qed

text \<open>Ids that are marked negative and cause nothing come last.\<close>

definition negatives_last :: "(string \<Rightarrow> bool) \<Rightarrow> string list \<Rightarrow> bool" where
  "negatives_last negative xs \<longleftrightarrow>
     (\<exists>us vs. xs = us @ vs \<and> list_all (\<lambda>x. \<not> negative x) us \<and> list_all negative vs)"

definition split_inv :: "(string \<Rightarrow> bool) \<Rightarrow> (bool \<times> string) btset \<Rightarrow> string list \<Rightarrow> bool" where
  "split_inv negative ready result \<longleftrightarrow>
     (\<exists>us vs. result = us @ vs \<and> list_all (\<lambda>x. \<not> negative x) us \<and> list_all negative vs
        \<and> (vs = [] \<or> (\<forall>e \<in> set ready. fst e)))"

lemma split_step:
  assumes wf: "wf_dag g" and last: "\<forall>i. negative i \<longrightarrow> children_of g i = []"
    and inv: "queue_inv g negative counts ((b, x) # ready) result"
    and split: "split_inv negative ((b, x) # ready) result"
    and r: "release negative (children_of g x) counts ready = Some (counts', ready')"
  shows "split_inv negative ready' (result @ [x])"
proof -
  obtain us vs where uv: "result = us @ vs" "list_all (\<lambda>x. \<not> negative x) us" "list_all negative vs"
    "vs = [] \<or> (\<forall>e \<in> set ((b, x) # ready). fst e)" using split by (auto simp: split_inv_def)
  have b: "b = negative x" using inv by (auto simp: queue_inv_def)
  have after: "\<forall>e \<in> set ready. (b, x) < e" using inv by (simp add: queue_inv_def)
  show ?thesis
  proof (cases "negative x")
    case True
    then have "ready' = ready" using last r by simp
    moreover have "\<forall>e \<in> set ready. fst e" using after True b by (auto simp: less_prod_def)
    ultimately show ?thesis using uv True by (intro split_inv_def [THEN iffD2] exI [of _ us] exI [of _ "vs @ [x]"]) auto
  next
    case False
    then have "vs = []" using uv(4) b by auto
    with uv False show ?thesis by (intro split_inv_def [THEN iffD2] exI [of _ "us @ [x]"] exI [of _ "[]"]) auto
  qed
qed

lemma drain_split:
  assumes wf: "wf_dag g" and last: "\<forall>i. negative i \<longrightarrow> children_of g i = []"
    and "queue_inv g negative counts ready result" and "split_inv negative ready result"
    and "drain g negative counts ready result = Inr xs"
  shows "negatives_last negative xs"
  using assms(3-5)
proof (induction "sum_list (map snd counts) + length ready" arbitrary: counts ready result rule: less_induct)
  case less
  show ?case
  proof (cases ready)
    case Nil
    with less.prems show ?thesis by (auto simp: split_inv_def negatives_last_def)
  next
    case (Cons e ready1)
    obtain b x where e: "e = (b, x)" by (cases e)
    from less.prems(1) obtain counts' ready' where
      r: "release negative (children_of g x) counts ready1 = Some (counts', ready')"
      and inv: "queue_inv g negative counts' ready' (result @ [x])"
      unfolding Cons e by (rule queue_step [OF wf])
    have "sum_list (map snd counts') + length ready' < sum_list (map snd counts) + length ready"
      using release_measure [OF r] by (simp add: Cons)
    moreover have "split_inv negative ready' (result @ [x])"
      using split_step [OF wf last less.prems(1,2) [unfolded Cons e] r] .
    ultimately show ?thesis using less.hyps [OF _ inv] less.prems(3) r by (simp add: Cons e)
  qed
qed

lemma ordered_spec:
  assumes "bt_ok g" and "\<forall>(i, ps) \<in> set g. distinct ps"
  shows "(\<not> closed_dag g \<longrightarrow> ordered g negative = Inl ''incomplete causal history; last good snapshot retained'')
    \<and> (closed_dag g \<and> \<not> acyclic (causes g) \<longrightarrow>
        ordered g negative = Inl ''cyclic causal history; last good snapshot retained'')
    \<and> (closed_dag g \<and> acyclic (causes g) \<longrightarrow>
        (\<exists>xs. ordered g negative = Inr xs \<and> distinct xs \<and> set xs = fst ` set g \<and> parents_first g xs
          \<and> ((\<forall>i. negative i \<longrightarrow> children_of g i = []) \<longrightarrow> negatives_last negative xs)))"
proof (cases "closed_dag g")
  case True
  with assms have wf: "wf_dag g" by (simp add: wf_dag_iff)
  let ?counts = "map (\<lambda>(i, ps). (i, length ps)) g"
  let ?ready = "bs_of (map (\<lambda>(i, ps). (negative i, i)) (filter (\<lambda>(i, ps). ps = []) g))"
  obtain xs counts' where xs: "drain g negative ?counts ?ready [] = Inr xs" and inv: "queue_inv g negative counts' [] xs"
    using drain_inv [OF wf queue_inv_start [OF wf]] by blast
  have closed: "\<not> (\<exists>(i, ps) \<in> set g. \<exists>p \<in> set ps. \<not> bt_contains g p)" using True by (auto simp: closed_dag_def)
  have out: "ordered g negative = (if length xs \<noteq> length g
      then Inl ''cyclic causal history; last good snapshot retained'' else Inr xs)"
    unfolding ordered_def using closed xs by (simp add: Let_def)
  show ?thesis
  proof (cases "acyclic (causes g)")
    case acyc: True
    then have len: "length xs = length g" using exhausted_queue [OF wf inv] by simp
    have props: "distinct xs" "set xs \<subseteq> fst ` set g" "parents_first g xs" using inv by (simp_all add: queue_inv_def)
    have "distinct (map fst g)" using wf by (simp add: wf_dag_def bt_ok_distinct)
    then have "card (set xs) = card (fst ` set g)"
      using len props(1) distinct_card [of "map fst g"] by (simp add: distinct_card)
    then have "set xs = fst ` set g" using props(2) by (simp add: card_subset_eq)
    moreover have "negatives_last negative xs" if "\<forall>i. negative i \<longrightarrow> children_of g i = []"
      using drain_split [OF wf that queue_inv_start [OF wf] _ xs] by (simp add: split_inv_def)
    ultimately show ?thesis using acyc True out len props by simp
  next
    case False
    then have "length xs \<noteq> length g" using exhausted_queue [OF wf inv] by simp
    with out True False show ?thesis by simp
  qed
next
  case False
  then have "\<exists>(i, ps) \<in> set g. \<exists>p \<in> set ps. \<not> bt_contains g p" by (auto simp: closed_dag_def)
  with False show ?thesis by (simp add: ordered_def)
qed

lemma ordered_ok:
  assumes "bt_ok g" and "\<forall>(i, ps) \<in> set g. distinct ps" and "ordered g negative = Inr xs"
  shows "closed_dag g" and "acyclic (causes g)" and "distinct xs" and "set xs = fst ` set g"
    and "parents_first g xs"
    and "(\<forall>i. negative i \<longrightarrow> children_of g i = []) \<Longrightarrow> negatives_last negative xs"
  using ordered_spec [OF assms(1,2), of negative] assms(3)
  by (cases "closed_dag g"; cases "acyclic (causes g)"; force)+

text \<open>
  C32. Ordering a history is total and exact. It is refused as incomplete exactly when a parent
  is missing and as cyclic exactly when the history is complete and has a cycle; otherwise
  every id appears exactly once and after all its parents, and the marked ids that cause
  nothing come after all others.
\<close>

theorem ordered_exact:
  assumes "bt_ok g" and "\<forall>(i, ps) \<in> set g. distinct ps"
  shows "(\<not> closed_dag g \<longrightarrow> ordered g negative = Inl ''incomplete causal history; last good snapshot retained'')
    \<and> (closed_dag g \<and> \<not> acyclic (causes g) \<longrightarrow>
        ordered g negative = Inl ''cyclic causal history; last good snapshot retained'')
    \<and> (closed_dag g \<and> acyclic (causes g) \<longrightarrow>
        (\<exists>xs. ordered g negative = Inr xs \<and> distinct xs \<and> set xs = fst ` set g \<and> parents_first g xs
          \<and> ((\<forall>i. negative i \<longrightarrow> children_of g i = []) \<longrightarrow> negatives_last negative xs)))"
  by (rule ordered_spec [OF assms])

definition example_dag :: dag where
  "example_dag = [(''a'', []), (''b'', [''a'']), (''c'', [''a'']), (''d'', [''b''])]"

theorem ordered_exact_witness:
  "ordered example_dag (\<lambda>i. i = ''c'') = Inr [''a'', ''b'', ''d'', ''c'']
   \<and> acyclic (causes example_dag)"
proof -
  let ?neg = "\<lambda>i. i = ''c''"
  have ok: "bt_ok example_dag" "\<forall>(i, ps) \<in> set example_dag. distinct ps"
    by (simp_all add: example_dag_def bt_ok_def)
  have run: "ordered example_dag ?neg = Inr [''a'', ''b'', ''d'', ''c'']"
    by (simp add: example_dag_def ordered_def children_of_def bt_contains_def)
  then show ?thesis using ordered_exact [OF ok, of ?neg] by (auto simp: closed_dag_def example_dag_def bt_contains_def)
qed

end
