(* ===== verification/Sync_Projection.thy ===== *)
theory Sync_Projection
  imports Sync_Replica Sync_Order
begin

text \<open>
  The view of a complete history: \<^verbatim>\<open>crates/chaosbox/src/sync/projection.rs\<close> and the job
  construction of \<^verbatim>\<open>sync/reconcile.rs\<close>.
\<close>

section \<open>Ancestors\<close>

text \<open>The stack is kept with its top first; the parents are pushed in order.\<close>

lemma taken_shrinks:
  assumes "bt_get events i = Some e" and "\<not> bt_contains taken i"
  shows "card (fst ` set events - insert i (fst ` set taken)) < card (fst ` set events - fst ` set taken)"
proof (rule psubset_card_mono)
  from assms(1) have "i \<in> fst ` set events" by (force dest: bt_get_in_set)
  moreover have "i \<notin> fst ` set taken" using assms(2) by (simp add: bt_contains_keys)
  ultimately show "fst ` set events - insert i (fst ` set taken) \<subset> fst ` set events - fst ` set taken" by blast
qed simp

function collect_ancestors ::
  "(string, signed_event) btree \<Rightarrow> string list \<Rightarrow> (string, signed_event) btree
   \<Rightarrow> sync_error + (string, signed_event) btree" where
  "collect_ancestors events [] taken = Inr taken"
| "collect_ancestors events (i # pending) taken =
     (if bt_contains taken i then collect_ancestors events pending taken
      else case bt_get events i of
        None \<Rightarrow> Inl (Refused ''missing causal source'')
      | Some e \<Rightarrow> collect_ancestors events (rev (sev_parents e) @ pending) (bt_insert i e taken))"
  by pat_completeness auto
termination
  by (relation "measures [\<lambda>(events, pending, taken). card (fst ` set events - fst ` set taken),
      \<lambda>(events, pending, taken). length pending]")
    (auto dest: taken_shrinks)

definition ancestors :: "replica \<Rightarrow> string list \<Rightarrow> sync_error + replica" where
  "ancestors r roots =
     map_sum id (\<lambda>es. (replica_new (rl_user r) (rl_scope r))\<lparr>rl_events := es\<rparr>)
       (collect_ancestors (rl_events r) (rev roots) [])"

section \<open>Baseline\<close>

text \<open>A record's receipts with, for each, the receipts some publication lists right before it.\<close>

definition link_chain :: "dag \<Rightarrow> string list \<Rightarrow> dag" where
  "link_chain chain ids =
     foldl (\<lambda>c (before, after). bt_alter after [] (bs_insert before) c)
       (foldl (\<lambda>c i. bt_or_insert i [] c) chain ids)
       (zip ids (drop 1 ids))"

definition merge_record :: "intelligence \<Rightarrow> intelligence \<Rightarrow> sync_error + intelligence" where
  "merge_record old new =
     (if in_scope old \<noteq> in_scope new \<or> in_statement old \<noteq> in_statement new
        \<or> in_repositories old \<noteq> in_repositories new
        \<or> (case in_evidence old of [] \<Rightarrow> None | e # _ \<Rightarrow> Some e) \<noteq> (case in_evidence new of [] \<Rightarrow> None | e # _ \<Rightarrow> Some e)
      then Inl (Refused ''incompatible intelligence identity'')
      else if in_supersedes old \<noteq> None \<and> in_supersedes new \<noteq> None \<and> in_supersedes old \<noteq> in_supersedes new
      then Inl (Refused ''incompatible supersession identity'')
      else Inr (old\<lparr>in_evidence := in_evidence old @ in_evidence new,
                    in_contradicts := in_contradicts old @ in_contradicts new,
                    in_supersedes := (case in_supersedes old of None \<Rightarrow> in_supersedes new | Some s \<Rightarrow> Some s)\<rparr>))"

record merged =
  mg_records :: "(string, intelligence) btree"
  mg_receipts :: "(string, assessment) btree"
  mg_chains :: "(string, dag) btree"
  mg_coverage :: "(string, window_coverage) btree"

fun merge_receipts ::
  "sync_codec \<Rightarrow> (string, assessment) btree \<Rightarrow> assessment list \<Rightarrow> sync_error + (string, assessment) btree" where
  "merge_receipts S m [] = Inr m"
| "merge_receipts S m (a # rest) =
     (if (case bt_get m (am_id a) of None \<Rightarrow> False | Some old \<Rightarrow> \<not> json_eq (sx_receipt S old) (sx_receipt S a))
      then Inl (Refused ''receipt identity collision'')
      else merge_receipts S (bt_insert (am_id a) a m) rest)"

fun merge_records :: "merged \<Rightarrow> intelligence list \<Rightarrow> sync_error + merged" where
  "merge_records g [] = Inr g"
| "merge_records g (r # rest) =
     (let g1 = g\<lparr>mg_chains := bt_alter (in_id r) [] (\<lambda>c. link_chain c (in_assessments r)) (mg_chains g)\<rparr> in
      case bt_get (mg_records g) (in_id r) of
        None \<Rightarrow> merge_records (g1\<lparr>mg_records := bt_insert (in_id r) r (mg_records g)\<rparr>) rest
      | Some old \<Rightarrow>
          (case merge_record old r of
             Inl e \<Rightarrow> Inl e
           | Inr m \<Rightarrow> merge_records (g1\<lparr>mg_records := bt_insert (in_id r) m (mg_records g)\<rparr>) rest))"

fun merge_events :: "sync_codec \<Rightarrow> merged \<Rightarrow> signed_event list \<Rightarrow> sync_error + merged" where
  "merge_events S g [] = Inr g"
| "merge_events S g (e # rest) =
     (case sev_payload e of
        PL_Publication p \<Rightarrow>
          (case merge_receipts S (mg_receipts g) (bu_assessments (pb_bundle p)) of
             Inl x \<Rightarrow> Inl x
           | Inr rs \<Rightarrow>
               (case merge_records
                   (g\<lparr>mg_receipts := rs,
                      mg_coverage := bt_extend (mg_coverage g) (map (\<lambda>c. (sx_coverage S c, c)) (bu_coverage (pb_bundle p)))\<rparr>)
                   (bu_records (pb_bundle p)) of
                  Inl x \<Rightarrow> Inl x
                | Inr g' \<Rightarrow> merge_events S g' rest))
      | _ \<Rightarrow> merge_events S g rest)"

definition withholds :: "(string, assessment) btree \<Rightarrow> string \<Rightarrow> bool" where
  "withholds receipts i \<longleftrightarrow>
     (case bt_get receipts i of None \<Rightarrow> False | Some a \<Rightarrow> am_outcome a \<in> {O_Rejected, O_Abstained})"

text \<open>Only a receipt that none follows is deferred.\<close>

definition deferred :: "dag \<Rightarrow> (string, assessment) btree \<Rightarrow> string \<Rightarrow> bool" where
  "deferred chain receipts i \<longleftrightarrow> i \<notin> set (concat (bt_values chain)) \<and> withholds receipts i"

definition admits :: "codec \<Rightarrow> (string, assessment) btree \<Rightarrow> intelligence \<Rightarrow> session_evidence \<Rightarrow> string \<Rightarrow> bool" where
  "admits E receipts r first i \<longleftrightarrow>
     (case bt_get receipts i of
        None \<Rightarrow> False
      | Some a \<Rightarrow> in_id r = ''intel:'' @ sha256_hex (cx_hash E) [am_candidate_id a]
          \<and> am_evidence_digest a = evidence_digest E first
          \<and> (case am_outcome a of O_Admitted \<Rightarrow> True | O_Contradiction _ \<Rightarrow> True | O_Supersession _ \<Rightarrow> True | _ \<Rightarrow> False))"

text \<open>The first receipt that admits the record moves to the front.\<close>

fun position :: "('a \<Rightarrow> bool) \<Rightarrow> 'a list \<Rightarrow> nat option" where
  "position P [] = None"
| "position P (x # xs) = (if P x then Some 0 else map_option Suc (position P xs))"

definition status_of ::
  "codec \<Rightarrow> (string, assessment) btree \<Rightarrow> intelligence \<Rightarrow> intelligence_status" where
  "status_of E receipts r =
     (if \<exists>a \<in> set (bt_values receipts). am_outcome a = O_Supersession (in_id r) then IS_Superseded
      else
        (let latest = find (\<lambda>a. \<exists>e \<in> set (in_evidence r). evidence_digest E e = am_evidence_digest a)
               (List.map_filter (bt_get receipts) (rev (in_assessments r)))
         in if (case latest of None \<Rightarrow> False | Some a \<Rightarrow> am_outcome a \<in> {O_Rejected, O_Abstained}) then IS_Withheld
            else if in_contradicts r = [] then IS_Admitted
            else IS_Disputed))"

definition finalize_record ::
  "codec \<Rightarrow> intelligence \<Rightarrow> dag \<Rightarrow> (string, assessment) btree \<Rightarrow> sync_error + intelligence" where
  "finalize_record E r chain receipts =
     (case refused (ordered chain (deferred chain receipts)) of
        Inl e \<Rightarrow> Inl e
      | Inr ids \<Rightarrow>
          (case in_evidence r of
             [] \<Rightarrow> Inl (Refused ''missing original evidence'')
           | first # _ \<Rightarrow>
               (case position (admits E receipts r first) ids of
                  None \<Rightarrow> Inl (Refused ''missing original admission'')
                | Some n \<Rightarrow>
                    (let ids' = (if n = 0 then ids else ids ! n # take n ids @ drop (Suc n) ids) in
                     case bt_get receipts (hd ids') of
                       None \<Rightarrow> Inl (Refused ''missing original classification'')
                     | Some a \<Rightarrow>
                         (case replication_kind a of
                            Inl e \<Rightarrow> Inl e
                          | Inr kind \<Rightarrow>
                              (let unique = bt_extend [] (map (\<lambda>e. (cx_evidence E e, e)) (in_evidence r));
                                   r' = r\<lparr>in_assessments := ids', in_kind := kind,
                                          in_evidence := first # filter (\<lambda>e. e \<noteq> first) (bt_values unique),
                                          in_contradicts := remdups_adj (sort (in_contradicts r))\<rparr>
                               in Inr (r'\<lparr>in_status := status_of E receipts r'\<rparr>)))))))"

fun finalize_all ::
  "codec \<Rightarrow> merged \<Rightarrow> (string \<times> intelligence) list \<Rightarrow> sync_error + intelligence list" where
  "finalize_all E g [] = Inr []"
| "finalize_all E g ((i, r) # rest) =
     (case bt_get (mg_chains g) (in_id r) of
        None \<Rightarrow> Inl Panicked
      | Some chain \<Rightarrow>
          (case finalize_record E r chain (mg_receipts g) of
             Inl e \<Rightarrow> Inl e
           | Inr r' \<Rightarrow> map_sum id (\<lambda>rs. r' # rs) (finalize_all E g rest)))"

definition baseline :: "sync_codec \<Rightarrow> replica \<Rightarrow> sync_error + intel_bundle" where
  "baseline S r =
     (case merge_events S \<lparr>mg_records = [], mg_receipts = [], mg_chains = [], mg_coverage = []\<rparr>
         (bt_values (rl_events r)) of
        Inl e \<Rightarrow> Inl e
      | Inr g \<Rightarrow>
          (case finalize_all (sx_codec S) g (mg_records g) of
             Inl e \<Rightarrow> Inl e
           | Inr rs \<Rightarrow>
               (let b = \<lparr>bu_version = 1, bu_scope = rl_scope r, bu_records = rs,
                      bu_assessments = bt_values (mg_receipts g), bu_coverage = bt_values (mg_coverage g)\<rparr>
                in case bundle_validate (sx_codec S) b of Inl e \<Rightarrow> Inl (Refused e) | Inr _ \<Rightarrow> Inr b)))"

section \<open>Pairs of records\<close>

definition find_record :: "intel_bundle \<Rightarrow> string \<Rightarrow> intelligence option" where
  "find_record b i = find (\<lambda>r. in_id r = i) (bu_records b)"

text \<open>\<open>max_by_key\<close>: the last of the greatest, no time before any time.\<close>

definition time_le :: "int option \<Rightarrow> int option \<Rightarrow> bool" where
  "time_le a b = (case (a, b) of (None, _) \<Rightarrow> True | (Some _, None) \<Rightarrow> False | (Some x, Some y) \<Rightarrow> x \<le> y)"

definition latest_user :: "session_evidence list \<Rightarrow> session_evidence option" where
  "latest_user es =
     foldl (\<lambda>m e. case m of None \<Rightarrow> Some e
         | Some b \<Rightarrow> if time_le (se_observed_at_ms b) (se_observed_at_ms e) then Some e else Some b)
       None (filter (\<lambda>e. se_speaker e = ''user'') es)"

definition publications :: "replica \<Rightarrow> publication list" where
  "publications r = List.map_filter
     (\<lambda>e. case sev_payload e of PL_Publication p \<Rightarrow> Some p | _ \<Rightarrow> None) (bt_values (rl_events r))"

definition resolutions :: "replica \<Rightarrow> (signed_event \<times> resolution) list" where
  "resolutions r = List.map_filter
     (\<lambda>e. case sev_payload e of PL_Resolution x \<Rightarrow> Some (e, x) | _ \<Rightarrow> None) (bt_values (rl_events r))"

definition record_state :: "sync_codec \<Rightarrow> intelligence \<Rightarrow> replica \<Rightarrow> json" where
  "record_state S r rep =
     (let candidate = find (\<lambda>c. in_id r = ''intel:'' @ sha256_hex (cx_hash (sx_codec S)) [ic_id c])
            (concat (map pb_candidates (publications rep)))
      in JObject
       [(''id'', jtext (in_id r)), (''statement'', jtext (in_statement r)),
        (''kind'', jtext (kind_name (in_kind r))), (''status'', jtext (status_name (in_status r))),
        (''repositories'', jtexts (in_repositories r)), (''candidate_context'', jopt (sx_candidate S) candidate),
        (''evidence_count'', jint (int (length (in_evidence r)))),
        (''latest_user'', jopt evidence_json (latest_user (in_evidence r))),
        (''source'', jopt evidence_json (case in_evidence r of [] \<Rightarrow> None | e # _ \<Rightarrow> Some e)),
        (''contradicts'', jtexts (in_contradicts r)), (''supersedes'', jopt jtext (in_supersedes r))])"

fun action_name :: "action \<Rightarrow> string" where
  "action_name AC_Duplicate = ''duplicate''"
| "action_name AC_Distinct = ''distinct''"
| "action_name AC_Contradiction = ''contradiction''"
| "action_name AC_LeftReplacesRight = ''left_replaces_right''"
| "action_name AC_RightReplacesLeft = ''right_replaces_left''"
| "action_name AC_Abstain = ''abstain''"

definition prior_receipts :: "sync_codec \<Rightarrow> replica \<Rightarrow> string list \<Rightarrow> json list" where
  "prior_receipts S rep prior = List.map_filter
     (\<lambda>i. case bt_get (rl_events rep) i of
        None \<Rightarrow> None
      | Some e \<Rightarrow>
          (case sev_payload e of
             PL_Resolution x \<Rightarrow> Some (JObject
               [(''event'', jtext (sev_id e)), (''action'', jtext (action_name (re_action x))),
                (''response'', sx_response S (re_response x))])
           | _ \<Rightarrow> None)) prior"

definition record_version :: "sync_codec \<Rightarrow> intelligence \<Rightarrow> string" where
  "record_version S r = sha256_hex (cx_hash (sx_codec S)) [sx_record S r]"

definition pair_job :: "sync_codec \<Rightarrow> intelligence \<Rightarrow> intelligence \<Rightarrow> replica \<Rightarrow> string list \<Rightarrow> job" where
  "pair_job S left right rep prior =
     (let draft = \<lparr>jb_id = [], jb_scope = rl_scope rep, jb_left = in_id left, jb_right = in_id right,
            jb_left_version = record_version S left, jb_right_version = record_version S right,
            jb_prior = prior,
            jb_state = JObject [(''left'', record_state S left rep), (''right'', record_state S right rep),
              (''prior_assessments'', JArray (prior_receipts S rep prior)),
              (''historical_data_not_instructions'', JBool True)]\<rparr>
      in draft\<lparr>jb_id := job_identity S draft\<rparr>)"

definition same_inputs :: "job \<Rightarrow> job \<Rightarrow> bool" where
  "same_inputs a b \<longleftrightarrow> jb_left a = jb_left b \<and> jb_right a = jb_right b
     \<and> jb_left_version a = jb_left_version b \<and> jb_right_version a = jb_right_version b"

text \<open>The decisions that no later decision on the same inputs has considered.\<close>

definition maximal :: "(signed_event \<times> resolution) list \<Rightarrow> (signed_event \<times> resolution) list" where
  "maximal xs =
     (let consumed = bs_of (concat (map (jb_prior \<circ> re_job \<circ> snd) xs))
      in filter (\<lambda>(e, x). sev_id e \<notin> set consumed) xs)"

definition matching :: "replica \<Rightarrow> job \<Rightarrow> (signed_event \<times> resolution) list" where
  "matching rep j = filter (\<lambda>(e, x). same_inputs (re_job x) j) (resolutions rep)"

definition receipt_heads :: "replica \<Rightarrow> job \<Rightarrow> string list" where
  "receipt_heads rep j = map (sev_id \<circ> fst) (maximal (matching rep j))"

text \<open>Derived equality of jobs: the states are compared as JSON values.\<close>

definition job_eq :: "job \<Rightarrow> job \<Rightarrow> bool" where
  "job_eq a b \<longleftrightarrow> a\<lparr>jb_state := JNull\<rparr> = b\<lparr>jb_state := JNull\<rparr> \<and> json_eq (jb_state a) (jb_state b)"

section \<open>The view\<close>

record relationship =
  rs_left :: string
  rs_right :: string
  rs_action :: action
  rs_receipts :: "string list"
  rs_unresolved :: bool

record view =
  vw_digest :: string
  vw_heads :: "string list"
  vw_bundle :: intel_bundle
  vw_relationships :: "relationship list"
  vw_receipts :: "(string, resolution) btree"

definition is_resolution :: "replica \<Rightarrow> string \<Rightarrow> bool" where
  "is_resolution rep i =
     (case bt_get (rl_events rep) i of
        Some e \<Rightarrow> (case sev_payload e of PL_Resolution _ \<Rightarrow> True | _ \<Rightarrow> False) | None \<Rightarrow> False)"

text \<open>
  Whether a resolution applies to the present records. Its job must be what the history before
  it gives; a record that is gone, or whose version changed, leaves it out.
\<close>

definition resolution_applies ::
  "sync_codec \<Rightarrow> replica \<Rightarrow> intel_bundle \<Rightarrow> signed_event \<Rightarrow> resolution \<Rightarrow> sync_error + bool" where
  "resolution_applies S r bundle e x =
     (case ancestors r (sev_parents e) of
        Inl y \<Rightarrow> Inl y
      | Inr before \<Rightarrow>
          (case baseline S before of
             Inl y \<Rightarrow> Inl y
           | Inr source \<Rightarrow>
               (let j = re_job x in
                case (find_record source (jb_left j), find_record source (jb_right j)) of
                  (None, _) \<Rightarrow> Inl (Refused ''reconciliation left source missing'')
                | (Some _, None) \<Rightarrow> Inl (Refused ''reconciliation right source missing'')
                | (Some left, Some right) \<Rightarrow>
                    (let expected = pair_job S left right before (jb_prior j) in
                     if \<not> job_eq expected j \<or> \<not> list_all (is_resolution before) (jb_prior j)
                     then Inl (Refused ''reconciliation input does not match its causal source frontier'')
                     else if jb_prior j \<noteq> [] \<and> jb_prior j \<noteq> receipt_heads before expected
                     then Inl (Refused ''reconciliation must consider every maximal decision for the same inputs'')
                     else (case (find_record bundle (jb_left j), find_record bundle (jb_right j)) of
                         (Some l, Some q) \<Rightarrow>
                           (let current = pair_job S l q r []
                            in Inr (jb_left_version current = jb_left_version j
                                  \<and> jb_right_version current = jb_right_version j))
                       | _ \<Rightarrow> Inr False)))))"

fun applicable ::
  "sync_codec \<Rightarrow> replica \<Rightarrow> intel_bundle \<Rightarrow> (signed_event \<times> resolution) list
   \<Rightarrow> sync_error + (signed_event \<times> resolution) list" where
  "applicable S r bundle [] = Inr []"
| "applicable S r bundle ((e, x) # rest) =
     (case resolution_applies S r bundle e x of
        Inl y \<Rightarrow> Inl y
      | Inr here \<Rightarrow> map_sum id (\<lambda>xs. if here then (e, x) # xs else xs) (applicable S r bundle rest))"

definition relate :: "(string \<times> string) \<times> (signed_event \<times> resolution) list \<Rightarrow> relationship" where
  "relate g =
     (let hs = maximal (snd g); actions = remdups (map (re_action \<circ> snd) hs)
      in \<lparr>rs_left = fst (fst g), rs_right = snd (fst g),
          rs_action = (case actions of [a] \<Rightarrow> a | _ \<Rightarrow> AC_Abstain),
          rs_receipts = map (sev_id \<circ> fst) hs, rs_unresolved = (1 < length actions)\<rparr>)"

definition pair_of :: "signed_event \<times> resolution \<Rightarrow> string \<times> string" where
  "pair_of g = (jb_left (re_job (snd g)), jb_right (re_job (snd g)))"

definition project :: "sync_codec \<Rightarrow> replica \<Rightarrow> sync_error + view" where
  "project S r =
     (case refused (ordered (map (\<lambda>(i, e). (i, bs_of (sev_parents e))) (rl_events r)) (\<lambda>_. False)) of
        Inl x \<Rightarrow> Inl x
      | Inr _ \<Rightarrow>
          (case baseline S r of
             Inl x \<Rightarrow> Inl x
           | Inr bundle \<Rightarrow>
               (case applicable S r bundle (resolutions r) of
                  Inl x \<Rightarrow> Inl x
                | Inr xs \<Rightarrow>
                    (let groups = foldl (\<lambda>m g. bt_alter (pair_of g) [] (\<lambda>gs. gs @ [g]) m) [] xs
                     in Inr \<lparr>vw_digest = replica_digest S r, vw_heads = heads r, vw_bundle = bundle,
                          vw_relationships = map relate groups,
                          vw_receipts = map (\<lambda>(e, x). (sev_id e, x)) (resolutions r)\<rparr>))))"

text \<open>Reading a stored view back: the checks of \<open>View::validate\<close>.\<close>

fun relationships_valid ::
  "string btset \<Rightarrow> (string, resolution) btree \<Rightarrow> (string \<times> string) btset \<Rightarrow> relationship list \<Rightarrow> bool" where
  "relationships_valid ids receipts pairs [] = True"
| "relationships_valid ids receipts pairs (r # rs) =
     (rs_left r < rs_right r \<and> rs_left r \<in> set ids \<and> rs_right r \<in> set ids
        \<and> (rs_left r, rs_right r) \<notin> set pairs \<and> rs_receipts r \<noteq> [] \<and> ascending (rs_receipts r)
        \<and> list_all is_digest (rs_receipts r)
        \<and> list_all (\<lambda>i. case bt_get receipts i of None \<Rightarrow> False
             | Some x \<Rightarrow> jb_left (re_job x) = rs_left r \<and> jb_right (re_job x) = rs_right r) (rs_receipts r)
        \<and> (rs_unresolved r \<longrightarrow> rs_action r = AC_Abstain)
      \<and> relationships_valid ids receipts (bs_insert (rs_left r, rs_right r) pairs) rs)"

definition view_validate :: "sync_codec \<Rightarrow> view \<Rightarrow> sync_error + unit" where
  "view_validate S v =
     all_ok
      [refused (bundle_validate (sx_codec S) (vw_bundle v)),
       validate_metadata (sx_codec S) (vw_bundle v),
       refuse_unless (is_digest (vw_digest v) \<and> length (vw_heads v) \<le> MAX_EVENTS
         \<and> ascending (vw_heads v) \<and> list_all is_digest (vw_heads v)) ''invalid current view frontier'',
       refuse_unless (relationships_valid (bs_of (map in_id (bu_records (vw_bundle v)))) (vw_receipts v) []
         (vw_relationships v)) ''invalid current view relationship'',
       check_all (\<lambda>(i, x). all_ok
         [refuse_unless (is_digest i \<and> jb_scope (re_job x) = bu_scope (vw_bundle v))
            ''invalid semantic receipt scope/identity'',
          resolution_validate S x]) (vw_receipts v)]"

end
