(* ===== verification/Sync_Persist.thy ===== *)
theory Sync_Persist
  imports Sync_Projection Replica_Store
begin

text \<open>
  Durable replicas: \<^verbatim>\<open>crates/chaosbox/src/sync/persistence.rs\<close> over the replication store of
  \<^verbatim>\<open>crates/chaosbox-store/src/replica.rs\<close>. The serializer of views is a parameter.
\<close>

section \<open>Loading\<close>

text \<open>What one row of a page does: the cursor, the bytes read, the replica so far.\<close>

type_synonym load_state = "string \<times> nat \<times> replica"

definition load_row ::
  "sync_codec \<Rightarrow> string \<Rightarrow> string \<Rightarrow> load_state \<Rightarrow> replica_row \<Rightarrow> sync_error + load_state" where
  "load_row S user scope s row =
     (case s of (after, bytes, r) \<Rightarrow>
        let bytes' = bytes + length (rp_body row) in
        if 2 ^ 64 \<le> bytes' then Inl (Refused ''replica byte overflow'')
        else if MAX_REPLICA_BYTES < bytes' \<or> MAX_EVENTS \<le> length (rl_events r)
        then Inl (Refused ''replica exceeds bounded scope capacity'')
        else if rp_user row \<noteq> user \<or> rp_scope row \<noteq> scope \<or> rp_id row \<le> after
        then Inl (Refused ''backend returned an unscoped or unordered replica page'')
        else (case sx_parse S (rp_body row) of
            None \<Rightarrow> Inl (Refused ''invalid stored replication envelope'')
          | Some e \<Rightarrow>
              if sev_id e \<noteq> rp_id row then Inl (Refused ''stored replication identity mismatch'')
              else (case receive S r e of
                  (_, Inl x) \<Rightarrow> Inl x
                | (r', Inr _) \<Rightarrow> Inr (rp_id row, bytes', r'))))"

fun load_rows ::
  "sync_codec \<Rightarrow> string \<Rightarrow> string \<Rightarrow> load_state \<Rightarrow> replica_row list \<Rightarrow> sync_error + load_state" where
  "load_rows S user scope s [] = Inr s"
| "load_rows S user scope s (row # rows) =
     (case load_row S user scope s row of
        Inl x \<Rightarrow> Inl x
      | Inr s' \<Rightarrow> load_rows S user scope s' rows)"

lemma load_row_after: "load_row S u sc s row = Inr s' \<Longrightarrow> fst s < fst s' \<and> fst s' = rp_id row"
  by (auto simp: load_row_def Let_def split: prod.splits if_splits option.splits sum.splits)

lemma load_rows_after: "load_rows S u sc s rows = Inr s' \<Longrightarrow> fst s \<le> fst s' \<and> (rows \<noteq> [] \<longrightarrow> rp_id (hd rows) \<le> fst s')"
proof (induction rows arbitrary: s)
  case (Cons row rows)
  then obtain s1 where s1: "load_row S u sc s row = Inr s1" "load_rows S u sc s1 rows = Inr s'"
    by (auto split: sum.splits)
  from load_row_after [OF s1(1)] Cons.IH [OF s1(2)] show ?case by auto
qed simp

lemma page_shrinks:
  assumes "replica_rows st u sc (fst s) 200 = Inr rows" and "rows \<noteq> []" and "load_rows S u sc s rows = Inr s'"
  shows "length (scope_rows st u sc (fst s')) < length (scope_rows st u sc (fst s))"
proof -
  have rows: "rows = take 200 (scope_rows st u sc (fst s))"
    using assms(1) by (simp add: replica_rows_def scope_rows_def)
  with assms(2) have "hd rows \<in> set (scope_rows st u sc (fst s))"
    by (cases "scope_rows st u sc (fst s)") auto
  moreover have "hd rows \<notin> set (scope_rows st u sc (fst s'))"
    using load_rows_after [OF assms(3)] assms(2) by (auto simp: scope_rows_def)
  moreover have "scope_rows st u sc (fst s') = filter (\<lambda>r. fst s' < rp_id r) (scope_rows st u sc (fst s))"
    using load_rows_after [OF assms(3)] by (auto simp: scope_rows_def intro!: filter_cong)
  ultimately show ?thesis by (metis (no_types, lifting) length_filter_less mem_Collect_eq set_filter)
qed

function load_pages ::
  "sync_codec \<Rightarrow> replica_store \<Rightarrow> string \<Rightarrow> string \<Rightarrow> load_state \<Rightarrow> sync_error + replica" where
  "load_pages S st user scope s =
     (case replica_rows st user scope (fst s) 200 of
        Inl x \<Rightarrow> Inl (Stored x)
      | Inr rows \<Rightarrow>
          if rows = [] then Inr (snd (snd s))
          else (case load_rows S user scope s rows of
             Inl x \<Rightarrow> Inl x
           | Inr s' \<Rightarrow> load_pages S st user scope s'))"
  by pat_completeness auto
termination
  by (relation "measure (\<lambda>(S, st, u, sc, s). length (scope_rows st u sc (fst s)))") (auto dest: page_shrinks)

declare load_pages.simps [simp del]

definition load_replica :: "sync_codec \<Rightarrow> replica_store \<Rightarrow> string \<Rightarrow> string \<Rightarrow> sync_error + replica" where
  "load_replica S st user scope = load_pages S st user scope ([], 0, replica_new user scope)"

section \<open>Writing\<close>

definition event_row :: "sync_codec \<Rightarrow> string \<Rightarrow> string \<Rightarrow> signed_event \<Rightarrow> replica_row" where
  "event_row S user scope e = \<lparr>rp_id = sev_id e, rp_user = user, rp_scope = scope, rp_body = sx_event S e\<rparr>"

definition persist_event ::
  "sync_codec \<Rightarrow> replica_store \<Rightarrow> string \<Rightarrow> string \<Rightarrow> signed_event \<Rightarrow> (replica_store, sync_error, unit) outcome" where
  "persist_event S st user scope e =
     (case event_validate S user scope e of
        Inl x \<Rightarrow> (st, Inl x)
      | Inr _ \<Rightarrow> apsnd (map_sum Stored id) (replica_put st (event_row S user scope e)))"

fun persist_all ::
  "sync_codec \<Rightarrow> replica_store \<Rightarrow> string \<Rightarrow> string \<Rightarrow> signed_event list \<Rightarrow> (replica_store, sync_error, unit) outcome" where
  "persist_all S st user scope [] = (st, Inr ())"
| "persist_all S st user scope (e # es) =
     (case persist_event S st user scope e of
        (st', Inl x) \<Rightarrow> (st', Inl x)
      | (st', Inr _) \<Rightarrow> persist_all S st' user scope es)"

text \<open>Three attempts; a refusal by the store's invariants is retried, other errors end it.\<close>

fun publish_attempts ::
  "sync_codec \<Rightarrow> (view \<Rightarrow> string) \<Rightarrow> nat \<Rightarrow> replica_store \<Rightarrow> string \<Rightarrow> string \<Rightarrow> (replica_store, sync_error, view) outcome" where
  "publish_attempts S enc 0 st user scope = (st, Inl (Refused ''concurrent replica publication; retry after peer exchange''))"
| "publish_attempts S enc (Suc n) st user scope =
     (let previous = replica_current st user scope in
      case load_replica S st user scope of
        Inl x \<Rightarrow> (st, Inl x)
      | Inr r \<Rightarrow>
          (case project S r of
             Inl x \<Rightarrow> (st, Inl x)
           | Inr v \<Rightarrow>
               if MAX_REPLICA_BYTES < length (enc v)
               then (st, Inl (Refused ''replica snapshot exceeds bounded publication capacity''))
               else (case replica_publish st user scope (vw_digest v) (enc v) (map_option fst previous) of
                   (st', Inr _) \<Rightarrow> (st', Inr v)
                 | (st', Inl (SE_Invariant _)) \<Rightarrow> publish_attempts S enc n st' user scope
                 | (st', Inl x) \<Rightarrow> (st', Inl (Stored x)))))"

definition publish_current ::
  "sync_codec \<Rightarrow> (view \<Rightarrow> string) \<Rightarrow> replica_store \<Rightarrow> string \<Rightarrow> string \<Rightarrow> (replica_store, sync_error, view) outcome" where
  "publish_current S enc st user scope = publish_attempts S enc 3 st user scope"

section \<open>What a store holds\<close>

text \<open>The replica with exactly the events of a map.\<close>

definition replica_of :: "sync_codec \<Rightarrow> string \<Rightarrow> string \<Rightarrow> (string, signed_event) btree \<Rightarrow> replica" where
  "replica_of S user scope m =
     \<lparr>rl_user = user, rl_scope = scope, rl_events = m, rl_bytes = event_bytes S m\<rparr>"

lemma replica_of_fields [simp]:
  "rl_user (replica_of S u sc m) = u" "rl_scope (replica_of S u sc m) = sc" "rl_events (replica_of S u sc m) = m"
  by (simp_all add: replica_of_def)

lemma replica_of_ok: "replica_ok S r \<Longrightarrow> replica_of S (rl_user r) (rl_scope r) (rl_events r) = r"
  by (cases r) (simp add: replica_of_def replica_ok_def)

definition owner_ok :: "string \<Rightarrow> string \<Rightarrow> bool" where
  "owner_ok user scope \<longleftrightarrow> is_digest user \<and> starts_with scope ''private:'' \<and> 8 < length scope \<and> length scope \<le> 256"

text \<open>The rows of the owner's scope are the serialized events of a map, and nothing else.\<close>

definition stored ::
  "sync_codec \<Rightarrow> string \<Rightarrow> string \<Rightarrow> replica_store \<Rightarrow> (string, signed_event) btree \<Rightarrow> bool" where
  "stored S user scope st m \<longleftrightarrow> replica_inv st \<and> owner_ok user scope
     \<and> scope_rows st user scope [] = map (event_row S user scope) (bt_values m)
     \<and> replica_ok S (replica_of S user scope m) \<and> lossless S (set (bt_values m))"

definition entries_ok :: "sync_codec \<Rightarrow> string \<Rightarrow> string \<Rightarrow> (string, signed_event) btree \<Rightarrow> bool" where
  "entries_ok S user scope m \<longleftrightarrow>
     bt_ok m \<and> (\<forall>(i, e) \<in> set m. sev_id e = i \<and> event_validate S user scope e = Inr ())"

text \<open>The same without the bounds of a replica.\<close>

definition holds ::
  "sync_codec \<Rightarrow> string \<Rightarrow> string \<Rightarrow> replica_store \<Rightarrow> (string, signed_event) btree \<Rightarrow> bool" where
  "holds S user scope st m \<longleftrightarrow> replica_inv st \<and> owner_ok user scope
     \<and> scope_rows st user scope [] = map (event_row S user scope) (bt_values m)
     \<and> entries_ok S user scope m \<and> lossless S (set (bt_values m))"

lemma replica_of_ok_iff: "replica_ok S (replica_of S u sc m) \<longleftrightarrow> entries_ok S u sc m \<and> fits S m"
  by (auto simp: replica_ok_def replica_of_def entries_ok_def fits_def)

lemma stored_iff: "stored S u sc st m \<longleftrightarrow> holds S u sc st m \<and> fits S m"
  by (auto simp: stored_def holds_def replica_of_ok_iff)

lemma sub_replica_ok:
  assumes "replica_ok S (replica_of S u sc m)" and "bt_ok n" and "set n \<subseteq> set m"
  shows "replica_ok S (replica_of S u sc n)"
proof -
  have m: "bt_ok m" "length m \<le> MAX_EVENTS" "event_bytes S m \<le> MAX_REPLICA_BYTES"
    "\<forall>x \<in> set m. sev_id (snd x) = fst x \<and> event_validate S u sc (snd x) = Inr ()"
    using assms(1) by (auto simp: replica_ok_def replica_of_def)
  have "length n \<le> length m" "event_bytes S n \<le> event_bytes S m"
    by (rule sub_bounds [OF assms(2) m(1) assms(3)])+
  moreover have "\<forall>x \<in> set n. sev_id (snd x) = fst x \<and> event_validate S u sc (snd x) = Inr ()"
    using m(4) assms(3) by blast
  ultimately show ?thesis using m(2,3) assms(2) by (simp add: replica_ok_def replica_of_def case_prod_unfold)
qed

lemma bt_insert_last: "(\<And>k. k \<in> fst ` set m \<Longrightarrow> k < i) \<Longrightarrow> bt_insert i e m = m @ [(i, e)]"
  by (induction m) auto

lemma bt_ok_append: "bt_ok (m @ n) \<longleftrightarrow> bt_ok m \<and> bt_ok n \<and> (\<forall>a \<in> fst ` set m. \<forall>b \<in> fst ` set n. a < b)"
  by (auto simp: bt_ok_def sorted_wrt_append)

lemma event_bytes_append: "event_bytes S (m @ n) = event_bytes S m + event_bytes S n"
  by (simp add: event_bytes_def bt_values_def)

text \<open>The cursor after the entries of a map.\<close>

definition cursor :: "(string, 'a) btree \<Rightarrow> string" where
  "cursor m = (if m = [] then [] else fst (last m))"

lemma cursor_before:
  assumes "bt_ok (m @ (i, e) # n)" and "i \<noteq> []"
  shows "cursor m < i"
proof (cases "m = []")
  case False
  then have "last m \<in> set m" by simp
  with assms(1) False show ?thesis by (auto simp: cursor_def bt_ok_append)
next
  case True
  with assms(2) show ?thesis by (cases i) (simp_all add: cursor_def)
qed

lemma beyond_cursor:
  assumes "bt_ok (m @ n)" and "\<And>i. i \<in> fst ` set (m @ n) \<Longrightarrow> i \<noteq> []"
  shows "filter (\<lambda>x. cursor m < fst x) (m @ n) = n"
proof -
  have "\<not> cursor m < fst x" if "x \<in> set m" for x
  proof -
    from that have ne: "m \<noteq> []" by auto
    obtain us y where m: "m = us @ [y]" using ne by (cases m rule: rev_cases) auto
    with that assms(1) show ?thesis by (auto simp: cursor_def bt_ok_append)
  qed
  moreover have "cursor m < fst x" if "x \<in> set n" for x
  proof -
    from that obtain us vs where n: "n = us @ x # vs" by (meson split_list)
    have "bt_ok (m @ x # vs)" using assms(1) by (auto simp: n bt_ok_append)
    moreover have "fst x \<noteq> []" using assms(2) that by auto
    ultimately show ?thesis using cursor_before [of m "fst x" "snd x" vs] by simp
  qed
  ultimately show ?thesis by (simp add: filter_empty_conv)
qed

lemma entries_sub: "entries_ok S u sc m \<Longrightarrow> bt_ok n \<Longrightarrow> set n \<subseteq> set m \<Longrightarrow> entries_ok S u sc n"
  by (auto simp: entries_ok_def)

lemma fits_sub: "fits S m \<Longrightarrow> bt_ok n \<Longrightarrow> set n \<subseteq> set m \<Longrightarrow> fits S n"
  using sub_bounds(1) [of n m] sub_bounds(2) [of n m S] by (simp add: fits_def)

lemma fits_prefix: "bt_ok (m @ n) \<Longrightarrow> fits S (m @ n) \<Longrightarrow> fits S m"
  by (rule fits_sub) (auto simp: bt_ok_append)

definition over_capacity :: sync_error where
  "over_capacity = Refused ''replica exceeds bounded scope capacity''"

lemma load_row_next:
  assumes ok: "entries_ok S u sc (m @ [(i, e)])" and "lossless S {e}" and "i \<noteq> []" and fit: "fits S m"
  shows "load_row S u sc (cursor m, event_bytes S m, replica_of S u sc m) (event_row S u sc e)
    = (if fits S (m @ [(i, e)]) then Inr (i, event_bytes S (m @ [(i, e)]), replica_of S u sc (m @ [(i, e)]))
       else Inl over_capacity)"
proof -
  have ord: "bt_ok (m @ [(i, e)])" and id: "sev_id e = i" and val: "event_validate S u sc e = Inr ()"
    using ok by (auto simp: entries_ok_def)
  have lt: "k < i" if "k \<in> fst ` set m" for k using ord that by (auto simp: bt_ok_append)
  then have "i \<notin> fst ` set m" by blast
  then have none: "bt_get m i = None" by (simp add: bt_contains_keys [symmetric] bt_contains_def)
  have bytes: "event_bytes S (m @ [(i, e)]) = event_bytes S m + length (sx_event S e)"
    by (simp add: event_bytes_append) (simp add: event_bytes_def bt_values_def)
  have "length (sx_event S e) \<le> MAX_EVENT_BYTES" using val by (auto simp: event_validate_def)
  then have small: "event_bytes S m + length (sx_event S e) < 2 ^ 64"
    using fit by (simp add: fits_def MAX_EVENT_BYTES_def MAX_REPLICA_BYTES_def)
  show ?thesis
  proof (cases "fits S (m @ [(i, e)])")
    case True
    then have "Suc (length m) \<le> MAX_EVENTS" "event_bytes S m + length (sx_event S e) \<le> MAX_REPLICA_BYTES"
      using bytes by (simp_all add: fits_def)
    moreover have "cursor m < i" by (rule cursor_before [OF ord assms(3)])
    moreover have "receive S (replica_of S u sc m) e = (replica_of S u sc (m @ [(i, e)]), Inr ())"
      using calculation small val id none bt_insert_last [OF lt]
      by (simp add: receive_def Let_def replica_of_def bytes)
    ultimately show ?thesis using assms(2) small id True
      by (simp add: load_row_def Let_def event_row_def lossless_def bytes)
  next
    case False
    then have "MAX_REPLICA_BYTES < event_bytes S m + length (sx_event S e) \<or> MAX_EVENTS \<le> length m"
      using ord bytes by (auto simp: fits_def)
    with False small show ?thesis
      by (auto simp: load_row_def Let_def event_row_def over_capacity_def)
  qed
qed

lemma load_rows_next:
  assumes "entries_ok S u sc (m @ n)" and "lossless S (set (bt_values n))"
    and "\<And>i. i \<in> fst ` set n \<Longrightarrow> i \<noteq> []" and "fits S m"
  shows "load_rows S u sc (cursor m, event_bytes S m, replica_of S u sc m) (map (event_row S u sc) (bt_values n))
    = (if fits S (m @ n) then Inr (cursor (m @ n), event_bytes S (m @ n), replica_of S u sc (m @ n))
       else Inl over_capacity)"
  using assms
proof (induction n arbitrary: m)
  case (Cons x n)
  obtain i e where x: "x = (i, e)" by (cases x)
  have ord: "bt_ok ((m @ [x]) @ n)" using Cons.prems(1) by (simp add: entries_ok_def)
  then have "bt_ok (m @ [x])" unfolding bt_ok_append by blast
  then have "entries_ok S u sc (m @ [(i, e)])"
    by (intro entries_sub [OF Cons.prems(1)]) (auto simp: x)
  then have step: "load_row S u sc (cursor m, event_bytes S m, replica_of S u sc m) (event_row S u sc e)
      = (if fits S (m @ [(i, e)]) then Inr (i, event_bytes S (m @ [(i, e)]), replica_of S u sc (m @ [(i, e)]))
         else Inl over_capacity)"
    by (rule load_row_next) (use Cons.prems in \<open>auto simp: x bt_values_def lossless_def\<close>)
  show ?case
  proof (cases "fits S (m @ [x])")
    case True
    have "load_rows S u sc (cursor (m @ [x]), event_bytes S (m @ [x]), replica_of S u sc (m @ [x]))
        (map (event_row S u sc) (bt_values n)) = (if fits S ((m @ [x]) @ n)
          then Inr (cursor ((m @ [x]) @ n), event_bytes S ((m @ [x]) @ n), replica_of S u sc ((m @ [x]) @ n))
          else Inl over_capacity)"
      by (rule Cons.IH) (use Cons.prems True in \<open>auto simp: bt_values_def lossless_def\<close>)
    moreover have "cursor (m @ [x]) = i" by (simp add: cursor_def x)
    ultimately show ?thesis using step True by (simp add: x bt_values_def)
  next
    case False
    then have "\<not> fits S (m @ x # n)" using fits_prefix [OF ord] by auto
    with step False show ?thesis by (simp add: x bt_values_def)
  qed
qed (simp add: bt_values_def)

lemma filter_rows:
  "\<forall>x \<in> set l. sev_id (snd x) = fst x \<Longrightarrow>
     filter (\<lambda>r. beyond (Some a) (rp_id r)) (map (event_row S u sc) (bt_values l))
       = map (event_row S u sc) (bt_values (filter (\<lambda>x. a < fst x) l))"
  by (induction l) (auto simp: event_row_def bt_values_def)

lemma rows_beyond:
  assumes st: "holds S u sc st (m @ n)"
  shows "scope_rows st u sc (cursor m) = map (event_row S u sc) (bt_values n)"
    and "\<And>i. i \<in> fst ` set (m @ n) \<Longrightarrow> i \<noteq> []"
proof -
  have rows: "scope_rows st u sc [] = map (event_row S u sc) (bt_values (m @ n))" and inv: "replica_inv st"
    and ok: "bt_ok (m @ n)" and ids: "\<And>i e. (i, e) \<in> set (m @ n) \<Longrightarrow> sev_id e = i"
    using st by (auto simp: holds_def entries_ok_def)
  show ne: "i \<noteq> []" if "i \<in> fst ` set (m @ n)" for i
  proof -
    from that obtain x where "x \<in> set (m @ n)" "i = fst x" by (rule imageE)
    then have e: "(i, snd x) \<in> set (m @ n)" by simp
    then have "snd x \<in> set (bt_values (m @ n))" by (auto simp: bt_values_iff)
    then have "event_row S u sc (snd x) \<in> set (scope_rows st u sc [])" unfolding rows by simp
    then have "[] < rp_id (event_row S u sc (snd x))" by (simp add: scope_rows_def)
    with ids [OF e] show "i \<noteq> []" by (auto simp: event_row_def)
  qed
  have "scope_rows st u sc (cursor m) = filter (\<lambda>r. beyond (Some (cursor m)) (rp_id r)) (map (event_row S u sc) (bt_values (m @ n)))"
    by (subst scope_rows_beyond [OF inv]) (simp only: rows)
  also have "\<dots> = map (event_row S u sc) (bt_values (filter (\<lambda>x. cursor m < fst x) (m @ n)))"
    by (rule filter_rows) (use ids in auto)
  finally show "scope_rows st u sc (cursor m) = map (event_row S u sc) (bt_values n)"
    using beyond_cursor [OF ok ne] by simp
qed

lemma load_pages_holds:
  "holds S u sc st (m @ n) \<Longrightarrow> fits S m \<Longrightarrow>
     load_pages S st u sc (cursor m, event_bytes S m, replica_of S u sc m)
       = (if fits S (m @ n) then Inr (replica_of S u sc (m @ n)) else Inl over_capacity)"
proof (induction "length n" arbitrary: m n rule: less_induct)
  case less
  note rows = rows_beyond [OF less.prems(1)]
  let ?page = "take 200 n"
  have page: "replica_rows st u sc (cursor m) 200 = Inr (map (event_row S u sc) (bt_values ?page))"
    using rows(1) by (simp add: replica_rows_def scope_rows_def bt_values_def take_map)
  show ?case
  proof (cases "n = []")
    case True
    with page less.prems(2) show ?thesis by (subst load_pages.simps) (simp add: bt_values_def)
  next
    case False
    have ok: "entries_ok S u sc (m @ n)" "lossless S (set (bt_values (m @ n)))"
      using less.prems by (simp_all add: holds_def)
    have split: "(m @ ?page) @ drop 200 n = m @ n" by simp
    have ord: "bt_ok ((m @ ?page) @ drop 200 n)" using ok(1) by (simp add: entries_ok_def)
    have step: "load_rows S u sc (cursor m, event_bytes S m, replica_of S u sc m) (map (event_row S u sc) (bt_values ?page))
        = (if fits S (m @ ?page) then Inr (cursor (m @ ?page), event_bytes S (m @ ?page), replica_of S u sc (m @ ?page))
           else Inl over_capacity)"
    proof (rule load_rows_next)
      have "bt_ok (m @ ?page)" using ord unfolding bt_ok_append by blast
      then show "entries_ok S u sc (m @ ?page)"
        by (rule entries_sub [OF ok(1)]) (auto dest: in_set_takeD)
      show "lossless S (set (bt_values ?page))"
        using ok(2) by (rule lossless_mono) (auto simp: bt_values_def dest: in_set_takeD)
      show "i \<noteq> []" if "i \<in> fst ` set ?page" for i using that rows(2) by (auto dest: in_set_takeD)
    qed (rule less.prems(2))
    show ?thesis
    proof (cases "fits S (m @ ?page)")
      case True
      have "load_pages S st u sc (cursor (m @ ?page), event_bytes S (m @ ?page), replica_of S u sc (m @ ?page))
          = (if fits S ((m @ ?page) @ drop 200 n) then Inr (replica_of S u sc ((m @ ?page) @ drop 200 n)) else Inl over_capacity)"
        by (rule less.hyps) (use False True less.prems(1) in \<open>simp_all only: split, simp\<close>)
      then show ?thesis using page False split step True
        by (subst load_pages.simps) (simp add: bt_values_def)
    next
      case over: False
      then have "\<not> fits S (m @ n)" using fits_prefix [OF ord] by (simp only: split) blast
      then show ?thesis using page False step over
        by (subst load_pages.simps) (simp add: bt_values_def)
    qed
  qed
qed

text \<open>Loading gives the replica of the stored events exactly when they fit its bounds.\<close>

lemma load_holds:
  "holds S u sc st m \<Longrightarrow> load_replica S st u sc = (if fits S m then Inr (replica_of S u sc m) else Inl over_capacity)"
  using load_pages_holds [of S u sc st "[]" m]
  by (simp add: load_replica_def cursor_def replica_of_def replica_new_def event_bytes_def bt_values_def fits_def)

lemma load_stored: "stored S u sc st m \<Longrightarrow> load_replica S st u sc = Inr (replica_of S u sc m)"
  using load_holds [of S u sc st m] by (simp add: stored_iff)

section \<open>Persisting one event\<close>

lemma scope_rows_iff:
  assumes "replica_inv st"
  shows "r \<in> set (scope_rows st u sc []) \<longleftrightarrow> rp_user r = u \<and> rp_scope r = sc \<and> bt_get (rs_rows st) (rp_id r) = Some r"
proof -
  have ok: "bt_ok (rs_rows st)" and ids: "\<And>k r. bt_get (rs_rows st) k = Some r \<Longrightarrow> rp_id r = k \<and> validate_row r = Inr ()"
    using assms by (auto simp: replica_inv_def)
  have "r \<in> set (bt_values (rs_rows st)) \<longleftrightarrow> bt_get (rs_rows st) (rp_id r) = Some r"
    using ids by (auto simp: bt_values_iff bt_get_iff_in_set [OF ok])
  moreover have "[] < rp_id r" if "bt_get (rs_rows st) (rp_id r) = Some r"
  proof -
    from ids [OF that] have "rp_id r \<noteq> []" by (auto simp: validate_row_def split: if_splits)
    then show ?thesis by (cases "rp_id r") simp_all
  qed
  ultimately show ?thesis by (auto simp: scope_rows_def)
qed

lemma rows_unique:
  assumes "sorted_wrt (\<lambda>a b. rp_id a < rp_id b) xs" and "sorted_wrt (\<lambda>a b. rp_id a < rp_id b) ys" and "set xs = set ys"
  shows "xs = ys"
proof -
  let ?f = "map (\<lambda>r. (rp_id r, r))"
  have "?f xs = ?f ys"
    by (rule bt_set_eq) (use assms in \<open>simp_all add: bt_ok_def sorted_wrt_map\<close>)
  then have "map snd (?f xs) = map snd (?f ys)" by simp
  then show ?thesis by (simp add: comp_def)
qed

lemma event_rows_sorted:
  assumes "entries_ok S u sc m"
  shows "sorted_wrt (\<lambda>a b. rp_id a < rp_id b) (map (event_row S u sc) (bt_values m))"
proof -
  have "sorted_wrt (<) (map fst m)" and eq: "\<forall>x \<in> set m. (sev_id \<circ> snd) x = fst x"
    using assms by (auto simp: entries_ok_def bt_ok_def)
  moreover have "map (sev_id \<circ> snd) m = map fst m" using eq by (intro map_cong) auto
  ultimately have "sorted_wrt (<) (map (sev_id \<circ> snd) m)" by (simp only:)
  then show ?thesis by (simp add: sorted_wrt_map bt_values_def event_row_def comp_def)
qed

lemma holdsI:
  assumes "replica_inv st" and "owner_ok u sc" and "entries_ok S u sc m" and "lossless S (set (bt_values m))"
    and "set (scope_rows st u sc []) = event_row S u sc ` set (bt_values m)"
  shows "holds S u sc st m"
proof -
  have "scope_rows st u sc [] = map (event_row S u sc) (bt_values m)"
  proof (rule rows_unique)
    show "sorted_wrt (\<lambda>a b. rp_id a < rp_id b) (scope_rows st u sc [])"
      using rows_sorted [OF assms(1)] by (simp add: scope_rows_def sorted_wrt_filter)
    show "sorted_wrt (\<lambda>a b. rp_id a < rp_id b) (map (event_row S u sc) (bt_values m))"
      by (rule event_rows_sorted [OF assms(3)])
  qed (simp add: assms(5))
  with assms show ?thesis by (simp add: holds_def)
qed

lemma storedI:
  assumes "replica_inv st" and "owner_ok u sc" and "replica_ok S (replica_of S u sc m)" and "lossless S (set (bt_values m))"
    and "set (scope_rows st u sc []) = event_row S u sc ` set (bt_values m)"
  shows "stored S u sc st m"
  using assms by (simp add: stored_iff replica_of_ok_iff holdsI)

text \<open>Nobody else's row has the identity of one of these events.\<close>

definition unclaimed :: "sync_codec \<Rightarrow> string \<Rightarrow> string \<Rightarrow> replica_store \<Rightarrow> signed_event set \<Rightarrow> bool" where
  "unclaimed S u sc st es \<longleftrightarrow> (\<forall>e \<in> es. bt_get (rs_rows st) (sev_id e) \<in> {None, Some (event_row S u sc e)})"

lemma lowhex_hexdigit: "is_digest s \<Longrightarrow> length s = 64 \<and> list_all is_hexdigit s"
  by (auto simp: is_digest_def list_all_iff is_hexdigit_def is_lowhex_def is_digit_def)

lemma row_valid:
  assumes "event_validate S u sc e = Inr ()" and "owner_ok u sc" and "is_digest (sev_id e)" and "sx_event S e \<noteq> []"
  shows "validate_row (event_row S u sc e) = Inr ()"
proof -
  have "length (sx_event S e) \<le> MAX_EVENT_BYTES" using assms(1) by (auto simp: event_validate_def)
  with assms lowhex_hexdigit [of u] lowhex_hexdigit [of "sev_id e"] show ?thesis
    by (simp add: validate_row_def event_row_def owner_ok_def MAX_EVENT_BYTES_def)
qed

lemma bt_insert_known: "bt_ok m \<Longrightarrow> bt_get m i = Some e \<Longrightarrow> bt_insert i e m = m"
  by (rule bt_ext) (auto simp: bt_ok_insert)

lemma persist_row:
  assumes st: "holds S u sc st m" and val: "event_validate S u sc e = Inr ()" and less: "lossless S (insert e (set (bt_values m)))"
    and rv: "validate_row (event_row S u sc e) = Inr ()" and free: "unclaimed S u sc st {e}"
  obtains st' where "persist_event S st u sc e = (st', Inr ())" and "holds S u sc st' (bt_insert (sev_id e) e m)"
    and "rs_views st' = rs_views st" and "rs_active st' = rs_active st"
    and "bt_get m (sev_id e) \<in> {None, Some e}" and "\<And>k. bt_get (rs_rows st') k = (if k = sev_id e then Some (event_row S u sc e) else bt_get (rs_rows st) k)"
proof -
  let ?row = "event_row S u sc e" and ?m = "bt_insert (sev_id e) e m"
  have inv: "replica_inv st" and own: "owner_ok u sc" and mok: "bt_ok m" "\<And>i x. (i, x) \<in> set m \<Longrightarrow> sev_id x = i"
    and rows: "scope_rows st u sc [] = map (event_row S u sc) (bt_values m)"
    using st by (auto simp: holds_def entries_ok_def)
  have id: "rp_id ?row = sev_id e" by (simp add: event_row_def)
  show thesis
  proof (cases "bt_get (rs_rows st) (sev_id e)")
    case (Some old)
    with free have old: "old = ?row" by (simp add: unclaimed_def)
    then have "?row \<in> set (scope_rows st u sc [])"
      using Some by (simp add: scope_rows_iff [OF inv] event_row_def)
    then obtain x where x: "x \<in> set (bt_values m)" "event_row S u sc x = ?row" unfolding rows by auto
    then have "sx_event S x = sx_event S e" by (simp add: event_row_def)
    with less x(1) have "x = e" by (intro lossless_inj [OF less]) auto
    with x(1) mok have "bt_get m (sev_id e) = Some e" by (auto simp: bt_values_iff bt_get_iff_in_set)
    moreover from this have "?m = m" by (rule bt_insert_known [OF mok(1)])
    ultimately show thesis using Some old rv val st id
      by (intro that [of st]) (simp_all add: persist_event_def replica_put_def apsnd_def)
  next
    case None
    let ?st = "st\<lparr>rs_rows := bt_insert (sev_id e) ?row (rs_rows st)\<rparr>"
    have put: "replica_put st ?row = (?st, Inr ())" by (simp add: replica_put_def rv id None)
    have inv': "replica_inv ?st" using inv_replica_put [OF inv, of ?row] by (simp add: put)
    have "sev_id x \<noteq> sev_id e" if "x \<in> set (bt_values m)" for x
    proof
      assume same: "sev_id x = sev_id e"
      from that have "event_row S u sc x \<in> set (scope_rows st u sc [])" by (simp add: rows)
      then have "bt_get (rs_rows st) (sev_id x) = Some (event_row S u sc x)"
        by (simp add: scope_rows_iff [OF inv] event_row_def)
      with None same show False by simp
    qed
    then have keys: "fst x \<noteq> sev_id e" if "x \<in> set m" for x
      using that mok(2) by (cases x) (fastforce simp: bt_values_iff)
    have vals: "set (bt_values ?m) = insert e (set (bt_values m))"
    proof -
      have "{x \<in> set m. fst x \<noteq> sev_id e} = set m" using keys by blast
      then show ?thesis by (simp add: bt_values_def set_bt_insert [OF mok(1)])
    qed
    have "set (scope_rows ?st u sc []) = event_row S u sc ` set (bt_values ?m)"
    proof (intro set_eqI)
      fix r
      have "r \<in> set (scope_rows ?st u sc []) \<longleftrightarrow> r = ?row \<or> r \<in> set (scope_rows st u sc [])"
        unfolding scope_rows_iff [OF inv'] scope_rows_iff [OF inv]
        using None by (auto simp: event_row_def)
      then show "r \<in> set (scope_rows ?st u sc []) \<longleftrightarrow> r \<in> event_row S u sc ` set (bt_values ?m)"
        by (auto simp: rows vals)
    qed
    moreover have "entries_ok S u sc ?m"
      using st val by (auto simp: holds_def entries_ok_def bt_ok_insert set_bt_insert)
    ultimately have "holds S u sc ?st ?m"
      using inv' own less by (intro holdsI) (simp_all add: vals)
    moreover have "bt_get m (sev_id e) = None"
      using keys mok(1) by (metis bt_get_in_set fst_conv not_Some_eq)
    ultimately show thesis using put val
      by (intro that [of ?st]) (simp_all add: persist_event_def apsnd_def)
  qed
qed

lemma persist_holds:
  assumes st: "holds S u sc st m" and val: "event_validate S u sc e = Inr ()" and less: "lossless S (insert e (set (bt_values m)))"
    and dig: "is_digest (sev_id e)" and free: "unclaimed S u sc st {e}"
  obtains st' where "persist_event S st u sc e = (st', Inr ())" and "holds S u sc st' (bt_insert (sev_id e) e m)"
    and "rs_views st' = rs_views st" and "rs_active st' = rs_active st"
    and "\<And>k. bt_get (rs_rows st') k = (if k = sev_id e then Some (event_row S u sc e) else bt_get (rs_rows st) k)"
proof -
  have "owner_ok u sc" "sx_event S e \<noteq> []" using st less by (simp_all add: holds_def lossless_def)
  then have "validate_row (event_row S u sc e) = Inr ()" by (intro row_valid [OF val _ dig])
  from persist_row [OF st val less this free] show thesis using that by metis
qed

text \<open>Whatever the event, it is either stored as a new or known one, or refused with the store as it was.\<close>

lemma persist_cases:
  assumes st: "holds S u sc st m" and less: "event_validate S u sc e = Inr () \<Longrightarrow> lossless S (insert e (set (bt_values m)))"
  obtains (refused) x where "persist_event S st u sc e = (st, Inl x)"
  | (kept) st' where "persist_event S st u sc e = (st', Inr ())" "holds S u sc st' (bt_insert (sev_id e) e m)"
      "bt_get m (sev_id e) \<in> {None, Some e}"
proof (cases "event_validate S u sc e")
  case (Inl x)
  then show thesis by (intro refused [of x]) (simp add: persist_event_def)
next
  case (Inr v)
  let ?row = "event_row S u sc e"
  consider (bad) y where "validate_row ?row = Inl y"
    | (taken) old where "validate_row ?row = Inr ()" "bt_get (rs_rows st) (sev_id e) = Some old" "old \<noteq> ?row"
    | (free) "validate_row ?row = Inr ()" "unclaimed S u sc st {e}"
    by (cases "validate_row ?row"; cases "bt_get (rs_rows st) (sev_id e)") (auto simp: unclaimed_def)
  then show thesis
  proof cases
    case bad
    with Inr show thesis by (intro refused [of "Stored y"]) (simp add: persist_event_def replica_put_def apsnd_def)
  next
    case taken
    have "rp_id ?row = sev_id e" by (simp add: event_row_def)
    with taken Inr show thesis
      by (intro refused [of "Stored (SE_Invariant ReplicaCollision)"]) (simp add: persist_event_def replica_put_def apsnd_def)
  next
    case free
    have val: "event_validate S u sc e = Inr ()" using Inr by simp
    show thesis
      by (rule persist_row [OF st val less [OF val] free]) (rule kept; assumption)
  qed
qed

lemma persist_stored:
  assumes st: "stored S u sc st m" and val: "event_validate S u sc e = Inr ()" and less: "lossless S (insert e (set (bt_values m)))"
    and dig: "is_digest (sev_id e)" and fit: "replica_ok S (replica_of S u sc (bt_insert (sev_id e) e m))"
    and free: "unclaimed S u sc st {e}"
  obtains st' where "persist_event S st u sc e = (st', Inr ())" and "stored S u sc st' (bt_insert (sev_id e) e m)"
    and "rs_views st' = rs_views st" and "rs_active st' = rs_active st"
    and "\<And>k. bt_get (rs_rows st') k = (if k = sev_id e then Some (event_row S u sc e) else bt_get (rs_rows st) k)"
proof -
  have "holds S u sc st m" using st by (simp add: stored_iff)
  then obtain st' where st': "persist_event S st u sc e = (st', Inr ())" "holds S u sc st' (bt_insert (sev_id e) e m)"
    "rs_views st' = rs_views st" "rs_active st' = rs_active st"
    "\<And>k. bt_get (rs_rows st') k = (if k = sev_id e then Some (event_row S u sc e) else bt_get (rs_rows st) k)"
    by (rule persist_holds [OF _ val less dig free]) (rule that; assumption)
  with fit show thesis by (intro that [of st']) (simp_all add: stored_iff replica_of_ok_iff)
qed

section \<open>Publishing\<close>

lemma publish_stored:
  assumes st: "stored S u sc st m" and v: "project S (replica_of S u sc m) = Inr v"
    and enc: "enc v \<noteq> []" "length (enc v) \<le> MAX_REPLICA_BYTES" and dig: "is_digest (vw_digest v)"
    and free: "bt_get (rs_views st) (vw_digest v) \<in> {None, Some (u, sc, enc v)}"
  obtains st' where "publish_current S enc st u sc = (st', Inr v)" and "stored S u sc st' m"
    and "rs_rows st' = rs_rows st" and "replica_current st' u sc = Some (vw_digest v, enc v)"
    and "\<And>i. bt_get (rs_views st') i = (if i = vw_digest v then Some (u, sc, enc v) else bt_get (rs_views st) i)"
proof -
  have inv: "replica_inv st" and own: "owner_ok u sc" using st by (auto simp: stored_def)
  have valid: "validate_replica_view u sc (vw_digest v) (enc v) = Inr ()"
    using own enc dig lowhex_hexdigit [of u] lowhex_hexdigit [of "vw_digest v"]
    by (simp add: validate_replica_view_def owner_ok_def MAX_REPLICA_BYTES_def)
  let ?ex = "map_option fst (replica_current st u sc)"
  obtain st' where pub: "replica_publish st u sc (vw_digest v) (enc v) ?ex = (st', Inr ())"
    and views: "\<And>i. bt_get (rs_views st') i = (if i = vw_digest v then Some (u, sc, enc v) else bt_get (rs_views st) i)"
    and rows: "rs_rows st' = rs_rows st" and cur: "replica_current st' u sc = Some (vw_digest v, enc v)"
  proof (cases rule: replica_publish_cases [of u sc "vw_digest v" "enc v" st ?ex])
    case (current)
    with free show thesis
      by (intro that [of "with_view st u sc (vw_digest v) (enc v)"])
        (auto simp: with_view_def replica_current_def split: option.splits)
  next
    case (moved)
    with free show thesis
      by (intro that [OF moved(4)])
        (auto simp: with_view_def replica_current_def split: option.splits)
  qed (use valid free in \<open>auto simp: replica_current_def\<close>)
  have inv': "replica_inv st'" using inv_replica_publish [OF inv, of u sc "vw_digest v" "enc v" ?ex] by (simp add: pub)
  have "publish_current S enc st u sc = (st', Inr v)"
    using load_stored [OF st] v enc(2) pub
    by (simp add: publish_current_def numeral_3_eq_3 Let_def)
  moreover have "stored S u sc st' m" using st inv' rows by (simp add: stored_def scope_rows_def)
  ultimately show thesis using that rows cur views by blast
qed

end
