(* ===== verification/Sync_Exchange.thy ===== *)
theory Sync_Exchange
  imports Sync_Persist
begin

text \<open>
  The peer exchange of \<^verbatim>\<open>crates/chaosbox/src/sync/transport.rs\<close>: signed envelopes, bounded
  pages, and the two sides of a session. The bytes travel over SSH; here a session hands each
  side's envelope to the other, after the length checks of the frames.
\<close>

section \<open>Messages\<close>

record envelope =
  ev_version :: u32
  ev_grant :: sync_grant
  ev_scope :: string
  ev_nonce :: string
  ev_body :: json
  ev_signature :: string

record page =
  pg_inventory :: "string list"
  pg_events :: "signed_event list"
  pg_done :: bool

text \<open>What the wire takes from its serializer; \<open>wr_size\<close> is the length of an encoded frame.\<close>

record wire =
  wr_signed :: "u32 \<times> sync_grant \<times> string \<times> string \<times> json \<Rightarrow> string"
  wr_page :: "page \<Rightarrow> json"
  wr_read :: "json \<Rightarrow> page option"
  wr_size :: "envelope \<Rightarrow> nat"

definition MAX_FRAME :: nat where "MAX_FRAME = 12 * 1024 * 1024"
definition PAGE_BYTES :: nat where "PAGE_BYTES = 6 * 1024 * 1024"

definition wire_domain :: string where
  "wire_domain = ''chaosbox-wire-v1'' @ [NUL]"

definition envelope_bytes :: "wire \<Rightarrow> envelope \<Rightarrow> string" where
  "envelope_bytes W e = wr_signed W (ev_version e, ev_grant e, ev_scope e, ev_nonce e, ev_body e)"

definition envelope_new :: "wire \<Rightarrow> sync_identity \<Rightarrow> string \<Rightarrow> string \<Rightarrow> json \<Rightarrow> envelope" where
  "envelope_new W me scope nonce body =
     (let e = \<lparr>ev_version = 1, ev_grant = sy_grant me, ev_scope = scope, ev_nonce = nonce, ev_body = body,
            ev_signature = []\<rparr>
      in e\<lparr>ev_signature := sy_sign me wire_domain (envelope_bytes W e)\<rparr>)"

definition envelope_validate ::
  "sync_codec \<Rightarrow> wire \<Rightarrow> string \<Rightarrow> string \<Rightarrow> string option \<Rightarrow> string option \<Rightarrow> envelope \<Rightarrow> sync_error + unit" where
  "envelope_validate S W user scope nonce device e =
     all_ok
      [grant_validate S (ev_grant e) user scope,
       refuse_unless (ev_version e = 1 \<and> ev_scope e = scope \<and> is_digest (ev_nonce e)
         \<and> (case nonce of None \<Rightarrow> True | Some n \<Rightarrow> n = ev_nonce e)
         \<and> (case device of None \<Rightarrow> True | Some d \<Rightarrow> d = sg_device (ev_grant e)))
         ''peer session version, challenge or identity mismatch'',
       refused (sx_verify S (sg_device (ev_grant e)) wire_domain (envelope_bytes W e) (ev_signature e))]"

definition page_validate :: "page \<Rightarrow> sync_error + unit" where
  "page_validate p =
     refuse_unless (length (pg_inventory p) \<le> MAX_EVENTS \<and> ascending (pg_inventory p)
       \<and> list_all is_digest (pg_inventory p) \<and> length (pg_events p) \<le> 200)
       ''unbounded or unordered peer inventory''"

text \<open>Reading and writing a frame.\<close>

definition frame_in :: "wire \<Rightarrow> envelope \<Rightarrow> sync_error + envelope" where
  "frame_in W e =
     (if wr_size W e = 0 \<or> MAX_FRAME < wr_size W e
      then Inl (Refused ''peer frame exceeds bounded capacity'') else Inr e)"

definition frame_out :: "wire \<Rightarrow> envelope \<Rightarrow> sync_error + envelope" where
  "frame_out W e =
     (if MAX_FRAME < wr_size W e then Inl (Refused ''peer output exceeds frame capacity'') else Inr e)"

section \<open>Pages\<close>

text \<open>The events the peer does not list, until 200 of them or the byte bound.\<close>

fun page_events ::
  "sync_codec \<Rightarrow> nat \<Rightarrow> signed_event list \<Rightarrow> signed_event list \<Rightarrow> sync_error + signed_event list" where
  "page_events S bytes taken [] = Inr taken"
| "page_events S bytes taken (e # es) =
     (let size = length (sx_event S e) in
      if MAX_EVENT_BYTES < size then Inl (Refused ''oversize event in replica'')
      else if PAGE_BYTES < bytes + size \<or> length taken = 200 then Inr taken
      else page_events S (bytes + size) (taken @ [e]) es)"

definition page_of :: "sync_codec \<Rightarrow> replica \<Rightarrow> string btset \<Rightarrow> bool \<Rightarrow> sync_error + page" where
  "page_of S r known done =
     map_sum id (\<lambda>es. \<lparr>pg_inventory = bt_keys (rl_events r), pg_events = es, pg_done = (done \<and> es = [])\<rparr>)
       (page_events S 0 [] (filter (\<lambda>e. sev_id e \<notin> set known) (bt_values (rl_events r))))"

text \<open>
  Taking in a page: the whole page is checked against the replica before the first write, and a
  history without gaps must give a view; then the events are persisted and the view published.
\<close>

definition missing_parents :: "replica \<Rightarrow> bool" where
  "missing_parents r \<longleftrightarrow>
     (\<exists>e \<in> set (bt_values (rl_events r)). \<exists>p \<in> set (sev_parents e). \<not> bt_contains (rl_events r) p)"

definition accept ::
  "sync_codec \<Rightarrow> (view \<Rightarrow> string) \<Rightarrow> replica_store \<Rightarrow> replica \<Rightarrow> page
   \<Rightarrow> (replica_store, sync_error, replica) outcome" where
  "accept S enc st r p =
     (case page_validate p of
        Inl x \<Rightarrow> (st, Inl x)
      | Inr _ \<Rightarrow>
          (case receive_all S r (pg_events p) of
             (_, Inl x) \<Rightarrow> (st, Inl x)
           | (next', Inr _) \<Rightarrow>
               (case (if missing_parents next' then Inr () else map_sum id (\<lambda>_. ()) (project S next')) of
                  Inl x \<Rightarrow> (st, Inl x)
                | Inr _ \<Rightarrow>
                    (case persist_all S st (rl_user r) (rl_scope r) (pg_events p) of
                       (st1, Inl x) \<Rightarrow> (st1, Inl x)
                     | (st1, Inr _) \<Rightarrow>
                         if isl (project S next') then (st1, Inr next')
                         else (case publish_current S enc st1 (rl_user r) (rl_scope r) of
                             (st2, Inl x) \<Rightarrow> (st2, Inl x)
                           | (st2, Inr _) \<Rightarrow> (st2, Inr next'))))))"

section \<open>The two sides\<close>

definition own_user :: "sync_identity \<Rightarrow> string" where
  "own_user me = sg_user (sy_grant me)"

definition hello_body :: json where "hello_body = JObject [(''hello'', JBool True)]"
definition echo_body :: "string \<Rightarrow> json" where "echo_body nonce = JObject [(''echo'', JString nonce)]"

text \<open>\<open>serve\<close>, up to its answer to the greeting.\<close>

definition serve_greeting ::
  "sync_codec \<Rightarrow> wire \<Rightarrow> sync_identity \<Rightarrow> string \<Rightarrow> string \<Rightarrow> envelope \<Rightarrow> sync_error + envelope" where
  "serve_greeting S W me scope nonce hello =
     (case envelope_validate S W (own_user me) scope None None hello of
        Inl x \<Rightarrow> Inl x
      | Inr _ \<Rightarrow>
          if \<not> json_eq (ev_body hello) hello_body then Inl (Refused ''invalid peer handshake'')
          else frame_out W (envelope_new W me scope nonce (echo_body (ev_nonce hello))))"

text \<open>One request of the loop of \<open>serve\<close>: its reply, and whether the session is over.\<close>

definition serve_round ::
  "sync_codec \<Rightarrow> wire \<Rightarrow> (view \<Rightarrow> string) \<Rightarrow> sync_identity \<Rightarrow> string \<Rightarrow> string \<Rightarrow> envelope \<Rightarrow> replica_store \<Rightarrow> envelope
   \<Rightarrow> (replica_store, sync_error, envelope \<times> bool) outcome" where
  "serve_round S W enc me scope nonce hello st request =
     (case frame_in W request of
        Inl x \<Rightarrow> (st, Inl x)
      | Inr _ \<Rightarrow>
     (case envelope_validate S W (own_user me) scope (Some nonce) (Some (sg_device (ev_grant hello))) request of
        Inl x \<Rightarrow> (st, Inl x)
      | Inr _ \<Rightarrow>
          (case wr_read W (ev_body request) of
             None \<Rightarrow> (st, Inl (Refused ''invalid peer page''))
           | Some p \<Rightarrow>
               (case load_replica S st (own_user me) scope of
                  Inl x \<Rightarrow> (st, Inl x)
                | Inr r \<Rightarrow>
                    (case accept S enc st r p of
                       (st', Inl x) \<Rightarrow> (st', Inl x)
                     | (st', Inr r') \<Rightarrow>
                         (case page_of S r' (bs_of (pg_inventory p)) (pg_done p) of
                            Inl x \<Rightarrow> (st', Inl x)
                          | Inr reply \<Rightarrow>
                              (case frame_out W (envelope_new W me scope (ev_nonce hello) (wr_page W reply)) of
                                 Inl x \<Rightarrow> (st', Inl x)
                               | Inr e \<Rightarrow> (st', Inr (e, pg_done reply)))))))))"

text \<open>\<open>exchange\<close>: its greeting, the check of the answer, and the two halves of a round.\<close>

definition greeting :: "wire \<Rightarrow> sync_identity \<Rightarrow> string \<Rightarrow> string \<Rightarrow> sync_error + envelope" where
  "greeting W me scope nonce = frame_out W (envelope_new W me scope nonce hello_body)"

definition check_answer ::
  "sync_codec \<Rightarrow> wire \<Rightarrow> sync_identity \<Rightarrow> string \<Rightarrow> string \<Rightarrow> string \<Rightarrow> envelope \<Rightarrow> sync_error + unit" where
  "check_answer S W me scope device nonce answer =
     (case frame_in W answer of
        Inl x \<Rightarrow> Inl x
      | Inr _ \<Rightarrow>
     (case envelope_validate S W (own_user me) scope None (Some device) answer of
        Inl x \<Rightarrow> Inl x
      | Inr _ \<Rightarrow> refuse_unless (json_eq (ev_body answer) (echo_body nonce)) ''peer did not answer the current challenge''))"

definition exchange_request ::
  "sync_codec \<Rightarrow> wire \<Rightarrow> sync_identity \<Rightarrow> string \<Rightarrow> envelope \<Rightarrow> replica_store \<Rightarrow> string btset
   \<Rightarrow> sync_error + replica \<times> envelope" where
  "exchange_request S W me scope answer st known =
     (case load_replica S st (own_user me) scope of
        Inl x \<Rightarrow> Inl x
      | Inr r \<Rightarrow>
          (case page_of S r known True of
             Inl x \<Rightarrow> Inl x
           | Inr p \<Rightarrow> map_sum id (Pair r) (frame_out W (envelope_new W me scope (ev_nonce answer) (wr_page W p)))))"

definition exchange_reply ::
  "sync_codec \<Rightarrow> wire \<Rightarrow> (view \<Rightarrow> string) \<Rightarrow> sync_identity \<Rightarrow> string \<Rightarrow> string \<Rightarrow> string \<Rightarrow> replica_store \<Rightarrow> replica
   \<Rightarrow> envelope \<Rightarrow> (replica_store, sync_error, string btset \<times> bool) outcome" where
  "exchange_reply S W enc me scope device nonce st r reply =
     (case frame_in W reply of
        Inl x \<Rightarrow> (st, Inl x)
      | Inr _ \<Rightarrow>
     (case envelope_validate S W (own_user me) scope (Some nonce) (Some device) reply of
        Inl x \<Rightarrow> (st, Inl x)
      | Inr _ \<Rightarrow>
          (case wr_read W (ev_body reply) of
             None \<Rightarrow> (st, Inl (Refused ''invalid peer page''))
           | Some p \<Rightarrow>
               (case accept S enc st r p of
                  (st', Inl x) \<Rightarrow> (st', Inl x)
                | (st', Inr _) \<Rightarrow> (st', Inr (bs_of (pg_inventory p), pg_done p))))))"

text \<open>
  A session between two hosts. \<open>fuel\<close> counts the rounds that both loops allow. The result is
  what \<open>exchange\<close> returns; when the serving side fails, its stream ends.
\<close>

record host =
  ho_identity :: sync_identity
  ho_nonce :: string
  ho_device :: string

fun session_rounds ::
  "sync_codec \<Rightarrow> wire \<Rightarrow> (view \<Rightarrow> string) \<Rightarrow> string \<Rightarrow> host \<Rightarrow> host \<Rightarrow> envelope \<Rightarrow> envelope \<Rightarrow> nat
   \<Rightarrow> replica_store \<times> replica_store \<Rightarrow> string btset \<Rightarrow> (replica_store \<times> replica_store, sync_error, unit) outcome" where
  "session_rounds S W enc scope a b hello answer 0 sts known =
     (sts, Inl (Refused ''peer exchange exceeded bounded round count''))"
| "session_rounds S W enc scope a b hello answer (Suc fuel) (sa, sb) known =
     (case exchange_request S W (ho_identity a) scope answer sa known of
        Inl x \<Rightarrow> ((sa, sb), Inl x)
      | Inr (r, request) \<Rightarrow>
          (case serve_round S W enc (ho_identity b) scope (ho_nonce b) hello sb request of
             (sb', Inl x) \<Rightarrow> ((sa, sb'), Inl (Refused ''unexpected end of file''))
           | (sb', Inr (reply, over)) \<Rightarrow>
               (case exchange_reply S W enc (ho_identity a) scope (ho_device a) (ho_nonce a) sa r reply of
                  (sa', Inl x) \<Rightarrow> ((sa', sb'), Inl x)
                | (sa', Inr (known', over')) \<Rightarrow>
                    if over' then ((sa', sb'), Inr ())
                    else session_rounds S W enc scope a b hello answer fuel (sa', sb') known')))"

declare session_rounds.simps [simp del]

definition session ::
  "sync_codec \<Rightarrow> wire \<Rightarrow> (view \<Rightarrow> string) \<Rightarrow> string \<Rightarrow> host \<Rightarrow> host \<Rightarrow> replica_store \<times> replica_store
   \<Rightarrow> (replica_store \<times> replica_store, sync_error, unit) outcome" where
  "session S W enc scope a b sts =
     (case greeting W (ho_identity a) scope (ho_nonce a) of
        Inl x \<Rightarrow> (sts, Inl x)
      | Inr hello \<Rightarrow>
          (case Option.bind (case frame_in W hello of Inl _ \<Rightarrow> None | Inr e \<Rightarrow> Some e)
             (\<lambda>e. case serve_greeting S W (ho_identity b) scope (ho_nonce b) e of Inl _ \<Rightarrow> None | Inr e' \<Rightarrow> Some e') of
             None \<Rightarrow> (sts, Inl (Refused ''unexpected end of file''))
           | Some answer \<Rightarrow>
               (case check_answer S W (ho_identity a) scope (ho_device a) (ho_nonce a) answer of
                  Inl x \<Rightarrow> (sts, Inl x)
                | Inr _ \<Rightarrow> session_rounds S W enc scope a b hello answer (MAX_EVENTS + 2) sts [])))"

end
