(* ===== verification/Sync_Lifecycle.thy ===== *)
theory Sync_Lifecycle
  imports Sync_Projection
begin

text \<open>
  What the baseline of a history says about a record: the receipts of all publications are
  merged into one chain, and a receipt that withholds the record and that no later receipt
  follows decides its status.
\<close>

section \<open>Chains\<close>

definition chain_ok :: "dag \<Rightarrow> bool" where
  "chain_ok c \<longleftrightarrow> bt_ok c \<and> (\<forall>i. bs_ok (parents_of c i))"

lemma chain_ok_Nil [simp]: "chain_ok []"
  by (simp add: chain_ok_def parents_of_def)

lemma parents_of_or_insert [simp]: "parents_of (bt_or_insert i [] c) j = parents_of c j"
  by (auto simp: parents_of_def split: option.splits)

lemma parents_of_alter [simp]:
  "parents_of (bt_alter i [] (bs_insert p) c) j = (if j = i then bs_insert p (parents_of c i) else parents_of c j)"
  by (auto simp: parents_of_def split: option.splits)

lemma chain_enter:
  "chain_ok c \<Longrightarrow> chain_ok (foldl (\<lambda>c i. bt_or_insert i [] c) c ids)
     \<and> parents_of (foldl (\<lambda>c i. bt_or_insert i [] c) c ids) = parents_of c"
proof (induction ids arbitrary: c)
  case (Cons i ids)
  have "chain_ok (bt_or_insert i [] c)" using Cons.prems by (simp add: chain_ok_def bt_ok_or_insert)
  from Cons.IH [OF this] show ?case by (auto simp: fun_eq_iff)
qed simp

lemma chain_link:
  "chain_ok c \<Longrightarrow> chain_ok (foldl (\<lambda>c (before, after). bt_alter after [] (bs_insert before) c) c es)
     \<and> (\<forall>i. set (parents_of (foldl (\<lambda>c (before, after). bt_alter after [] (bs_insert before) c) c es) i)
        = set (parents_of c i) \<union> {p. (p, i) \<in> set es})"
proof (induction es arbitrary: c)
  case (Cons e es)
  obtain p i where e: "e = (p, i)" by (cases e)
  have "chain_ok (bt_alter i [] (bs_insert p) c)"
    using Cons.prems by (simp add: chain_ok_def bt_ok_alter bs_ok_insert)
  from Cons.IH [OF this] show ?case by (auto simp: e)
qed simp

text \<open>Neighbors in a record's list of receipts.\<close>

definition steps :: "string list \<Rightarrow> (string \<times> string) list" where
  "steps ids = zip ids (drop 1 ids)"

lemma link_chain_steps:
  "chain_ok c \<Longrightarrow> chain_ok (link_chain c ids)
     \<and> (\<forall>i. set (parents_of (link_chain c ids) i) = set (parents_of c i) \<union> {p. (p, i) \<in> set (steps ids)})"
  using chain_link [of "foldl (\<lambda>c i. bt_or_insert i [] c) c ids" "zip ids (drop 1 ids)"] chain_enter [of c ids]
  by (simp add: link_chain_def steps_def)

lemma chain_values:
  assumes "bt_ok c"
  shows "p \<in> set (concat (bt_values c)) \<longleftrightarrow> (\<exists>i. p \<in> set (parents_of c i))"
proof
  assume "p \<in> set (concat (bt_values c))"
  then obtain i ps where "(i, ps) \<in> set c" "p \<in> set ps" by (auto simp: bt_values_def)
  with assms show "\<exists>i. p \<in> set (parents_of c i)"
    by (intro exI [of _ i]) (simp add: parents_of_def bt_get_iff_in_set [symmetric])
next
  assume "\<exists>i. p \<in> set (parents_of c i)"
  then obtain i where "p \<in> set (parents_of c i)" ..
  then obtain ps where "bt_get c i = Some ps" "p \<in> set ps" by (cases "bt_get c i") (auto simp: parents_of_def)
  then show "p \<in> set (concat (bt_values c))" by (force simp: bt_values_def dest: bt_get_in_set)
qed

section \<open>Merging publications\<close>

text \<open>The receipts that a publication lists right before others for one record.\<close>

definition published_steps :: "intelligence list \<Rightarrow> string \<Rightarrow> (string \<times> string) set" where
  "published_steps rs k = {(p, i). \<exists>r \<in> set rs. in_id r = k \<and> (p, i) \<in> set (steps (in_assessments r))}"

definition chain_of :: "merged \<Rightarrow> string \<Rightarrow> dag" where
  "chain_of g k = (case bt_get (mg_chains g) k of None \<Rightarrow> [] | Some c \<Rightarrow> c)"

definition merged_ok :: "(string \<Rightarrow> (string \<times> string) set) \<Rightarrow> merged \<Rightarrow> bool" where
  "merged_ok E g \<longleftrightarrow>
     (\<forall>k. chain_ok (chain_of g k) \<and> (\<forall>p i. p \<in> set (parents_of (chain_of g k) i) \<longleftrightarrow> (p, i) \<in> E k))
     \<and> bt_ok (mg_receipts g) \<and> (\<forall>(i, a) \<in> set (mg_receipts g). am_id a = i)
     \<and> bt_ok (mg_records g) \<and> (\<forall>(i, r) \<in> set (mg_records g). in_id r = i)"

lemma merge_record_id: "merge_record old new = Inr r \<Longrightarrow> in_id r = in_id old"
  by (auto simp: merge_record_def split: if_splits)

lemma chain_of_alter:
  "chain_of (g\<lparr>mg_chains := bt_alter i [] f (mg_chains g), mg_records := m\<rparr>) k
     = (if k = i then f (chain_of g i) else chain_of g k)"
  by (simp add: chain_of_def split: option.splits)

lemma merged_ok_step:
  assumes "merged_ok E g" and "in_id r = in_id q"
  shows "merged_ok (\<lambda>k. E k \<union> published_steps [q] k)
    (g\<lparr>mg_chains := bt_alter (in_id q) [] (\<lambda>c. link_chain c (in_assessments q)) (mg_chains g),
       mg_records := bt_insert (in_id q) r (mg_records g)\<rparr>)"
  using assms link_chain_steps [of "chain_of g (in_id q)" "in_assessments q"]
  by (auto simp: merged_ok_def chain_of_alter published_steps_def bt_ok_insert set_bt_insert)

lemma merge_records_ok:
  "merge_records g rs = Inr g' \<Longrightarrow> merged_ok E g \<Longrightarrow>
     merged_ok (\<lambda>k. E k \<union> published_steps rs k) g' \<and> mg_receipts g' = mg_receipts g"
proof (induction rs arbitrary: g E)
  case Nil
  then show ?case by (simp add: published_steps_def)
next
  case (Cons q rs)
  let ?g = "\<lambda>r. g\<lparr>mg_chains := bt_alter (in_id q) [] (\<lambda>c. link_chain c (in_assessments q)) (mg_chains g),
       mg_records := bt_insert (in_id q) r (mg_records g)\<rparr>"
  have "\<exists>r. merge_records (?g r) rs = Inr g' \<and> in_id r = in_id q"
  proof (cases "bt_get (mg_records g) (in_id q)")
    case None
    with Cons.prems(1) show ?thesis by (intro exI [of _ q]) (simp add: Let_def)
  next
    case (Some old)
    with Cons.prems(2) have "in_id old = in_id q" by (auto simp: merged_ok_def dest!: bt_get_in_set)
    with Some Cons.prems(1) show ?thesis by (auto simp: Let_def merge_record_id split: sum.splits)
  qed
  then obtain r where r: "merge_records (?g r) rs = Inr g'" "in_id r = in_id q" by blast
  from Cons.IH [OF r(1) merged_ok_step [OF Cons.prems(2) r(2)]]
  have "merged_ok (\<lambda>k. E k \<union> published_steps [q] k \<union> published_steps rs k) g'" "mg_receipts g' = mg_receipts g"
    by simp_all
  moreover have "(\<lambda>k. E k \<union> published_steps [q] k \<union> published_steps rs k) = (\<lambda>k. E k \<union> published_steps (q # rs) k)"
    by (auto simp: published_steps_def fun_eq_iff)
  ultimately show ?case by simp
qed

lemma merge_receipts_ok:
  "merge_receipts S m as = Inr m' \<Longrightarrow> bt_ok m \<Longrightarrow> \<forall>(i, a) \<in> set m. am_id a = i \<Longrightarrow>
     bt_ok m' \<and> (\<forall>(i, a) \<in> set m'. am_id a = i)"
proof (induction as arbitrary: m)
  case (Cons a as)
  then have "merge_receipts S (bt_insert (am_id a) a m) as = Inr m'" by (simp split: if_splits)
  moreover have "bt_ok (bt_insert (am_id a) a m)" "\<forall>(i, b) \<in> set (bt_insert (am_id a) a m). am_id b = i"
    using Cons.prems by (auto simp: bt_ok_insert set_bt_insert)
  ultimately show ?case by (rule Cons.IH)
qed simp

text \<open>The publications among some events.\<close>

definition published :: "signed_event list \<Rightarrow> publication list" where
  "published es = List.map_filter (\<lambda>e. case sev_payload e of PL_Publication p \<Rightarrow> Some p | _ \<Rightarrow> None) es"

definition all_records :: "signed_event list \<Rightarrow> intelligence list" where
  "all_records es = concat (map (bu_records \<circ> pb_bundle) (published es))"

lemma all_records_Nil [simp]: "all_records [] = []"
  by (simp add: all_records_def published_def map_filter_simps)

lemma all_records_Cons:
  "all_records (e # es) =
     (case sev_payload e of PL_Publication p \<Rightarrow> bu_records (pb_bundle p) | _ \<Rightarrow> []) @ all_records es"
  by (simp add: all_records_def published_def map_filter_simps split: payload.splits)

lemma merge_events_ok:
  "merge_events S g es = Inr g' \<Longrightarrow> merged_ok E g \<Longrightarrow>
     merged_ok (\<lambda>k. E k \<union> published_steps (all_records es) k) g'"
proof (induction es arbitrary: g E)
  case Nil
  then show ?case by (simp add: published_steps_def)
next
  case (Cons e es)
  show ?case
  proof (cases "sev_payload e")
    case (PL_Publication p)
    let ?g = "\<lambda>rs. g\<lparr>mg_receipts := rs,
       mg_coverage := bt_extend (mg_coverage g) (map (\<lambda>c. (sx_coverage S c, c)) (bu_coverage (pb_bundle p)))\<rparr>"
    from Cons.prems(1) PL_Publication obtain rs g1 where
      rs: "merge_receipts S (mg_receipts g) (bu_assessments (pb_bundle p)) = Inr rs"
      and g1: "merge_records (?g rs) (bu_records (pb_bundle p)) = Inr g1" "merge_events S g1 es = Inr g'"
      by (auto split: sum.splits)
    have "merged_ok E (?g rs)"
      using Cons.prems(2) merge_receipts_ok [OF rs] by (auto simp: merged_ok_def chain_of_def)
    from merge_records_ok [OF g1(1) this] have "merged_ok (\<lambda>k. E k \<union> published_steps (bu_records (pb_bundle p)) k) g1" by simp
    from Cons.IH [OF g1(2) this]
    have "merged_ok (\<lambda>k. E k \<union> published_steps (bu_records (pb_bundle p)) k \<union> published_steps (all_records es) k) g'" .
    moreover have "(\<lambda>k. E k \<union> published_steps (bu_records (pb_bundle p)) k \<union> published_steps (all_records es) k)
        = (\<lambda>k. E k \<union> published_steps (all_records (e # es)) k)"
      by (auto simp: published_steps_def all_records_Cons PL_Publication fun_eq_iff)
    ultimately show ?thesis by simp
  qed (use Cons in \<open>simp_all add: all_records_Cons\<close>)
qed

section \<open>The status of a record\<close>

lemma position_Some:
  "position P xs = Some n \<Longrightarrow> n < length xs \<and> P (xs ! n)"
  by (induction xs arbitrary: n) (auto split: if_splits)

text \<open>Moving an unmarked id to the front keeps the marked ids last.\<close>

lemma negatives_last_move:
  assumes "negatives_last negative xs" and "n < length xs" and "\<not> negative (xs ! n)"
  shows "negatives_last negative (xs ! n # take n xs @ drop (Suc n) xs)"
proof -
  from assms(1) obtain us vs where uv: "xs = us @ vs" "list_all (\<lambda>x. \<not> negative x) us" "list_all negative vs"
    by (auto simp: negatives_last_def)
  have n: "n < length us"
  proof (rule ccontr)
    assume "\<not> n < length us"
    with uv(1) assms(2) have "xs ! n \<in> set vs" by (simp add: nth_append)
    with uv(3) assms(3) show False by (simp add: list_all_iff)
  qed
  with uv(1) have "xs ! n # take n xs @ drop (Suc n) xs = (us ! n # take n us @ drop (Suc n) us) @ vs"
    by (simp add: nth_append)
  moreover have "list_all (\<lambda>x. \<not> negative x) (us ! n # take n us @ drop (Suc n) us)"
    using uv(2) n by (auto simp: list_all_iff dest: in_set_takeD in_set_dropD)
  ultimately show ?thesis using uv(3) unfolding negatives_last_def by blast
qed

lemma move_whole: "n < length xs \<Longrightarrow> insert (xs ! n) (set (take n xs) \<union> set (drop (Suc n) xs)) = set xs"
  using id_take_nth_drop [of n xs] by (metis Un_insert_right list.simps(15) set_append)

lemma find_append: "find P (xs @ ys) = (case find P xs of None \<Rightarrow> find P ys | Some x \<Rightarrow> Some x)"
  by (induction xs) auto

lemma find_SomeD: "find P xs = Some x \<Longrightarrow> x \<in> set xs \<and> P x"
  by (auto simp: find_Some_iff)

lemma in_map_filter: "y \<in> set (List.map_filter f xs) \<longleftrightarrow> (\<exists>x \<in> set xs. f x = Some y)"
  by (induction xs) (auto simp: map_filter_simps split: option.splits)

lemma map_filter_append: "List.map_filter f (xs @ ys) = List.map_filter f xs @ List.map_filter f ys"
  by (simp add: List.map_filter_def)

lemma status_withheld:
  assumes ids: "negatives_last (deferred chain receipts) (in_assessments r)"
    and i: "i \<in> set (in_assessments r)" "deferred chain receipts i" "bt_get receipts i = Some a"
    and bound: "\<exists>e \<in> set (in_evidence r). evidence_digest E e = am_evidence_digest a"
    and kept: "\<not> (\<exists>x \<in> set (bt_values receipts). am_outcome x = O_Supersession (in_id r))"
  shows "status_of E receipts r = IS_Withheld"
proof -
  let ?P = "\<lambda>a. \<exists>e \<in> set (in_evidence r). evidence_digest E e = am_evidence_digest a"
  obtain us vs where uv: "in_assessments r = us @ vs" "list_all (\<lambda>x. \<not> deferred chain receipts x) us"
    "list_all (deferred chain receipts) vs" using ids by (auto simp: negatives_last_def)
  have "i \<in> set vs" using i uv by (auto simp: list_all_iff)
  then have "a \<in> set (List.map_filter (bt_get receipts) (rev vs))" using i(3) by (auto simp: in_map_filter)
  with bound obtain x where x: "find ?P (List.map_filter (bt_get receipts) (rev vs)) = Some x"
    by (cases "find ?P (List.map_filter (bt_get receipts) (rev vs))") (auto simp: find_None_iff)
  then have "\<exists>j \<in> set vs. bt_get receipts j = Some x" by (auto dest!: find_SomeD simp: in_map_filter)
  then have "am_outcome x \<in> {O_Rejected, O_Abstained}" using uv(3)
    by (auto simp: list_all_iff deferred_def withholds_def)
  with x kept show ?thesis by (simp add: status_of_def uv(1) map_filter_append find_append Let_def)
qed

lemma finalize_record_result:
  assumes "finalize_record E r chain receipts = Inr r'" and chain: "chain_ok chain"
  shows "in_id r' = in_id r" and "set (in_assessments r') = fst ` set chain"
    and "negatives_last (deferred chain receipts) (in_assessments r')"
    and "in_status r' = status_of E receipts r'"
proof -
  obtain ids first rest n a kind where o: "ordered chain (deferred chain receipts) = Inr ids"
    and ev: "in_evidence r = first # rest" and n: "position (admits E receipts r first) ids = Some n"
    and a: "bt_get receipts (hd (if n = 0 then ids else ids ! n # take n ids @ drop (Suc n) ids)) = Some a"
      "replication_kind a = Inr kind"
    using assms(1) by (auto simp: finalize_record_def Let_def split: sum.splits list.splits option.splits)
  have r': "in_id r' = in_id r"
      "in_assessments r' = (if n = 0 then ids else ids ! n # take n ids @ drop (Suc n) ids)"
      "in_status r' = status_of E receipts r'"
    using assms(1) o ev n a by (auto simp: finalize_record_def refused_def Let_def status_of_def cong: if_cong)
  have "bt_ok chain" "\<forall>(i, ps) \<in> set chain. distinct ps"
  proof -
    show ok: "bt_ok chain" using chain by (simp add: chain_ok_def)
    show "\<forall>(i, ps) \<in> set chain. distinct ps"
    proof (clarify)
      fix i ps assume "(i, ps) \<in> set chain"
      with ok have "parents_of chain i = ps" by (simp add: parents_of_def bt_get_iff_in_set [symmetric])
      with chain show "distinct ps" by (auto simp: chain_ok_def bs_ok_distinct)
    qed
  qed
  note ord = ordered_ok [OF this o]
  have "children_of chain i = []" if "deferred chain receipts i" for i
    using that by (force simp: deferred_def children_of_def bt_values_def filter_empty_conv)
  then have last: "negatives_last (deferred chain receipts) ids" using ord(6) by blast
  from position_Some [OF n] have "n < length ids" "admits E receipts r first (ids ! n)" by auto
  moreover from this(2) have "\<not> deferred chain receipts (ids ! n)"
    by (auto simp: admits_def deferred_def withholds_def split: option.splits)
  ultimately have "negatives_last (deferred chain receipts) (in_assessments r')" "set (in_assessments r') = set ids"
    unfolding r'(2) using last negatives_last_move [OF last] move_whole [of n ids] by simp_all
  with r' ord(4) show "in_id r' = in_id r" "set (in_assessments r') = fst ` set chain"
    "negatives_last (deferred chain receipts) (in_assessments r')" "in_status r' = status_of E receipts r'" by auto
qed

lemma finalize_all_member:
  "finalize_all E g qs = Inr rs \<Longrightarrow> r \<in> set rs \<Longrightarrow>
     \<exists>i q chain. (i, q) \<in> set qs \<and> bt_get (mg_chains g) (in_id q) = Some chain
       \<and> finalize_record E q chain (mg_receipts g) = Inr r"
proof (induction qs arbitrary: rs)
  case (Cons iq qs)
  obtain i q where iq: "iq = (i, q)" by (cases iq)
  from Cons.prems(1) obtain chain r1 rs1 where
    "bt_get (mg_chains g) (in_id q) = Some chain" "finalize_record E q chain (mg_receipts g) = Inr r1"
    "finalize_all E g qs = Inr rs1" "rs = r1 # rs1"
    by (auto simp: iq map_sum_Inr split: option.splits sum.splits)
  with Cons.IH [of rs1] Cons.prems(2) show ?case by (fastforce simp: iq)
qed simp

lemma steps_fst: "(\<exists>i. (p, i) \<in> set (steps ids)) \<longleftrightarrow> p \<in> set (butlast ids)"
proof (induction ids)
  case (Cons x ids)
  then show ?case by (cases ids) (auto simp: steps_def)
qed (simp add: steps_def)

lemma merged_ok_start: "merged_ok (\<lambda>_. {}) \<lparr>mg_records = [], mg_receipts = [], mg_chains = [], mg_coverage = []\<rparr>"
  by (simp add: merged_ok_def chain_of_def parents_of_def)

text \<open>What a baseline consists of.\<close>

lemma baseline_result:
  assumes "baseline S rep = Inr b"
  obtains g where "merged_ok (published_steps (all_records (bt_values (rl_events rep)))) g"
    and "bu_assessments b = bt_values (mg_receipts g)"
    and "finalize_all (sx_codec S) g (mg_records g) = Inr (bu_records b)"
    and "bundle_validate (sx_codec S) b = Inr ()" and "bu_scope b = rl_scope rep"
proof -
  from assms obtain g rs where
    g: "merge_events S \<lparr>mg_records = [], mg_receipts = [], mg_chains = [], mg_coverage = []\<rparr> (bt_values (rl_events rep)) = Inr g"
    and rs: "finalize_all (sx_codec S) g (mg_records g) = Inr rs"
    and b: "b = \<lparr>bu_version = 1, bu_scope = rl_scope rep, bu_records = rs,
       bu_assessments = bt_values (mg_receipts g), bu_coverage = bt_values (mg_coverage g)\<rparr>"
    and v: "bundle_validate (sx_codec S) b = Inr ()"
    by (auto simp: baseline_def Let_def split: sum.splits)
  from merge_events_ok [OF g merged_ok_start] b rs v show thesis by (intro that [of g]) auto
qed

text \<open>
  C7. Withholding wins over concurrent admission. Take a receipt of the merged history that
  rejects or abstains, whose evidence the record still holds, and that no publication lists
  before a later receipt of the record. Then the record is withheld, or superseded when some
  receipt supersedes it, whatever other branches of the history admitted.
\<close>

theorem withholding_wins:
  assumes "baseline S rep = Inr b" and "r \<in> set (bu_records b)"
    and "a \<in> set (bu_assessments b)" and "am_outcome a \<in> {O_Rejected, O_Abstained}"
    and "am_id a \<in> set (in_assessments r)"
    and "\<exists>e \<in> set (in_evidence r). evidence_digest (sx_codec S) e = am_evidence_digest a"
    and "\<forall>p \<in> set (publications rep). \<forall>q \<in> set (bu_records (pb_bundle p)).
      in_id q = in_id r \<longrightarrow> am_id a \<notin> set (butlast (in_assessments q))"
  shows "in_status r = (if \<exists>x \<in> set (bu_assessments b). am_outcome x = O_Supersession (in_id r)
    then IS_Superseded else IS_Withheld)"
proof -
  from baseline_result [OF assms(1)] obtain g where
    ok: "merged_ok (published_steps (all_records (bt_values (rl_events rep)))) g"
    and as: "bu_assessments b = bt_values (mg_receipts g)"
    and rs: "finalize_all (sx_codec S) g (mg_records g) = Inr (bu_records b)" by blast
  from finalize_all_member [OF rs assms(2)] obtain i q chain where
    c: "bt_get (mg_chains g) (in_id q) = Some chain" and f: "finalize_record (sx_codec S) q chain (mg_receipts g) = Inr r"
    by blast
  have chain: "chain_ok chain" "\<And>p i. p \<in> set (parents_of chain i) \<longleftrightarrow>
      (p, i) \<in> published_steps (all_records (bt_values (rl_events rep))) (in_id q)"
    using ok c unfolding merged_ok_def chain_of_def by (metis option.simps(5))+
  note r = finalize_record_result [OF f chain(1)]
  have a: "bt_get (mg_receipts g) (am_id a) = Some a"
  proof -
    from assms(3) as obtain j where "(j, a) \<in> set (mg_receipts g)" by (auto simp: bt_values_iff)
    with ok show ?thesis unfolding merged_ok_def by (auto simp: bt_get_iff_in_set)
  qed
  have "am_id a \<notin> set (parents_of chain j)" for j
  proof
    assume "am_id a \<in> set (parents_of chain j)"
    then obtain q' where "q' \<in> set (all_records (bt_values (rl_events rep)))" "in_id q' = in_id q"
      "(am_id a, j) \<in> set (steps (in_assessments q'))" by (auto simp: chain(2) published_steps_def)
    then show False using assms(7) r(1) steps_fst [of "am_id a" "in_assessments q'"]
      by (fastforce simp: all_records_def published_def publications_def)
  qed
  then have "deferred chain (mg_receipts g) (am_id a)"
    using assms(4) a chain(1) chain_values [of chain "am_id a"]
    by (auto simp: deferred_def withholds_def chain_ok_def)
  from status_withheld [OF r(3) assms(5) this a assms(6)] r(4) show ?thesis
    by (auto simp: as status_of_def)
qed

end
