(* ===== verification/Sync_Metadata.thy ===== *)
theory Sync_Metadata
  imports Sync_Lifecycle Assess_Properties
begin

text \<open>
  The metadata of a baseline replays: what \<^verbatim>\<open>validate_metadata\<close> of
  \<^verbatim>\<open>crates/chaosbox/src/sync/mod.rs\<close> asks of a bundle (the kind of the first receipt, the
  contradictions and the supersession that the receipts record) is kept by the union of
  publications that pass it one by one.
\<close>

section \<open>What receipts say of an item\<close>

definition origin_of :: "codec \<Rightarrow> assessment \<Rightarrow> string" where
  "origin_of E a = ''intel:'' @ sha256_hex (cx_hash E) [am_candidate_id a]"

definition disputes :: "codec \<Rightarrow> string \<Rightarrow> assessment set \<Rightarrow> string set" where
  "disputes E i A = {t. \<exists>a \<in> A. am_outcome a = O_Contradiction t \<and> origin_of E a = i}
     \<union> {origin_of E a |a. a \<in> A \<and> am_outcome a = O_Contradiction i \<and> origin_of E a \<noteq> i}"

definition replacements :: "codec \<Rightarrow> string \<Rightarrow> assessment set \<Rightarrow> string set" where
  "replacements E i A = {t. \<exists>a \<in> A. am_outcome a = O_Supersession t \<and> origin_of E a = i}"

lemma said_empty [simp]: "disputes E i {} = {}" "replacements E i {} = {}"
  by (simp_all add: disputes_def replacements_def)

lemma said_Union:
  "disputes E i (\<Union>(f ` P)) = (\<Union>p \<in> P. disputes E i (f p))"
  "replacements E i (\<Union>(f ` P)) = (\<Union>p \<in> P. replacements E i (f p))"
  by (auto simp: disputes_def replacements_def)

lemma said_insert:
  "disputes E i (insert a A) = (case am_outcome a of
      O_Contradiction t \<Rightarrow> (if origin_of E a = i then {t} else if t = i then {origin_of E a} else {})
    | _ \<Rightarrow> {}) \<union> disputes E i A"
  "replacements E i (insert a A) = (case am_outcome a of
      O_Supersession t \<Rightarrow> (if origin_of E a = i then {t} else {}) | _ \<Rightarrow> {}) \<union> replacements E i A"
  by (auto simp: disputes_def replacements_def split: intel_outcome.splits)

lemma bs_ok_eq: "bs_ok s \<Longrightarrow> bs_ok t \<Longrightarrow> s = t \<longleftrightarrow> set s = set t"
  using strict_sorted_equal [of s t] by auto

lemma one_element: "set_option x \<union> A = set_option y \<Longrightarrow> a \<in> A \<Longrightarrow> y = Some a \<and> (x = None \<or> x = Some a)"
  by (cases x; cases y) auto

lemma replay_links_Cons:
  "replay_links E i (a # rest) cs old =
     (case am_outcome a of
        O_Contradiction t \<Rightarrow> replay_links E i rest
          (if origin_of E a = i then bs_insert t cs else if t = i then bs_insert (origin_of E a) cs else cs) old
      | O_Supersession t \<Rightarrow>
          if origin_of E a = i
          then (if old \<noteq> None \<and> old \<noteq> Some t then Inl (Refused ''ambiguous supersession metadata'')
                else replay_links E i rest cs (Some t))
          else replay_links E i rest cs old
      | _ \<Rightarrow> replay_links E i rest cs old)"
  by (simp only: replay_links.simps origin_of_def Let_def)

declare replay_links.simps(2) [simp del]

lemma replay_links_iff:
  "bs_ok cs \<Longrightarrow> replay_links E i as cs old = Inr (cs', old') \<longleftrightarrow>
     bs_ok cs' \<and> set cs' = set cs \<union> disputes E i (set as)
     \<and> set_option old' = set_option old \<union> replacements E i (set as)"
proof (induction as arbitrary: cs old)
  case Nil
  then show ?case by (cases old; cases old') (auto simp: bs_ok_eq)
next
  case (Cons a as)
  note o = replay_links_Cons said_insert
  show ?case
  proof (cases "am_outcome a")
    case (O_Contradiction t)
    have "bs_ok (bs_insert x cs)" for x using Cons.prems by (rule bs_ok_insert)
    with O_Contradiction Cons.IH Cons.prems show ?thesis by (auto simp: o)
  next
    case (O_Supersession t)
    show ?thesis
    proof (cases "origin_of E a = i")
      case True
      show ?thesis
      proof (cases "old = None \<or> old = Some t")
        case fine: True
        then have "set_option (Some t) \<union> X = set_option old \<union> ({t} \<union> X)" for X by auto
        with True fine O_Supersession Cons.IH [OF Cons.prems, of "Some t"] show ?thesis
          by (auto simp: o)
      next
        case False
        then have "set_option old' \<noteq> set_option old \<union> ({t} \<union> X)" for X
          using one_element [of old "{t} \<union> X" old' t] by auto
        with True False O_Supersession show ?thesis by (simp add: o)
      qed
    next
      case False
      with O_Supersession Cons.IH [OF Cons.prems] show ?thesis by (simp add: o)
    qed
  qed (use Cons.IH [OF Cons.prems] in \<open>simp_all add: o\<close>)
qed

text \<open>The check of one record, without the order in which it looks.\<close>

lemma record_metadata_iff:
  "record_metadata E b r = Inr () \<longleftrightarrow>
     (\<exists>primary. find (\<lambda>a. (case in_assessments r of [] \<Rightarrow> False | i # _ \<Rightarrow> i = am_id a)) (bu_assessments b) = Some primary
        \<and> replication_kind primary = Inr (in_kind r))
     \<and> set (in_contradicts r) = disputes E (in_id r) (set (bu_assessments b))
     \<and> set_option (in_supersedes r) = replacements E (in_id r) (set (bu_assessments b))"
proof -
  have ok: "bs_ok (bs_of (in_contradicts r))" by (rule bs_ok_extend) simp
  have "(case replay_links E (in_id r) (bu_assessments b) [] None of Inl e \<Rightarrow> Inl e
      | Inr (cs, old) \<Rightarrow> refuse_unless (bs_of (in_contradicts r) = cs \<and> in_supersedes r = old) m) = Inr ()
    \<longleftrightarrow> replay_links E (in_id r) (bu_assessments b) [] None = Inr (bs_of (in_contradicts r), in_supersedes r)" for m
    by (auto split: sum.splits)
  also have "\<dots> \<longleftrightarrow> set (in_contradicts r) = disputes E (in_id r) (set (bu_assessments b))
     \<and> set_option (in_supersedes r) = replacements E (in_id r) (set (bu_assessments b))"
    by (subst replay_links_iff) (simp_all add: ok)
  finally show ?thesis
    by (auto simp: record_metadata_def split: option.splits sum.splits)
qed

section \<open>The union of publications\<close>

text \<open>
  Receipts with one id and equal JSON are one receipt: the serializer of receipts keeps every
  field.
\<close>

definition receipts_in :: "publication list \<Rightarrow> assessment set" where
  "receipts_in ps = (\<Union>p \<in> set ps. set (bu_assessments (pb_bundle p)))"

definition faithful_receipts :: "sync_codec \<Rightarrow> assessment set \<Rightarrow> bool" where
  "faithful_receipts S A \<longleftrightarrow>
     (\<forall>a \<in> A. \<forall>a' \<in> A. am_id a = am_id a' \<longrightarrow> json_eq (sx_receipt S a) (sx_receipt S a') \<longrightarrow> a = a')"

lemma merge_receipts_values:
  assumes "faithful_receipts S A"
  shows "merge_receipts S m as = Inr m' \<Longrightarrow> bt_ok m \<Longrightarrow> \<forall>(i, a) \<in> set m. am_id a = i \<Longrightarrow>
     set (bt_values m) \<union> set as \<subseteq> A \<Longrightarrow> set (bt_values m') = set (bt_values m) \<union> set as"
proof (induction as arbitrary: m)
  case (Cons a as)
  let ?m = "bt_insert (am_id a) a m"
  have run: "merge_receipts S ?m as = Inr m'" using Cons.prems(1) by (simp split: if_splits)
  have "x = a" if "(am_id a, x) \<in> set m" for x
  proof -
    have get: "bt_get m (am_id a) = Some x" using that Cons.prems(2) by (simp add: bt_get_iff_in_set)
    then have "json_eq (sx_receipt S x) (sx_receipt S a)" using Cons.prems(1) by (auto split: if_splits)
    moreover have "x \<in> A" "a \<in> A" "am_id x = am_id a" using Cons.prems(3,4) that bt_valuesI [OF get] by auto
    ultimately show "x = a" using assms by (simp add: faithful_receipts_def)
  qed
  then have "set (bt_values ?m) = insert a (set (bt_values m))"
    using Cons.prems(2) by (auto simp: bt_values_iff set_bt_insert) blast
  moreover have "bt_ok ?m" "\<forall>(i, b) \<in> set ?m. am_id b = i"
    using Cons.prems(2,3) by (auto simp: bt_ok_insert set_bt_insert)
  ultimately show ?case using Cons.IH [OF run] Cons.prems(4) by auto
qed simp

text \<open>What the merged record of an id has taken over from the published records.\<close>

definition gathered :: "intelligence set \<Rightarrow> merged \<Rightarrow> bool" where
  "gathered R g \<longleftrightarrow> (\<forall>i. case bt_get (mg_records g) i of
       None \<Rightarrow> \<forall>r \<in> R. in_id r \<noteq> i
     | Some q \<Rightarrow> in_id q = i
         \<and> set (in_contradicts q) = (\<Union>r \<in> {r \<in> R. in_id r = i}. set (in_contradicts r))
         \<and> set_option (in_supersedes q) = (\<Union>r \<in> {r \<in> R. in_id r = i}. set_option (in_supersedes r)))"

lemma gathered_at:
  "gathered R g \<Longrightarrow> case bt_get (mg_records g) i of
       None \<Rightarrow> \<forall>r \<in> R. in_id r \<noteq> i
     | Some q \<Rightarrow> in_id q = i
         \<and> set (in_contradicts q) = (\<Union>r \<in> {r \<in> R. in_id r = i}. set (in_contradicts r))
         \<and> set_option (in_supersedes q) = (\<Union>r \<in> {r \<in> R. in_id r = i}. set_option (in_supersedes r))"
  unfolding gathered_def by blast

lemma merge_record_links:
  assumes "merge_record old new = Inr m"
  shows "in_id m = in_id old" and "set (in_contradicts m) = set (in_contradicts old) \<union> set (in_contradicts new)"
    and "set_option (in_supersedes m) = set_option (in_supersedes old) \<union> set_option (in_supersedes new)"
  using assms by (auto simp: merge_record_def split: if_splits option.splits)

lemma gathered_step:
  assumes g: "gathered R g" and rec: "mg_records g' = bt_insert (in_id r) m (mg_records g)"
    and m: "case bt_get (mg_records g) (in_id r) of None \<Rightarrow> m = r | Some old \<Rightarrow> merge_record old r = Inr m"
  shows "gathered (insert r R) g'"
proof -
  have get: "bt_get (mg_records g') i = (if i = in_id r then Some m else bt_get (mg_records g) i)" for i
    by (simp add: rec)
  have others: "{x \<in> insert r R. in_id x = i} = {x \<in> R. in_id x = i}" if "i \<noteq> in_id r" for i
    using that by auto
  have own: "{x \<in> insert r R. in_id x = in_id r} = insert r {x \<in> R. in_id x = in_id r}" by auto
  have "in_id m = in_id r
      \<and> set (in_contradicts m) = (\<Union>x \<in> insert r {x \<in> R. in_id x = in_id r}. set (in_contradicts x))
      \<and> set_option (in_supersedes m) = (\<Union>x \<in> insert r {x \<in> R. in_id x = in_id r}. set_option (in_supersedes x))"
  proof (cases "bt_get (mg_records g) (in_id r)")
    case None
    with gathered_at [OF g, of "in_id r"] have "\<forall>x \<in> R. in_id x \<noteq> in_id r" by simp
    then have none: "{x \<in> R. in_id x = in_id r} = {}" by blast
    have "m = r" using None m by simp
    then show ?thesis unfolding none by simp
  next
    case (Some old)
    with gathered_at [OF g, of "in_id r"] have old: "in_id old = in_id r"
      "set (in_contradicts old) = (\<Union>x \<in> {x \<in> R. in_id x = in_id r}. set (in_contradicts x))"
      "set_option (in_supersedes old) = (\<Union>x \<in> {x \<in> R. in_id x = in_id r}. set_option (in_supersedes x))"
      by simp_all
    have "merge_record old r = Inr m" using m Some by simp
    from merge_record_links [OF this] show ?thesis unfolding old UN_insert by (simp only: Un_commute simp_thms)
  qed
  note own_case = this
  show ?thesis
    unfolding gathered_def
  proof
    fix i
    show "case bt_get (mg_records g') i of
       None \<Rightarrow> \<forall>x \<in> insert r R. in_id x \<noteq> i
     | Some q \<Rightarrow> in_id q = i
         \<and> set (in_contradicts q) = (\<Union>x \<in> {x \<in> insert r R. in_id x = i}. set (in_contradicts x))
         \<and> set_option (in_supersedes q) = (\<Union>x \<in> {x \<in> insert r R. in_id x = i}. set_option (in_supersedes x))"
    proof (cases "i = in_id r")
      case True
      then show ?thesis using own_case by (simp only: True get own if_True option.case simp_thms)
    next
      case False
      with gathered_at [OF g, of i] show ?thesis
        unfolding get others [OF False] if_not_P [OF False] by (cases "bt_get (mg_records g) i") simp_all
    qed
  qed
qed

lemma merge_records_gathered:
  "merge_records g rs = Inr g' \<Longrightarrow> gathered R g \<Longrightarrow> gathered (R \<union> set rs) g'"
proof (induction rs arbitrary: g R)
  case (Cons r rs)
  obtain m where run: "merge_records (g\<lparr>mg_chains := bt_alter (in_id r) [] (\<lambda>c. link_chain c (in_assessments r)) (mg_chains g),
        mg_records := bt_insert (in_id r) m (mg_records g)\<rparr>) rs = Inr g'"
    and m: "case bt_get (mg_records g) (in_id r) of None \<Rightarrow> m = r | Some old \<Rightarrow> merge_record old r = Inr m"
    using Cons.prems(1) by (auto simp: Let_def split: option.splits sum.splits)
  from Cons.IH [OF run gathered_step [OF Cons.prems(2) _ m]] show ?case by simp
qed simp

lemma merge_events_gathered:
  assumes "faithful_receipts S A"
  shows "merge_events S g es = Inr g' \<Longrightarrow> gathered R g \<Longrightarrow> merged_ok E g \<Longrightarrow>
     set (bt_values (mg_receipts g)) \<union> receipts_in (published es) \<subseteq> A \<Longrightarrow>
     gathered (R \<union> set (all_records es)) g'
     \<and> set (bt_values (mg_receipts g')) = set (bt_values (mg_receipts g)) \<union> receipts_in (published es)"
proof (induction es arbitrary: g R E)
  case Nil
  then show ?case by (simp add: receipts_in_def published_def map_filter_simps)
next
  case (Cons e es)
  show ?case
  proof (cases "sev_payload e")
    case (PL_Publication p)
    let ?b = "pb_bundle p"
    let ?g = "\<lambda>rs. g\<lparr>mg_receipts := rs,
       mg_coverage := bt_extend (mg_coverage g) (map (\<lambda>c. (sx_coverage S c, c)) (bu_coverage ?b))\<rparr>"
    have pub: "receipts_in (published (e # es)) = set (bu_assessments ?b) \<union> receipts_in (published es)"
      by (simp add: receipts_in_def published_def map_filter_simps PL_Publication)
    from Cons.prems(1) PL_Publication obtain rs g1 where
      rs: "merge_receipts S (mg_receipts g) (bu_assessments ?b) = Inr rs"
      and g1: "merge_records (?g rs) (bu_records ?b) = Inr g1" "merge_events S g1 es = Inr g'"
      by (auto split: sum.splits)
    have keys: "bt_ok (mg_receipts g)" "\<forall>(i, a) \<in> set (mg_receipts g). am_id a = i"
      using Cons.prems(3) by (auto simp: merged_ok_def)
    have vals: "set (bt_values rs) = set (bt_values (mg_receipts g)) \<union> set (bu_assessments ?b)"
      using merge_receipts_values [OF assms rs keys] Cons.prems(4) by (auto simp: pub)
    have "merged_ok E (?g rs)"
      using Cons.prems(3) merge_receipts_ok [OF rs keys] by (auto simp: merged_ok_def chain_of_def)
    from merge_records_ok [OF g1(1) this] have ok: "merged_ok (\<lambda>k. E k \<union> published_steps (bu_records ?b) k) g1"
      and r1: "mg_receipts g1 = rs" by simp_all
    have "gathered R (?g rs)" using Cons.prems(2) by (simp add: gathered_def)
    from merge_records_gathered [OF g1(1) this] have gr: "gathered (R \<union> set (bu_records ?b)) g1" .
    from Cons.IH [OF g1(2) gr ok] Cons.prems(4) show ?thesis
      by (simp add: all_records_Cons PL_Publication r1 vals pub Un_assoc)
  qed (use Cons in \<open>auto simp: all_records_Cons receipts_in_def published_def map_filter_simps\<close>)
qed

section \<open>The finished records\<close>

lemma finalize_record_metadata:
  assumes "finalize_record E r chain receipts = Inr r'"
  shows "set (in_contradicts r') = set (in_contradicts r)" and "in_supersedes r' = in_supersedes r"
    and "\<exists>i rest a. in_assessments r' = i # rest \<and> bt_get receipts i = Some a \<and> replication_kind a = Inr (in_kind r')"
proof -
  obtain ids first rest n a kind where o: "ordered chain (deferred chain receipts) = Inr ids"
    and ev: "in_evidence r = first # rest" and n: "position (admits E receipts r first) ids = Some n"
    and a: "bt_get receipts (hd (if n = 0 then ids else ids ! n # take n ids @ drop (Suc n) ids)) = Some a"
      "replication_kind a = Inr kind"
    using assms by (auto simp: finalize_record_def Let_def split: sum.splits list.splits option.splits)
  define ids' where "ids' = (if n = 0 then ids else ids ! n # take n ids @ drop (Suc n) ids)"
  have a': "bt_get receipts (hd ids') = Some a" using a(1) by (simp only: ids'_def)
  have "\<exists>es u. u = r\<lparr>in_assessments := ids', in_kind := kind, in_evidence := es,
      in_contradicts := remdups_adj (sort (in_contradicts r))\<rparr> \<and> r' = u\<lparr>in_status := status_of E receipts u\<rparr>"
    using assms unfolding finalize_record_def o refused_def
    by (simp add: ev n Let_def a' a(2) flip: ids'_def) blast
  then have r': "in_assessments r' = ids'"
      "in_kind r' = kind" "in_supersedes r' = in_supersedes r" "set (in_contradicts r') = set (in_contradicts r)"
    by auto
  from r'(3,4) show "set (in_contradicts r') = set (in_contradicts r)" "in_supersedes r' = in_supersedes r" by simp_all
  have "ids \<noteq> []" using position_Some [OF n] by auto
  then have "in_assessments r' \<noteq> []" by (simp add: r'(1) ids'_def)
  then obtain i xs where "in_assessments r' = i # xs" by (cases "in_assessments r'") auto
  with a' a(2) r'(1,2) show "\<exists>i rest a. in_assessments r' = i # rest \<and> bt_get receipts i = Some a \<and> replication_kind a = Inr (in_kind r')"
    by (metis list.sel(1))
qed

text \<open>
  A bundle that holds the record of every receipt which admitted one against another record.
  \<^verbatim>\<open>Publication::validate\<close> does not look for it, but every bundle that assessment builds keeps
  it, since the record is added with the receipt and none is ever removed.
\<close>

definition keeps_admitted :: "codec \<Rightarrow> intel_bundle \<Rightarrow> bool" where
  "keeps_admitted E b \<longleftrightarrow> (\<forall>a \<in> set (bu_assessments b).
     (case am_outcome a of O_Contradiction _ \<Rightarrow> True | O_Supersession _ \<Rightarrow> True | _ \<Rightarrow> False) \<longrightarrow>
       origin_of E a \<in> in_id ` set (bu_records b))"

lemma materialize_ids:
  assumes "materialize E c b receipt kind = Inr nb" and "distinct (map in_id (bu_records b))"
  shows "in_id ` set (bu_records b) \<subseteq> in_id ` set (bu_records nb)"
    and "am_outcome receipt = O_Contradiction t \<or> am_outcome receipt = O_Supersession t \<Longrightarrow>
      record_id E c \<in> in_id ` set (bu_records nb)"
proof -
  from materialize_effect [OF assms] obtain g extra where
    g: "bu_records nb = map g (bu_records b) @ extra" "\<And>r. grown r (g r)" unfolding materialized_def by blast
  have "in_id (g r) = in_id r" for r using g(2) [of r] by (simp add: grown_def)
  then have "in_id ` g ` set (bu_records b) = in_id ` set (bu_records b)" by (simp add: image_image)
  then show "in_id ` set (bu_records b) \<subseteq> in_id ` set (bu_records nb)" by (simp add: g(1) image_Un)
  assume "am_outcome receipt = O_Contradiction t \<or> am_outcome receipt = O_Supersession t"
  with assms(1) show "record_id E c \<in> in_id ` set (bu_records nb)"
    by (auto simp: materialize_def Let_def new_record_def split: option.splits if_splits)
qed

lemma assess_keeps_admitted:
  assumes "assess E c b response = Some (b', res)" and "keeps_admitted E b"
  shows "keeps_admitted E b'"
  using assms(1)
proof (cases rule: assess_cases)
  case (committed receipt state asked key outcome kind nb)
  note ids = materialize_ids [OF committed(5) bundle_valid(1) [OF committed(9)]]
  have "origin_of E receipt = record_id E c"
    by (simp add: committed(4) origin_of_def record_id_def receipt_for_def Let_def)
  then show ?thesis
    using assms(2) ids by (fastforce simp: keeps_admitted_def committed(7) split: intel_outcome.splits)
qed (use assms(2) in simp)

lemma said_without_record:
  assumes valid: "bundle_validate E (pb_bundle p) = Inr ()" and meta: "validate_metadata E (pb_bundle p) = Inr ()"
    and keeps: "keeps_admitted E (pb_bundle p)" and gone: "i \<notin> in_id ` set (bu_records (pb_bundle p))"
  shows "disputes E i (set (bu_assessments (pb_bundle p))) = {}"
    and "replacements E i (set (bu_assessments (pb_bundle p))) = {}"
proof -
  let ?b = "pb_bundle p"
  have none: "am_outcome a \<noteq> O_Contradiction t \<and> am_outcome a \<noteq> O_Supersession t"
    if "a \<in> set (bu_assessments ?b)" "origin_of E a = i" for a t
    using keeps gone that by (fastforce simp: keeps_admitted_def)
  then show "replacements E i (set (bu_assessments ?b)) = {}" by (auto simp: replacements_def)
  have "False" if a: "a \<in> set (bu_assessments ?b)" "am_outcome a = O_Contradiction i" for a
  proof -
    from keeps a obtain r where r: "r \<in> set (bu_records ?b)" "in_id r = origin_of E a"
      by (fastforce simp: keeps_admitted_def)
    from meta r(1) have "set (in_contradicts r) = disputes E (in_id r) (set (bu_assessments ?b))"
      by (simp add: validate_metadata_def record_metadata_iff)
    with a r(2) have "i \<in> set (in_contradicts r)" by (auto simp: disputes_def)
    moreover have "\<forall>j \<in> set (in_contradicts r). j \<in> in_id ` set (bu_records ?b)"
      using bundle_valid(4) [OF valid r(1)] by (auto simp: record_validate_def Let_def)
    ultimately show False using gone by blast
  qed
  with none show "disputes E i (set (bu_assessments ?b)) = {}" by (auto simp: disputes_def)
qed

lemma published_iff: "p \<in> set (published es) \<longleftrightarrow> (\<exists>e \<in> set es. sev_payload e = PL_Publication p)"
proof -
  have "(case sev_payload e of PL_Publication p \<Rightarrow> Some p | _ \<Rightarrow> None) = Some p \<longleftrightarrow> sev_payload e = PL_Publication p"
    for e :: signed_event
    by (cases "sev_payload e") auto
  then show ?thesis by (simp add: published_def in_map_filter)
qed

lemma published_valid:
  assumes "replica_ok S r" and "p \<in> set (published (bt_values (rl_events r)))"
  shows "bundle_validate (sx_codec S) (pb_bundle p) = Inr ()" and "validate_metadata (sx_codec S) (pb_bundle p) = Inr ()"
proof -
  from assms(2) obtain e where e: "e \<in> set (bt_values (rl_events r))" "sev_payload e = PL_Publication p"
    by (auto simp: published_iff)
  from e(1) assms(1) have "event_validate S (rl_user r) (rl_scope r) e = Inr ()"
    by (auto simp: replica_ok_def bt_values_iff)
  with e(2) have "publication_validate (sx_codec S) (rl_scope r) p = Inr ()"
    by (simp add: event_validate_def payload_validate_def)
  then show "bundle_validate (sx_codec S) (pb_bundle p) = Inr ()" "validate_metadata (sx_codec S) (pb_bundle p) = Inr ()"
    by (simp_all add: publication_validate_def Let_def)
qed

lemma UN_const: "X \<noteq> {} \<Longrightarrow> (\<And>x. x \<in> X \<Longrightarrow> f x = c) \<Longrightarrow> (\<Union>x \<in> X. f x) = c"
  by blast

lemma published_links:
  assumes "replica_ok S r" and p: "p \<in> set (published (bt_values (rl_events r)))"
    and keeps: "\<forall>p \<in> set (published (bt_values (rl_events r))). keeps_admitted (sx_codec S) (pb_bundle p)"
  shows "(\<Union>x \<in> {x \<in> set (bu_records (pb_bundle p)). in_id x = i}. set (in_contradicts x))
      = disputes (sx_codec S) i (set (bu_assessments (pb_bundle p)))"
    and "(\<Union>x \<in> {x \<in> set (bu_records (pb_bundle p)). in_id x = i}. set_option (in_supersedes x))
      = replacements (sx_codec S) i (set (bu_assessments (pb_bundle p)))"
proof -
  let ?X = "{x \<in> set (bu_records (pb_bundle p)). in_id x = i}"
  note pv = published_valid [OF assms(1,2)]
  have each: "set (in_contradicts x) = disputes (sx_codec S) i (set (bu_assessments (pb_bundle p)))
      \<and> set_option (in_supersedes x) = replacements (sx_codec S) i (set (bu_assessments (pb_bundle p)))"
    if "x \<in> ?X" for x
    using pv(2) that by (auto simp: validate_metadata_def record_metadata_iff)
  have "(\<Union>x \<in> ?X. set (in_contradicts x)) = disputes (sx_codec S) i (set (bu_assessments (pb_bundle p)))
    \<and> (\<Union>x \<in> ?X. set_option (in_supersedes x)) = replacements (sx_codec S) i (set (bu_assessments (pb_bundle p)))"
  proof (cases "?X = {}")
    case True
    then have "i \<notin> in_id ` set (bu_records (pb_bundle p))" by blast
    from said_without_record [OF pv _ this] keeps p show ?thesis unfolding True by simp
  next
    case False
    show ?thesis by (intro conjI UN_const [OF False]) (use each in blast)+
  qed
  then show "(\<Union>x \<in> ?X. set (in_contradicts x)) = disputes (sx_codec S) i (set (bu_assessments (pb_bundle p)))"
    "(\<Union>x \<in> ?X. set_option (in_supersedes x)) = replacements (sx_codec S) i (set (bu_assessments (pb_bundle p)))"
    by simp_all
qed

lemma baseline_metadata:
  assumes ok: "replica_ok S r" and b: "baseline S r = Inr b"
    and faithful: "faithful_receipts S (receipts_in (publications r))"
    and keeps: "\<forall>p \<in> set (publications r). keeps_admitted (sx_codec S) (pb_bundle p)"
  shows "validate_metadata (sx_codec S) b = Inr ()"
proof -
  let ?E = "sx_codec S" and ?es = "bt_values (rl_events r)"
  have pubs: "publications r = published ?es" by (simp add: publications_def published_def)
  from b obtain g where
    g: "merge_events S \<lparr>mg_records = [], mg_receipts = [], mg_chains = [], mg_coverage = []\<rparr> ?es = Inr g"
    and rs: "finalize_all ?E g (mg_records g) = Inr (bu_records b)"
    and as: "bu_assessments b = bt_values (mg_receipts g)"
    by (auto simp: baseline_def Let_def split: sum.splits)
  have ok': "merged_ok (published_steps (all_records ?es)) g" using merge_events_ok [OF g merged_ok_start] by simp
  have "gathered ({} :: intelligence set) \<lparr>mg_records = [], mg_receipts = [], mg_chains = [], mg_coverage = []\<rparr>"
    by (simp add: gathered_def)
  from merge_events_gathered [OF faithful g this merged_ok_start]
  have gr: "gathered (set (all_records ?es)) g" and vals: "set (bu_assessments b) = receipts_in (published ?es)"
    by (simp_all add: pubs as bt_values_def)
  have recs: "set (all_records ?es) = (\<Union>p \<in> set (published ?es). set (bu_records (pb_bundle p)))"
    by (auto simp: all_records_def)
  show ?thesis
    unfolding validate_metadata_def check_all_iff record_metadata_iff
  proof (intro ballI conjI)
    fix q assume q: "q \<in> set (bu_records b)"
    from finalize_all_member [OF rs q] obtain j m chain where m: "(j, m) \<in> set (mg_records g)"
      and f: "finalize_record ?E m chain (mg_receipts g) = Inr q" and c: "bt_get (mg_chains g) (in_id m) = Some chain" by blast
    note fin = finalize_record_metadata [OF f]
    have "chain_ok chain" using ok' c unfolding merged_ok_def chain_of_def by (metis option.simps(5))
    from finalize_record_result(1) [OF f this] have qm: "in_id q = in_id m" .
    have "bt_get (mg_records g) (in_id m) = Some m" using ok' m by (auto simp: merged_ok_def bt_get_iff_in_set)
    with gathered_at [OF gr, of "in_id m"] have links: "set (in_contradicts m) = (\<Union>x \<in> {x \<in> set (all_records ?es). in_id x = in_id q}. set (in_contradicts x))"
      "set_option (in_supersedes m) = (\<Union>x \<in> {x \<in> set (all_records ?es). in_id x = in_id q}. set_option (in_supersedes x))"
      unfolding qm by simp_all
    note one = published_links [OF ok _ keeps [unfolded pubs], of _ "in_id q"]
    have split: "(\<Union>x \<in> {x \<in> set (all_records ?es). in_id x = i}. h x)
        = (\<Union>p \<in> set (published ?es). \<Union>x \<in> {x \<in> set (bu_records (pb_bundle p)). in_id x = i}. h x)"
      for i and h :: "intelligence \<Rightarrow> string set" unfolding recs by blast
    show "set (in_contradicts q) = disputes ?E (in_id q) (set (bu_assessments b))"
      unfolding fin(1) links(1) vals receipts_in_def said_Union split using one(1) by (simp cong: SUP_cong)
    show "set_option (in_supersedes q) = replacements ?E (in_id q) (set (bu_assessments b))"
      unfolding fin(2) links(2) vals receipts_in_def said_Union split using one(2) by (simp cong: SUP_cong)
    obtain i rest a where a: "in_assessments q = i # rest" "bt_get (mg_receipts g) i = Some a"
      "replication_kind a = Inr (in_kind q)" using fin(3) by blast
    have ids: "bt_ok (mg_receipts g)" "\<forall>(i, a) \<in> set (mg_receipts g). am_id a = i" using ok' by (simp_all add: merged_ok_def)
    have "find (\<lambda>x. i = am_id x) (bu_assessments b) = Some a"
    proof (cases "find (\<lambda>x. i = am_id x) (bu_assessments b)")
      case None
      moreover have "(i, a) \<in> set (mg_receipts g)" using a(2) by (rule bt_get_in_set)
      ultimately show ?thesis using ids(2) by (auto simp: find_None_iff as bt_values_iff)
    next
      case (Some x)
      from find_SomeD [OF this] obtain k where "(k, x) \<in> set (mg_receipts g)" "i = am_id x" by (auto simp: as bt_values_iff)
      with ids have "bt_get (mg_receipts g) i = Some x" by (auto simp: bt_get_iff_in_set)
      with a(2) Some show ?thesis by simp
    qed
    with a show "\<exists>primary. find (\<lambda>a. (case in_assessments q of [] \<Rightarrow> False | i # _ \<Rightarrow> i = am_id a)) (bu_assessments b) = Some primary
        \<and> replication_kind primary = Inr (in_kind q)" by simp
  qed
qed

end
