(* ===== verification/Sync_View.thy ===== *)
theory Sync_View
  imports Sync_Metadata
begin

text \<open>
  What a projected view promises: it exists only for a complete history without cycles, each
  of its relationships rests on decisions that no later decision considered, and reading it
  back passes the checks of a stored view.
\<close>

section \<open>Histories\<close>

definition history :: "replica \<Rightarrow> dag" where
  "history r = map (\<lambda>(i, e). (i, bs_of (sev_parents e))) (rl_events r)"

lemma history_causes:
  "(p, i) \<in> causes (history r) \<longleftrightarrow> (\<exists>e. bt_get (rl_events r) i = Some e \<and> p \<in> set (sev_parents e))"
  by (auto simp: causes_def history_def bt_contains_def parents_of_def bt_get_mapped)

lemma history_ok:
  assumes "replica_ok S r"
  shows "bt_ok (history r)" and "\<forall>(i, ps) \<in> set (history r). distinct ps"
proof -
  have "map fst (history r) = map fst (rl_events r)" by (simp add: history_def comp_def case_prod_unfold)
  then show "bt_ok (history r)" using assms by (simp add: replica_ok_def bt_ok_def)
  show "\<forall>(i, ps) \<in> set (history r). distinct ps"
    by (auto simp: history_def bs_ok_distinct bs_ok_extend)
qed

text \<open>What an event reaches through its parents.\<close>

lemma ancestors_reached:
  assumes "collect_ancestors events pending taken = Inr taken'"
  shows "bt_contains taken' i \<Longrightarrow> bt_contains taken i
    \<or> (\<exists>q \<in> set pending. (i, q) \<in> {(p, j). \<exists>e. bt_get events j = Some e \<and> p \<in> set (sev_parents e)}\<^sup>*)"
  using assms
proof (induction events pending taken rule: collect_ancestors.induct)
  case (2 events j pending taken)
  let ?R = "{(p, j). \<exists>e. bt_get events j = Some e \<and> p \<in> set (sev_parents e)}"
  show ?case
  proof (cases "bt_contains taken j")
    case True
    with 2 show ?thesis by auto
  next
    case False
    with "2.prems" obtain e where e: "bt_get events j = Some e"
      "collect_ancestors events (rev (sev_parents e) @ pending) (bt_insert j e taken) = Inr taken'"
      by (auto split: option.splits)
    from "2.IH"(2) [OF False e(1) "2.prems"(1) e(2)] consider "bt_contains taken i" | "i = j"
      | q where "q \<in> set (sev_parents e)" "(i, q) \<in> ?R\<^sup>*" | q where "q \<in> set pending" "(i, q) \<in> ?R\<^sup>*"
      by auto
    then show ?thesis
    proof cases
      case (3 q)
      then have "(q, j) \<in> ?R" using e(1) by simp
      with 3(2) have "(i, j) \<in> ?R\<^sup>*" by (rule rtrancl_into_rtrancl)
      then show ?thesis by auto
    qed auto
  qed
qed simp

lemma ancestors_before:
  assumes "ancestors r (sev_parents e) = Inr before" and "bt_get (rl_events r) (sev_id e) = Some e"
    and "bt_contains (rl_events before) p"
  shows "(p, sev_id e) \<in> (causes (history r))\<^sup>+"
proof -
  let ?R = "{(p, j). \<exists>e. bt_get (rl_events r) j = Some e \<and> p \<in> set (sev_parents e)}"
  have R: "?R = causes (history r)" by (auto simp: history_causes)
  from assms(1) obtain es where es: "collect_ancestors (rl_events r) (rev (sev_parents e)) [] = Inr es"
    "rl_events before = es" by (auto simp: ancestors_def map_sum_Inr)
  from ancestors_reached [OF es(1), of p] assms(3) es(2) obtain q where
    "q \<in> set (sev_parents e)" "(p, q) \<in> ?R\<^sup>*" by auto
  moreover from this(1) assms(2) have "(q, sev_id e) \<in> ?R" by auto
  ultimately have "(p, sev_id e) \<in> ?R\<^sup>+" by (simp add: rtrancl_into_trancl1)
  then show ?thesis unfolding R .
qed

section \<open>Decisions\<close>

lemma resolutions_iff:
  assumes "replica_ok S r"
  shows "(e, x) \<in> set (resolutions r) \<longleftrightarrow> bt_get (rl_events r) (sev_id e) = Some e \<and> sev_payload e = PL_Resolution x"
proof -
  have "bt_ok (rl_events r)" "\<forall>(i, e) \<in> set (rl_events r). sev_id e = i"
    using assms by (auto simp: replica_ok_def)
  then have "e \<in> set (bt_values (rl_events r)) \<longleftrightarrow> bt_get (rl_events r) (sev_id e) = Some e"
    by (auto simp: bt_values_iff bt_get_iff_in_set)
  moreover have "(case sev_payload a of PL_Resolution y \<Rightarrow> Some (a, y) | _ \<Rightarrow> None) = Some (e, x)
      \<longleftrightarrow> a = e \<and> sev_payload e = PL_Resolution x" for a
    by (cases "sev_payload a") auto
  ultimately show ?thesis by (auto simp: resolutions_def in_map_filter)
qed

lemma map_filter_mono_sorted:
  assumes "sorted_wrt (\<lambda>a b. f a < f b) xs" and "\<And>x y. F x = Some y \<Longrightarrow> g y = f x"
  shows "sorted_wrt (\<lambda>a b. g a < g b) (List.map_filter F xs)"
  using assms(1)
proof (induction xs)
  case (Cons x xs)
  then show ?case using assms(2) by (auto simp: map_filter_simps in_map_filter split: option.splits)
qed (simp add: map_filter_simps)

lemma resolutions_sorted:
  assumes "replica_ok S r"
  shows "sorted_wrt (\<lambda>a b. sev_id (fst a) < sev_id (fst b)) (resolutions r)"
proof -
  have "map sev_id (bt_values (rl_events r)) = map fst (rl_events r)"
    using assms by (auto simp: replica_ok_def bt_values_def)
  then have "sorted_wrt (\<lambda>a b. sev_id a < sev_id b) (bt_values (rl_events r))"
    using assms by (metis bt_ok_def replica_ok_def sorted_wrt_map)
  then show ?thesis unfolding resolutions_def
    by (rule map_filter_mono_sorted) (auto split: payload.splits)
qed

lemma applicable_filter:
  "applicable S r b xs = Inr ys \<Longrightarrow>
     ys = filter (\<lambda>(e, x). resolution_applies S r b e x = Inr True) xs
     \<and> (\<forall>(e, x) \<in> set xs. \<exists>here. resolution_applies S r b e x = Inr here)"
proof (induction xs arbitrary: ys)
  case (Cons g xs)
  obtain e x where g: "g = (e, x)" by (cases g)
  with Cons.prems obtain here zs where "resolution_applies S r b e x = Inr here" "applicable S r b xs = Inr zs"
    "ys = (if here then (e, x) # zs else zs)" by (auto simp: map_sum_Inr split: sum.splits)
  with Cons.IH [of zs] g show ?case by auto
qed simp

text \<open>The versions that a decision was made on are the versions of the present records.\<close>

definition current_inputs :: "sync_codec \<Rightarrow> intel_bundle \<Rightarrow> job \<Rightarrow> bool" where
  "current_inputs S b j \<longleftrightarrow> (\<exists>l q. find_record b (jb_left j) = Some l \<and> find_record b (jb_right j) = Some q
     \<and> record_version S l = jb_left_version j \<and> record_version S q = jb_right_version j)"

lemma applies_current:
  assumes "resolution_applies S r b e x = Inr here"
  shows "here = current_inputs S b (re_job x)"
    and "\<exists>before. ancestors r (sev_parents e) = Inr before \<and> list_all (is_resolution before) (jb_prior (re_job x))"
  using assms
  by (auto simp: resolution_applies_def current_inputs_def pair_job_def Let_def
      split: sum.splits option.splits if_splits)

lemma group_get:
  fixes k :: "'a \<Rightarrow> 'k::linorder"
  shows "bt_ok m \<Longrightarrow> bt_ok (foldl (\<lambda>m g. bt_alter (k g) [] (\<lambda>gs. gs @ [g]) m) m xs)
    \<and> bt_get (foldl (\<lambda>m g. bt_alter (k g) [] (\<lambda>gs. gs @ [g]) m) m xs) i =
      (if bt_get m i = None \<and> filter (\<lambda>g. k g = i) xs = [] then None
       else Some ((case bt_get m i of None \<Rightarrow> [] | Some gs \<Rightarrow> gs) @ filter (\<lambda>g. k g = i) xs))"
proof (induction xs arbitrary: m)
  case Nil
  then show ?case by (auto split: option.splits)
next
  case (Cons x xs)
  from Cons.IH [OF bt_ok_alter [OF Cons.prems]] show ?case by (auto split: option.splits)
qed

text \<open>A decision is superseded by those that list it as considered; the last ones are not.\<close>

lemma maximal_iff:
  "(e, x) \<in> set (maximal xs) \<longleftrightarrow> (e, x) \<in> set xs \<and> (\<forall>(e', x') \<in> set xs. sev_id e \<notin> set (jb_prior (re_job x')))"
  by (force simp: maximal_def)

lemma maximal_exists:
  assumes ok: "replica_ok S r" and acyc: "acyclic (causes (history r))" and closed: "closed_dag (history r)"
    and "xs \<noteq> []" and res: "\<And>e x. (e, x) \<in> set xs \<Longrightarrow> (e, x) \<in> set (resolutions r)
      \<and> (\<exists>here. resolution_applies S r b e x = Inr here)"
  shows "maximal xs \<noteq> []"
proof -
  have wf: "wf_dag (history r)" using history_ok [OF ok] closed by (simp add: wf_dag_iff)
  have "finite (causes (history r))" by (rule finite_causes [OF wf])
  then have "wf (((causes (history r))\<inverse>)\<^sup>+)" using acyc by (simp add: finite_acyclic_wf_converse wf_trancl)
  moreover obtain g where "g \<in> set xs" using \<open>xs \<noteq> []\<close> by (cases xs) auto
  then have "sev_id (fst g) \<in> (sev_id \<circ> fst) ` set xs" by simp
  ultimately obtain i where i: "i \<in> (sev_id \<circ> fst) ` set xs"
    and last: "\<And>j. (j, i) \<in> ((causes (history r))\<inverse>)\<^sup>+ \<Longrightarrow> j \<notin> (sev_id \<circ> fst) ` set xs"
    using wfE_min [of "((causes (history r))\<inverse>)\<^sup>+" _ "(sev_id \<circ> fst) ` set xs"] by metis
  then obtain e x where ex: "(e, x) \<in> set xs" "i = sev_id e" by auto
  have "sev_id e \<notin> set (jb_prior (re_job x'))" if m: "(e', x') \<in> set xs" for e' x'
  proof
    assume "sev_id e \<in> set (jb_prior (re_job x'))"
    with res [OF m] obtain before where "ancestors r (sev_parents e') = Inr before" "is_resolution before (sev_id e)"
      using applies_current(2) by (metis list_all_iff)
    moreover from this(2) have "bt_contains (rl_events before) (sev_id e)"
      by (auto simp: is_resolution_def bt_contains_def split: option.splits)
    moreover have "bt_get (rl_events r) (sev_id e') = Some e'" using res [OF m] resolutions_iff [OF ok] by blast
    ultimately have "(sev_id e, sev_id e') \<in> (causes (history r))\<^sup>+" by (metis ancestors_before)
    then have "(sev_id e', i) \<in> ((causes (history r))\<inverse>)\<^sup>+" by (simp add: ex(2) trancl_converse)
    with last m show False by force
  qed
  with ex(1) have "(e, x) \<in> set (maximal xs)" by (auto simp: maximal_iff)
  then show ?thesis by auto
qed

section \<open>What a view holds\<close>

definition grouped ::
  "(signed_event \<times> resolution) list \<Rightarrow> (string \<times> string, (signed_event \<times> resolution) list) btree" where
  "grouped xs = foldl (\<lambda>m g. bt_alter (pair_of g) [] (\<lambda>gs. gs @ [g]) m) [] xs"

definition present :: "sync_codec \<Rightarrow> replica \<Rightarrow> intel_bundle \<Rightarrow> (signed_event \<times> resolution) list" where
  "present S r b = filter (\<lambda>(e, x). current_inputs S b (re_job x)) (resolutions r)"

lemma project_result:
  assumes ok: "replica_ok S r" and "project S r = Inr v"
  shows "baseline S r = Inr (vw_bundle v)" and "closed_dag (history r)" and "acyclic (causes (history r))"
    and "(e, x) \<in> set (resolutions r) \<Longrightarrow> \<exists>here. resolution_applies S r (vw_bundle v) e x = Inr here"
    and "vw_relationships v = map relate (grouped (present S r (vw_bundle v)))"
    and "vw_digest v = replica_digest S r" and "vw_heads v = heads r"
    and "vw_receipts v = map (\<lambda>(e, x). (sev_id e, x)) (resolutions r)"
proof -
  obtain ids bd xs where o: "ordered (history r) (\<lambda>_. False) = Inr ids"
    and b: "baseline S r = Inr bd" and xs: "applicable S r bd (resolutions r) = Inr xs"
    and v: "v = \<lparr>vw_digest = replica_digest S r, vw_heads = heads r, vw_bundle = bd,
      vw_relationships = map relate (grouped xs), vw_receipts = map (\<lambda>(e, x). (sev_id e, x)) (resolutions r)\<rparr>"
    using assms(2) by (auto simp: project_def history_def grouped_def Let_def split: sum.splits)
  note f = applicable_filter [OF xs]
  have here: "\<exists>here. resolution_applies S r bd e x = Inr here" if "(e, x) \<in> set (resolutions r)" for e x
    using f that by fastforce
  have "(resolution_applies S r bd e x = Inr True) = current_inputs S bd (re_job x)"
    if "(e, x) \<in> set (resolutions r)" for e x
    using here [OF that] applies_current(1) by fastforce
  then have "xs = present S r bd" using f by (auto simp: present_def intro: filter_cong)
  then show "baseline S r = Inr (vw_bundle v)" "vw_relationships v = map relate (grouped (present S r (vw_bundle v)))"
    "vw_digest v = replica_digest S r" "vw_heads v = heads r"
    "vw_receipts v = map (\<lambda>(e, x). (sev_id e, x)) (resolutions r)" using b by (simp_all add: v)
  show "closed_dag (history r)" "acyclic (causes (history r))" by (rule ordered_ok [OF history_ok [OF ok] o])+
  show "\<exists>here. resolution_applies S r (vw_bundle v) e x = Inr here" if "(e, x) \<in> set (resolutions r)"
    using here [OF that] by (simp add: v)
qed

text \<open>The decisions on two records that were made on the versions the records have now.\<close>

definition deciding :: "sync_codec \<Rightarrow> replica \<Rightarrow> intel_bundle \<Rightarrow> string \<times> string \<Rightarrow> (signed_event \<times> resolution) list" where
  "deciding S r b k = filter (\<lambda>(e, x). current_inputs S b (re_job x) \<and> pair_of (e, x) = k) (resolutions r)"

lemma relationship_deciding:
  assumes ok: "replica_ok S r" and v: "project S r = Inr v"
  shows "q \<in> set (vw_relationships v) \<longleftrightarrow> (\<exists>k. deciding S r (vw_bundle v) k \<noteq> [] \<and> q = relate (k, deciding S r (vw_bundle v) k))"
    and "distinct (map (\<lambda>q. (rs_left q, rs_right q)) (vw_relationships v))"
    and "deciding S r (vw_bundle v) k \<noteq> [] \<Longrightarrow> maximal (deciding S r (vw_bundle v) k) \<noteq> []"
proof -
  note p = project_result [OF ok v]
  let ?groups = "grouped (present S r (vw_bundle v))"
  have d: "filter (\<lambda>g. pair_of g = k) (present S r (vw_bundle v)) = deciding S r (vw_bundle v) k" for k
    unfolding present_def deciding_def filter_filter by (rule filter_cong) auto
  have g: "bt_ok ?groups" "bt_get ?groups k = (if deciding S r (vw_bundle v) k = [] then None
      else Some (deciding S r (vw_bundle v) k))" for k
    using group_get [OF bt_ok_Nil, of pair_of "present S r (vw_bundle v)"] by (simp_all add: grouped_def d)
  have mem: "(k, ys) \<in> set ?groups \<longleftrightarrow> ys = deciding S r (vw_bundle v) k \<and> ys \<noteq> []" for k ys
    using g by (auto simp: bt_get_iff_in_set [symmetric] split: if_splits)
  have "q \<in> relate ` set ?groups \<longleftrightarrow> (\<exists>k ys. (k, ys) \<in> set ?groups \<and> q = relate (k, ys))"
  proof
    assume "q \<in> relate ` set ?groups"
    then obtain g where "g \<in> set ?groups" "q = relate g" by blast
    then have "(fst g, snd g) \<in> set ?groups \<and> q = relate (fst g, snd g)" by simp
    then show "\<exists>k ys. (k, ys) \<in> set ?groups \<and> q = relate (k, ys)" by blast
  qed blast
  also have "\<dots> \<longleftrightarrow> (\<exists>k. deciding S r (vw_bundle v) k \<noteq> [] \<and> q = relate (k, deciding S r (vw_bundle v) k))"
    unfolding mem by blast
  finally show "q \<in> set (vw_relationships v) \<longleftrightarrow>
      (\<exists>k. deciding S r (vw_bundle v) k \<noteq> [] \<and> q = relate (k, deciding S r (vw_bundle v) k))"
    by (simp add: p(5))
  have "map (\<lambda>q. (rs_left q, rs_right q)) (vw_relationships v) = map fst ?groups"
    by (simp add: p(5) relate_def Let_def)
  then show "distinct (map (\<lambda>q. (rs_left q, rs_right q)) (vw_relationships v))"
    using g(1) by (simp add: bt_ok_distinct)
  assume "deciding S r (vw_bundle v) k \<noteq> []"
  then show "maximal (deciding S r (vw_bundle v) k) \<noteq> []"
  proof (rule maximal_exists [OF ok p(3,2)])
    fix e x assume "(e, x) \<in> set (deciding S r (vw_bundle v) k)"
    with p(4) show "(e, x) \<in> set (resolutions r) \<and> (\<exists>here. resolution_applies S r (vw_bundle v) e x = Inr here)"
      by (auto simp: deciding_def)
  qed
qed

lemma remdups_one:
  assumes "xs \<noteq> []" and "\<not> 1 < length (remdups xs)"
  shows "\<exists>a. remdups xs = [a] \<and> (\<forall>x \<in> set xs. x = a)"
proof (cases "remdups xs")
  case (Cons a ys)
  with assms(2) have one: "remdups xs = [a]" by simp
  then have "set xs = {a}" by (metis list.set(1) list.set(2) set_remdups)
  with one show ?thesis by simp
qed (use assms(1) in simp)

lemma remdups_many: "1 < length (remdups xs) \<Longrightarrow> \<exists>a \<in> set xs. \<exists>b \<in> set xs. a \<noteq> b"
proof -
  assume many: "1 < length (remdups xs)"
  then obtain a ys where a: "remdups xs = a # ys" by (cases "remdups xs") auto
  with many obtain b zs where b: "ys = b # zs" by (cases ys) auto
  have "distinct (a # b # zs)" using distinct_remdups [of xs] by (simp only: a b)
  then have "a \<noteq> b" by simp
  moreover have "{a, b} \<subseteq> set xs" using set_remdups [of xs] by (auto simp: a b)
  ultimately show ?thesis by auto
qed

lemma relate_fields:
  "rs_left (relate (k, ys)) = fst k" "rs_right (relate (k, ys)) = snd k"
  "rs_receipts (relate (k, ys)) = map (sev_id \<circ> fst) (maximal ys)"
  "rs_unresolved (relate (k, ys)) \<longleftrightarrow> 1 < length (remdups (map (re_action \<circ> snd) (maximal ys)))"
  "rs_action (relate (k, ys)) = (case remdups (map (re_action \<circ> snd) (maximal ys)) of [a] \<Rightarrow> a | _ \<Rightarrow> AC_Abstain)"
  by (simp_all add: relate_def Let_def)

text \<open>
  What the history says of two records, as sets of events: the decisions on the pair that
  were made on the versions the records have in the view, and those of them that none of
  these decisions had considered.
\<close>

definition decisions_on :: "sync_codec \<Rightarrow> replica \<Rightarrow> intel_bundle \<Rightarrow> string \<times> string \<Rightarrow> (signed_event \<times> resolution) set" where
  "decisions_on S r b k = {(e, x). bt_get (rl_events r) (sev_id e) = Some e \<and> sev_payload e = PL_Resolution x
     \<and> (jb_left (re_job x), jb_right (re_job x)) = k
     \<and> (\<exists>l \<in> set (bu_records b). in_id l = fst k \<and> record_version S l = jb_left_version (re_job x))
     \<and> (\<exists>q \<in> set (bu_records b). in_id q = snd k \<and> record_version S q = jb_right_version (re_job x))}"

definition standing :: "sync_codec \<Rightarrow> replica \<Rightarrow> intel_bundle \<Rightarrow> string \<times> string \<Rightarrow> (signed_event \<times> resolution) set" where
  "standing S r b k = {(e, x) \<in> decisions_on S r b k.
     \<forall>(e', x') \<in> decisions_on S r b k. sev_id e \<notin> set (jb_prior (re_job x'))}"

lemma find_record_iff:
  assumes "distinct (map in_id (bu_records b))"
  shows "find_record b i = Some l \<longleftrightarrow> l \<in> set (bu_records b) \<and> in_id l = i"
proof
  assume l: "l \<in> set (bu_records b) \<and> in_id l = i"
  then obtain l' where l': "find_record b i = Some l'"
    by (cases "find_record b i") (auto simp: find_record_def find_None_iff)
  then have "l' \<in> set (bu_records b)" "in_id l' = i" by (auto simp: find_record_def dest: find_SomeD)
  with l assms have "l' = l" by (auto simp: distinct_map inj_on_def)
  with l' show "find_record b i = Some l" by simp
qed (auto simp: find_record_def dest: find_SomeD)

lemma deciding_set:
  assumes "replica_ok S r" and "distinct (map in_id (bu_records b))"
  shows "set (deciding S r b k) = decisions_on S r b k"
  using resolutions_iff [OF assms(1)]
  by (auto simp: deciding_def decisions_on_def current_inputs_def pair_of_def find_record_iff [OF assms(2)]) blast

lemma standing_set:
  assumes "replica_ok S r" and "distinct (map in_id (bu_records b))"
  shows "set (maximal (deciding S r b k)) = standing S r b k"
  unfolding standing_def deciding_set [OF assms, symmetric] by (auto simp: maximal_iff)

lemma ascending_maximal:
  assumes "replica_ok S r"
  shows "ascending (map (sev_id \<circ> fst) (maximal (deciding S r b k)))"
  using resolutions_sorted [OF assms]
  by (simp add: ascending_def maximal_def deciding_def Let_def sorted_wrt_map sorted_wrt_filter)

text \<open>
  C8. A view explains itself. It exists only for a complete history without cycles, and its
  records are the baseline of that history. There is exactly one relationship for each pair of
  records with a decision made on the versions the records have in the view. Its receipts are
  the ids, ascending, of the decisions on the pair that no decision on the pair considered,
  and there is at least one. It is unresolved exactly when two of these disagree, and then it
  abstains; otherwise it takes the action of all of them.
\<close>

theorem view_relationships_backed:
  assumes "replica_ok S r" and "project S r = Inr v"
  shows "closed_dag (history r) \<and> acyclic (causes (history r)) \<and> baseline S r = Inr (vw_bundle v)
    \<and> (\<lambda>q. (rs_left q, rs_right q)) ` set (vw_relationships v) = {k. decisions_on S r (vw_bundle v) k \<noteq> {}}
    \<and> distinct (map (\<lambda>q. (rs_left q, rs_right q)) (vw_relationships v))
    \<and> (\<forall>q \<in> set (vw_relationships v).
        (let H = standing S r (vw_bundle v) (rs_left q, rs_right q) in
         H \<noteq> {} \<and> set (rs_receipts q) = (sev_id \<circ> fst) ` H \<and> ascending (rs_receipts q)
         \<and> (rs_unresolved q \<longleftrightarrow> (\<exists>(e, x) \<in> H. \<exists>(e', x') \<in> H. re_action x \<noteq> re_action x'))
         \<and> (if rs_unresolved q then rs_action q = AC_Abstain else \<forall>(e, x) \<in> H. rs_action q = re_action x)))"
proof (intro conjI ballI)
  show "closed_dag (history r)" "acyclic (causes (history r))" and base: "baseline S r = Inr (vw_bundle v)"
    by (rule project_result [OF assms])+
  from baseline_result [OF base] have ids: "distinct (map in_id (bu_records (vw_bundle v)))"
    by (meson bundle_valid(1))
  note rel = relationship_deciding [OF assms] and sets = deciding_set [OF assms(1) ids] standing_set [OF assms(1) ids]
  show "distinct (map (\<lambda>q. (rs_left q, rs_right q)) (vw_relationships v))" by (rule rel(2))
  show "(\<lambda>q. (rs_left q, rs_right q)) ` set (vw_relationships v) = {k. decisions_on S r (vw_bundle v) k \<noteq> {}}"
    unfolding sets(1) [symmetric] set_empty by (force simp: rel(1) relate_fields)
  fix q assume "q \<in> set (vw_relationships v)"
  then obtain k where k: "deciding S r (vw_bundle v) k \<noteq> []" "q = relate (k, deciding S r (vw_bundle v) k)"
    by (auto simp: rel(1))
  let ?hs = "maximal (deciding S r (vw_bundle v) k)" and ?H = "standing S r (vw_bundle v) k"
  let ?as = "map (re_action \<circ> snd) ?hs"
  have key: "(rs_left q, rs_right q) = k" by (simp add: k(2) relate_fields)
  have ne: "?hs \<noteq> []" by (rule rel(3) [OF k(1)])
  have as: "set ?as = (re_action \<circ> snd) ` ?H" by (simp add: sets(2))
  have "rs_unresolved q \<longleftrightarrow> (\<exists>a \<in> set ?as. \<exists>b \<in> set ?as. a \<noteq> b)"
    unfolding k(2) relate_fields using remdups_one [of ?as] remdups_many [of ?as] ne by (metis Nil_is_map_conv)
  then have disputed: "rs_unresolved q \<longleftrightarrow> (\<exists>(e, x) \<in> ?H. \<exists>(e', x') \<in> ?H. re_action x \<noteq> re_action x')"
    unfolding as by (simp add: split_beta)
  have "if rs_unresolved q then rs_action q = AC_Abstain else \<forall>a \<in> set ?as. rs_action q = a"
  proof (cases "1 < length (remdups ?as)")
    case True
    then show ?thesis by (auto simp: k(2) relate_fields split: list.splits)
  next
    case False
    with ne remdups_one [of ?as] obtain a where "remdups ?as = [a]" "\<forall>x \<in> set ?as. x = a" by auto
    then show ?thesis by (simp add: k(2) relate_fields)
  qed
  then have "if rs_unresolved q then rs_action q = AC_Abstain else \<forall>(e, x) \<in> ?H. rs_action q = re_action x"
    unfolding as by (simp add: split_beta)
  moreover have "set (rs_receipts q) = (sev_id \<circ> fst) ` ?H" "ascending (rs_receipts q)"
    using ascending_maximal [OF assms(1)] by (simp_all add: k(2) relate_fields sets(2))
  moreover have "?H \<noteq> {}" using ne sets(2) [of k] by auto
  ultimately show "let H = standing S r (vw_bundle v) (rs_left q, rs_right q) in
         H \<noteq> {} \<and> set (rs_receipts q) = (sev_id \<circ> fst) ` H \<and> ascending (rs_receipts q)
         \<and> (rs_unresolved q \<longleftrightarrow> (\<exists>(e, x) \<in> H. \<exists>(e', x') \<in> H. re_action x \<noteq> re_action x'))
         \<and> (if rs_unresolved q then rs_action q = AC_Abstain else \<forall>(e, x) \<in> H. rs_action q = re_action x)"
    using disputed unfolding key Let_def by blast
qed

section \<open>Reading a view back\<close>

lemma relationships_valid_iff:
  "relationships_valid ids receipts pairs rs \<longleftrightarrow>
     (\<forall>r \<in> set rs. rs_left r < rs_right r \<and> rs_left r \<in> set ids \<and> rs_right r \<in> set ids \<and> rs_receipts r \<noteq> []
        \<and> ascending (rs_receipts r) \<and> list_all is_digest (rs_receipts r)
        \<and> (\<forall>i \<in> set (rs_receipts r). \<exists>x. bt_get receipts i = Some x
            \<and> jb_left (re_job x) = rs_left r \<and> jb_right (re_job x) = rs_right r)
        \<and> (rs_unresolved r \<longrightarrow> rs_action r = AC_Abstain))
     \<and> distinct (map (\<lambda>r. (rs_left r, rs_right r)) rs)
     \<and> (\<lambda>r. (rs_left r, rs_right r)) ` set rs \<inter> set pairs = {}"
proof (induction rs arbitrary: pairs)
  case (Cons r rs)
  have "(case bt_get receipts i of None \<Rightarrow> False | Some x \<Rightarrow> P x) \<longleftrightarrow> (\<exists>x. bt_get receipts i = Some x \<and> P x)" for i P
    by (cases "bt_get receipts i") auto
  then show ?case by (auto simp: Cons.IH list_all_iff)
qed simp

lemma event_parts:
  assumes "replica_ok S r" and "bt_get (rl_events r) i = Some e"
  shows "sev_id e = i" and "event_validate S (rl_user r) (rl_scope r) e = Inr ()"
  using assms by (auto simp: replica_ok_def dest!: bt_get_in_set)

lemma event_id_digest:
  assumes "\<And>m. is_digest (cx_hash (sx_codec S) m)" and "replica_ok S r" and "bt_contains (rl_events r) i"
  shows "is_digest i"
proof -
  from assms(3) obtain e where "bt_get (rl_events r) i = Some e" by (auto simp: bt_contains_iff_Some)
  from event_parts [OF assms(2) this] have "i = event_identity S e" by (auto simp: event_validate_def)
  then show ?thesis using assms(1) by (simp add: event_identity_def sha256_hex_def)
qed

lemma resolution_parts:
  assumes "replica_ok S r" and "(e, x) \<in> set (resolutions r)"
  shows "resolution_validate S x = Inr ()" and "jb_scope (re_job x) = rl_scope r"
    and "jb_left (re_job x) < jb_right (re_job x)" and "bt_contains (rl_events r) (sev_id e)"
proof -
  from assms have e: "bt_get (rl_events r) (sev_id e) = Some e" "sev_payload e = PL_Resolution x"
    by (auto simp: resolutions_iff)
  from event_parts(2) [OF assms(1) e(1)] have "payload_validate S (rl_scope r) (sev_payload e) = Inr ()"
    by (auto simp: event_validate_def)
  then show v: "resolution_validate S x = Inr ()" and "jb_scope (re_job x) = rl_scope r"
    by (auto simp: payload_validate_def e(2) split: if_splits)
  from v have "job_validate S (re_job x) = Inr ()"
    by (cases "job_validate S (re_job x)") (auto simp: resolution_validate_def)
  then show "jb_left (re_job x) < jb_right (re_job x)" by (auto simp: job_validate_def split: if_splits)
  show "bt_contains (rl_events r) (sev_id e)" using e(1) by (simp add: bt_contains_def)
qed

lemma receipts_get:
  assumes "replica_ok S r" and "(e, x) \<in> set (resolutions r)"
  shows "bt_get (map (\<lambda>(e, x). (sev_id e, x)) (resolutions r)) (sev_id e) = Some x"
proof -
  have "bt_ok (map (\<lambda>(e, x). (sev_id e, x)) (resolutions r))"
    using resolutions_sorted [OF assms(1)] by (simp add: bt_ok_def sorted_wrt_map case_prod_unfold)
  then show ?thesis using assms(2) by (force simp: bt_get_iff_in_set)
qed

lemma find_record_in: "find_record b i = Some l \<Longrightarrow> i \<in> in_id ` set (bu_records b)"
  by (auto simp: find_record_def dest!: find_SomeD)

text \<open>
  C33. What a replica projects can be read back: every check that a reader applies to a stored
  view passes on a projected one, the replay of the records' kinds, contradictions and
  supersessions from the merged receipts included. Digests are hex digests, receipts with one
  id and equal JSON are equal, and each publication of the history holds the records of the
  receipts that admitted one against another, as every assessed bundle does.
\<close>

theorem projected_view_reads_back:
  assumes "replica_ok S r" and "project S r = Inr v" and "\<And>m. is_digest (cx_hash (sx_codec S) m)"
    and "faithful_receipts S (receipts_in (publications r))"
    and "\<forall>p \<in> set (publications r). keeps_admitted (sx_codec S) (pb_bundle p)"
  shows "view_validate S v = Inr ()"
proof -
  note p = project_result [OF assms(1,2)] and rel = relationship_deciding [OF assms(1,2)]
  have b: "bundle_validate (sx_codec S) (vw_bundle v) = Inr ()" "bu_scope (vw_bundle v) = rl_scope r"
    using baseline_result [OF p(1)] by blast+
  note dig = event_id_digest [OF assms(3,1)]
  have heads: "length (vw_heads v) \<le> MAX_EVENTS" "ascending (vw_heads v)" "list_all is_digest (vw_heads v)"
  proof -
    have "length (heads r) \<le> length (rl_events r)"
      using length_filter_le [of _ "bt_keys (rl_events r)"] by (simp add: heads_def Let_def bt_keys_def)
    then show "length (vw_heads v) \<le> MAX_EVENTS" using assms(1) by (simp add: p(7) replica_ok_def)
    show "ascending (vw_heads v)"
      using assms(1) by (simp add: p(7) heads_def Let_def ascending_def replica_ok_def bt_ok_keys sorted_wrt_filter)
    show "list_all is_digest (vw_heads v)" using dig by (auto simp: p(7) heads_def Let_def list_all_iff bt_keys_iff)
  qed
  have "relationships_valid (bs_of (map in_id (bu_records (vw_bundle v)))) (vw_receipts v) [] (vw_relationships v)"
    unfolding relationships_valid_iff
  proof (intro conjI ballI)
    fix q assume "q \<in> set (vw_relationships v)"
    then obtain k where k: "deciding S r (vw_bundle v) k \<noteq> []" "q = relate (k, deciding S r (vw_bundle v) k)"
      by (auto simp: rel(1))
    let ?hs = "maximal (deciding S r (vw_bundle v) k)"
    have hs: "(e, x) \<in> set (resolutions r) \<and> current_inputs S (vw_bundle v) (re_job x)
        \<and> jb_left (re_job x) = rs_left q \<and> jb_right (re_job x) = rs_right q" if "(e, x) \<in> set ?hs" for e x
      using that by (auto simp: maximal_iff deciding_def pair_of_def k(2) relate_fields)
    have ne: "?hs \<noteq> []" by (rule rel(3) [OF k(1)])
    then obtain e x where ex: "(e, x) \<in> set ?hs" by (cases ?hs) auto
    from resolution_parts(3) [OF assms(1)] hs [OF ex] show "rs_left q < rs_right q" by metis
    from hs [OF ex] show "rs_left q \<in> set (bs_of (map in_id (bu_records (vw_bundle v))))"
      "rs_right q \<in> set (bs_of (map in_id (bu_records (vw_bundle v))))"
      using find_record_in by (fastforce simp: current_inputs_def)+
    have recs: "rs_receipts q = map (sev_id \<circ> fst) ?hs" by (simp add: k(2) relate_fields)
    then show "rs_receipts q \<noteq> []" "ascending (rs_receipts q)" using ne ascending_maximal [OF assms(1)] by simp_all
    show "list_all is_digest (rs_receipts q)"
      using hs resolution_parts(4) [OF assms(1)] dig by (fastforce simp: recs list_all_iff)
    show "rs_unresolved q \<longrightarrow> rs_action q = AC_Abstain" by (auto simp: k(2) relate_fields split: list.splits)
    fix i assume "i \<in> set (rs_receipts q)"
    then obtain e x where "(e, x) \<in> set ?hs" "i = sev_id e" by (auto simp: recs)
    with hs receipts_get [OF assms(1)] show "\<exists>x. bt_get (vw_receipts v) i = Some x
        \<and> jb_left (re_job x) = rs_left q \<and> jb_right (re_job x) = rs_right q"
      unfolding p(8) by blast
  qed (simp_all add: rel(2))
  moreover have "is_digest i \<and> jb_scope (re_job x) = bu_scope (vw_bundle v) \<and> resolution_validate S x = Inr ()"
    if "(i, x) \<in> set (vw_receipts v)" for i x
    using that resolution_parts [OF assms(1)] dig by (auto simp: p(8) b(2))
  moreover have "is_digest (vw_digest v)" using assms(3) by (simp add: p(6) replica_digest_def sha256_hex_def)
  ultimately have rest: "all_ok [refuse_unless (is_digest (vw_digest v) \<and> length (vw_heads v) \<le> MAX_EVENTS
         \<and> ascending (vw_heads v) \<and> list_all is_digest (vw_heads v)) ''invalid current view frontier'',
       refuse_unless (relationships_valid (bs_of (map in_id (bu_records (vw_bundle v)))) (vw_receipts v) []
         (vw_relationships v)) ''invalid current view relationship'',
       check_all (\<lambda>(i, x). all_ok
         [refuse_unless (is_digest i \<and> jb_scope (re_job x) = bu_scope (vw_bundle v))
            ''invalid semantic receipt scope/identity'',
          resolution_validate S x]) (vw_receipts v)] = Inr ()"
    using heads by auto
  have "validate_metadata (sx_codec S) (vw_bundle v) = Inr ()"
    by (rule baseline_metadata [OF assms(1) p(1) assms(4,5)])
  with b(1) rest show ?thesis by (simp add: view_validate_def)
qed

end
