(* ===== verification/Sync_Converge.thy ===== *)
theory Sync_Converge
  imports Sync_Exchange Sync_View
begin

text \<open>
  Two honest hosts of one owner converge: a session always ends within the rounds the code
  allows, and both stores then hold the union of the events and publish its view.
\<close>

section \<open>Pages of a replica\<close>

abbreviation sizes :: "sync_codec \<Rightarrow> signed_event list \<Rightarrow> nat" where
  "sizes S es \<equiv> sum_list (map (\<lambda>e. length (sx_event S e)) es)"

lemma page_events_prefix:
  assumes "\<forall>e \<in> set es. length (sx_event S e) \<le> MAX_EVENT_BYTES"
  shows "\<exists>k. page_events S bytes taken es = Inr (taken @ take k es)
    \<and> (bytes \<le> PAGE_BYTES \<longrightarrow> bytes + sizes S (take k es) \<le> PAGE_BYTES)
    \<and> (length taken \<le> 200 \<longrightarrow> length (taken @ take k es) \<le> 200)"
  using assms
proof (induction es arbitrary: bytes taken)
  case (Cons e es)
  let ?size = "length (sx_event S e)"
  show ?case
  proof (cases "PAGE_BYTES < bytes + ?size \<or> length taken = 200")
    case True
    then show ?thesis using Cons.prems by (intro exI [of _ 0]) (auto simp: Let_def)
  next
    case False
    have "\<forall>e \<in> set es. length (sx_event S e) \<le> MAX_EVENT_BYTES" using Cons.prems by simp
    from Cons.IH [OF this, of "bytes + ?size" "taken @ [e]"] obtain k where
      "page_events S (bytes + ?size) (taken @ [e]) es = Inr ((taken @ [e]) @ take k es)"
      "bytes + ?size \<le> PAGE_BYTES \<longrightarrow> bytes + ?size + sizes S (take k es) \<le> PAGE_BYTES"
      "length (taken @ [e]) \<le> 200 \<longrightarrow> length ((taken @ [e]) @ take k es) \<le> 200" by blast
    with False Cons.prems show ?thesis by (intro exI [of _ "Suc k"]) (auto simp: Let_def)
  qed
qed simp

lemma page_events_progress:
  assumes "\<forall>e \<in> set (e # es). length (sx_event S e) \<le> MAX_EVENT_BYTES"
  shows "page_events S 0 [] (e # es) \<noteq> Inr []"
proof -
  have "length (sx_event S e) \<le> PAGE_BYTES" "\<not> MAX_EVENT_BYTES < length (sx_event S e)"
    using assms by (simp_all add: MAX_EVENT_BYTES_def PAGE_BYTES_def)
  moreover obtain k where "page_events S (length (sx_event S e)) [e] es = Inr ([e] @ take k es)"
    using page_events_prefix [of es S "length (sx_event S e)" "[e]"] assms by auto
  ultimately show ?thesis by (simp add: Let_def)
qed

definition page_fits :: "sync_codec \<Rightarrow> page \<Rightarrow> bool" where
  "page_fits S p \<longleftrightarrow> length (pg_inventory p) \<le> MAX_EVENTS \<and> ascending (pg_inventory p)
     \<and> list_all is_digest (pg_inventory p) \<and> length (pg_events p) \<le> 200 \<and> sizes S (pg_events p) \<le> PAGE_BYTES"

lemma page_of_fits:
  assumes ok: "replica_ok S r" and dig: "\<forall>i \<in> fst ` set (rl_events r). is_digest i"
  obtains p where "page_of S r known done = Inr p" and "page_fits S p"
    and "pg_inventory p = bt_keys (rl_events r)" and "pg_done p \<longleftrightarrow> done \<and> pg_events p = []"
    and "(\<lambda>e. (sev_id e, e)) ` set (pg_events p) \<subseteq> {x \<in> set (rl_events r). fst x \<notin> set known}"
    and "pg_events p = [] \<Longrightarrow> {x \<in> set (rl_events r). fst x \<notin> set known} = {}"
proof -
  define es where "es = filter (\<lambda>e. sev_id e \<notin> set known) (bt_values (rl_events r))"
  have ev: "sev_id (snd x) = fst x \<and> length (sx_event S (snd x)) \<le> MAX_EVENT_BYTES" if "x \<in> set (rl_events r)" for x
    using ok that by (cases x) (fastforce simp: replica_ok_def event_validate_def)
  have mem: "e \<in> set es \<longleftrightarrow> (sev_id e, e) \<in> {x \<in> set (rl_events r). fst x \<notin> set known}" for e
  proof -
    have "e \<in> set (bt_values (rl_events r)) \<longleftrightarrow> (sev_id e, e) \<in> set (rl_events r)"
    proof
      assume "e \<in> set (bt_values (rl_events r))"
      then obtain i where i: "(i, e) \<in> set (rl_events r)" by (auto simp: bt_values_iff)
      with ev [OF i] show "(sev_id e, e) \<in> set (rl_events r)" by simp
    qed (auto simp: bt_values_iff)
    then show ?thesis by (auto simp: es_def)
  qed
  have small: "\<forall>e \<in> set es. length (sx_event S e) \<le> MAX_EVENT_BYTES"
  proof
    fix e assume "e \<in> set es"
    then have "(sev_id e, e) \<in> set (rl_events r)" by (simp add: mem)
    from ev [OF this] show "length (sx_event S e) \<le> MAX_EVENT_BYTES" by simp
  qed
  from page_events_prefix [OF this, of 0 "[]"] obtain k where
    k: "page_events S 0 [] es = Inr (take k es)" "sizes S (take k es) \<le> PAGE_BYTES" "length (take k es) \<le> 200" by auto
  define p where "p = \<lparr>pg_inventory = bt_keys (rl_events r), pg_events = take k es, pg_done = (done \<and> take k es = [])\<rparr>"
  have p: "pg_inventory p = bt_keys (rl_events r)" "pg_events p = take k es" "pg_done p \<longleftrightarrow> done \<and> pg_events p = []"
    by (simp_all add: p_def)
  show thesis
  proof (rule that [of p])
    show "page_of S r known done = Inr p" by (simp add: page_of_def es_def [symmetric] k(1) p_def)
    show "page_fits S p"
      using ok dig k(2,3) by (simp add: page_fits_def p replica_ok_def ascending_def bt_ok_def list_all_iff bt_keys_def)
    show "(\<lambda>e. (sev_id e, e)) ` set (pg_events p) \<subseteq> {x \<in> set (rl_events r). fst x \<notin> set known}"
      unfolding p(2) using mem by (blast dest: in_set_takeD)
    show "{x \<in> set (rl_events r). fst x \<notin> set known} = {}" if "pg_events p = []"
    proof (rule ccontr)
      assume "{x \<in> set (rl_events r). fst x \<notin> set known} \<noteq> {}"
      then obtain x where x: "x \<in> {x \<in> set (rl_events r). fst x \<notin> set known}" by blast
      with ev have "x = (sev_id (snd x), snd x)" by (cases x) auto
      with x have "snd x \<in> set es" by (simp only: mem)
      then obtain e fs where es: "es = e # fs" by (cases es) auto
      from page_events_progress [OF small [unfolded es]] k(1) that show False by (simp add: es p(2))
    qed
  qed (simp_all add: p)
qed

section \<open>The target\<close>

abbreviation tagged :: "signed_event list \<Rightarrow> (string \<times> signed_event) set" where
  "tagged es \<equiv> (\<lambda>e. (sev_id e, e)) ` set es"

definition sub_map :: "(string, signed_event) btree \<Rightarrow> (string, signed_event) btree \<Rightarrow> bool" where
  "sub_map n m \<longleftrightarrow> bt_ok n \<and> set n \<subseteq> set m"

text \<open>
  What the two histories must be: together a valid replica whose events can be serialized and
  parsed, of which every part without gaps gives a view of bounded size, under digests that
  differ for different parts.
\<close>

definition joint :: "sync_codec \<Rightarrow> (view \<Rightarrow> string) \<Rightarrow> string \<Rightarrow> string \<Rightarrow> (string, signed_event) btree \<Rightarrow> bool" where
  "joint S enc u sc m \<longleftrightarrow> replica_ok S (replica_of S u sc m) \<and> lossless S (set (bt_values m))
     \<and> (\<forall>i \<in> fst ` set m. is_digest i)
     \<and> (\<forall>n. sub_map n m \<and> \<not> missing_parents (replica_of S u sc n) \<longrightarrow>
          (\<exists>v. project S (replica_of S u sc n) = Inr v \<and> enc v \<noteq> [] \<and> length (enc v) \<le> MAX_REPLICA_BYTES
             \<and> is_digest (vw_digest v)))
     \<and> (\<forall>n k. sub_map n m \<and> sub_map k m
          \<and> replica_digest S (replica_of S u sc n) = replica_digest S (replica_of S u sc k) \<longrightarrow> n = k)"

text \<open>
  A store that takes part: its events belong to the target, no other owner's row or view has an
  identity that the exchange will write.
\<close>

definition participant ::
  "sync_codec \<Rightarrow> (view \<Rightarrow> string) \<Rightarrow> string \<Rightarrow> string \<Rightarrow> (string, signed_event) btree \<Rightarrow> replica_store
   \<Rightarrow> (string, signed_event) btree \<Rightarrow> bool" where
  "participant S enc u sc m st n \<longleftrightarrow> stored S u sc st n \<and> sub_map n m \<and> unclaimed S u sc st (set (bt_values m))
     \<and> (\<forall>k v. sub_map k m \<and> project S (replica_of S u sc k) = Inr v \<longrightarrow>
          bt_get (rs_views st) (vw_digest v) \<in> {None, Some (u, sc, enc v)})"

lemma project_complete: "project S r = Inr v \<Longrightarrow> \<not> missing_parents r \<and> vw_digest v = replica_digest S r"
proof -
  assume v: "project S r = Inr v"
  then obtain ids where "ordered (history r) (\<lambda>_. False) = Inr ids"
    by (auto simp: project_def history_def split: sum.splits)
  then have "\<forall>(i, ps) \<in> set (history r). \<forall>p \<in> set ps. bt_contains (history r) p"
    by (auto simp: ordered_def split: if_splits)
  moreover have "bt_contains (history r) p = bt_contains (rl_events r) p" for p
    by (simp add: history_def bt_contains_def bt_get_mapped)
  ultimately have "\<not> missing_parents r" by (fastforce simp: missing_parents_def history_def bt_values_def)
  moreover from v have "vw_digest v = replica_digest S r"
    by (auto simp: project_def Let_def split: sum.splits)
  ultimately show ?thesis by simp
qed

lemma sub_map_ok: "joint S enc u sc m \<Longrightarrow> sub_map n m \<Longrightarrow> replica_ok S (replica_of S u sc n)"
  by (auto simp: joint_def sub_map_def intro: sub_replica_ok)

lemma persist_all_stored:
  assumes tgt: "joint S enc u sc m" and "stored S u sc st n" and "sub_map n m" and "tagged es \<subseteq> set m"
    and "unclaimed S u sc st (set (bt_values m))"
  shows "\<exists>st' n'. persist_all S st u sc es = (st', Inr ()) \<and> stored S u sc st' n' \<and> sub_map n' m
    \<and> set n' = set n \<union> tagged es \<and> rs_views st' = rs_views st \<and> rs_active st' = rs_active st
    \<and> unclaimed S u sc st' (set (bt_values m))"
  using assms(2-5)
proof (induction es arbitrary: st n)
  case (Cons e es)
  have m: "replica_ok S (replica_of S u sc m)" "lossless S (set (bt_values m))" "bt_ok m" "bt_ok n"
    using tgt Cons.prems(2) by (auto simp: joint_def sub_map_def replica_ok_def)
  have e: "(sev_id e, e) \<in> set m" using Cons.prems(3) by simp
  then have em: "e \<in> set (bt_values m)" by (auto simp: bt_values_iff)
  have "fst x \<noteq> sev_id e \<or> x = (sev_id e, e)" if "x \<in> set n" for x
  proof -
    from that Cons.prems(2) have "x \<in> set m" by (auto simp: sub_map_def)
    then have "bt_get m (fst x) = Some (snd x)" using m(3) by (simp add: bt_get_iff_in_set)
    moreover have "bt_get m (sev_id e) = Some e" using m(3) e by (simp add: bt_get_iff_in_set)
    ultimately show ?thesis by (cases x) auto
  qed
  then have ins: "set (bt_insert (sev_id e) e n) = insert (sev_id e, e) (set n)"
    by (auto simp: set_bt_insert [OF m(4)])
  then have sub: "sub_map (bt_insert (sev_id e) e n) m"
    using Cons.prems(2) e m(4) by (auto simp: sub_map_def bt_ok_insert)
  have val: "event_validate S u sc e = Inr ()" using m(1) e by (auto simp: replica_ok_def)
  have dig: "is_digest (sev_id e)" using tgt e by (force simp: joint_def)
  have "insert e (set (bt_values n)) \<subseteq> set (bt_values m)"
    using em Cons.prems(2) by (auto simp: bt_values_def sub_map_def)
  then have less: "lossless S (insert e (set (bt_values n)))" by (rule lossless_mono [OF m(2)])
  have free: "unclaimed S u sc st {e}" using Cons.prems(4) em by (simp add: unclaimed_def)
  obtain st1 where st1: "persist_event S st u sc e = (st1, Inr ())" "stored S u sc st1 (bt_insert (sev_id e) e n)"
    "rs_views st1 = rs_views st" "rs_active st1 = rs_active st"
    "\<And>k. bt_get (rs_rows st1) k = (if k = sev_id e then Some (event_row S u sc e) else bt_get (rs_rows st) k)"
    by (rule persist_stored [OF Cons.prems(1) val less dig sub_map_ok [OF tgt sub] free]) (rule that; assumption)
  have "unclaimed S u sc st1 (set (bt_values m))"
    unfolding unclaimed_def
  proof
    fix x assume x: "x \<in> set (bt_values m)"
    then have "(sev_id x, x) \<in> set m" using m(1) by (auto simp: bt_values_iff replica_ok_def)
    with e m(3) have "x = e" if "sev_id x = sev_id e" using that by (metis bt_get_iff_in_set option.inject)
    then show "bt_get (rs_rows st1) (sev_id x) \<in> {None, Some (event_row S u sc x)}"
      using Cons.prems(4) x by (auto simp: st1(5) unclaimed_def)
  qed
  from Cons.IH [OF st1(2) sub _ this] Cons.prems(3) obtain st' n' where
    "persist_all S st1 u sc es = (st', Inr ())" "stored S u sc st' n'" "sub_map n' m"
    "set n' = insert (sev_id e, e) (set n) \<union> tagged es" "rs_views st' = rs_views st1" "rs_active st' = rs_active st1"
    "unclaimed S u sc st' (set (bt_values m))" by (auto simp: ins)
  with st1 show ?case by (intro exI [of _ st'] exI [of _ n']) auto
qed auto

lemma receive_all_sub:
  assumes tgt: "joint S enc u sc m" and sub: "sub_map n m" and es: "tagged es \<subseteq> set m"
    and n': "sub_map n' m" "set n' = set n \<union> tagged es"
  shows "receive_all S (replica_of S u sc n) es = (replica_of S u sc n', Inr ())"
proof -
  have m: "replica_ok S (replica_of S u sc m)" "lossless S (set (bt_values m))" "fits S m"
    using tgt by (auto simp: joint_def replica_ok_def fits_def replica_of_def)
  note ok = sub_map_ok [OF tgt]
  have val: "\<forall>e \<in> set es. (sev_id e, e) \<in> set m \<and> event_validate S u sc e = Inr ()"
    using es m(1) by (fastforce simp: replica_ok_def)
  then have "\<exists>r'. receive_all S (replica_of S u sc n) es = (r', Inr ())"
    using receive_all_in_target [OF m(3) ok [OF sub], of es] sub by (simp add: sub_map_def)
  then obtain r' where r': "receive_all S (replica_of S u sc n) es = (r', Inr ())" by blast
  have "lossless S (set es \<union> event_set (replica_of S u sc n))"
  proof (rule lossless_mono [OF m(2)])
    have "e \<in> set (bt_values m)" if "e \<in> set es" for e using es that by (auto simp: bt_values_iff)
    then show "set es \<union> event_set (replica_of S u sc n) \<subseteq> set (bt_values m)"
      using sub by (auto simp: sub_map_def bt_values_def)
  qed
  from receive_all_accepted [OF ok [OF sub] this r'] n' have "r' = replica_of S u sc n'"
    by (intro replica_eq [OF _ ok [OF n'(1)]]) auto
  with r' show ?thesis by simp
qed

section \<open>Taking in a page\<close>

text \<open>A host whose history has no gaps publishes its view.\<close>

definition published_view ::
  "sync_codec \<Rightarrow> (view \<Rightarrow> string) \<Rightarrow> string \<Rightarrow> string \<Rightarrow> replica_store \<Rightarrow> (string, signed_event) btree \<Rightarrow> bool" where
  "published_view S enc u sc st n \<longleftrightarrow>
     (\<forall>v. project S (replica_of S u sc n) = Inr v \<longrightarrow> replica_current st u sc = Some (vw_digest v, enc v))"

lemma target_view:
  assumes "joint S enc u sc m" and "sub_map n m" and "\<not> missing_parents (replica_of S u sc n)"
  obtains v where "project S (replica_of S u sc n) = Inr v" and "enc v \<noteq> []"
    and "length (enc v) \<le> MAX_REPLICA_BYTES" and "is_digest (vw_digest v)"
  using assms unfolding joint_def by blast

lemma target_digest:
  assumes "joint S enc u sc m" and "sub_map n m" and "sub_map k m"
    and "project S (replica_of S u sc n) = Inr v" and "project S (replica_of S u sc k) = Inr w"
    and "vw_digest v = vw_digest w"
  shows "v = w"
proof -
  have "replica_digest S (replica_of S u sc n) = replica_digest S (replica_of S u sc k)"
    using project_complete [OF assms(4)] project_complete [OF assms(5)] assms(6) by simp
  with assms(1-3) have "n = k" unfolding joint_def by blast
  with assms(4,5) show ?thesis by simp
qed

lemma accept_participant:
  assumes tgt: "joint S enc u sc m" and part: "participant S enc u sc m st n"
    and page: "page_validate p = Inr ()" and es: "tagged (pg_events p) \<subseteq> set m"
  shows "\<exists>st' n'. accept S enc st (replica_of S u sc n) p = (st', Inr (replica_of S u sc n'))
    \<and> participant S enc u sc m st' n' \<and> set n' = set n \<union> tagged (pg_events p) \<and> published_view S enc u sc st' n'"
proof -
  have st: "stored S u sc st n" "sub_map n m" "unclaimed S u sc st (set (bt_values m))"
    and slots: "\<And>k v. sub_map k m \<Longrightarrow> project S (replica_of S u sc k) = Inr v \<Longrightarrow>
      bt_get (rs_views st) (vw_digest v) \<in> {None, Some (u, sc, enc v)}"
    using part by (auto simp: participant_def)
  from persist_all_stored [OF tgt st(1,2) es st(3)] obtain st1 n' where
    per: "persist_all S st u sc (pg_events p) = (st1, Inr ())" and s1: "stored S u sc st1 n'" and n': "sub_map n' m"
    "set n' = set n \<union> tagged (pg_events p)" and same: "rs_views st1 = rs_views st"
    and free: "unclaimed S u sc st1 (set (bt_values m))" by blast
  note rec = receive_all_sub [OF tgt st(2) es n']
  have part1: "participant S enc u sc m st1 n'"
    unfolding participant_def same using s1 n'(1) free slots by blast
  show ?thesis
  proof (cases "missing_parents (replica_of S u sc n')")
    case True
    have none: "isl (project S (replica_of S u sc n'))"
    proof (cases "project S (replica_of S u sc n')")
      case (Inr v)
      with project_complete [OF Inr] True show ?thesis by simp
    qed simp
    then have "accept S enc st (replica_of S u sc n) p = (st1, Inr (replica_of S u sc n'))"
      using page rec per True by (simp add: accept_def)
    moreover have "published_view S enc u sc st1 n'" using none by (auto simp: published_view_def)
    ultimately show ?thesis using part1 n'(2) by blast
  next
    case False
    obtain v where v: "project S (replica_of S u sc n') = Inr v" "enc v \<noteq> []"
      "length (enc v) \<le> MAX_REPLICA_BYTES" "is_digest (vw_digest v)" by (rule target_view [OF tgt n'(1) False])
    have slot: "bt_get (rs_views st1) (vw_digest v) \<in> {None, Some (u, sc, enc v)}"
      using slots [OF n'(1) v(1)] by (simp add: same)
    obtain st2 where st2: "publish_current S enc st1 u sc = (st2, Inr v)" "stored S u sc st2 n'" "rs_rows st2 = rs_rows st1"
      "replica_current st2 u sc = Some (vw_digest v, enc v)"
      "\<And>i. bt_get (rs_views st2) i = (if i = vw_digest v then Some (u, sc, enc v) else bt_get (rs_views st1) i)"
      by (rule publish_stored [where enc = enc, OF s1 v slot]) (rule that; assumption)
    have "accept S enc st (replica_of S u sc n) p = (st2, Inr (replica_of S u sc n'))"
      using page rec per v(1) st2(1) by (simp add: accept_def False)
    moreover have "participant S enc u sc m st2 n'"
      unfolding participant_def
    proof (intro conjI allI impI)
      show "unclaimed S u sc st2 (set (bt_values m))" using free by (simp add: unclaimed_def st2(3))
      fix k w assume k: "sub_map k m \<and> project S (replica_of S u sc k) = Inr w"
      then have "w = v" if "vw_digest w = vw_digest v"
        using target_digest [OF tgt _ n'(1) _ v(1) that] by blast
      then show "bt_get (rs_views st2) (vw_digest w) \<in> {None, Some (u, sc, enc w)}"
        using slots k by (auto simp: st2(5) same)
    qed (use st2 n' in simp_all)
    moreover have "published_view S enc u sc st2 n'" using st2(4) v(1) by (simp add: published_view_def)
    ultimately show ?thesis using n'(2) by blast
  qed
qed

section \<open>Honest hosts\<close>

text \<open>
  What the two hosts and their wire must do: grants of the owner for the scope, signatures that
  verify, fresh challenges, the expected device, and a serializer that reads back every page of
  bounded size within the frame bound.
\<close>

definition honest :: "sync_codec \<Rightarrow> wire \<Rightarrow> string \<Rightarrow> string \<Rightarrow> host \<Rightarrow> bool" where
  "honest S W u sc h \<longleftrightarrow> own_user (ho_identity h) = u \<and> is_digest (ho_nonce h)
     \<and> grant_validate S (sy_grant (ho_identity h)) u sc = Inr ()
     \<and> (\<forall>b. sx_verify S (sg_device (sy_grant (ho_identity h))) wire_domain b
              (sy_sign (ho_identity h) wire_domain b) = Inr ())"

definition bodies :: "sync_codec \<Rightarrow> wire \<Rightarrow> signed_event set \<Rightarrow> json set" where
  "bodies S W es = insert hello_body (echo_body ` {n. is_digest n})
     \<union> wr_page W ` {p. page_fits S p \<and> set (pg_events p) \<subseteq> es}"

definition carries :: "sync_codec \<Rightarrow> wire \<Rightarrow> string \<Rightarrow> host \<Rightarrow> signed_event set \<Rightarrow> bool" where
  "carries S W sc h es \<longleftrightarrow>
     (\<forall>p. page_fits S p \<and> set (pg_events p) \<subseteq> es \<longrightarrow> wr_read W (wr_page W p) = Some p)
     \<and> (\<forall>nonce body. is_digest nonce \<and> body \<in> bodies S W es \<longrightarrow>
          0 < wr_size W (envelope_new W (ho_identity h) sc nonce body)
          \<and> wr_size W (envelope_new W (ho_identity h) sc nonce body) \<le> MAX_FRAME)"

lemma envelope_new_fields [simp]:
  "ev_version (envelope_new W me sc n b) = 1" "ev_grant (envelope_new W me sc n b) = sy_grant me"
  "ev_scope (envelope_new W me sc n b) = sc" "ev_nonce (envelope_new W me sc n b) = n"
  "ev_body (envelope_new W me sc n b) = b"
  by (simp_all add: envelope_new_def Let_def)

lemma envelope_honest:
  assumes "honest S W u sc h" and "is_digest n" and "case nonce of None \<Rightarrow> True | Some k \<Rightarrow> k = n"
    and "case device of None \<Rightarrow> True | Some d \<Rightarrow> d = sg_device (sy_grant (ho_identity h))"
  shows "envelope_validate S W u sc nonce device (envelope_new W (ho_identity h) sc n b) = Inr ()"
proof -
  let ?e = "envelope_new W (ho_identity h) sc n b"
  have "ev_signature ?e = sy_sign (ho_identity h) wire_domain (envelope_bytes W ?e)"
    by (simp add: envelope_new_def envelope_bytes_def Let_def)
  with assms show ?thesis by (auto simp: envelope_validate_def honest_def split: option.splits)
qed

lemma frames_pass:
  assumes "carries S W sc h es" and "is_digest n" and "b \<in> bodies S W es"
  shows "frame_out W (envelope_new W (ho_identity h) sc n b) = Inr (envelope_new W (ho_identity h) sc n b)"
    and "frame_in W (envelope_new W (ho_identity h) sc n b) = Inr (envelope_new W (ho_identity h) sc n b)"
proof -
  have "0 < wr_size W (envelope_new W (ho_identity h) sc n b)"
    "wr_size W (envelope_new W (ho_identity h) sc n b) \<le> MAX_FRAME"
    using assms unfolding carries_def by blast+
  then show "frame_out W (envelope_new W (ho_identity h) sc n b) = Inr (envelope_new W (ho_identity h) sc n b)"
    "frame_in W (envelope_new W (ho_identity h) sc n b) = Inr (envelope_new W (ho_identity h) sc n b)"
    by (simp_all add: frame_out_def frame_in_def)
qed

lemma page_body: "page_fits S p \<Longrightarrow> set (pg_events p) \<subseteq> es \<Longrightarrow> wr_page W p \<in> bodies S W es"
  by (auto simp: bodies_def)

lemma json_eq_refl_simple [simp]: "json_eq hello_body hello_body" "json_eq (echo_body n) (echo_body n)"
  by (simp_all add: hello_body_def echo_body_def)

section \<open>One round\<close>

lemma page_fits_valid: "page_fits S p \<Longrightarrow> page_validate p = Inr ()"
  by (simp add: page_fits_def page_validate_def)

lemma participant_load:
  assumes "joint S enc u sc m" and "participant S enc u sc m st n"
  shows "load_replica S st u sc = Inr (replica_of S u sc n)"
    and "replica_ok S (replica_of S u sc n)" and "\<forall>i \<in> fst ` set (rl_events (replica_of S u sc n)). is_digest i"
  using assms load_stored [of S u sc st n] by (auto simp: participant_def stored_def joint_def sub_map_def)

text \<open>The pages of participants hold events of the target.\<close>

lemma events_in_target: "tagged es \<subseteq> set m \<Longrightarrow> set es \<subseteq> set (bt_values m)"
proof
  fix e assume "tagged es \<subseteq> set m" "e \<in> set es"
  then have "(sev_id e, e) \<in> set m" by blast
  then show "e \<in> set (bt_values m)" by (auto simp: bt_values_iff)
qed

lemma round_step:
  assumes tgt: "joint S enc u sc m" and pa: "participant S enc u sc m sa na" and pb: "participant S enc u sc m sb nb"
    and ha: "honest S W u sc a" "carries S W sc a (set (bt_values m))"
    and hb: "honest S W u sc b" "carries S W sc b (set (bt_values m))"
    and dev: "ho_device a = sg_device (sy_grant (ho_identity b))"
    and hello: "ev_nonce hello = ho_nonce a" "ev_grant hello = sy_grant (ho_identity a)"
    and answer: "ev_nonce answer = ho_nonce b"
  shows "\<exists>sa' sb' na' nb' es fs.
    session_rounds S W enc sc a b hello answer (Suc fuel) (sa, sb) known =
      (if es = [] \<and> fs = [] then ((sa', sb'), Inr ())
       else session_rounds S W enc sc a b hello answer fuel (sa', sb') (bs_of (bt_keys nb')))
    \<and> participant S enc u sc m sa' na' \<and> participant S enc u sc m sb' nb'
    \<and> set nb' = set nb \<union> tagged es \<and> set na' = set na \<union> tagged fs
    \<and> tagged es \<subseteq> {x \<in> set na. fst x \<notin> set known} \<and> (es = [] \<longrightarrow> {x \<in> set na. fst x \<notin> set known} = {})
    \<and> tagged fs \<subseteq> {x \<in> set nb'. fst x \<notin> fst ` set na} \<and> (fs = [] \<longrightarrow> {x \<in> set nb'. fst x \<notin> fst ` set na} = {})
    \<and> published_view S enc u sc sa' na' \<and> published_view S enc u sc sb' nb'"
proof -
  let ?es = "set (bt_values m)"
  note la = participant_load [OF tgt pa] and lb = participant_load [OF tgt pb]
  have ua: "own_user (ho_identity a) = u" and ub: "own_user (ho_identity b) = u"
    and na: "is_digest (ho_nonce a)" and nb: "is_digest (ho_nonce b)"
    using ha(1) hb(1) by (simp_all add: honest_def)
  obtain p where p: "page_of S (replica_of S u sc na) known True = Inr p" "page_fits S p"
    "pg_inventory p = bt_keys na" "pg_done p \<longleftrightarrow> True \<and> pg_events p = []"
    "tagged (pg_events p) \<subseteq> {x \<in> set na. fst x \<notin> set known}"
    "pg_events p = [] \<Longrightarrow> {x \<in> set na. fst x \<notin> set known} = {}"
    using page_of_fits [OF la(2,3), of known True] unfolding replica_of_fields by blast
  have subs: "set na \<subseteq> set m" using pa by (simp add: participant_def sub_map_def)
  have pes: "tagged (pg_events p) \<subseteq> set m" using p(5) subs by blast
  note pev = events_in_target [OF pes]
  let ?req = "envelope_new W (ho_identity a) sc (ho_nonce b) (wr_page W p)"
  note req = frames_pass [OF ha(2) nb page_body [OF p(2) pev]]
  have request: "exchange_request S W (ho_identity a) sc answer sa known = Inr (replica_of S u sc na, ?req)"
    by (simp add: exchange_request_def ua la(1) p(1) answer req(1))
  from accept_participant [OF tgt pb page_fits_valid [OF p(2)] pes] obtain sb' nb' where
    ab: "accept S enc sb (replica_of S u sc nb) p = (sb', Inr (replica_of S u sc nb'))"
    "participant S enc u sc m sb' nb'" "set nb' = set nb \<union> tagged (pg_events p)" "published_view S enc u sc sb' nb'" by blast
  note lb' = participant_load [OF tgt ab(2)]
  obtain q where q: "page_of S (replica_of S u sc nb') (bs_of (bt_keys na)) (pg_events p = []) = Inr q" "page_fits S q"
    "pg_inventory q = bt_keys nb'" "pg_done q \<longleftrightarrow> pg_events p = [] \<and> pg_events q = []"
    "tagged (pg_events q) \<subseteq> {x \<in> set nb'. fst x \<notin> set (bs_of (bt_keys na))}"
    "pg_events q = [] \<Longrightarrow> {x \<in> set nb'. fst x \<notin> set (bs_of (bt_keys na))} = {}"
    using page_of_fits [OF lb'(2,3), of "bs_of (bt_keys na)" "pg_events p = []"] unfolding replica_of_fields by blast
  have keys: "set (bs_of (bt_keys na)) = fst ` set na" by (simp add: bt_keys_def)
  have subs': "set nb' \<subseteq> set m" using ab(2) by (simp add: participant_def sub_map_def)
  have qes: "tagged (pg_events q) \<subseteq> set m" using q(5) subs' by blast
  note qev = events_in_target [OF qes]
  let ?rep = "envelope_new W (ho_identity b) sc (ho_nonce a) (wr_page W q)"
  note rep = frames_pass [OF hb(2) na page_body [OF q(2) qev]]
  have read: "wr_read W (wr_page W p) = Some p" "wr_read W (wr_page W q) = Some q"
    using ha(2) p(2) pev q(2) qev unfolding carries_def by blast+
  have "envelope_validate S W u sc (Some (ho_nonce b)) (Some (sg_device (sy_grant (ho_identity a)))) ?req = Inr ()"
    by (rule envelope_honest [OF ha(1) nb]) simp_all
  then have serve: "serve_round S W enc (ho_identity b) sc (ho_nonce b) hello sb ?req = (sb', Inr (?rep, pg_done q))"
    by (simp add: serve_round_def req(2) ub hello lb(1) read ab(1) p(3,4) q(1) rep(1))
  from accept_participant [OF tgt pa page_fits_valid [OF q(2)] qes] obtain sa' na' where
    aa: "accept S enc sa (replica_of S u sc na) q = (sa', Inr (replica_of S u sc na'))"
    "participant S enc u sc m sa' na'" "set na' = set na \<union> tagged (pg_events q)" "published_view S enc u sc sa' na'" by blast
  have "envelope_validate S W u sc (Some (ho_nonce a)) (Some (ho_device a)) ?rep = Inr ()"
    by (rule envelope_honest [OF hb(1) na]) (simp_all add: dev)
  then have reply: "exchange_reply S W enc (ho_identity a) sc (ho_device a) (ho_nonce a) sa (replica_of S u sc na) ?rep
      = (sa', Inr (bs_of (bt_keys nb'), pg_done q))"
    by (simp add: exchange_reply_def rep(2) ua read aa(1) q(3))
  have "session_rounds S W enc sc a b hello answer (Suc fuel) (sa, sb) known =
      (if pg_events p = [] \<and> pg_events q = [] then ((sa', sb'), Inr ())
       else session_rounds S W enc sc a b hello answer fuel (sa', sb') (bs_of (bt_keys nb')))"
    by (simp add: session_rounds.simps(2) request serve reply q(4))
  then show ?thesis
    using aa(2-4) ab(2-4) p(5,6) q(5,6) unfolding keys
    by (intro exI [of _ sa'] exI [of _ sb'] exI [of _ na'] exI [of _ nb'] exI [of _ "pg_events p"] exI [of _ "pg_events q"]) simp
qed

section \<open>All rounds\<close>

lemma key_diff:
  assumes "bt_ok m" and "sub_map n m" and "sub_map k m"
  shows "{x \<in> set n. fst x \<notin> fst ` set k} = set n - set k"
proof -
  have inj: "x = y" if "x \<in> set m" "y \<in> set m" "fst x = fst y" for x y
    using that assms(1) by (metis bt_get_iff_in_set option.inject prod.collapse)
  have "fst x \<notin> fst ` set k" if "x \<in> set n" "x \<notin> set k" for x
  proof
    assume "fst x \<in> fst ` set k"
    then obtain y where "y \<in> set k" "fst x = fst y" by blast
    with inj [of x y] assms(2,3) that show False by (auto simp: sub_map_def)
  qed
  then show ?thesis by blast
qed

lemma sub_map_whole: "bt_ok m \<Longrightarrow> sub_map n m \<Longrightarrow> set m \<subseteq> set n \<Longrightarrow> n = m"
  by (rule bt_set_eq) (auto simp: sub_map_def)

text \<open>How much is still to be sent.\<close>

definition distance ::
  "(string, signed_event) btree \<Rightarrow> (string, signed_event) btree \<Rightarrow> (string, signed_event) btree \<Rightarrow> nat" where
  "distance m na nb = card (set m - set na) + card (set m - set nb)"

lemma distance_mono: "set na \<subseteq> set na' \<Longrightarrow> set nb \<subseteq> set nb' \<Longrightarrow> distance m na' nb' \<le> distance m na nb"
  unfolding distance_def by (intro add_mono card_mono) auto

lemma distance_less:
  assumes "set na \<subseteq> set na'" and "set nb \<subseteq> set nb'" and "x \<in> set m"
    and "x \<in> set na' - set na \<or> x \<in> set nb' - set nb"
  shows "distance m na' nb' < distance m na nb"
proof -
  have le: "card (set m - set na') \<le> card (set m - set na)" "card (set m - set nb') \<le> card (set m - set nb)"
    using assms(1,2) by (auto intro: card_mono)
  from assms(4) have "card (set m - set na') < card (set m - set na) \<or> card (set m - set nb') < card (set m - set nb)"
  proof
    assume "x \<in> set na' - set na"
    with assms(1,3) have "set m - set na' \<subset> set m - set na" by blast
    then show ?thesis by (simp add: psubset_card_mono)
  next
    assume "x \<in> set nb' - set nb"
    with assms(2,3) have "set m - set nb' \<subset> set m - set nb" by blast
    then show ?thesis by (simp add: psubset_card_mono)
  qed
  with le show ?thesis unfolding distance_def by linarith
qed

definition converged ::
  "sync_codec \<Rightarrow> (view \<Rightarrow> string) \<Rightarrow> string \<Rightarrow> string \<Rightarrow> (string, signed_event) btree
   \<Rightarrow> (replica_store \<times> replica_store, sync_error, unit) outcome \<Rightarrow> bool" where
  "converged S enc u sc m out \<longleftrightarrow> (case out of ((sa, sb), res) \<Rightarrow> res = Inr ()
     \<and> stored S u sc sa m \<and> stored S u sc sb m \<and> published_view S enc u sc sa m \<and> published_view S enc u sc sb m)"

lemma rounds_finished:
  assumes "bt_ok m" and "participant S enc u sc m sa' na'" and "participant S enc u sc m sb' nb'"
    and "set na \<union> set nb = set m" and "set nb' = set nb \<union> tagged es" and "set na' = set na \<union> tagged fs"
    and "es = [] \<and> fs = []" and "set na \<subseteq> set nb" and "set nb' \<subseteq> set na"
    and "published_view S enc u sc sa' na'" and "published_view S enc u sc sb' nb'"
  shows "converged S enc u sc m ((sa', sb'), Inr ())"
proof -
  have "sub_map na' m" "sub_map nb' m" using assms(2,3) by (simp_all add: participant_def)
  then have "na' = m" "nb' = m"
    using assms(4-9) by (auto intro!: sub_map_whole [OF assms(1)])
  with assms show ?thesis by (simp add: converged_def participant_def)
qed

lemma rounds_converge:
  assumes tgt: "joint S enc u sc m" and pa: "participant S enc u sc m sa na" and pb: "participant S enc u sc m sb nb"
    and ha: "honest S W u sc a" "carries S W sc a (set (bt_values m))"
    and hb: "honest S W u sc b" "carries S W sc b (set (bt_values m))"
    and dev: "ho_device a = sg_device (sy_grant (ho_identity b))"
    and hello: "ev_nonce hello = ho_nonce a" "ev_grant hello = sy_grant (ho_identity a)"
    and answer: "ev_nonce answer = ho_nonce b"
    and union: "set na \<union> set nb = set m" and fuel: "distance m na nb < fuel"
  shows "converged S enc u sc m (session_rounds S W enc sc a b hello answer fuel (sa, sb) (bs_of (bt_keys nb)))"
  using pa pb union fuel
proof (induction fuel arbitrary: sa sb na nb)
  case (Suc fuel)
  have mok: "bt_ok m" using tgt by (simp add: joint_def replica_ok_def)
  have known: "set (bs_of (bt_keys nb)) = fst ` set nb" by (simp add: bt_keys_def)
  from round_step [OF tgt Suc.prems(1,2) ha hb dev hello answer, of fuel "bs_of (bt_keys nb)"]
  obtain sa' sb' na' nb' es fs where
    run: "session_rounds S W enc sc a b hello answer (Suc fuel) (sa, sb) (bs_of (bt_keys nb)) =
      (if es = [] \<and> fs = [] then ((sa', sb'), Inr ())
       else session_rounds S W enc sc a b hello answer fuel (sa', sb') (bs_of (bt_keys nb')))"
    and parts: "participant S enc u sc m sa' na'" "participant S enc u sc m sb' nb'"
    and nb': "set nb' = set nb \<union> tagged es" and na': "set na' = set na \<union> tagged fs"
    and es: "tagged es \<subseteq> {x \<in> set na. fst x \<notin> fst ` set nb}" "es = [] \<longrightarrow> {x \<in> set na. fst x \<notin> fst ` set nb} = {}"
    and fs: "tagged fs \<subseteq> {x \<in> set nb'. fst x \<notin> fst ` set na}" "fs = [] \<longrightarrow> {x \<in> set nb'. fst x \<notin> fst ` set na} = {}"
    and pub: "published_view S enc u sc sa' na'" "published_view S enc u sc sb' nb'"
    unfolding known by (elim exE conjE) (rule that; assumption)
  have subs: "sub_map na m" "sub_map nb m" "sub_map nb' m"
    using Suc.prems(1,2) parts(2) by (simp_all add: participant_def)
  note es = es [unfolded key_diff [OF mok subs(1,2)]] and fs = fs [unfolded key_diff [OF mok subs(3,1)]]
  show ?case
  proof (cases "es = [] \<and> fs = []")
    case True
    then have "set na \<subseteq> set nb" "set nb' \<subseteq> set na" using es(2) fs(2) by blast+
    with rounds_finished [OF mok parts Suc.prems(3) nb' na' True _ _ pub] True show ?thesis by (simp add: run)
  next
    case False
    have "\<exists>x \<in> set m. x \<in> set na' - set na \<or> x \<in> set nb' - set nb"
    proof (cases "es = []")
      case True
      with False obtain f fs' where "fs = f # fs'" by (cases fs) auto
      then have "(sev_id f, f) \<in> tagged fs" by simp
      with fs(1) na' subs(3) show ?thesis by (auto simp: sub_map_def)
    next
      case False
      then obtain e es' where "es = e # es'" by (cases es) auto
      then have "(sev_id e, e) \<in> tagged es" by simp
      with es(1) nb' subs(1) show ?thesis by (auto simp: sub_map_def)
    qed
    then obtain x where "x \<in> set m" "x \<in> set na' - set na \<or> x \<in> set nb' - set nb" by blast
    then have "distance m na' nb' < distance m na nb" by (rule distance_less [rotated 2]) (use na' nb' in auto)
    then have "distance m na' nb' < fuel" using Suc.prems(4) by linarith
    moreover have "set na' \<union> set nb' = set m"
      using Suc.prems(3) parts na' nb' by (auto simp: participant_def sub_map_def)
    ultimately have "converged S enc u sc m
        (session_rounds S W enc sc a b hello answer fuel (sa', sb') (bs_of (bt_keys nb')))"
      by (intro Suc.IH [OF parts])
    with False show ?thesis unfolding run by (simp only: if_False)
  qed
qed simp

text \<open>
  C5. Exchange converges. Take two honest hosts of one owner whose stores together hold the events
  of a valid history, in any partition and with any gaps. One session ends without error within
  the bounded number of rounds; afterwards both stores hold exactly the union of the events, and
  if it has no gaps both have published the same view of it.
\<close>

theorem exchange_converges:
  assumes tgt: "joint S enc u sc m" and pa: "participant S enc u sc m sa na" and pb: "participant S enc u sc m sb nb"
    and union: "set na \<union> set nb = set m"
    and ha: "honest S W u sc a" "carries S W sc a (set (bt_values m))"
    and hb: "honest S W u sc b" "carries S W sc b (set (bt_values m))"
    and dev: "ho_device a = sg_device (sy_grant (ho_identity b))"
  shows "\<exists>sa' sb'. session S W enc sc a b (sa, sb) = ((sa', sb'), Inr ())
    \<and> load_replica S sa' u sc = Inr (replica_of S u sc m) \<and> load_replica S sb' u sc = Inr (replica_of S u sc m)
    \<and> (\<not> missing_parents (replica_of S u sc m) \<longrightarrow> (\<exists>v. project S (replica_of S u sc m) = Inr v
         \<and> replica_current sa' u sc = Some (vw_digest v, enc v)
         \<and> replica_current sb' u sc = Some (vw_digest v, enc v)))"
proof -
  have mok: "bt_ok m" "length m \<le> MAX_EVENTS" using tgt by (simp_all add: joint_def replica_ok_def)
  have na: "is_digest (ho_nonce a)" and nb: "is_digest (ho_nonce b)" and ua: "own_user (ho_identity a) = u"
    and ub: "own_user (ho_identity b) = u" using ha(1) hb(1) by (simp_all add: honest_def)
  let ?hello = "envelope_new W (ho_identity a) sc (ho_nonce a) hello_body"
  let ?answer = "envelope_new W (ho_identity b) sc (ho_nonce b) (echo_body (ho_nonce a))"
  have "hello_body \<in> bodies S W (set (bt_values m))" "echo_body (ho_nonce a) \<in> bodies S W (set (bt_values m))"
    using na by (simp_all add: bodies_def)
  note f1 = frames_pass [OF ha(2) na this(1)] and f2 = frames_pass [OF hb(2) nb this(2)]
  have v1: "envelope_validate S W u sc None None ?hello = Inr ()"
    and v2: "envelope_validate S W u sc None (Some (ho_device a)) ?answer = Inr ()"
    by (rule envelope_honest [OF ha(1) na]; simp) (rule envelope_honest [OF hb(1) nb]; simp add: dev)
  have start: "session S W enc sc a b (sa, sb) = session_rounds S W enc sc a b ?hello ?answer (MAX_EVENTS + 2) (sa, sb) []"
    by (simp add: session_def greeting_def f1 serve_greeting_def ub v1 f2 check_answer_def ua v2 refuse_unless_def ensure_def)
  have dist: "distance m na nb \<le> MAX_EVENTS"
  proof -
    have "(set m - set na) \<inter> (set m - set nb) = {}" using union by blast
    then have "distance m na nb = card ((set m - set na) \<union> (set m - set nb))"
      by (simp add: distance_def card_Un_disjoint)
    also have "\<dots> \<le> card (set m)" by (rule card_mono) auto
    also have "\<dots> \<le> length m" by (rule card_length)
    finally show ?thesis using mok(2) by simp
  qed
  have "ev_nonce ?hello = ho_nonce a" "ev_grant ?hello = sy_grant (ho_identity a)" "ev_nonce ?answer = ho_nonce b" by simp_all
  from round_step [OF tgt pa pb ha hb dev this, of "Suc MAX_EVENTS" "[]"]
  obtain sa' sb' na' nb' es fs where
    run: "session_rounds S W enc sc a b ?hello ?answer (Suc (Suc MAX_EVENTS)) (sa, sb) [] =
      (if es = [] \<and> fs = [] then ((sa', sb'), Inr ())
       else session_rounds S W enc sc a b ?hello ?answer (Suc MAX_EVENTS) (sa', sb') (bs_of (bt_keys nb')))"
    and parts: "participant S enc u sc m sa' na'" "participant S enc u sc m sb' nb'"
    and nb': "set nb' = set nb \<union> tagged es" and na': "set na' = set na \<union> tagged fs"
    and es: "es = [] \<longrightarrow> set na = {}"
    and fs: "fs = [] \<longrightarrow> {x \<in> set nb'. fst x \<notin> fst ` set na} = {}"
    and pub: "published_view S enc u sc sa' na'" "published_view S enc u sc sb' nb'"
    unfolding list.set empty_iff not_False_eq_True simp_thms Collect_mem_eq
    by (elim exE conjE) (rule that; assumption)
  have "converged S enc u sc m (session S W enc sc a b (sa, sb))"
  proof (cases "es = [] \<and> fs = []")
    case True
    then have "set na \<subseteq> set nb" "set nb' \<subseteq> set na"
      using es fs key_diff [OF mok(1), of nb' na] parts(2) pa by (auto simp: participant_def)
    with rounds_finished [OF mok(1) parts union nb' na' True _ _ pub] True show ?thesis
      by (simp add: start run numeral_2_eq_2)
  next
    case False
    have "distance m na' nb' \<le> distance m na nb" by (rule distance_mono) (use na' nb' in auto)
    with dist have "distance m na' nb' < Suc MAX_EVENTS" by simp
    moreover have "set na' \<union> set nb' = set m"
      using union parts na' nb' by (auto simp: participant_def sub_map_def)
    ultimately have "converged S enc u sc m
        (session_rounds S W enc sc a b ?hello ?answer (Suc MAX_EVENTS) (sa', sb') (bs_of (bt_keys nb')))"
      by (intro rounds_converge [OF tgt parts ha hb dev]) simp_all
    with False show ?thesis unfolding start numeral_2_eq_2 add_Suc_right add_0_right run by (simp only: if_False)
  qed
  then obtain ta tb where out: "session S W enc sc a b (sa, sb) = ((ta, tb), Inr ())"
    and ends: "stored S u sc ta m" "stored S u sc tb m" "published_view S enc u sc ta m" "published_view S enc u sc tb m"
    by (auto simp: converged_def split: prod.splits)
  have "\<exists>v. project S (replica_of S u sc m) = Inr v \<and> replica_current ta u sc = Some (vw_digest v, enc v)
      \<and> replica_current tb u sc = Some (vw_digest v, enc v)" if "\<not> missing_parents (replica_of S u sc m)"
  proof -
    have "sub_map m m" using mok(1) by (simp add: sub_map_def)
    from target_view [OF tgt this that] obtain v where "project S (replica_of S u sc m) = Inr v" by blast
    with ends(3,4) show ?thesis by (auto simp: published_view_def)
  qed
  with out load_stored [OF ends(1)] load_stored [OF ends(2)] show ?thesis by blast
qed

end
