(* ===== verification/Sync_Examples.thy ===== *)
theory Sync_Examples
  imports Sync_Converge Assess_Examples
begin

text \<open>
  Two hosts of one owner that exchange two reservation events, the second caused by the first,
  and two publications of one record of which the later branch withholds it.
\<close>

section \<open>Two events\<close>

definition hex_of :: "char \<Rightarrow> string" where
  "hex_of c = replicate 64 c"

lemma hex_of_digest: "is_lowhex c \<Longrightarrow> is_digest (hex_of c)"
  by (simp add: hex_of_def is_digest_def list_all_iff)

lemma hex_of_eq [simp]: "hex_of c = hex_of d \<longleftrightarrow> c = d"
  by (simp add: hex_of_def)

lemma hex_of_less: "c < d \<Longrightarrow> hex_of c < hex_of d"
  by (simp add: hex_of_def numeral_eq_Suc)

definition peer_user :: string where "peer_user = hex_of CHR ''1''"
definition peer_scope :: string where "peer_scope = ''private:peers''"

definition peer_identity :: "char \<Rightarrow> sync_identity" where
  "peer_identity d =
     \<lparr>sy_sign = (\<lambda>domain b. hex_of d @ domain @ b),
      sy_grant = \<lparr>sg_user = peer_user, sg_device = hex_of d, sg_scopes = [peer_scope],
        sg_signature = peer_user @ ''chaosbox-grant-v1'' @ [NUL]\<rparr>\<rparr>"

definition reserve :: "char \<Rightarrow> string list \<Rightarrow> signed_event" where
  "reserve c parents =
     \<lparr>sev_version = 1, sev_id = hex_of c, sev_grant = sy_grant (peer_identity CHR ''2''), sev_scope = peer_scope,
      sev_parents = parents, sev_payload = PL_Reservation (hex_of c) ''epoch'' 1 (hex_of c),
      sev_signature = hex_of CHR ''2'' @ ''chaosbox-event-v1'' @ [NUL] @ hex_of c\<rparr>"

definition event_a :: signed_event where "event_a = reserve CHR ''a'' []"
definition event_b :: signed_event where "event_b = reserve CHR ''b'' [hex_of CHR ''a'']"

text \<open>The digest keeps the last character of the last part, if it is a hex digit.\<close>

definition peer_hash :: "string \<Rightarrow> string" where
  "peer_hash m = hex_of (if m \<noteq> [] \<and> butlast m \<noteq> [] \<and> is_lowhex (last (butlast m)) then last (butlast m) else CHR ''0'')"

definition peer_codec :: sync_codec where
  "peer_codec =
     \<lparr>sx_codec = sample_codec\<lparr>cx_hash := peer_hash\<rparr>,
      sx_verify = (\<lambda>key domain b signature. if signature = key @ domain @ b then Inr () else Inl ''invalid signature''),
      sx_grant = (\<lambda>_. []),
      sx_body = (\<lambda>(v, g, sc, ps, p). case p of PL_Reservation j _ _ _ \<Rightarrow> j | _ \<Rightarrow> []),
      sx_event = sev_id,
      sx_parse = (\<lambda>t. if t = hex_of CHR ''a'' then Some event_a else if t = hex_of CHR ''b'' then Some event_b else None),
      sx_job = (\<lambda>_. []), sx_question = (\<lambda>_. []), sx_record = in_id, sx_receipt = (\<lambda>a. JString (am_id a)),
      sx_coverage = (\<lambda>_. []), sx_candidate = (\<lambda>_. JNull), sx_response = (\<lambda>_. JNull),
      sx_ids = (\<lambda>ids. if length ids = 2 then ''c'' else concat ids)\<rparr>"

lemma peer_hash_digest: "is_digest (peer_hash m)"
  by (simp add: peer_hash_def hex_of_digest is_lowhex_def is_digit_def)

lemma reserve_valid:
  assumes "is_lowhex c" and "ascending ps" and "list_all (\<lambda>p. p \<noteq> hex_of c \<and> is_digest p) ps" and "length ps \<le> 1"
  shows "event_validate peer_codec peer_user peer_scope (reserve c ps) = Inr ()"
proof -
  have "\<not> blank ''epoch''" by (simp add: blank.simps ascii_ws_def ws2_def ws3_def)
  moreover have "event_identity peer_codec (reserve c ps) = hex_of c"
    using assms(1) by (simp add: event_identity_def peer_codec_def reserve_def sha256_hex_def peer_hash_def hex_of_def)
  moreover have "grant_validate peer_codec (sy_grant (peer_identity d)) peer_user peer_scope = Inr ()" for d
    by (simp add: grant_validate_def peer_identity_def peer_codec_def ascending_def)
  ultimately show ?thesis
    using assms hex_of_digest [OF assms(1)]
    by (simp add: event_validate_def payload_validate_def reserve_def MAX_EVENTS_def MAX_EVENT_BYTES_def)
      (simp add: peer_codec_def hex_of_def peer_identity_def)
qed

lemma events_valid:
  "event_validate peer_codec peer_user peer_scope event_a = Inr ()"
  "event_validate peer_codec peer_user peer_scope event_b = Inr ()"
  unfolding event_a_def event_b_def
  by (rule reserve_valid; simp add: is_lowhex_def is_digit_def ascending_def hex_of_digest)+

lemma event_fields [simp]:
  "sev_id event_a = hex_of CHR ''a''" "sev_id event_b = hex_of CHR ''b''"
  "sev_parents event_a = []" "sev_parents event_b = [hex_of CHR ''a'']"
  "event_a \<noteq> event_b" "event_b \<noteq> event_a"
  by (simp_all add: event_a_def event_b_def reserve_def)

lemma peer_event [simp]: "sx_event peer_codec = sev_id"
  by (simp add: peer_codec_def)

lemma peer_lossless: "es \<subseteq> {event_a, event_b} \<Longrightarrow> lossless peer_codec es"
  by (auto simp: lossless_def peer_codec_def hex_of_def)

definition pair_events :: "(string, signed_event) btree" where
  "pair_events = [(hex_of CHR ''a'', event_a), (hex_of CHR ''b'', event_b)]"

lemma pair_order: "hex_of CHR ''a'' < hex_of CHR ''b''" "\<not> hex_of CHR ''b'' < hex_of CHR ''a''"
  using hex_of_less [of "CHR ''a''" "CHR ''b''"] by (auto simp: less_char_def)

lemma pair_ok: "bt_ok pair_events"
  by (simp add: pair_events_def pair_order)

text \<open>The parts of the history.\<close>

lemma pair_parts:
  assumes "sub_map n pair_events"
  shows "n = [] \<or> n = [(hex_of CHR ''a'', event_a)] \<or> n = [(hex_of CHR ''b'', event_b)] \<or> n = pair_events"
proof -
  have "filter (\<lambda>x. x \<in> set n) pair_events = n"
    using assms pair_ok by (intro bt_set_eq) (auto simp: sub_map_def bt_ok_def sorted_wrt_filter sorted_wrt_map)
  moreover have "filter P pair_events \<in> {[], [(hex_of CHR ''a'', event_a)], [(hex_of CHR ''b'', event_b)], pair_events}" for P
    by (simp add: pair_events_def)
  ultimately show ?thesis by (metis empty_iff insert_iff)
qed

lemma pair_replica: "replica_ok peer_codec (replica_of peer_codec peer_user peer_scope pair_events)"
  using events_valid pair_ok
  by (simp add: replica_ok_def replica_of_def MAX_EVENTS_def MAX_REPLICA_BYTES_def)
    (simp add: pair_events_def event_bytes_def bt_values_def hex_of_def)

theorem replicas_converge_witness:
  "\<exists>r. receive_all peer_codec (replica_new peer_user peer_scope) [event_a, event_b] = (r, Inr ())
    \<and> receive_all peer_codec (replica_new peer_user peer_scope) [event_b, event_a, event_b] = (r, Inr ())
    \<and> length (rl_events r) = 2"
proof -
  let ?r = "replica_of peer_codec peer_user peer_scope pair_events"
  have run: "receive_all peer_codec (replica_new peer_user peer_scope) [event_a, event_b] = (?r, Inr ())"
    using events_valid pair_order
    by (simp add: receive_def replica_new_def replica_of_def pair_events_def MAX_EVENTS_def MAX_REPLICA_BYTES_def
        event_bytes_def bt_values_def hex_of_def)
  have "lossless peer_codec (set [event_a, event_b])" by (rule peer_lossless) simp
  from replicas_converge [OF this run, of "[event_b, event_a, event_b]"] run show ?thesis
    by (intro exI [of _ ?r]) (auto simp: pair_events_def)
qed

section \<open>Their views\<close>

lemma reservations_merge:
  "(\<forall>e \<in> set es. \<exists>j b t a. sev_payload e = PL_Reservation j b t a) \<Longrightarrow> merge_events S g es = Inr g"
  by (induction es) auto

lemma part_payloads:
  "sub_map n pair_events \<Longrightarrow> \<forall>e \<in> set (bt_values n). \<exists>j b t a. sev_payload e = PL_Reservation j b t a"
  using pair_parts [of n] by (auto simp: bt_values_def pair_events_def event_a_def event_b_def reserve_def)

lemma part_resolutions: "sub_map n pair_events \<Longrightarrow> resolutions (replica_of peer_codec u sc n) = []"
  using pair_parts [of n]
  by (auto simp: resolutions_def bt_values_def pair_events_def event_a_def event_b_def reserve_def map_filter_simps)

definition part_view :: "(string, signed_event) btree \<Rightarrow> view" where
  "part_view n =
     (let r = replica_of peer_codec peer_user peer_scope n in
      \<lparr>vw_digest = replica_digest peer_codec r, vw_heads = heads r,
       vw_bundle = \<lparr>bu_version = 1, bu_scope = peer_scope, bu_records = [], bu_assessments = [], bu_coverage = []\<rparr>,
       vw_relationships = [], vw_receipts = []\<rparr>)"

lemma part_ordered:
  assumes "sub_map n pair_events" and "\<not> missing_parents (replica_of peer_codec u sc n)"
  shows "\<exists>ids. ordered (map (\<lambda>(i, e). (i, bs_of (sev_parents e))) n) (\<lambda>_. False) = Inr ids"
  using pair_parts [OF assms(1)] assms(2)
  by (auto simp: pair_events_def ordered_def children_of_def bt_contains_def missing_parents_def bt_values_def)

lemma part_project:
  assumes "sub_map n pair_events" and "\<not> missing_parents (replica_of peer_codec peer_user peer_scope n)"
  shows "project peer_codec (replica_of peer_codec peer_user peer_scope n) = Inr (part_view n)"
proof -
  have "\<not> blank peer_scope" by (simp add: peer_scope_def blank.simps ascii_ws_def ws2_def ws3_def)
  then have "bundle_validate E \<lparr>bu_version = 1, bu_scope = peer_scope, bu_records = [], bu_assessments = [],
      bu_coverage = []\<rparr> = Inr ()" for E
    by (simp add: bundle_validate_def)
  then have "baseline peer_codec (replica_of peer_codec peer_user peer_scope n) = Inr (vw_bundle (part_view n))"
    using reservations_merge [OF part_payloads [OF assms(1)]]
    by (simp add: baseline_def part_view_def Let_def bt_values_def)
  moreover obtain ids where "ordered (map (\<lambda>(i, e). (i, bs_of (sev_parents e))) n) (\<lambda>_. False) = Inr ids"
    using part_ordered [OF assms] by blast
  ultimately show ?thesis
    by (simp add: project_def refused_def part_resolutions [OF assms(1)]) (simp add: part_view_def Let_def)
qed

lemma part_digests:
  "replica_digest peer_codec (replica_of peer_codec peer_user peer_scope n) = peer_hash (nul_frame [peer_user, peer_scope,
     sx_ids peer_codec (bt_keys n)])"
  by (simp add: replica_digest_def sha256_hex_def) (simp add: peer_codec_def)

lemma frame_tail: "us \<noteq> [] \<Longrightarrow> peer_hash (vs @ us @ [NUL]) = hex_of (if is_lowhex (last us) then last us else CHR ''0'')"
  by (simp add: peer_hash_def butlast_append)

lemma digest_cases:
  "peer_hash (nul_frame [peer_user, peer_scope, []]) = hex_of CHR ''0''"
  "us \<noteq> [] \<Longrightarrow> is_lowhex (last us) \<Longrightarrow> peer_hash (nul_frame [peer_user, peer_scope, us]) = hex_of (last us)"
  using frame_tail [of us "peer_user @ [NUL] @ peer_scope @ [NUL]"] frame_tail [of "[NUL]" "peer_user @ [NUL] @ peer_scope"]
  by (simp_all add: is_lowhex_def is_digit_def)

lemma part_digest_inj:
  assumes "sub_map n pair_events" and "sub_map k pair_events"
    and "replica_digest peer_codec (replica_of peer_codec peer_user peer_scope n)
      = replica_digest peer_codec (replica_of peer_codec peer_user peer_scope k)"
  shows "n = k"
proof -
  define f where "f = (\<lambda>n. replica_digest peer_codec (replica_of peer_codec peer_user peer_scope n))"
  have ids: "sx_ids peer_codec [] = []" "sx_ids peer_codec [hex_of c] = hex_of c" "sx_ids peer_codec [hex_of c, hex_of d] = ''c''" for c d
    by (simp_all add: peer_codec_def)
  have "hex_of c \<noteq> []" "last (hex_of c) = c" for c by (simp_all add: hex_of_def)
  then have f: "f [] = hex_of CHR ''0''" "f [(hex_of CHR ''a'', event_a)] = hex_of CHR ''a''"
    "f [(hex_of CHR ''b'', event_b)] = hex_of CHR ''b''" "f pair_events = hex_of CHR ''c''"
    unfolding f_def part_digests by (simp_all add: pair_events_def bt_keys_def ids digest_cases is_lowhex_def is_digit_def del: nul_frame.simps)
  have "f n = f k" using assms(3) by (simp add: f_def)
  then show ?thesis using pair_parts [OF assms(1)] pair_parts [OF assms(2)] f by (elim disjE) simp_all
qed

definition plain_view :: "view \<Rightarrow> string" where
  "plain_view v = ''{}''"

lemma pair_target: "joint peer_codec plain_view peer_user peer_scope pair_events"
proof -
  have hash: "is_digest (replica_digest peer_codec r)" for r
    using peer_hash_digest by (simp add: replica_digest_def sha256_hex_def) (simp add: peer_codec_def)
  have "\<forall>i \<in> fst ` set pair_events. is_digest i"
    by (auto simp: pair_events_def hex_of_digest is_lowhex_def is_digit_def)
  moreover have "lossless peer_codec (set (bt_values pair_events))"
    by (rule peer_lossless) (auto simp: bt_values_def pair_events_def)
  moreover have "\<exists>v. project peer_codec (replica_of peer_codec peer_user peer_scope n) = Inr v \<and> plain_view v \<noteq> []
      \<and> length (plain_view v) \<le> MAX_REPLICA_BYTES \<and> is_digest (vw_digest v)"
    if "sub_map n pair_events" "\<not> missing_parents (replica_of peer_codec peer_user peer_scope n)" for n
    using part_project [OF that] hash by (simp add: plain_view_def MAX_REPLICA_BYTES_def) (simp add: part_view_def Let_def)
  ultimately show ?thesis
    unfolding joint_def using pair_replica part_digest_inj by blast
qed

section \<open>Their exchange\<close>

definition peer_wire :: wire where
  "peer_wire =
     \<lparr>wr_signed = (\<lambda>_. []),
      wr_page = (\<lambda>p. JArray [JArray (map JString (pg_inventory p)), JArray (map (JString \<circ> sev_id) (pg_events p)), JBool (pg_done p)]),
      wr_read = (\<lambda>j. case j of
          JArray [JArray xs, JArray es, JBool d] \<Rightarrow>
            Some \<lparr>pg_inventory = List.map_filter jstr xs,
              pg_events = List.map_filter (\<lambda>x. Option.bind (jstr x) (sx_parse peer_codec)) es, pg_done = d\<rparr>
        | _ \<Rightarrow> None),
      wr_size = (\<lambda>_. 1)\<rparr>"

definition peer_host :: "char \<Rightarrow> char \<Rightarrow> host" where
  "peer_host d other = \<lparr>ho_identity = peer_identity d, ho_nonce = hex_of d, ho_device = hex_of other\<rparr>"

lemma peer_honest: "is_lowhex d \<Longrightarrow> honest peer_codec peer_wire peer_user peer_scope (peer_host d other)"
  by (simp add: honest_def own_user_def peer_host_def hex_of_digest)
    (simp add: peer_identity_def grant_validate_def peer_codec_def ascending_def)

lemma map_filter_map: "List.map_filter f (map g xs) = List.map_filter (f \<circ> g) xs"
  by (induction xs) (simp_all add: map_filter_simps split: option.split)

lemma map_filter_id: "(\<forall>x \<in> set xs. f x = Some x) \<Longrightarrow> List.map_filter f xs = xs"
  by (induction xs) (simp_all add: map_filter_simps)

lemma peer_carries: "carries peer_codec peer_wire peer_scope h {event_a, event_b}"
proof -
  have "wr_read peer_wire (wr_page peer_wire p) = Some p" if "set (pg_events p) \<subseteq> {event_a, event_b}" for p
  proof -
    have "sx_parse peer_codec (sev_id e) = Some e" if "e \<in> {event_a, event_b}" for e
      using that by (auto simp: peer_codec_def)
    then have "List.map_filter ((\<lambda>x. Option.bind (jstr x) (sx_parse peer_codec)) \<circ> (JString \<circ> sev_id)) (pg_events p) = pg_events p"
      using that by (intro map_filter_id) auto
    moreover have "List.map_filter (jstr \<circ> JString) (pg_inventory p) = pg_inventory p" by (rule map_filter_id) simp
    ultimately show ?thesis by (simp add: peer_wire_def map_filter_map)
  qed
  then show ?thesis by (simp add: carries_def) (simp add: peer_wire_def MAX_FRAME_def)
qed

definition store_with :: "signed_event \<Rightarrow> replica_store" where
  "store_with e = fst (persist_event peer_codec replica_store_new peer_user peer_scope e)"

lemma peer_owner: "owner_ok peer_user peer_scope"
  by (simp add: owner_ok_def peer_user_def hex_of_digest is_lowhex_def is_digit_def)
    (simp add: peer_scope_def starts_with_def)

lemma store_with_part:
  assumes "e \<in> {event_a, event_b}"
  shows "participant peer_codec plain_view peer_user peer_scope pair_events (store_with e) [(sev_id e, e)]"
proof -
  have "stored peer_codec peer_user peer_scope replica_store_new []"
  proof (rule storedI [OF replica_inv_new peer_owner])
    show "replica_ok peer_codec (replica_of peer_codec peer_user peer_scope [])"
      by (simp add: replica_ok_def replica_of_def event_bytes_def bt_values_def)
  qed (simp_all add: scope_rows_def replica_store_new_def bt_values_def lossless_def)
  moreover have val: "event_validate peer_codec peer_user peer_scope e = Inr ()" using assms events_valid by auto
  moreover have "lossless peer_codec (insert e (set (bt_values [])))"
    by (rule peer_lossless) (use assms in \<open>auto simp: bt_values_def\<close>)
  moreover have "is_digest (sev_id e)" using assms by (auto simp: hex_of_digest is_lowhex_def is_digit_def)
  moreover have one: "sub_map [(sev_id e, e)] pair_events" using assms by (auto simp: sub_map_def pair_events_def)
  then have "replica_ok peer_codec (replica_of peer_codec peer_user peer_scope (bt_insert (sev_id e) e []))"
    using sub_map_ok [OF pair_target one] by simp
  moreover have "unclaimed peer_codec peer_user peer_scope replica_store_new {e}"
    by (simp add: unclaimed_def replica_store_new_def)
  ultimately obtain st where st: "persist_event peer_codec replica_store_new peer_user peer_scope e = (st, Inr ())"
    "stored peer_codec peer_user peer_scope st (bt_insert (sev_id e) e [])" "rs_views st = rs_views replica_store_new"
    "\<And>k. bt_get (rs_rows st) k = (if k = sev_id e then Some (event_row peer_codec peer_user peer_scope e)
        else bt_get (rs_rows replica_store_new) k)"
    by (rule persist_stored) (rule that; assumption)
  have "x = e" if "x \<in> set (bt_values pair_events)" "sev_id x = sev_id e" for x
    using that assms by (auto simp: pair_events_def bt_values_def)
  then have "unclaimed peer_codec peer_user peer_scope st (set (bt_values pair_events))"
    unfolding unclaimed_def by (auto simp: st(4) replica_store_new_def)
  with st(2,3) one show ?thesis
    by (simp add: participant_def store_with_def st(1)) (simp add: replica_store_new_def)
qed

theorem exchange_converges_witness:
  "\<exists>sa sb. session peer_codec peer_wire plain_view peer_scope (peer_host CHR ''2'' CHR ''3'') (peer_host CHR ''3'' CHR ''2'')
      (store_with event_b, store_with event_a) = ((sa, sb), Inr ())
    \<and> load_replica peer_codec sa peer_user peer_scope = Inr (replica_of peer_codec peer_user peer_scope pair_events)
    \<and> load_replica peer_codec sb peer_user peer_scope = Inr (replica_of peer_codec peer_user peer_scope pair_events)
    \<and> replica_current sa peer_user peer_scope = Some (vw_digest (part_view pair_events), ''{}'')"
proof -
  have sub: "sub_map pair_events pair_events" using pair_ok by (simp add: sub_map_def)
  have closed: "\<not> missing_parents (replica_of peer_codec peer_user peer_scope pair_events)"
    by (simp add: missing_parents_def bt_values_def pair_events_def bt_contains_def)
  have part: "participant peer_codec plain_view peer_user peer_scope pair_events (store_with event_b) [(hex_of CHR ''b'', event_b)]"
    "participant peer_codec plain_view peer_user peer_scope pair_events (store_with event_a) [(hex_of CHR ''a'', event_a)]"
    using store_with_part [of event_a] store_with_part [of event_b] by simp_all
  have union: "set [(hex_of CHR ''b'', event_b)] \<union> set [(hex_of CHR ''a'', event_a)] = set pair_events"
    by (auto simp: pair_events_def)
  have carries: "carries peer_codec peer_wire peer_scope h (set (bt_values pair_events))" for h
    using peer_carries by (simp add: bt_values_def pair_events_def)
  have honest: "honest peer_codec peer_wire peer_user peer_scope (peer_host CHR ''2'' CHR ''3'')"
    "honest peer_codec peer_wire peer_user peer_scope (peer_host CHR ''3'' CHR ''2'')"
    by (rule peer_honest; simp add: is_lowhex_def is_digit_def)+
  have "ho_device (peer_host CHR ''2'' CHR ''3'') = sg_device (sy_grant (ho_identity (peer_host CHR ''3'' CHR ''2'')))"
    by (simp add: peer_host_def peer_identity_def)
  from exchange_converges [OF pair_target part union honest(1) carries honest(2) carries this] closed part_project [OF sub closed]
  show ?thesis by (auto simp: plain_view_def)
qed

end
