(* ===== verification/Sync_Branches.thy ===== *)
theory Sync_Branches
  imports Sync_Examples
begin

text \<open>
  Two branches of a history publish one record: one branch admitted it, the other abstained
  on the same evidence.
\<close>

declare blank.simps [simp del]

definition branch_codec :: codec where
  "branch_codec = sample_codec\<lparr>cx_decision := (\<lambda>(c, _, _, _, _, _, _, _, _, out). c @ (if out = O_Admitted then ''a'' else ''b''))\<rparr>"

definition branch_sync :: sync_codec where
  "branch_sync = peer_codec\<lparr>sx_codec := branch_codec\<rparr>"

definition subject :: intelligence_candidate where
  "subject = proposal ''c'' first_evidence"

definition branch_receipt :: "string \<Rightarrow> intel_outcome \<Rightarrow> assessment" where
  "branch_receipt choice out = receipt_for branch_codec subject JNull (assessment_questions novelty_base) []
     (sure_response (bt_keys novelty_base) choice) out"

definition admitting :: assessment where "admitting = branch_receipt ''novel'' O_Admitted"
definition abstaining :: assessment where "abstaining = branch_receipt ''unknown'' O_Abstained"

definition id_a :: string where "id_a = ''intel-assessment:ca'' @ [NUL, NUL]"
definition id_b :: string where "id_b = ''intel-assessment:cb'' @ [NUL, NUL]"

lemma branch_ids: "am_id admitting = id_a" "am_id abstaining = id_b" "id_a < id_b" "\<not> id_b < id_a" "id_a \<noteq> id_b" "id_b \<noteq> id_a"
  by (simp_all add: admitting_def abstaining_def branch_receipt_def receipt_for_def Let_def assessment_identity_def
      branch_codec_def sample_codec_def sha256_hex_def decision_fields_of_def subject_def proposal_def id_a_def id_b_def
      less_char_def)

lemma branch_fields:
  "am_candidate_id admitting = ''c''" "am_candidate_id abstaining = ''c''"
  "am_outcome admitting = O_Admitted" "am_outcome abstaining = O_Abstained"
  "am_repositories admitting = [''r'']" "am_repositories abstaining = [''r'']"
  "am_evidence_digest admitting = evidence_digest branch_codec first_evidence"
  "am_evidence_digest abstaining = evidence_digest branch_codec first_evidence"
  by (simp_all add: admitting_def abstaining_def branch_receipt_def subject_def proposal_def)

lemma branch_valid:
  "assessment_validate branch_codec ''private'' admitting = Inr ()"
  "assessment_validate branch_codec ''private'' abstaining = Inr ()"
  unfolding admitting_def abstaining_def branch_receipt_def
  by (rule receipt_validate [OF refl]; simp add: novelty_base_ok subject_def proposal_def)+

definition first_branch :: intelligence where
  "first_branch = new_record branch_codec subject id_a IK_Decision"

definition other_branch :: intelligence where
  "other_branch = withhold first_evidence id_b first_branch"

lemma first_branch_fields [simp]:
  "in_id first_branch = ''intel:c'' @ [NUL]" "in_scope first_branch = ''private''" "in_repositories first_branch = [''r'']"
  "in_statement first_branch = se_quote first_evidence" "in_kind first_branch = IK_Decision"
  "in_interpretation_class first_branch = EC_Inferred" "in_evidence first_branch = [first_evidence]"
  "in_contradicts first_branch = []" "in_supersedes first_branch = None" "in_assessments first_branch = [id_a]"
  by (simp_all add: first_branch_def new_record_def record_id_def branch_codec_def sample_codec_def sha256_hex_def
      subject_def proposal_def)

lemma other_branch_fields [simp]:
  "in_id other_branch = ''intel:c'' @ [NUL]" "in_scope other_branch = ''private''" "in_repositories other_branch = [''r'']"
  "in_statement other_branch = se_quote first_evidence" "in_evidence other_branch = [first_evidence]"
  "in_contradicts other_branch = []" "in_supersedes other_branch = None" "in_assessments other_branch = [id_a, id_b]"
  by (simp_all add: other_branch_def withhold_def add_assessment_def add_evidence_def)

definition branch_event :: "char \<Rightarrow> intelligence \<Rightarrow> assessment list \<Rightarrow> signed_event" where
  "branch_event c r as = (reserve c [])\<lparr>sev_payload := PL_Publication
     \<lparr>pb_bundle = \<lparr>bu_version = 1, bu_scope = ''private'', bu_records = [r], bu_assessments = as, bu_coverage = []\<rparr>,
      pb_candidates = [subject]\<rparr>\<rparr>"

definition branches :: replica where
  "branches = replica_of branch_sync peer_user ''private''
     [(hex_of CHR ''a'', branch_event CHR ''a'' first_branch [admitting]),
      (hex_of CHR ''b'', branch_event CHR ''b'' other_branch [admitting, abstaining])]"

definition joined :: intelligence where
  "joined = first_branch\<lparr>in_assessments := [id_a, id_b], in_status := IS_Withheld\<rparr>"

definition joined_bundle :: intel_bundle where
  "joined_bundle = \<lparr>bu_version = 1, bu_scope = ''private'', bu_records = [joined],
     bu_assessments = [admitting, abstaining], bu_coverage = []\<rparr>"

lemma branch_events:
  "bt_values (rl_events branches) = [branch_event CHR ''a'' first_branch [admitting],
     branch_event CHR ''b'' other_branch [admitting, abstaining]]"
  by (simp add: branches_def bt_values_def)

lemma branch_payload: "sev_payload (branch_event c r as) = PL_Publication
     \<lparr>pb_bundle = \<lparr>bu_version = 1, bu_scope = ''private'', bu_records = [r], bu_assessments = as, bu_coverage = []\<rparr>,
      pb_candidates = [subject]\<rparr>"
  by (simp add: branch_event_def)

definition branch_chain :: dag where "branch_chain = [(id_a, []), (id_b, [id_a])]"

definition branch_merge :: merged where
  "branch_merge = \<lparr>mg_records = [(''intel:c'' @ [NUL], first_branch\<lparr>in_evidence := [first_evidence, first_evidence]\<rparr>)],
     mg_receipts = [(id_a, admitting), (id_b, abstaining)], mg_chains = [(''intel:c'' @ [NUL], branch_chain)], mg_coverage = []\<rparr>"

lemma branch_merged:
  "merge_events branch_sync \<lparr>mg_records = [], mg_receipts = [], mg_chains = [], mg_coverage = []\<rparr>
     (bt_values (rl_events branches)) = Inr branch_merge"
proof -
  have receipts: "sx_receipt branch_sync a = JString (am_id a)" for a by (simp add: branch_sync_def peer_codec_def)
  have c1: "link_chain [] [id_a] = [(id_a, [])]" by (simp add: link_chain_def bt_or_insert_def)
  have c2: "link_chain [(id_a, [])] [id_a, id_b] = branch_chain"
    by (simp add: link_chain_def bt_or_insert_def bt_contains_def branch_ids bt_alter_def branch_chain_def)
  have m: "merge_record first_branch other_branch = Inr (first_branch\<lparr>in_evidence := [first_evidence, first_evidence]\<rparr>)"
    by (simp add: merge_record_def)
  show ?thesis
    by (simp add: branch_events branch_payload receipts branch_ids Let_def bt_alter_def c1 c2 m branch_merge_def)
qed

lemma joined_fields [simp]:
  "in_id joined = ''intel:c'' @ [NUL]" "in_scope joined = ''private''" "in_repositories joined = [''r'']"
  "in_statement joined = se_quote first_evidence" "in_interpretation_class joined = EC_Inferred"
  "in_evidence joined = [first_evidence]" "in_contradicts joined = []" "in_supersedes joined = None"
  "in_assessments joined = [id_a, id_b]" "in_status joined = IS_Withheld"
  by (simp_all add: joined_def)

lemma branch_ordered:
  "ordered branch_chain (deferred branch_chain [(id_a, admitting), (id_b, abstaining)]) = Inr [id_a, id_b]"
proof -
  have d: "deferred branch_chain [(id_a, admitting), (id_b, abstaining)] id_a = False"
    "deferred branch_chain [(id_a, admitting), (id_b, abstaining)] id_b = True"
    by (simp_all add: deferred_def withholds_def branch_chain_def bt_values_def branch_ids branch_fields)
  show ?thesis
    unfolding ordered_def by (simp add: branch_chain_def d [unfolded branch_chain_def] bt_contains_def children_of_def branch_ids)
qed

lemma branch_kind: "replication_kind admitting = Inr IK_Decision"
  by (simp add: replication_kind_def admitting_def branch_receipt_def receipt_for_def Let_def sure_response_def choice_of_def)
    (simp add: sure_def)

lemma branch_finalized:
  "finalize_record branch_codec (first_branch\<lparr>in_evidence := [first_evidence, first_evidence]\<rparr>) branch_chain
     [(id_a, admitting), (id_b, abstaining)] = Inr joined"
proof -
  have "admits branch_codec [(id_a, admitting), (id_b, abstaining)]
      (first_branch\<lparr>in_evidence := [first_evidence, first_evidence]\<rparr>) first_evidence id_a"
    by (simp add: admits_def branch_fields) (simp add: branch_codec_def sample_codec_def sha256_hex_def)
  then have pos: "position (admits branch_codec [(id_a, admitting), (id_b, abstaining)]
      (first_branch\<lparr>in_evidence := [first_evidence, first_evidence]\<rparr>) first_evidence) [id_a, id_b] = Some 0" by simp
  show ?thesis
    by (simp add: finalize_record_def refused_def branch_ordered pos branch_kind Let_def bt_values_def status_of_def
        branch_fields map_filter_simps branch_ids del: position.simps)
      (simp add: joined_def first_branch_def new_record_def subject_def proposal_def)
qed

lemma joined_valid: "bundle_validate branch_codec joined_bundle = Inr ()"
proof -
  have r: "receipt_of joined_bundle id_a = Some admitting" "receipt_of joined_bundle id_b = Some abstaining"
    by (simp_all add: receipt_of_def joined_bundle_def branch_ids)
  have "\<not> blank ''private''" by simp
  moreover have "record_validate branch_codec joined_bundle joined = Inr ()"
    by (simp add: record_validate_def Let_def status_from_receipts_def interpretation_of_def evidence_bound_def
        receipts_of_def admission_of_def map_filter_simps r branch_fields)
      (simp add: joined_bundle_def branch_fields branch_ids branch_codec_def sample_codec_def sha256_hex_def)
  ultimately show ?thesis
    using branch_valid by (simp add: bundle_validate_def joined_bundle_def branch_ids)
qed

lemma branch_baseline: "baseline branch_sync branches = Inr joined_bundle"
proof -
  have S: "sx_codec branch_sync = branch_codec" by (simp add: branch_sync_def)
  have "finalize_all branch_codec branch_merge (mg_records branch_merge) = Inr [joined]"
    using branch_finalized by (simp add: branch_merge_def)
  moreover have "rl_scope branches = ''private''" by (simp add: branches_def)
  ultimately show ?thesis
    using joined_valid by (simp add: baseline_def branch_merged S Let_def) (simp add: joined_bundle_def branch_merge_def bt_values_def)
qed

theorem withholding_wins_witness: "in_status joined = IS_Withheld"
proof -
  have "in_status joined = (if \<exists>x \<in> set (bu_assessments joined_bundle). am_outcome x = O_Supersession (in_id joined)
      then IS_Superseded else IS_Withheld)"
  proof (rule withholding_wins [OF branch_baseline, of joined abstaining])
    show "\<exists>e \<in> set (in_evidence joined). evidence_digest (sx_codec branch_sync) e = am_evidence_digest abstaining"
      by (simp add: branch_fields) (simp add: branch_sync_def)
    have "publications branches = [pb. PL_Publication pb \<leftarrow> map sev_payload (bt_values (rl_events branches))]"
      by (simp add: publications_def branch_events branch_payload map_filter_simps)
    then show "\<forall>p \<in> set (publications branches). \<forall>q \<in> set (bu_records (pb_bundle p)).
        in_id q = in_id joined \<longrightarrow> am_id abstaining \<notin> set (butlast (in_assessments q))"
      by (simp add: branch_events branch_payload branch_ids)
  qed (simp_all add: joined_bundle_def branch_fields branch_ids)
  then show ?thesis by (simp add: joined_bundle_def branch_fields)
qed

end
