(* ===== verification/Sync_View_Examples.thy ===== *)
theory Sync_View_Examples
  imports Sync_Examples
begin

text \<open>
  A history with a dispute: one event publishes two records, and two devices decide, neither
  knowing of the other, that the records are duplicates and that they are distinct.
\<close>

section \<open>Two records\<close>

definition talk_intel :: codec where
  "talk_intel = sample_codec\<lparr>cx_hash := peer_hash, cx_evidence := se_quote,
     cx_value := (\<lambda>j. case jfield j ''proposition'' of JString s \<Rightarrow> s | _ \<Rightarrow> [])\<rparr>"

definition quote :: "char \<Rightarrow> string" where
  "quote c = ''Indent the code like in '' @ [c]"

definition saying :: "char \<Rightarrow> session_evidence" where
  "saying c = said ''m'' 10 (quote c)"

definition note_of :: "char \<Rightarrow> intelligence_candidate" where
  "note_of c = \<lparr>ic_id = ''intel-candidate:'' @ hex_of c, ic_scope = peer_scope, ic_repositories = [''r''],
     ic_evidence = saying c, ic_context = quote c, ic_evidence_bundle = [], ic_context_coverage = None\<rparr>"

definition note_receipt :: "char \<Rightarrow> assessment" where
  "note_receipt c = receipt_for talk_intel (note_of c) (state_json (note_of c) []) (assessment_questions novelty_base)
     (assess_key talk_intel (note_of c) (state_json (note_of c) []) (assessment_questions novelty_base))
     (sure_response (bt_keys novelty_base) ''novel'') O_Admitted"

definition note_record :: "char \<Rightarrow> intelligence" where
  "note_record c = new_record talk_intel (note_of c) (am_id (note_receipt c)) IK_Decision"

definition talk_bundle :: intel_bundle where
  "talk_bundle = \<lparr>bu_version = 1, bu_scope = peer_scope, bu_records = [note_record CHR ''a'', note_record CHR ''b''],
     bu_assessments = [note_receipt CHR ''a'', note_receipt CHR ''b''], bu_coverage = []\<rparr>"

definition talk_publication :: publication where
  "talk_publication = \<lparr>pb_bundle = talk_bundle, pb_candidates = [note_of CHR ''a'', note_of CHR ''b'']\<rparr>"

lemma digest_last: "sha256_hex peer_hash (vs @ [us @ [c]]) = hex_of (if is_lowhex c then c else CHR ''0'')"
proof -
  have "nul_frame (vs @ [us @ [c]]) = nul_frame vs @ us @ [c] @ [NUL]" for vs by (induction vs) auto
  then show ?thesis using frame_tail [of "us @ [c]" "nul_frame vs"] by (simp add: sha256_hex_def)
qed

lemma hex_of_last: "hex_of c = replicate 63 c @ [c]"
  by (simp add: hex_of_def replicate_append_same flip: replicate_Suc)

lemma talk_intel_fields [simp]:
  "cx_hash talk_intel = peer_hash" "cx_evidence talk_intel = se_quote" "cx_decision talk_intel = fst"
  "cx_value talk_intel (state_json n rs) = se_quote (ic_evidence n)"
  by (simp_all add: talk_intel_def sample_codec_def state_json_def jfield_def jtext_def)

lemma note_fields [simp]:
  "ic_id (note_of c) = ''intel-candidate:'' @ hex_of c" "ic_scope (note_of c) = peer_scope"
  "ic_repositories (note_of c) = [''r'']" "ic_evidence (note_of c) = saying c" "ic_context (note_of c) = quote c"
  "ic_evidence_bundle (note_of c) = []" "ic_context_coverage (note_of c) = None"
  by (simp_all add: note_of_def)

lemma saying_fields [simp]: "se_quote (saying c) = quote c" "se_speaker (saying c) = ''user''"
  "se_observed_at_ms (saying c) = Some 10"
  by (simp_all add: saying_def said_def)

lemma digest_of_id: "is_lowhex c \<Longrightarrow> sha256_hex peer_hash [p @ hex_of c] = hex_of c"
  using digest_last [of "[]" "p @ replicate 63 c" c] by (simp add: hex_of_last)

lemma digest_of_quote: "is_lowhex c \<Longrightarrow> sha256_hex peer_hash (vs @ [quote c]) = hex_of c"
  using digest_last [of vs "''Indent the code like in ''" c] by (simp add: quote_def)

lemma note_ids:
  assumes "is_lowhex c"
  shows "candidate_identity talk_intel (note_of c) = ''intel-candidate:'' @ hex_of c"
    and "record_id talk_intel (note_of c) = ''intel:'' @ hex_of c"
    and "am_id (note_receipt c) = ''intel-assessment:'' @ hex_of c"
    and "evidence_digest talk_intel (saying c) = hex_of c"
  using digest_of_quote [OF assms, of "[x1, x2, x3, x4, x5, x6, x7, x8]" for x1 x2 x3 x4 x5 x6 x7 x8]
    digest_of_id [OF assms, of "''intel-candidate:''"] digest_of_quote [OF assms, of "[]"]
    digest_of_quote [OF assms, of "[x]" for x]
  by (simp_all add: candidate_identity_def record_id_def note_receipt_def receipt_for_def assessment_identity_def
      evidence_digest_def Let_def)

lemma hex_chars [simp]: "is_lowhex CHR ''a''" "is_lowhex CHR ''b''" "is_lowhex CHR ''c''" "is_lowhex CHR ''d''"
  "is_lowhex CHR ''e''"
  by (simp_all add: is_lowhex_def is_digit_def)

lemma note_record_fields [simp]:
  "in_id (note_record c) = record_id talk_intel (note_of c)" "in_scope (note_record c) = peer_scope"
  "in_repositories (note_record c) = [''r'']" "in_statement (note_record c) = quote c"
  "in_kind (note_record c) = IK_Decision" "in_interpretation_class (note_record c) = EC_Inferred"
  "in_status (note_record c) = IS_Admitted" "in_evidence (note_record c) = [saying c]"
  "in_contradicts (note_record c) = []" "in_supersedes (note_record c) = None"
  "in_assessments (note_record c) = [am_id (note_receipt c)]"
  by (simp_all add: note_record_def new_record_def)

lemma note_receipt_fields [simp]:
  "am_candidate_id (note_receipt c) = ''intel-candidate:'' @ hex_of c" "am_outcome (note_receipt c) = O_Admitted"
  "am_repositories (note_receipt c) = [''r'']" "am_scope (note_receipt c) = peer_scope"
  "am_evidence_digest (note_receipt c) = evidence_digest talk_intel (saying c)"
  "am_state (note_receipt c) = Some (state_json (note_of c) [])" "am_rubric_version (note_receipt c) = RUBRIC_VERSION"
  "am_questions (note_receipt c) = assessment_questions novelty_base"
  "am_cache_key (note_receipt c) = assess_key talk_intel (note_of c) (state_json (note_of c) []) (assessment_questions novelty_base)"
  "am_response (note_receipt c) = sure_response (bt_keys novelty_base) ''novel''"
  by (simp_all add: note_receipt_def receipt_for_def Let_def)

lemma talk_bundle_fields [simp]:
  "bu_version talk_bundle = 1" "bu_scope talk_bundle = peer_scope"
  "bu_records talk_bundle = [note_record CHR ''a'', note_record CHR ''b'']"
  "bu_assessments talk_bundle = [note_receipt CHR ''a'', note_receipt CHR ''b'']" "bu_coverage talk_bundle = []"
  by (simp_all add: talk_bundle_def)

lemma peer_scope_text [simp]: "\<not> blank peer_scope"
  by (simp add: peer_scope_def blank.simps ascii_ws_def ws2_def ws3_def)

lemma quote_ok: "24 \<le> length (quote c)" "length (quote c) \<le> 1200" "length (quote c) \<le> 12000"
  by (simp_all add: quote_def)

lemma note_receipt_valid: "assessment_validate talk_intel peer_scope (note_receipt c) = Inr ()"
  by (rule receipt_validate [OF note_receipt_def]) (simp_all add: novelty_base_ok)

lemma note_receipt_of:
  assumes "c \<in> {CHR ''a'', CHR ''b''}"
  shows "receipt_of talk_bundle (am_id (note_receipt c)) = Some (note_receipt c)"
  using assms by (auto simp: receipt_of_def note_ids)

lemma note_record_valid:
  assumes "c \<in> {CHR ''a'', CHR ''b''}"
  shows "record_validate talk_intel talk_bundle (note_record c) = Inr ()"
proof -
  note r = note_receipt_of [OF assms]
  have "receipts_of talk_bundle (note_record c) = [note_receipt c]" by (simp add: receipts_of_def map_filter_simps r)
  moreover have "interpretation_of talk_intel talk_bundle (note_record c) = Some (note_receipt c)"
    by (simp add: interpretation_of_def map_filter_simps r)
  moreover have "admission_of talk_intel (note_record c) (note_receipt c)"
    by (simp add: admission_of_def record_id_def)
  moreover have "\<exists>a \<in> set (bu_assessments talk_bundle). am_id a = am_id (note_receipt c)" using assms by auto
  ultimately show ?thesis
    by (simp add: record_validate_def Let_def r evidence_bound_def status_from_receipts_def)
qed

lemma talk_valid: "bundle_validate talk_intel talk_bundle = Inr ()"
proof -
  have "length (bs_of (map in_id (bu_records talk_bundle))) = length (bu_records talk_bundle)"
    "length (bs_of (map am_id (bu_assessments talk_bundle))) = length (bu_assessments talk_bundle)"
    unfolding distinct_by_set [of "map in_id (bu_records talk_bundle)", unfolded length_map]
      distinct_by_set [of "map am_id (bu_assessments talk_bundle)", unfolded length_map]
    by (simp_all add: note_ids)
  then show ?thesis
    by (simp add: bundle_validate_def note_receipt_valid note_record_valid)
qed

section \<open>Their publication\<close>

lemma quote_line:
  assumes "is_lowhex c"
  shows "quote c \<in> set (text_lines (quote c))"
proof -
  have "c \<noteq> CHR 0x0A" using assms by (auto simp: is_lowhex_def is_digit_def)
  then show ?thesis by (simp add: quote_def text_lines_def strip_cr_def)
qed

lemma note_questions:
  assumes "is_lowhex c"
  shows "questions talk_intel (note_of c) (bundle_new peer_scope)
    = Inr (state_json (note_of c) [], assessment_questions novelty_base,
        assess_key talk_intel (note_of c) (state_json (note_of c) []) (assessment_questions novelty_base))"
proof -
  have "bundle_validate talk_intel (bundle_new peer_scope) = Inr ()"
    by (simp add: bundle_validate_def bundle_new_def)
  then have "validate_candidate talk_intel (note_of c) (bundle_new peer_scope) = Inr ()"
    using quote_ok quote_line [OF assms]
    by (simp add: validate_candidate_def Let_def note_ids [OF assms] saying_def said_def starts_with_def bundle_new_def
        ascii_ws_def ws2_def ws3_def)
  moreover have "related_records talk_intel (note_of c) (bundle_new peer_scope) = []"
    by (simp add: related_records_def bundle_new_def)
  ultimately show ?thesis by (simp add: questions_def Let_def novelty_criteria_def)
qed

lemma note_replays:
  assumes "is_lowhex c"
  shows "validate_replication_receipt talk_intel (note_of c) (note_receipt c) b = Inr ()"
proof -
  let ?qs = "assessment_questions novelty_base"
  have state: "jset (state_json (note_of c) []) ''related'' (JArray []) = Some (state_json (note_of c) [])"
    "json_eq (state_json (note_of c) []) (state_json (note_of c) [])"
    "jarray (jfield (state_json (note_of c) []) ''related'') = Some []"
    by (simp_all add: state_json_def jset_def jfield_def jtext_def jtexts_def jopt_def)
  obtain ins where ins: "bt_get ?qs ''novelty'' = Some (Q_Choice ins novelty_base)"
    using assessment_questions_get(1) by blast
  have same: "bt_insert ''novelty'' (Q_Choice ins novelty_base) ?qs = ?qs"
    by (rule bt_insert_known [OF assessment_questions_ok ins])
  have novel: "''novel'' \<in> set (bt_keys novelty_base)" by (simp add: novelty_base_ok)
  have "classify (note_of c) (sure_response (bt_keys novelty_base) ''novel'') = Some (Inr (O_Admitted, IK_Decision))"
    by (subst classify_sure [OF novel]) (simp_all add: consolidate_def)
  then have "replay_outcome talk_intel (note_of c) (note_receipt c) b [] = Inr ()"
    by (simp add: replay_outcome_def)
  then show ?thesis
    by (simp add: validate_replication_receipt_def note_receipt_valid note_questions [OF assms] state ins same)
qed

lemma note_kind: "replication_kind (note_receipt c) = Inr IK_Decision"
  by (simp add: replication_kind_def choice_of_def sure_response_def sure_def)

lemma talk_metadata: "validate_metadata talk_intel talk_bundle = Inr ()"
  by (auto simp: validate_metadata_def record_metadata_iff note_kind disputes_def replacements_def note_ids)

lemma talk_publication_valid: "publication_validate talk_intel peer_scope talk_publication = Inr ()"
proof -
  have "(''intel-candidate:'' @ hex_of CHR ''a'' :: string) < ''intel-candidate:'' @ hex_of CHR ''b''"
    using pair_order(1) by simp
  then have "bt_extend [] (map (\<lambda>c. (ic_id c, c)) (pb_candidates talk_publication))
      = [(ic_id (note_of CHR ''a''), note_of CHR ''a''), (ic_id (note_of CHR ''b''), note_of CHR ''b'')]"
    by (simp add: talk_publication_def)
  then show ?thesis
    using pair_order
    by (simp add: publication_validate_def Let_def talk_publication_def talk_valid talk_metadata note_replays bt_keys_def)
qed

section \<open>The events\<close>

definition talk_codec :: sync_codec where
  "talk_codec = peer_codec\<lparr>sx_codec := talk_intel,
     sx_body := (\<lambda>(v, g, sc, ps, p). case p of
        PL_Publication _ \<Rightarrow> ''c''
      | PL_Resolution x \<Rightarrow> if re_action x = AC_Duplicate then ''d'' else ''e''
      | PL_Reservation j _ _ _ \<Rightarrow> j)\<rparr>"

lemma talk_codec_fields [simp]:
  "sx_codec talk_codec = talk_intel" "sx_event talk_codec = sev_id" "sx_grant talk_codec g = []"
  "sx_verify talk_codec = sx_verify peer_codec" "sx_job talk_codec j = []" "sx_question talk_codec q = []"
  "sx_record talk_codec = in_id" "sx_receipt talk_codec a = JString (am_id a)" "sx_candidate talk_codec n = JNull"
  "sx_body talk_codec (v, owner, sc, ps, p) = (case p of PL_Publication _ \<Rightarrow> ''c''
      | PL_Resolution x \<Rightarrow> if re_action x = AC_Duplicate then ''d'' else ''e'' | PL_Reservation j _ _ _ \<Rightarrow> j)"
  by (simp_all add: talk_codec_def peer_codec_def)

definition talk_event :: "char \<Rightarrow> string list \<Rightarrow> payload \<Rightarrow> signed_event" where
  "talk_event c parents p =
     \<lparr>sev_version = 1, sev_id = hex_of c, sev_grant = sy_grant (peer_identity CHR ''2''), sev_scope = peer_scope,
      sev_parents = parents, sev_payload = p,
      sev_signature = hex_of CHR ''2'' @ ''chaosbox-event-v1'' @ [NUL] @ hex_of c\<rparr>"

lemma talk_event_fields [simp]:
  "sev_id (talk_event c ps p) = hex_of c" "sev_parents (talk_event c ps p) = ps" "sev_payload (talk_event c ps p) = p"
  by (simp_all add: talk_event_def)

lemma talk_event_valid:
  assumes "is_lowhex c" and "payload_validate talk_codec peer_scope p = Inr ()"
    and "sx_body talk_codec (1, sy_grant (peer_identity CHR ''2''), peer_scope, ps, p) = [c]"
    and "ps \<in> {[], [hex_of d]}" and "d \<noteq> c" and "is_lowhex d"
  shows "event_validate talk_codec peer_user peer_scope (talk_event c ps p) = Inr ()"
proof -
  have "event_identity talk_codec (talk_event c ps p) = hex_of c"
    using assms(1,3) digest_last [of "[]" "[]" c] by (simp add: event_identity_def talk_event_def)
  moreover have "grant_validate talk_codec (sy_grant (peer_identity d)) peer_user peer_scope = Inr ()" for d
    by (simp add: grant_validate_def peer_identity_def ascending_def) (simp add: peer_codec_def)
  ultimately show ?thesis
    using assms(2,4,5) hex_of_digest [OF assms(6)]
    by (auto simp: event_validate_def MAX_EVENTS_def MAX_EVENT_BYTES_def ascending_def talk_event_def)
      (simp_all add: peer_codec_def hex_of_def peer_identity_def)
qed

definition published_event :: signed_event where
  "published_event = talk_event CHR ''c'' [] (PL_Publication talk_publication)"

definition source_replica :: replica where
  "source_replica = (replica_new peer_user peer_scope)\<lparr>rl_events := [(hex_of CHR ''c'', published_event)]\<rparr>"

definition talk_job :: job where
  "talk_job = pair_job talk_codec (note_record CHR ''a'') (note_record CHR ''b'') source_replica []"

definition judgement :: "string \<Rightarrow> system_one_response" where
  "judgement k = \<lparr>srs_model = JEV_MODEL_PINNED,
     srs_answers = [(''left_replacement_support'', certain), (''relation'', A_Choice (sure (bt_keys relation_options) k)),
       (''right_replacement_support'', certain)],
     srs_usage = \<lparr>us_input_tokens = 1, us_output_tokens = 1\<rparr>\<rparr>"

definition decision :: "string \<Rightarrow> action \<Rightarrow> resolution" where
  "decision k a = \<lparr>re_job = talk_job, re_rubric = RUBRIC, re_response = judgement k, re_action = a\<rparr>"

definition duplicate_event :: signed_event where
  "duplicate_event = talk_event CHR ''d'' [hex_of CHR ''c''] (PL_Resolution (decision ''duplicate'' AC_Duplicate))"

definition distinct_event :: signed_event where
  "distinct_event = talk_event CHR ''e'' [hex_of CHR ''c''] (PL_Resolution (decision ''distinct'' AC_Distinct))"

definition talk_events :: "(string, signed_event) btree" where
  "talk_events = [(hex_of CHR ''c'', published_event), (hex_of CHR ''d'', duplicate_event), (hex_of CHR ''e'', distinct_event)]"

definition talk_replica :: replica where
  "talk_replica = replica_of talk_codec peer_user peer_scope talk_events"

section \<open>The answers\<close>

lemma relation_keys:
  "bt_ok relation_options" "bt_keys relation_options
    = [''abstain'', ''contradiction'', ''distinct'', ''duplicate'', ''left_replaces_right'', ''right_replaces_left'']"
  by (simp_all add: relation_options_def bt_keys_def)

lemma asked_keys: "bt_ok job_questions"
  "bt_keys job_questions = [''left_replacement_support'', ''relation'', ''right_replacement_support'']"
  by (simp_all add: job_questions_def bt_keys_def)

lemma asked_get:
  "bt_get job_questions ''relation'' = Some (Q_Choice relation_instructions relation_options)"
  "bt_get job_questions ''left_replacement_support'' = Some (Q_Noul (replacement_instructions ''left'' ''right'') None)"
  "bt_get job_questions ''right_replacement_support'' = Some (Q_Noul (replacement_instructions ''right'' ''left'') None)"
  by (simp_all add: job_questions_def)

lemma judgement_valid:
  assumes "k \<in> {''duplicate'', ''distinct''}"
  shows "validate_response (judgement k) job_questions (question_options job_questions) = Inr ()"
proof -
  have sure: "choice_ok (Some (bt_keys relation_options)) (sure (bt_keys relation_options) k)"
    using assms by (intro sure_ok) (auto simp: relation_keys)
  have ok: "\<exists>a. bt_get (srs_answers (judgement k)) i = Some a
      \<and> answer_ok (bt_get (question_options job_questions) i) q a" if q: "bt_get job_questions i = Some q" for i q
  proof -
    have "i \<in> set (bt_keys job_questions)" using q by (simp add: bt_keys_iff bt_contains_iff_Some)
    then consider "i = ''left_replacement_support''" | "i = ''relation''" | "i = ''right_replacement_support''"
      unfolding asked_keys(2) list.set insert_iff empty_iff by (elim disjE FalseE)
    then show ?thesis
    proof cases
      case 2
      with q asked_get(1) have "q = Q_Choice relation_instructions relation_options" by simp
      with 2 sure asked_get(1) show ?thesis by (simp add: bt_get_options judgement_def)
    next
      case 1
      with q asked_get(2) have "q = Q_Noul (replacement_instructions ''left'' ''right'') None" by simp
      with 1 certain_ok show ?thesis by (simp add: judgement_def)
    next
      case 3
      with q asked_get(3) have "q = Q_Noul (replacement_instructions ''right'' ''left'') None" by simp
      with 3 certain_ok show ?thesis by (simp add: judgement_def)
    qed
  qed
  have "bt_keys (srs_answers (judgement k)) = bt_keys job_questions"
    unfolding asked_keys(2) by (simp add: judgement_def bt_keys_def)
  then have "response_ok (judgement k) job_questions (question_options job_questions) JEV_MODEL_PINNED"
    unfolding response_ok_def using ok by (simp add: judgement_def)
  moreover have "bt_ok (srs_answers (judgement k))" by (simp add: judgement_def)
  ultimately show ?thesis
    unfolding validate_response_def by (subst validate_response_for_model_ok [OF asked_keys(1)]) simp_all
qed

lemma judgement_action:
  "classify_relation j (judgement ''duplicate'') = Inr AC_Duplicate"
  "classify_relation j (judgement ''distinct'') = Inr AC_Distinct"
proof -
  have probability: "strong (sure (bt_keys relation_options) k)" if "k \<in> set (bt_keys relation_options)" for k
    using sure_strong [OF that] .
  have "action_of j (judgement ''duplicate'') (sure (bt_keys relation_options) ''duplicate'') = AC_Duplicate"
    "action_of j (judgement ''distinct'') (sure (bt_keys relation_options) ''distinct'') = AC_Distinct"
    using probability [of "''duplicate''"] probability [of "''distinct''"] one_passes
    by (simp_all add: relation_keys action_of_def strong_def) (simp_all add: sure_def)
  moreover have "bt_keys (ca_probabilities (sure (bt_keys relation_options) k)) = bt_keys relation_options" for k
    by (simp add: sure_def bt_keys_def comp_def)
  moreover have "bt_get (srs_answers (judgement k)) ''relation'' = Some (A_Choice (sure (bt_keys relation_options) k))"
    "srs_model (judgement k) = JEV_MODEL_PINNED" for k
    by (simp_all add: judgement_def)
  ultimately show "classify_relation j (judgement ''duplicate'') = Inr AC_Duplicate"
    "classify_relation j (judgement ''distinct'') = Inr AC_Distinct"
    by (simp_all add: classify_relation_def judgement_valid)
qed

section \<open>The job\<close>

lemma talk_digest: "is_digest (sha256_hex peer_hash xs)"
  by (simp add: sha256_hex_def peer_hash_digest)

lemma publications_of [simp]:
  "publications source_replica = [talk_publication]" "rl_scope source_replica = peer_scope"
  by (simp_all add: publications_def source_replica_def published_event_def bt_values_def map_filter_simps replica_new_def)

lemma note_order:
  "''intel:'' @ hex_of CHR ''a'' < ''intel:'' @ hex_of CHR ''b''"
  using pair_order(1) by simp

lemma talk_job_fields:
  "jb_scope talk_job = peer_scope" "jb_left talk_job = ''intel:'' @ hex_of CHR ''a''"
  "jb_right talk_job = ''intel:'' @ hex_of CHR ''b''" "jb_prior talk_job = []"
  "jb_left_version talk_job = record_version talk_codec (note_record CHR ''a'')"
  "jb_right_version talk_job = record_version talk_codec (note_record CHR ''b'')"
  "jb_state talk_job = JObject [(''left'', record_state talk_codec (note_record CHR ''a'') source_replica),
      (''right'', record_state talk_codec (note_record CHR ''b'') source_replica),
      (''prior_assessments'', JArray []), (''historical_data_not_instructions'', JBool True)]"
  "jb_id talk_job = job_identity talk_codec talk_job"
  by (simp_all add: talk_job_def pair_job_def Let_def note_ids prior_receipts_def map_filter_simps job_identity_def)

lemma state_refl:
  "json_eq (record_state talk_codec (note_record c) rep) (record_state talk_codec (note_record c) rep)"
proof -
  have e: "json_eq (evidence_json x) (evidence_json x)" for x
    by (cases "se_observed_at_ms x") (simp_all add: evidence_json_def jtext_def jint_def jopt_def)
  have candidate: "jopt (sx_candidate talk_codec) y = JNull" for y by (simp add: jopt_def split: option.split)
  have "latest_user (in_evidence (note_record c)) = Some (saying c)" by (simp add: latest_user_def)
  then show ?thesis
    by (simp add: record_state_def Let_def candidate e jtext_def jint_def jopt_def jtexts_def split: option.split)
qed

lemma talk_job_valid: "job_validate talk_codec talk_job = Inr ()"
proof -
  have "jfield (jfield (jb_state talk_job) ''left'') ''id'' = JString (jb_left talk_job)"
    "jfield (jfield (jb_state talk_job) ''right'') ''id'' = JString (jb_right talk_job)"
    by (simp_all add: talk_job_fields jfield_def record_state_def Let_def jtext_def note_ids)
  moreover have "check_context_limits (sx_question talk_codec) (cx_value talk_intel (jb_state talk_job)) job_questions = Inr ()"
    by (simp add: talk_job_fields(7) talk_intel_def jfield_def check_context_limits_def Let_def bt_values_def
        estimate_tokens_def div_ceil_def job_questions_def CTX_TOTAL_MAX_def CTX_STATE_PLUS_LONGEST_MAX_def)
  moreover have "starts_with peer_scope ''private:''" by (simp add: peer_scope_def starts_with_def)
  moreover have "is_digest (jb_left_version talk_job)" "is_digest (jb_right_version talk_job)"
    by (simp_all add: talk_job_fields record_version_def talk_digest)
  ultimately show ?thesis
    using note_order
    by (simp add: job_validate_def flip: talk_job_fields(8)) (simp add: talk_job_fields ascending_def)
qed

lemma decisions_valid:
  "resolution_validate talk_codec (decision ''duplicate'' AC_Duplicate) = Inr ()"
  "resolution_validate talk_codec (decision ''distinct'' AC_Distinct) = Inr ()"
  by (simp_all add: resolution_validate_def decision_def talk_job_valid judgement_action)

lemma talk_events_valid:
  "event_validate talk_codec peer_user peer_scope published_event = Inr ()"
  "event_validate talk_codec peer_user peer_scope duplicate_event = Inr ()"
  "event_validate talk_codec peer_user peer_scope distinct_event = Inr ()"
proof -
  have scope: "jb_scope (re_job (decision k a)) = peer_scope" for k a
    by (simp add: decision_def talk_job_fields)
  show "event_validate talk_codec peer_user peer_scope published_event = Inr ()"
    unfolding published_event_def
    by (rule talk_event_valid [where d = "CHR ''d''"]) (simp_all add: payload_validate_def talk_publication_valid)
  show "event_validate talk_codec peer_user peer_scope duplicate_event = Inr ()"
    unfolding duplicate_event_def
    by (rule talk_event_valid [where d = "CHR ''c''"])
      (simp_all add: payload_validate_def scope decisions_valid, simp_all add: decision_def)
  show "event_validate talk_codec peer_user peer_scope distinct_event = Inr ()"
    unfolding distinct_event_def
    by (rule talk_event_valid [where d = "CHR ''c''"])
      (simp_all add: payload_validate_def scope decisions_valid, simp_all add: decision_def)
qed

lemma talk_order:
  "hex_of CHR ''c'' < hex_of CHR ''d''" "hex_of CHR ''c'' < hex_of CHR ''e''" "hex_of CHR ''d'' < hex_of CHR ''e''"
  using hex_of_less [of "CHR ''c''" "CHR ''d''"] hex_of_less [of "CHR ''c''" "CHR ''e''"]
    hex_of_less [of "CHR ''d''" "CHR ''e''"] by (simp_all add: less_char_def)

lemma talk_event_ids [simp]:
  "sev_id published_event = hex_of CHR ''c''" "sev_id duplicate_event = hex_of CHR ''d''"
  "sev_id distinct_event = hex_of CHR ''e''" "sev_parents published_event = []"
  "sev_parents duplicate_event = [hex_of CHR ''c'']" "sev_parents distinct_event = [hex_of CHR ''c'']"
  "sev_payload published_event = PL_Publication talk_publication"
  "sev_payload duplicate_event = PL_Resolution (decision ''duplicate'' AC_Duplicate)"
  "sev_payload distinct_event = PL_Resolution (decision ''distinct'' AC_Distinct)"
  by (simp_all add: published_event_def duplicate_event_def distinct_event_def)

lemma talk_replica_ok: "replica_ok talk_codec talk_replica"
  using talk_events_valid talk_order
  by (simp add: replica_ok_def talk_replica_def replica_of_def talk_events_def MAX_EVENTS_def MAX_REPLICA_BYTES_def
      event_bytes_def bt_values_def) (simp add: hex_of_def)

section \<open>The view\<close>

lemma receipt_order: "''intel-assessment:'' @ hex_of CHR ''a'' < ''intel-assessment:'' @ hex_of CHR ''b''"
  using pair_order(1) by simp

definition talk_receipts :: "(string, assessment) btree" where
  "talk_receipts = [(am_id (note_receipt CHR ''a''), note_receipt CHR ''a''), (am_id (note_receipt CHR ''b''), note_receipt CHR ''b'')]"

lemma note_final:
  assumes "c \<in> {CHR ''a'', CHR ''b''}"
  shows "finalize_record talk_intel (note_record c) [(am_id (note_receipt c), [])] talk_receipts = Inr (note_record c)"
proof -
  let ?i = "am_id (note_receipt c)"
  have get: "bt_get talk_receipts ?i = Some (note_receipt c)"
    using assms by (auto simp: talk_receipts_def note_ids)
  have calm: "\<not> deferred [(?i, [])] talk_receipts ?i" by (simp add: deferred_def withholds_def get)
  have "ordered [(?i, [])] (deferred [(?i, [])] talk_receipts) = Inr [?i]"
    by (simp add: ordered_def children_of_def bt_contains_def)
  moreover have "admits talk_intel talk_receipts (note_record c) (saying c) ?i"
    by (simp add: admits_def get record_id_def)
  moreover have "status_of talk_intel talk_receipts u = IS_Admitted"
    if "in_evidence u = [saying c]" "in_assessments u = [?i]" "in_contradicts u = []" for u
    using that by (simp add: status_of_def talk_receipts_def bt_values_def map_filter_simps get [unfolded talk_receipts_def])
  ultimately show ?thesis
    by (simp add: finalize_record_def refused_def Let_def get note_kind bt_values_def)
qed

lemma talk_baseline:
  assumes "rl_scope rep = peer_scope"
    and "bt_values (rl_events rep) \<in> {[published_event], [published_event, duplicate_event, distinct_event]}"
  shows "baseline talk_codec rep = Inr talk_bundle"
proof -
  let ?id = "\<lambda>c. record_id talk_intel (note_of c)" and ?am = "\<lambda>c. am_id (note_receipt c)"
  let ?g = "\<lparr>mg_records = [(?id CHR ''a'', note_record CHR ''a''), (?id CHR ''b'', note_record CHR ''b'')],
      mg_receipts = talk_receipts,
      mg_chains = [(?id CHR ''a'', [(?am CHR ''a'', [])]), (?id CHR ''b'', [(?am CHR ''b'', [])])], mg_coverage = []\<rparr>"
  have less: "?id CHR ''a'' < ?id CHR ''b''" "?am CHR ''a'' < ?am CHR ''b''"
    using note_order receipt_order by (simp_all add: note_ids)
  have neq: "\<not> ?id CHR ''b'' < ?id CHR ''a''" "\<not> ?am CHR ''b'' < ?am CHR ''a''"
    "?id CHR ''b'' \<noteq> ?id CHR ''a''" "?am CHR ''b'' \<noteq> ?am CHR ''a''" "?id CHR ''a'' \<noteq> ?id CHR ''b''"
    using less by auto
  have merged: "merge_events talk_codec \<lparr>mg_records = [], mg_receipts = [], mg_chains = [], mg_coverage = []\<rparr>
      (published_event # es) = merge_events talk_codec ?g es" for es
    using less neq by (simp add: talk_publication_def link_chain_def talk_receipts_def Let_def
        bt_alter_def bt_or_insert_def bt_contains_def)
  define g where "g = ?g"
  have g: "mg_records g = [(?id CHR ''a'', note_record CHR ''a''), (?id CHR ''b'', note_record CHR ''b'')]"
    "mg_receipts g = talk_receipts" "mg_coverage g = []"
    "bt_get (mg_chains g) (?id CHR ''a'') = Some [(?am CHR ''a'', [])]"
    "bt_get (mg_chains g) (?id CHR ''b'') = Some [(?am CHR ''b'', [])]"
    using neq by (simp_all add: g_def)
  have "merge_events talk_codec \<lparr>mg_records = [], mg_receipts = [], mg_chains = [], mg_coverage = []\<rparr>
      (bt_values (rl_events rep)) = Inr g"
    using assms(2) unfolding insert_iff empty_iff by (elim disjE FalseE) (simp_all only: merged, simp_all add: g_def)
  moreover have "finalize_all talk_intel g (mg_records g) = Inr (bu_records talk_bundle)"
    by (simp add: g note_final)
  moreover have "\<lparr>bu_version = 1, bu_scope = peer_scope, bu_records = bu_records talk_bundle,
      bu_assessments = bt_values (mg_receipts g), bu_coverage = bt_values (mg_coverage g)\<rparr> = talk_bundle"
    by (simp add: talk_bundle_def talk_receipts_def bt_values_def g)
  ultimately show ?thesis using talk_valid
    by (simp add: baseline_def Let_def assms(1) del: talk_bundle_fields)
qed

lemma record_versions:
  "record_version talk_codec (note_record CHR ''a'') = jb_left_version talk_job"
  "record_version talk_codec (note_record CHR ''b'') = jb_right_version talk_job"
  by (simp_all add: talk_job_fields)

lemma talk_applies:
  assumes "sev_parents e = [hex_of CHR ''c'']" and "re_job x = talk_job"
  shows "resolution_applies talk_codec talk_replica talk_bundle e x = Inr True"
proof -
  have before: "ancestors talk_replica (sev_parents e) = Inr source_replica"
    by (simp add: ancestors_def assms(1) talk_replica_def talk_events_def source_replica_def bt_contains_def)
  have "baseline talk_codec source_replica = Inr talk_bundle"
    by (rule talk_baseline) (simp_all add: source_replica_def bt_values_def)
  moreover have found: "find_record talk_bundle (jb_left talk_job) = Some (note_record CHR ''a'')"
    "find_record talk_bundle (jb_right talk_job) = Some (note_record CHR ''b'')"
    using note_order by (simp_all add: find_record_def talk_job_fields note_ids)
  moreover have "pair_job talk_codec (note_record CHR ''a'') (note_record CHR ''b'') source_replica (jb_prior talk_job) = talk_job"
    by (simp add: talk_job_fields) (simp add: talk_job_def)
  moreover have "job_eq talk_job talk_job"
    by (simp add: job_eq_def talk_job_fields(7) state_refl)
  moreover have "jb_prior talk_job = []" by (simp add: talk_job_fields)
  ultimately show ?thesis
    by (simp add: resolution_applies_def before assms(2) Let_def) (simp add: pair_job_def Let_def record_versions)
qed

definition dispute_of :: relationship where
  "dispute_of = \<lparr>rs_left = ''intel:'' @ hex_of CHR ''a'', rs_right = ''intel:'' @ hex_of CHR ''b'',
     rs_action = AC_Abstain, rs_receipts = [hex_of CHR ''d'', hex_of CHR ''e''], rs_unresolved = True\<rparr>"

lemma talk_resolutions:
  "resolutions talk_replica = [(duplicate_event, decision ''duplicate'' AC_Duplicate),
     (distinct_event, decision ''distinct'' AC_Distinct)]"
  by (simp add: resolutions_def talk_replica_def talk_events_def bt_values_def map_filter_simps)

lemma talk_project:
  obtains v where "project talk_codec talk_replica = Inr v" and "vw_relationships v = [dispute_of]"
    and "vw_bundle v = talk_bundle"
proof -
  let ?c = "hex_of CHR ''c''" and ?d = "hex_of CHR ''d''" and ?e = "hex_of CHR ''e''"
  have "ordered [(?c, []), (?d, [?c]), (?e, [?c])] (\<lambda>_. False) = Inr [?c, ?d, ?e]"
    using talk_order by (simp add: ordered_def children_of_def bt_contains_def)
  then have order: "ordered (map (\<lambda>(i, e). (i, bs_of (sev_parents e))) (rl_events talk_replica)) (\<lambda>_. False) = Inr [?c, ?d, ?e]"
    by (simp add: talk_replica_def talk_events_def)
  have base: "baseline talk_codec talk_replica = Inr talk_bundle"
    by (rule talk_baseline) (simp_all add: talk_replica_def talk_events_def bt_values_def)
  have jobs: "re_job (decision k a) = talk_job" "re_action (decision k a) = a" for k a
    by (simp_all add: decision_def)
  have "applicable talk_codec talk_replica talk_bundle (resolutions talk_replica) = Inr (resolutions talk_replica)"
    by (simp add: talk_resolutions talk_applies jobs)
  moreover have "map relate (foldl (\<lambda>m g. bt_alter (pair_of g) [] (\<lambda>gs. gs @ [g]) m) [] (resolutions talk_replica))
      = [dispute_of]"
    by (simp add: talk_resolutions pair_of_def jobs bt_alter_def relate_def maximal_def talk_job_fields Let_def dispute_of_def)
  ultimately show thesis
    by (intro that [of "\<lparr>vw_digest = replica_digest talk_codec talk_replica, vw_heads = heads talk_replica,
        vw_bundle = talk_bundle, vw_relationships = [dispute_of],
        vw_receipts = map (\<lambda>(e, x). (sev_id e, x)) (resolutions talk_replica)\<rparr>"])
      (simp_all add: project_def refused_def order base Let_def)
qed

text \<open>The dispute is reported: both decisions stand, they disagree, and the relationship abstains.\<close>

theorem view_relationships_backed_witness:
  "\<exists>v H. project talk_codec talk_replica = Inr v \<and> vw_relationships v = [dispute_of]
     \<and> H = standing talk_codec talk_replica (vw_bundle v) (rs_left dispute_of, rs_right dispute_of)
     \<and> (sev_id \<circ> fst) ` H = {hex_of CHR ''d'', hex_of CHR ''e''}
     \<and> (\<exists>(e, x) \<in> H. \<exists>(e', x') \<in> H. re_action x \<noteq> re_action x')"
proof -
  obtain v where v: "project talk_codec talk_replica = Inr v" "vw_relationships v = [dispute_of]"
    by (rule talk_project)
  have d: "rs_unresolved dispute_of" "rs_receipts dispute_of = [hex_of CHR ''d'', hex_of CHR ''e'']"
    by (simp_all add: dispute_of_def)
  define H where "H = standing talk_codec talk_replica (vw_bundle v) (rs_left dispute_of, rs_right dispute_of)"
  have "dispute_of \<in> set (vw_relationships v)" by (simp add: v(2))
  with view_relationships_backed [OF talk_replica_ok v(1)]
  have "set (rs_receipts dispute_of) = (sev_id \<circ> fst) ` H \<and> (\<exists>(e, x) \<in> H. \<exists>(e', x') \<in> H. re_action x \<noteq> re_action x')"
    unfolding Let_def H_def using d(1) by meson
  with v d(2) show ?thesis
    by (intro exI [of _ v] exI [of _ H]) (simp add: H_def)
qed

theorem projected_view_reads_back_witness:
  "\<exists>v. project talk_codec talk_replica = Inr v \<and> length (bu_records (vw_bundle v)) = 2
     \<and> vw_relationships v = [dispute_of] \<and> view_validate talk_codec v = Inr ()"
proof -
  obtain v where v: "project talk_codec talk_replica = Inr v" "vw_relationships v = [dispute_of]"
    "vw_bundle v = talk_bundle" by (rule talk_project)
  have hex: "is_digest (cx_hash (sx_codec talk_codec) m)" for m by (simp add: peer_hash_digest)
  have p: "publications talk_replica = [talk_publication]"
    by (simp add: publications_def talk_replica_def talk_events_def bt_values_def map_filter_simps)
  have "faithful_receipts talk_codec (receipts_in (publications talk_replica))"
    by (auto simp: faithful_receipts_def receipts_in_def p talk_publication_def note_ids)
  moreover have "\<forall>q \<in> set (publications talk_replica). keeps_admitted (sx_codec talk_codec) (pb_bundle q)"
    by (simp add: p talk_publication_def keeps_admitted_def)
  ultimately have "view_validate talk_codec v = Inr ()"
    by (rule projected_view_reads_back [OF talk_replica_ok v(1) hex])
  with v show ?thesis by simp
qed

end
