(* ===== verification/Sync_Worker.thy ===== *)
theory Sync_Worker
  imports Sync_Persist Sync_View
begin

text \<open>
  Live reconciliation: the queue of undecided pairs (\<^verbatim>\<open>eligible_jobs\<close> of
  \<^verbatim>\<open>crates/chaosbox/src/sync/reconcile.rs\<close>) and the worker of \<^verbatim>\<open>sync/worker.rs\<close>, which
  reserves its spending in the history before it asks the model.
\<close>

section \<open>The queue\<close>

text \<open>Each record with every later one, in order.\<close>

fun later_pairs :: "'a list \<Rightarrow> ('a \<times> 'a) list" where
  "later_pairs [] = []"
| "later_pairs (x # xs) = map (Pair x) xs @ later_pairs xs"

definition comparable :: "codec \<Rightarrow> intelligence \<times> intelligence \<Rightarrow> bool" where
  "comparable E p \<longleftrightarrow> in_repositories (fst p) = in_repositories (snd p)
     \<and> (\<exists>w \<in> set (words E (in_statement (fst p))). w \<in> set (words E (in_statement (snd p))))"

text \<open>The job that is still open for a pair, if its last decisions do not agree on one action.\<close>

definition open_job :: "sync_codec \<Rightarrow> replica \<Rightarrow> intelligence \<times> intelligence \<Rightarrow> job option" where
  "open_job S r p =
     (let base = pair_job S (fst p) (snd p) r [];
          hs = maximal (matching r base)
      in if length (remdups (map (re_action \<circ> snd) hs)) = 1 then None
         else Some (pair_job S (fst p) (snd p) r (sort (map (sev_id \<circ> fst) hs))))"

fun collect_jobs ::
  "sync_codec \<Rightarrow> replica \<Rightarrow> string btset \<Rightarrow> nat \<Rightarrow> job list \<Rightarrow> (intelligence \<times> intelligence) list \<Rightarrow> job list" where
  "collect_jobs S r excluded limit jobs [] = jobs"
| "collect_jobs S r excluded limit jobs (p # ps) =
     (if \<not> comparable (sx_codec S) p then collect_jobs S r excluded limit jobs ps
      else case open_job S r p of
        None \<Rightarrow> collect_jobs S r excluded limit jobs ps
      | Some j \<Rightarrow>
          if jb_id j \<in> set excluded then collect_jobs S r excluded limit jobs ps
          else if length (jobs @ [j]) = limit then jobs @ [j]
          else collect_jobs S r excluded limit (jobs @ [j]) ps)"

definition eligible_jobs ::
  "sync_codec \<Rightarrow> replica \<Rightarrow> view \<Rightarrow> nat \<Rightarrow> string btset \<Rightarrow> sync_error + job list" where
  "eligible_jobs S r v limit excluded =
     (if \<not> (1 \<le> limit \<and> limit \<le> 200) then Inl (Refused ''reconciliation job limit 1..200'')
      else Inr (collect_jobs S r excluded limit [] (later_pairs (bu_records (vw_bundle v)))))"

definition reconcile_jobs :: "sync_codec \<Rightarrow> replica \<Rightarrow> view \<Rightarrow> nat \<Rightarrow> sync_error + job list" where
  "reconcile_jobs S r v limit = eligible_jobs S r v limit []"

section \<open>The worker\<close>

record reconcile_budget =
  rb_epoch :: string
  rb_requests :: u32
  rb_input_tokens :: u64
  rb_max_jobs :: nat
  rb_retry :: bool

text \<open>
  What the worker takes from outside: the serializer of its input, the model, and random
  attempt identities, both numbered by dispatch.
\<close>

record worker_env =
  we_input :: "json \<times> (string, question) btree \<Rightarrow> string"
  we_ask :: "nat \<Rightarrow> json \<Rightarrow> (string, question) btree \<Rightarrow> system_one_response option"
  we_nonce :: "nat \<Rightarrow> string option"

definition reservations :: "replica \<Rightarrow> string \<Rightarrow> string \<Rightarrow> (string \<times> u64) list" where
  "reservations r device epoch = List.map_filter
     (\<lambda>e. if sg_device (sev_grant e) \<noteq> device then None
          else (case sev_payload e of PL_Reservation j b t _ \<Rightarrow> if b = epoch then Some (j, t) else None | _ \<Rightarrow> None))
     (bt_values (rl_events r))"

definition deferred_attempts :: "replica \<Rightarrow> bool \<Rightarrow> string btset" where
  "deferred_attempts r retry =
     (if retry then []
      else bs_of (List.map_filter (\<lambda>e. case sev_payload e of PL_Reservation j _ _ _ \<Rightarrow> Some j | _ \<Rightarrow> None)
        (bt_values (rl_events r))))"

text \<open>Sums of 64-bit counters that refuse to wrap.\<close>

definition checked_add :: "u64 \<Rightarrow> u64 \<Rightarrow> u64 option" where
  "checked_add a b = (if unat a + unat b < 2 ^ 64 then Some (a + b) else None)"

fun checked_sum :: "u64 \<Rightarrow> u64 list \<Rightarrow> u64 option" where
  "checked_sum n [] = Some n"
| "checked_sum n (t # ts) = (case checked_add n t of None \<Rightarrow> None | Some m \<Rightarrow> checked_sum m ts)"

text \<open>The reservation that a dispatch needs, if the budget still has room for it.\<close>

definition reserve_tokens ::
  "worker_env \<Rightarrow> reconcile_budget \<Rightarrow> (string \<times> u64) list \<Rightarrow> job \<Rightarrow> sync_error + u64" where
  "reserve_tokens W budget spent j =
     (let encoded = we_input W (jb_state j, job_questions);
          size = max (length encoded) (estimate_tokens encoded) in
      if 2 ^ 64 \<le> size then Inl (Refused ''token reservation overflow'')
      else case checked_add (of_nat size) 1024 of
        None \<Rightarrow> Inl (Refused ''token reservation overflow'')
      | Some tokens \<Rightarrow>
          (case checked_sum 0 (map snd spent) of
             None \<Rightarrow> Inl (Refused ''token ledger overflow'')
           | Some used \<Rightarrow>
               if unat (rb_requests budget) \<le> length spent
                 \<or> (case checked_add used tokens of None \<Rightarrow> True | Some n \<Rightarrow> rb_input_tokens budget < n)
               then Inl (Refused ''persistent reconciliation budget exhausted'')
               else Inr tokens))"

text \<open>
  After the reservation is stored: the question to the model, and the decision as an event
  whose parents are the heads the job was made from and the reservation.
\<close>

definition decide_job ::
  "sync_codec \<Rightarrow> (view \<Rightarrow> string) \<Rightarrow> worker_env \<Rightarrow> sync_identity \<Rightarrow> string \<Rightarrow> string list \<Rightarrow> nat \<Rightarrow> replica_store
   \<Rightarrow> job \<Rightarrow> (replica_store, sync_error, bool) outcome" where
  "decide_job S enc W me scope parents n st j =
     (let user = sg_user (sy_grant me) in
      case we_ask W n (jb_state j) job_questions of
        None \<Rightarrow> (st, Inl (Refused ''Jev reconciliation failed; spending reservation retained, retry requires --retry''))
      | Some response \<Rightarrow>
     (case resolution_new S j response of
        Inl x \<Rightarrow> (st, Inl x)
      | Inr x \<Rightarrow>
     (case event_signed S me (jb_scope j) parents (PL_Resolution x) of
        Inl y \<Rightarrow> (st, Inl y)
      | Inr e \<Rightarrow>
     (case persist_event S st user scope e of
        (st1, Inl y) \<Rightarrow> (st1, Inl y)
      | (st1, Inr _) \<Rightarrow>
     (case publish_current S enc st1 user scope of
        (st2, Inl y) \<Rightarrow> (st2, Inl y)
      | (st2, Inr _) \<Rightarrow> (st2, Inr True))))))"

text \<open>The reservation: signed on all heads, stored, and only then the question.\<close>

definition reserve_job ::
  "sync_codec \<Rightarrow> (view \<Rightarrow> string) \<Rightarrow> worker_env \<Rightarrow> sync_identity \<Rightarrow> string \<Rightarrow> reconcile_budget
   \<Rightarrow> nat \<Rightarrow> replica \<Rightarrow> replica_store \<Rightarrow> job \<Rightarrow> (replica_store, sync_error, bool) outcome" where
  "reserve_job S enc W me scope budget n r st j =
     (case reserve_tokens W budget (reservations r (sg_device (sy_grant me)) (rb_epoch budget)) j of
        Inl x \<Rightarrow> (st, Inl x)
      | Inr tokens \<Rightarrow>
     (case we_nonce W n of
        None \<Rightarrow> (st, Inl (Refused ''random challenge failed''))
      | Some attempt \<Rightarrow>
     (case event_signed S me scope (heads r) (PL_Reservation (jb_id j) (rb_epoch budget) tokens attempt) of
        Inl x \<Rightarrow> (st, Inl x)
      | Inr reservation \<Rightarrow>
     (case persist_event S st (sg_user (sy_grant me)) scope reservation of
        (st1, Inl x) \<Rightarrow> (st1, Inl x)
      | (st1, Inr _) \<Rightarrow> decide_job S enc W me scope (heads r @ [sev_id reservation]) n st1 j))))"

definition attempted :: "replica \<Rightarrow> job \<Rightarrow> bool" where
  "attempted r j \<longleftrightarrow> (\<exists>e \<in> set (bt_values (rl_events r)).
     case sev_payload e of PL_Reservation i _ _ _ \<Rightarrow> i = jb_id j | _ \<Rightarrow> False)"

text \<open>One job: the store, and whether a decision was recorded; \<open>n\<close> numbers the dispatch.\<close>

definition reconcile_job ::
  "sync_codec \<Rightarrow> (view \<Rightarrow> string) \<Rightarrow> worker_env \<Rightarrow> sync_identity \<Rightarrow> string \<Rightarrow> reconcile_budget \<Rightarrow> string btset
   \<Rightarrow> nat \<Rightarrow> replica_store \<Rightarrow> job \<Rightarrow> (replica_store, sync_error, bool) outcome" where
  "reconcile_job S enc W me scope budget excluded n st j =
     (case job_validate S j of
        Inl x \<Rightarrow> (st, Inl x)
      | Inr _ \<Rightarrow>
     (case load_replica S st (sg_user (sy_grant me)) scope of
        Inl x \<Rightarrow> (st, Inl x)
      | Inr r \<Rightarrow>
     (case project S r of
        Inl x \<Rightarrow> (st, Inl x)
      | Inr v \<Rightarrow>
     (case eligible_jobs S r v (rb_max_jobs budget) excluded of
        Inl x \<Rightarrow> (st, Inl x)
      | Inr current \<Rightarrow>
          if jb_id j \<notin> jb_id ` set current then (st, Inr False)
          else if \<not> rb_retry budget \<and> attempted r j
          then (st, Inr False)
          else reserve_job S enc W me scope budget n r st j))))"

fun reconcile_loop ::
  "sync_codec \<Rightarrow> (view \<Rightarrow> string) \<Rightarrow> worker_env \<Rightarrow> sync_identity \<Rightarrow> string \<Rightarrow> reconcile_budget \<Rightarrow> string btset
   \<Rightarrow> nat \<Rightarrow> replica_store \<Rightarrow> job list \<Rightarrow> (replica_store, sync_error, nat) outcome" where
  "reconcile_loop S enc W me scope budget excluded n st [] = (st, Inr n)"
| "reconcile_loop S enc W me scope budget excluded n st (j # js) =
     (case reconcile_job S enc W me scope budget excluded n st j of
        (st', Inl x) \<Rightarrow> (st', Inl x)
      | (st', Inr decided) \<Rightarrow>
          reconcile_loop S enc W me scope budget excluded (if decided then Suc n else n) st' js)"

definition reconcile ::
  "sync_codec \<Rightarrow> (view \<Rightarrow> string) \<Rightarrow> worker_env \<Rightarrow> sync_identity \<Rightarrow> string \<Rightarrow> reconcile_budget
   \<Rightarrow> replica_store \<Rightarrow> (replica_store, sync_error, nat) outcome" where
  "reconcile S enc W me scope budget st =
     (if blank (rb_epoch budget) \<or> 128 < length (rb_epoch budget)
      then (st, Inl (Refused ''invalid reconciliation budget epoch''))
      else case load_replica S st (sg_user (sy_grant me)) scope of
        Inl x \<Rightarrow> (st, Inl x)
      | Inr r \<Rightarrow>
          (case project S r of
             Inl x \<Rightarrow> (st, Inl x)
           | Inr v \<Rightarrow>
               (let excluded = deferred_attempts r (rb_retry budget) in
                case eligible_jobs S r v (rb_max_jobs budget) excluded of
                  Inl x \<Rightarrow> (st, Inl x)
                | Inr jobs \<Rightarrow> reconcile_loop S enc W me scope budget excluded 0 st jobs)))"

section \<open>The queue as a specification\<close>

lemma collect_jobs_take:
  assumes "length jobs < limit"
  shows "collect_jobs S r excluded limit jobs ps = take limit (jobs @
    filter (\<lambda>j. jb_id j \<notin> set excluded) (List.map_filter (open_job S r) (filter (comparable (sx_codec S)) ps)))"
  using assms
proof (induction ps arbitrary: jobs)
  case (Cons p ps)
  show ?case
  proof (cases "comparable (sx_codec S) p")
    case True
    then show ?thesis
    proof (cases "open_job S r p")
      case (Some j)
      show ?thesis
      proof (cases "jb_id j \<in> set excluded \<or> length (jobs @ [j]) \<noteq> limit")
        case True
        then show ?thesis
          using Cons.IH [of jobs] Cons.IH [of "jobs @ [j]"] Cons.prems \<open>comparable (sx_codec S) p\<close> Some
          by (auto simp: map_filter_simps)
      next
        case False
        with Cons.prems \<open>comparable (sx_codec S) p\<close> Some show ?thesis by (auto simp: map_filter_simps)
      qed
    qed (use Cons in \<open>simp add: map_filter_simps\<close>)
  qed (use Cons in simp)
qed simp

text \<open>
  The queue is deterministic and complete: with a limit in range it holds, in the order of
  the records, the first open jobs of all pairs with the same applicability and a word in
  common, without the excluded ones; nothing else and nothing twice.
\<close>

theorem eligible_jobs_reference:
  "eligible_jobs S r v limit excluded =
     (if 1 \<le> limit \<and> limit \<le> 200
      then Inr (take limit (filter (\<lambda>j. jb_id j \<notin> set excluded)
        (List.map_filter (open_job S r) (filter (comparable (sx_codec S)) (later_pairs (bu_records (vw_bundle v)))))))
      else Inl (Refused ''reconciliation job limit 1..200''))"
  by (simp add: eligible_jobs_def collect_jobs_take)

section \<open>Heads\<close>

lemma heads_iff: "i \<in> set (heads r) \<longleftrightarrow> bt_contains (rl_events r) i
    \<and> (\<forall>e \<in> set (bt_values (rl_events r)). i \<notin> set (sev_parents e))"
  by (auto simp: heads_def Let_def bt_keys_iff)

text \<open>In a complete history without cycles every event leads to a head.\<close>

lemma reaches_head:
  assumes ok: "replica_ok S r" and acyc: "acyclic (causes (history r))" and closed: "closed_dag (history r)"
    and i: "bt_contains (rl_events r) i"
  shows "\<exists>h \<in> set (heads r). (i, h) \<in> (causes (history r))\<^sup>*"
proof -
  have wf: "wf_dag (history r)" using history_ok [OF ok] closed by (simp add: wf_dag_iff)
  have "wf ((causes (history r))\<inverse>)" using finite_causes [OF wf] acyc by (rule finite_acyclic_wf_converse)
  moreover have "i \<in> {k. (i, k) \<in> (causes (history r))\<^sup>*}" by simp
  ultimately obtain h where h: "(i, h) \<in> (causes (history r))\<^sup>*"
    and last: "\<And>k. (k, h) \<in> (causes (history r))\<inverse> \<Longrightarrow> (i, k) \<notin> (causes (history r))\<^sup>*"
    using wfE_min [of "(causes (history r))\<inverse>" i "{k. (i, k) \<in> (causes (history r))\<^sup>*}"]
    by (metis mem_Collect_eq)
  have none: "(h, k) \<notin> causes (history r)" for k
  proof
    assume "(h, k) \<in> causes (history r)"
    with last [of k] rtrancl_into_rtrancl [OF h, of k] show False by simp
  qed
  have "bt_contains (rl_events r) h"
  proof (cases "i = h")
    case False
    with h have "(i, h) \<in> (causes (history r))\<^sup>+" by (simp add: rtrancl_eq_or_trancl)
    then obtain p where "(p, h) \<in> causes (history r)" by (meson tranclE)
    then show ?thesis by (auto simp: history_causes bt_contains_def)
  qed (use i in simp)
  moreover have "h \<notin> set (sev_parents e)" if "e \<in> set (bt_values (rl_events r))" for e
  proof
    assume "h \<in> set (sev_parents e)"
    moreover from that ok obtain k where "bt_get (rl_events r) k = Some e"
      by (auto simp: replica_ok_def elim: bt_valuesE)
    ultimately have "(h, k) \<in> causes (history r)" by (auto simp: history_causes)
    with none show False by blast
  qed
  ultimately show ?thesis using h by (auto simp: heads_iff)
qed

text \<open>An event whose parents are all the heads is new.\<close>

lemma successor_new:
  assumes "replica_ok S r" and "acyclic (causes (history r))" and "closed_dag (history r)"
    and heads: "set (heads r) \<subseteq> set (sev_parents e)"
  shows "bt_get (rl_events r) (sev_id e) \<noteq> Some e"
proof
  assume e: "bt_get (rl_events r) (sev_id e) = Some e"
  then have "bt_contains (rl_events r) (sev_id e)" by (simp add: bt_contains_def)
  from reaches_head [OF assms(1-3) this] obtain h where
    "h \<in> set (heads r)" "(sev_id e, h) \<in> (causes (history r))\<^sup>*" by blast
  moreover from this(1) heads e have "(h, sev_id e) \<in> causes (history r)" by (auto simp: history_causes)
  ultimately have "(sev_id e, sev_id e) \<in> (causes (history r))\<^sup>+" by (simp add: rtrancl_into_trancl1)
  with assms(2) show False by (simp add: acyclic_def)
qed

section \<open>The spending ledger\<close>

definition ledger :: "(string, signed_event) btree \<Rightarrow> string \<Rightarrow> string \<Rightarrow> nat \<times> nat" where
  "ledger m device epoch =
     (let rs = reservations \<lparr>rl_user = [], rl_scope = [], rl_events = m, rl_bytes = 0\<rparr> device epoch
      in (length rs, sum_list (map (unat \<circ> snd) rs)))"

definition charge :: "string \<Rightarrow> string \<Rightarrow> signed_event \<Rightarrow> (string \<times> u64) option" where
  "charge device epoch e =
     (if sg_device (sev_grant e) \<noteq> device then None
      else (case sev_payload e of PL_Reservation j b t _ \<Rightarrow> if b = epoch then Some (j, t) else None | _ \<Rightarrow> None))"

lemma reservations_charge: "reservations r device epoch = List.map_filter (charge device epoch) (bt_values (rl_events r))"
  by (simp add: reservations_def charge_def [abs_def])

lemma ledger_reservations:
  "ledger (rl_events r) d ep = (length (reservations r d ep), sum_list (map (unat \<circ> snd) (reservations r d ep)))"
  by (simp add: ledger_def reservations_charge Let_def)

definition charge_cost :: "string \<Rightarrow> string \<Rightarrow> signed_event \<Rightarrow> nat \<times> nat" where
  "charge_cost d ep e = (case charge d ep e of None \<Rightarrow> (0, 0) | Some (_, t) \<Rightarrow> (1, unat t))"

lemma ledger_sum:
  "ledger m d ep = (sum_list (map (fst \<circ> charge_cost d ep) (bt_values m)), sum_list (map (snd \<circ> charge_cost d ep) (bt_values m)))"
proof -
  have "length (List.map_filter (charge d ep) es) = sum_list (map (fst \<circ> charge_cost d ep) es)
      \<and> sum_list (map (unat \<circ> snd) (List.map_filter (charge d ep) es)) = sum_list (map (snd \<circ> charge_cost d ep) es)" for es
    by (induction es) (auto simp: map_filter_simps charge_cost_def split: option.splits)
  then show ?thesis by (simp add: ledger_def reservations_charge Let_def)
qed

lemma sum_values_insert:
  "bt_get m k = None \<Longrightarrow> sum_list (map f (bt_values (bt_insert k e m))) = f e + (sum_list (map f (bt_values m)) :: nat)"
  by (induction m) (auto simp: bt_values_def split: if_splits)

lemma ledger_insert:
  assumes "bt_get m k = None"
  shows "ledger (bt_insert k e m) d ep = (fst (charge_cost d ep e) + fst (ledger m d ep), snd (charge_cost d ep e) + snd (ledger m d ep))"
  by (simp add: ledger_sum sum_values_insert [OF assms])

lemma checked_add_unat: "checked_add a b = Some c \<Longrightarrow> unat c = unat a + unat b"
proof -
  assume "checked_add a b = Some c"
  then have c: "c = a + b" "unat a + unat b < 2 ^ 64" by (auto simp: checked_add_def split: if_splits)
  then show ?thesis by (simp add: unat_word_ariths)
qed

lemma checked_sum_unat: "checked_sum n ts = Some m \<Longrightarrow> unat m = unat n + sum_list (map unat ts)"
  by (induction ts arbitrary: n) (auto split: option.splits dest!: checked_add_unat)

lemma reserve_tokens_fit:
  assumes "reserve_tokens W budget (reservations r d ep) j = Inr tokens"
  shows "Suc (fst (ledger (rl_events r) d ep)) \<le> unat (rb_requests budget)"
    and "unat tokens + snd (ledger (rl_events r) d ep) \<le> unat (rb_input_tokens budget)"
proof -
  obtain used n where used: "checked_sum 0 (map snd (reservations r d ep)) = Some used" "checked_add used tokens = Some n"
    "\<not> rb_input_tokens budget < n" "\<not> unat (rb_requests budget) \<le> length (reservations r d ep)"
    using assms by (auto simp: reserve_tokens_def Let_def split: if_splits option.splits)
  then show "Suc (fst (ledger (rl_events r) d ep)) \<le> unat (rb_requests budget)" by (simp add: ledger_reservations)
  have "unat n \<le> unat (rb_input_tokens budget)" using used(3) by (simp add: word_le_nat_alt not_less)
  with checked_add_unat [OF used(2)] checked_sum_unat [OF used(1)]
  show "unat tokens + snd (ledger (rl_events r) d ep) \<le> unat (rb_input_tokens budget)"
    by (simp add: ledger_reservations comp_def)
qed

lemma signed_fields:
  assumes "event_signed S me scope ps p = Inr e"
  shows "sev_payload e = p" and "set (sev_parents e) = set ps" and "sev_grant e = sy_grant me"
  using assms by (auto simp: event_signed_def Let_def split: sum.splits)

lemma publish_keeps:
  "holds S u sc st m \<Longrightarrow> publish_attempts S enc n st u sc = (st', res) \<Longrightarrow> holds S u sc st' m"
proof (induction n arbitrary: st)
  case (Suc n)
  have keep: "holds S u sc (fst (replica_publish st u sc i b ex)) m" for i b ex
  proof -
    have "rs_rows (fst (replica_publish st u sc i b ex)) = rs_rows st"
      by (cases rule: replica_publish_cases [of u sc i b st ex]) (simp_all add: with_view_def split: option.splits)
    moreover have "replica_inv (fst (replica_publish st u sc i b ex))"
      using Suc.prems(1) by (intro inv_replica_publish) (simp add: holds_def)
    ultimately show ?thesis using Suc.prems(1) by (simp add: holds_def scope_rows_def)
  qed
  from Suc.prems(2) Suc.prems(1) Suc.IH keep show ?case
    by (auto simp: Let_def split: sum.splits if_splits prod.splits store_error.splits) (metis fst_conv)+
qed simp

lemma insert_grows:
  assumes "bt_ok m" and "bt_get m k \<in> {None, Some e}"
  shows "set m \<subseteq> set (bt_insert k e m)"
proof
  fix x assume x: "x \<in> set m"
  then have "bt_get m (fst x) = Some (snd x)" by (simp add: bt_get_iff_in_set [OF assms(1)])
  then show "x \<in> set (bt_insert k e m)"
    using assms x by (cases x) (auto simp: set_bt_insert)
qed

text \<open>The codec is faithful on every event that the owner's scope would accept.\<close>

definition faithful :: "sync_codec \<Rightarrow> string \<Rightarrow> string \<Rightarrow> bool" where
  "faithful S u sc \<longleftrightarrow> lossless S {e. event_validate S u sc e = Inr ()}"

lemma faithful_insert:
  "faithful S u sc \<Longrightarrow> holds S u sc st m \<Longrightarrow> event_validate S u sc e = Inr () \<Longrightarrow> lossless S (insert e (set (bt_values m)))"
  by (simp add: faithful_def holds_def lossless_def)

lemma decide_spends:
  assumes st: "holds S (sg_user (sy_grant me)) scope st m" and f: "faithful S (sg_user (sy_grant me)) scope"
    and run: "decide_job S enc W me scope ps n st j = (st', res)"
  shows "\<exists>m'. holds S (sg_user (sy_grant me)) scope st' m' \<and> set m \<subseteq> set m' \<and> ledger m' d ep = ledger m d ep \<and> res \<noteq> Inr False"
proof -
  have same: ?thesis if "st' = st" "res \<noteq> Inr False" using st that by blast
  show ?thesis
  proof (cases "we_ask W n (jb_state j) job_questions")
    case None
    with run same show ?thesis by (auto simp: decide_job_def)
  next
    case ask: (Some response)
    show ?thesis
    proof (cases "resolution_new S j response")
      case (Inl x)
      with ask run same show ?thesis by (auto simp: decide_job_def)
    next
      case x: (Inr x)
      show ?thesis
      proof (cases "event_signed S me (jb_scope j) ps (PL_Resolution x)")
        case (Inl y)
        with ask x run same show ?thesis by (auto simp: decide_job_def)
      next
        case e: (Inr e)
        show ?thesis
        proof (cases rule: persist_cases [OF st faithful_insert [OF f st, of e], case_names valid refused kept])
          case (refused y)
          with ask x e run same show ?thesis by (auto simp: decide_job_def)
        next
          case (kept st1)
          let ?m = "bt_insert (sev_id e) e m"
          obtain st2 r2 where pub: "publish_current S enc st1 (sg_user (sy_grant me)) scope = (st2, r2)" by fastforce
          have "holds S (sg_user (sy_grant me)) scope st2 ?m"
            using publish_keeps [OF kept(2)] pub by (simp add: publish_current_def)
          moreover have "st' = st2" "res \<noteq> Inr False"
            using ask x e run kept(1) pub by (auto simp: decide_job_def split: sum.splits)
          moreover have ok: "bt_ok m" using st by (simp add: holds_def entries_ok_def)
          moreover have "set m \<subseteq> set ?m" by (rule insert_grows [OF ok kept(3)])
          moreover have "ledger ?m d ep = ledger m d ep"
          proof (cases "bt_get m (sev_id e)")
            case None
            have "charge_cost d ep e = (0, 0)"
              using signed_fields(1) [OF e] by (simp add: charge_cost_def charge_def)
            then show ?thesis by (simp add: ledger_insert [OF None])
          next
            case (Some e')
            with kept(3) have "?m = m" by (intro bt_insert_known [OF ok]) simp
            then show ?thesis by simp
          qed
          ultimately show ?thesis by blast
        qed simp
      qed
    qed
  qed
qed

text \<open>The model that answers like another up to a dispatch.\<close>

abbreviation asking ::
  "worker_env \<Rightarrow> (nat \<Rightarrow> json \<Rightarrow> (string, question) btree \<Rightarrow> system_one_response option) \<Rightarrow> worker_env" where
  "asking W f \<equiv> W\<lparr>we_ask := f\<rparr>"

lemma asking_job:
  "f n = we_ask W n \<Longrightarrow>
     reconcile_job S enc (asking W f) me scope budget excluded n st j = reconcile_job S enc W me scope budget excluded n st j"
proof -
  assume same: "f n = we_ask W n"
  then have "decide_job S enc (asking W f) me scope ps n st j = decide_job S enc W me scope ps n st j" for ps st
    by (simp add: decide_job_def)
  moreover have "reserve_tokens (asking W f) budget spent j = reserve_tokens W budget spent j" for spent
    by (simp add: reserve_tokens_def)
  moreover have "we_nonce (asking W f) n = we_nonce W n" by simp
  ultimately show ?thesis by (simp only: reconcile_job_def reserve_job_def)
qed

text \<open>
  What one job does to the ledger: nothing, without a question to the model; or it records one
  reservation within the budget before it asks.
\<close>

definition job_spends ::
  "sync_codec \<Rightarrow> (view \<Rightarrow> string) \<Rightarrow> worker_env \<Rightarrow> sync_identity \<Rightarrow> string \<Rightarrow> reconcile_budget \<Rightarrow> string btset
   \<Rightarrow> nat \<Rightarrow> replica_store \<Rightarrow> job \<Rightarrow> (string, signed_event) btree \<Rightarrow> (string, signed_event) btree
   \<Rightarrow> (replica_store, sync_error, bool) outcome \<Rightarrow> bool" where
  "job_spends S enc W me scope budget excluded n st j m m' out \<longleftrightarrow>
     (let L = ledger m (sg_device (sy_grant me)) (rb_epoch budget); L' = ledger m' (sg_device (sy_grant me)) (rb_epoch budget) in
      (m' = m \<and> snd out \<noteq> Inr True
        \<and> (\<forall>f. reconcile_job S enc (asking W f) me scope budget excluded n st j = out))
      \<or> (fst L' = Suc (fst L) \<and> fst L' \<le> unat (rb_requests budget) \<and> snd L' \<le> unat (rb_input_tokens budget)
        \<and> snd out \<noteq> Inr False))"

lemma spend_reserved:
  assumes st: "holds S (sg_user (sy_grant me)) scope st m" and f: "faithful S (sg_user (sy_grant me)) scope"
    and rok: "replica_ok S (replica_of S (sg_user (sy_grant me)) scope m)"
    and v: "project S (replica_of S (sg_user (sy_grant me)) scope m) = Inr v"
    and run: "reserve_job S enc W me scope budget n (replica_of S (sg_user (sy_grant me)) scope m) st j = out"
  shows "(fst out = st \<and> isl (snd out) \<and> (\<forall>g. reserve_job S enc (asking W g) me scope budget n (replica_of S (sg_user (sy_grant me)) scope m) st j = out))
    \<or> (\<exists>m'. holds S (sg_user (sy_grant me)) scope (fst out) m' \<and> set m \<subseteq> set m' \<and> snd out \<noteq> Inr False
      \<and> fst (ledger m' (sg_device (sy_grant me)) (rb_epoch budget)) = Suc (fst (ledger m (sg_device (sy_grant me)) (rb_epoch budget)))
      \<and> fst (ledger m' (sg_device (sy_grant me)) (rb_epoch budget)) \<le> unat (rb_requests budget)
      \<and> snd (ledger m' (sg_device (sy_grant me)) (rb_epoch budget)) \<le> unat (rb_input_tokens budget))"
  (is "?idle \<or> ?spent")
proof -
  let ?u = "sg_user (sy_grant me)" and ?d = "sg_device (sy_grant me)" and ?ep = "rb_epoch budget"
  let ?r = "replica_of S ?u scope m"
  note def = reserve_job_def and pr = project_result [OF rok v]
  have tok: "reserve_tokens (asking W g) = reserve_tokens W" for g by (simp add: reserve_tokens_def [abs_def])
  have ok: "bt_ok m" using st by (simp add: holds_def entries_ok_def)
  show ?thesis
  proof (cases "reserve_tokens W budget (reservations ?r ?d ?ep) j")
    case (Inl x)
    with run show ?thesis by (auto simp: def tok)
  next
    case t: (Inr tokens)
    show ?thesis
    proof (cases "we_nonce W n")
      case None
      with t run show ?thesis by (auto simp: def tok)
    next
      case nonce: (Some attempt)
      show ?thesis
      proof (cases "event_signed S me scope (heads ?r) (PL_Reservation (jb_id j) ?ep tokens attempt)")
        case (Inl x)
        with t nonce run show ?thesis by (auto simp: def tok)
      next
        case e: (Inr e)
        show ?thesis
        proof (cases rule: persist_cases [OF st faithful_insert [OF f st, of e], case_names valid refused kept])
          case (refused x)
          with t nonce e run show ?thesis by (auto simp: def tok)
        next
          case (kept st1)
          let ?m = "bt_insert (sev_id e) e m"
          have "bt_get m (sev_id e) \<noteq> Some e"
            using successor_new [OF rok pr(3,2)] signed_fields(2) [OF e] by simp
          with kept(3) have new: "bt_get m (sev_id e) = None" by simp
          have "charge_cost ?d ?ep e = (1, unat tokens)"
            using signed_fields [OF e] by (simp add: charge_cost_def charge_def)
          then have l: "ledger ?m ?d ?ep = (Suc (fst (ledger m ?d ?ep)), unat tokens + snd (ledger m ?d ?ep))"
            by (simp add: ledger_insert [OF new])
          have "decide_job S enc W me scope (heads ?r @ [sev_id e]) n st1 j = (fst out, snd out)"
            using t nonce e kept(1) run by (simp add: def)
          from decide_spends [OF kept(2) f this, of ?d ?ep] obtain m' where
            m': "holds S ?u scope (fst out) m'" "set ?m \<subseteq> set m'" "ledger m' ?d ?ep = ledger ?m ?d ?ep" "snd out \<noteq> Inr False"
            by blast
          have "set m \<subseteq> set ?m" by (rule insert_grows [OF ok kept(3)])
          with m' l reserve_tokens_fit [OF t] show ?thesis by (intro disjI2 exI [of _ m']) auto
        qed simp
      qed
    qed
  qed
qed

lemma reconcile_job_spends:
  assumes st: "holds S (sg_user (sy_grant me)) scope st m" and f: "faithful S (sg_user (sy_grant me)) scope"
    and run: "reconcile_job S enc W me scope budget excluded n st j = out"
  shows "\<exists>m'. holds S (sg_user (sy_grant me)) scope (fst out) m' \<and> set m \<subseteq> set m'
    \<and> job_spends S enc W me scope budget excluded n st j m m' out"
proof -
  let ?u = "sg_user (sy_grant me)" and ?d = "sg_device (sy_grant me)"
  have idle: ?thesis if "fst out = st" "snd out \<noteq> Inr True"
      "\<And>g. reconcile_job S enc (asking W g) me scope budget excluded n st j = out"
    using st that by (intro exI [of _ m]) (simp add: job_spends_def Let_def)
  note def = reconcile_job_def
  show ?thesis
  proof (cases "job_validate S j")
    case (Inl x)
    with run show ?thesis by (intro idle) (auto simp: def)
  next
    case jv: (Inr z)
    show ?thesis
    proof (cases "fits S m")
      case False
      then have "load_replica S st ?u scope = Inl over_capacity" using load_holds [OF st] by simp
      with jv run show ?thesis by (intro idle) (auto simp: def)
    next
      case fit: True
      let ?r = "replica_of S ?u scope m"
      have load: "load_replica S st ?u scope = Inr ?r" using load_holds [OF st] fit by simp
      have rok: "replica_ok S ?r" using st fit by (simp add: replica_of_ok_iff holds_def)
      show ?thesis
      proof (cases "project S ?r")
        case (Inl x)
        with jv load run show ?thesis by (intro idle) (auto simp: def)
      next
        case v: (Inr v)
        note pr = project_result [OF rok v]
        show ?thesis
        proof (cases "eligible_jobs S ?r v (rb_max_jobs budget) excluded")
          case (Inl x)
          with jv load v run show ?thesis by (intro idle) (auto simp: def)
        next
          case c: (Inr current)
          show ?thesis
          proof (cases "jb_id j \<notin> jb_id ` set current \<or> (\<not> rb_retry budget \<and> attempted ?r j)")
            case True
            then have "reconcile_job S enc W' me scope budget excluded n st j = (st, Inr False)" for W'
              using jv load v c by (cases "jb_id j \<in> jb_id ` set current") (simp_all add: def)
            with run show ?thesis by (intro idle) auto
          next
            case go: False
            have step: "reconcile_job S enc (asking W g) me scope budget excluded n st j
                = reserve_job S enc (asking W g) me scope budget n ?r st j" for g
              using jv load v c go by (auto simp: def)
            have "reserve_job S enc W me scope budget n ?r st j = out"
              using jv load v c go run by (auto simp: def)
            from spend_reserved [OF st f rok v this] show ?thesis
            proof (elim disjE exE conjE)
              fix m'
              assume "holds S ?u scope (fst out) m'" "set m \<subseteq> set m'" "snd out \<noteq> Inr False"
                "fst (ledger m' ?d (rb_epoch budget)) = Suc (fst (ledger m ?d (rb_epoch budget)))"
                "fst (ledger m' ?d (rb_epoch budget)) \<le> unat (rb_requests budget)"
                "snd (ledger m' ?d (rb_epoch budget)) \<le> unat (rb_input_tokens budget)"
              then show ?thesis by (intro exI [of _ m']) (simp add: job_spends_def Let_def)
            qed (intro idle, auto simp: step)
          qed
        qed
      qed
    qed
  qed
qed

lemma reconcile_loop_spends:
  fixes me :: sync_identity and budget :: reconcile_budget
  defines "L \<equiv> (\<lambda>m. ledger m (sg_device (sy_grant me)) (rb_epoch budget))"
  assumes "holds S (sg_user (sy_grant me)) scope st m" and f: "faithful S (sg_user (sy_grant me)) scope"
    and "reconcile_loop S enc W me scope budget excluded n st js = (st', res)"
  shows "\<exists>m'. holds S (sg_user (sy_grant me)) scope st' m' \<and> set m \<subseteq> set m' \<and> fst (L m) \<le> fst (L m')
    \<and> (L m' = L m \<or> fst (L m') \<le> unat (rb_requests budget) \<and> snd (L m') \<le> unat (rb_input_tokens budget))
    \<and> (\<forall>k. res = Inr k \<longrightarrow> fst (L m') + n = fst (L m) + k)
    \<and> (\<forall>g. (\<forall>i. n \<le> i \<and> i < n + (fst (L m') - fst (L m)) \<longrightarrow> g i = we_ask W i) \<longrightarrow>
        reconcile_loop S enc (asking W g) me scope budget excluded n st js = (st', res))"
  using assms(2,4)
proof (induction js arbitrary: st m n)
  case Nil
  then show ?case by (intro exI [of _ m]) auto
next
  case (Cons j js)
  let ?u = "sg_user (sy_grant me)"
  obtain st1 r1 where job: "reconcile_job S enc W me scope budget excluded n st j = (st1, r1)" by fastforce
  from reconcile_job_spends [OF Cons.prems(1) f job] obtain m1 where
    m1: "holds S ?u scope st1 m1" "set m \<subseteq> set m1" and sp: "job_spends S enc W me scope budget excluded n st j m m1 (st1, r1)"
    by auto
  from sp have sp: "(m1 = m \<and> r1 \<noteq> Inr True
        \<and> (\<forall>g. reconcile_job S enc (asking W g) me scope budget excluded n st j = (st1, r1)))
      \<or> (fst (L m1) = Suc (fst (L m)) \<and> fst (L m1) \<le> unat (rb_requests budget) \<and> snd (L m1) \<le> unat (rb_input_tokens budget)
        \<and> r1 \<noteq> Inr False)"
    by (simp add: job_spends_def Let_def L_def)
  show ?case
  proof (cases r1)
    case (Inl x)
    then have fin: "st' = st1" "res = Inl x" using Cons.prems(2) job by simp_all
    from sp show ?thesis
    proof (elim disjE conjE)
      assume "m1 = m" and "\<forall>g. reconcile_job S enc (asking W g) me scope budget excluded n st j = (st1, r1)"
      with m1 fin Inl show ?thesis by (intro exI [of _ m1]) simp
    next
      assume a: "fst (L m1) = Suc (fst (L m))" "fst (L m1) \<le> unat (rb_requests budget)" "snd (L m1) \<le> unat (rb_input_tokens budget)"
      have "reconcile_job S enc (asking W g) me scope budget excluded n st j = (st1, r1)" if "g n = we_ask W n" for g
        using that job by (simp add: asking_job)
      with a m1 fin Inl show ?thesis by (intro exI [of _ m1]) simp
    qed
  next
    case (Inr decided)
    let ?n = "if decided then Suc n else n"
    have rest: "reconcile_loop S enc W me scope budget excluded ?n st1 js = (st', res)" using Cons.prems(2) job Inr by simp
    from Cons.IH [OF m1(1) rest] obtain m' where m': "holds S ?u scope st' m'" "set m1 \<subseteq> set m'" "fst (L m1) \<le> fst (L m')"
      "L m' = L m1 \<or> fst (L m') \<le> unat (rb_requests budget) \<and> snd (L m') \<le> unat (rb_input_tokens budget)"
      "\<forall>k. res = Inr k \<longrightarrow> fst (L m') + ?n = fst (L m1) + k"
      and ask: "\<forall>g. (\<forall>i. ?n \<le> i \<and> i < ?n + (fst (L m') - fst (L m1)) \<longrightarrow> g i = we_ask W i) \<longrightarrow>
        reconcile_loop S enc (asking W g) me scope budget excluded ?n st1 js = (st', res)"
      by blast
    from sp show ?thesis
    proof (elim disjE conjE)
      assume a: "m1 = m" "r1 \<noteq> Inr True"
        and g: "\<forall>g. reconcile_job S enc (asking W g) me scope budget excluded n st j = (st1, r1)"
      have d: "\<not> decided" using a(2) Inr by auto
      show ?thesis using m' ask m1 a(1) g d Inr by (intro exI [of _ m']) simp
    next
      assume a: "fst (L m1) = Suc (fst (L m))" "fst (L m1) \<le> unat (rb_requests budget)" "snd (L m1) \<le> unat (rb_input_tokens budget)"
        and d: "r1 \<noteq> Inr False"
      have d: "decided" using d Inr by auto
      have "reconcile_loop S enc (asking W g) me scope budget excluded n st (j # js) = (st', res)"
        if g: "\<forall>i. n \<le> i \<and> i < n + (fst (L m') - fst (L m)) \<longrightarrow> g i = we_ask W i" for g
      proof -
        have "g n = we_ask W n" using g a(1) m'(3) by simp
        then have "reconcile_job S enc (asking W g) me scope budget excluded n st j = (st1, r1)"
          using asking_job job by metis
        moreover have "reconcile_loop S enc (asking W g) me scope budget excluded (Suc n) st1 js = (st', res)"
        proof -
          have "g i = we_ask W i" if "Suc n \<le> i" "i < Suc n + (fst (L m') - fst (L m1))" for i
            using g a(1) m'(3) that by simp
          with ask d show ?thesis by simp
        qed
        ultimately show ?thesis using Inr d by simp
      qed
      moreover have "L m' = L m \<or> fst (L m') \<le> unat (rb_requests budget) \<and> snd (L m') \<le> unat (rb_input_tokens budget)"
        using m'(4) a by auto
      moreover have "\<forall>k. res = Inr k \<longrightarrow> fst (L m') + n = fst (L m) + k" using m'(5) a(1) d by auto
      ultimately show ?thesis using m' m1 a(1) by (intro exI [of _ m']) auto
    qed
  qed
qed

text \<open>
  C6. The worker never spends beyond its budget, however often it runs and whatever the model
  answers or fails to answer. Started on any history of the scope it only adds events. If it
  adds spending for its device and epoch, then the reservations of that epoch, together with
  all earlier ones, stay within the permitted requests and input tokens. A run that reports
  \<open>n\<close> decisions has recorded exactly \<open>n\<close> new reservations. And the outcome depends on no more
  answers of the model than there are new reservations, so nothing is asked unreserved.
\<close>

theorem reconcile_within_budget:
  assumes "holds S (sg_user (sy_grant me)) scope st m" and "faithful S (sg_user (sy_grant me)) scope"
    and "reconcile S enc W me scope budget st = (st', res)"
    and "L = (\<lambda>m. ledger m (sg_device (sy_grant me)) (rb_epoch budget))"
  shows "\<exists>m'. holds S (sg_user (sy_grant me)) scope st' m' \<and> set m \<subseteq> set m' \<and> fst (L m) \<le> fst (L m')
    \<and> (L m' = L m \<or> fst (L m') \<le> unat (rb_requests budget) \<and> snd (L m') \<le> unat (rb_input_tokens budget))
    \<and> (\<forall>n. res = Inr n \<longrightarrow> fst (L m') = fst (L m) + n)
    \<and> (\<forall>g. (\<forall>i < fst (L m') - fst (L m). g i = we_ask W i) \<longrightarrow>
        reconcile S enc (asking W g) me scope budget st = (st', res))"
proof -
  let ?u = "sg_user (sy_grant me)"
  consider (refused) x where "\<And>W'. reconcile S enc W' me scope budget st = (st, Inl x)"
    | (jobs) excluded jobs where "\<And>W'. reconcile S enc W' me scope budget st
        = reconcile_loop S enc W' me scope budget excluded 0 st jobs"
  proof (cases "blank (rb_epoch budget) \<or> 128 < length (rb_epoch budget)")
    case True
    then show thesis by (intro refused) (auto simp: reconcile_def)
  next
    case False
    note epoch = this
    show thesis
    proof (cases "load_replica S st ?u scope")
      case (Inl x)
      with epoch show thesis by (intro refused [of x]) (auto simp: reconcile_def)
    next
      case load: (Inr r)
      show thesis
      proof (cases "project S r")
        case (Inl x)
        with epoch load show thesis by (intro refused [of x]) (auto simp: reconcile_def)
      next
        case v: (Inr v)
        show thesis
          by (cases "eligible_jobs S r v (rb_max_jobs budget) (deferred_attempts r (rb_retry budget))")
            (use epoch load v in \<open>auto simp: reconcile_def Let_def intro: refused jobs\<close>)
      qed
    qed
  qed
  then show ?thesis
  proof cases
    case (refused x)
    with assms(3) have "st' = st" "res = Inl x" by simp_all
    with refused assms(1) show ?thesis by (intro exI [of _ m]) simp
  next
    case (jobs excluded jobs)
    have "reconcile_loop S enc W me scope budget excluded 0 st jobs = (st', res)" using assms(3) jobs by simp
    from reconcile_loop_spends [OF assms(1,2) this] show ?thesis by (simp add: jobs assms(4))
  qed
qed

section \<open>The bound that the worker does not check\<close>

text \<open>
  The worker can make a scope unreadable. It stores its reservation without asking whether
  the history still fits its bounds, which importing and publishing do ask. When the reservation
  is the one event too many, then whatever the model answers, the scope can be loaded before
  the job and is refused as over capacity ever after: by the worker, by exchanges and by readers.
\<close>

theorem reservation_past_capacity:
  assumes "holds S (sg_user (sy_grant me)) scope st m" and "fits S m" and "faithful S (sg_user (sy_grant me)) scope"
    and "r = replica_of S (sg_user (sy_grant me)) scope m"
    and "reserve_tokens W budget (reservations r (sg_device (sy_grant me)) (rb_epoch budget)) j = Inr tokens"
    and "we_nonce W n = Some attempt"
    and "event_signed S me scope (heads r) (PL_Reservation (jb_id j) (rb_epoch budget) tokens attempt) = Inr e"
    and "is_digest (sev_id e)" and "unclaimed S (sg_user (sy_grant me)) scope st {e}"
    and "\<not> fits S (bt_insert (sev_id e) e m)"
  shows "load_replica S st (sg_user (sy_grant me)) scope = Inr r
    \<and> load_replica S (fst (reserve_job S enc W me scope budget n r st j)) (sg_user (sy_grant me)) scope = Inl over_capacity"
proof -
  let ?u = "sg_user (sy_grant me)" and ?m = "bt_insert (sev_id e) e m"
  have val: "event_validate S ?u scope e = Inr ()"
    using assms(7) by (auto simp: event_signed_def Let_def split: sum.splits)
  obtain st1 where st1: "persist_event S st ?u scope e = (st1, Inr ())" "holds S ?u scope st1 ?m"
    by (rule persist_holds [OF assms(1) val faithful_insert [OF assms(3,1) val] assms(8,9)]) (rule that; assumption)
  obtain st' res where run: "decide_job S enc W me scope (heads r @ [sev_id e]) n st1 j = (st', res)" by fastforce
  then have "reserve_job S enc W me scope budget n r st j = (st', res)"
    using assms(5-7) st1(1) by (simp add: reserve_job_def)
  moreover obtain m' where m': "holds S ?u scope st' m'" "set ?m \<subseteq> set m'"
    using decide_spends [OF st1(2) assms(3) run, of "[]" "[]"] by blast
  moreover have "\<not> fits S m'"
    using fits_sub [of S m' ?m] m'(2) assms(10) st1(2) by (auto simp: holds_def entries_ok_def)
  ultimately show ?thesis using load_holds [OF assms(1)] load_holds [OF m'(1)] assms(2,4) by simp
qed

end
