(* ===== verification/Sync_Worker_Examples.thy ===== *)
theory Sync_Worker_Examples
  imports Sync_Worker Sync_Examples
begin

text \<open>
  Runs of the reconciliation worker: on the two reservations of the exchange example, and on a
  scope that sixteen events of the largest size fill to the last byte.
\<close>

section \<open>A full scope\<close>

definition slots :: string where "slots = ''0123456789abcdef''"

definition last_slot :: string where "last_slot = replicate 63 CHR ''0'' @ ''1''"

definition last_reservation :: signed_event where
  "last_reservation =
     \<lparr>sev_version = 1, sev_id = last_slot, sev_grant = sy_grant (peer_identity CHR ''2''), sev_scope = peer_scope,
      sev_parents = map hex_of slots, sev_payload = PL_Reservation last_slot ''renewed'' 1024 last_slot,
      sev_signature = hex_of CHR ''2'' @ ''chaosbox-event-v1'' @ [NUL] @ last_slot\<rparr>"

definition slot_events :: "signed_event set" where
  "slot_events = insert last_reservation ((\<lambda>c. reserve c []) ` set slots)"

text \<open>
  The digest of a message is the digest its last part spells; an event takes all of the 4 MiB
  an event may take; other events are oversized.
\<close>

definition spelled :: "string \<Rightarrow> string" where
  "spelled m = (let d = take 64 (drop (length m - 65) m) in if is_digest d then d else hex_of CHR ''0'')"

definition full_codec :: sync_codec where
  "full_codec = peer_codec
     \<lparr>sx_codec := sample_codec\<lparr>cx_hash := spelled\<rparr>,
      sx_event := (\<lambda>e. if e \<in> slot_events then sev_id e @ replicate (MAX_EVENT_BYTES - 64) CHR ''.''
        else replicate (Suc MAX_EVENT_BYTES) CHR ''.''),
      sx_parse := (\<lambda>t. if take 64 t = last_slot then Some last_reservation else Some (reserve (hd t) []))\<rparr>"

lemma slots_lowhex: "c \<in> set slots \<Longrightarrow> is_lowhex c"
  by (auto simp: slots_def is_lowhex_def is_digit_def)

lemma slots_ascending: "sorted_wrt (<) slots"
  by (simp add: slots_def less_char_def)

lemma length_last_slot [simp]: "length last_slot = 64"
  by (simp add: last_slot_def)

lemma last_slot_digest: "is_digest last_slot"
  unfolding is_digest_def by (simp add: last_slot_def list_all_iff is_lowhex_def is_digit_def)

lemma last_slot_new [simp]: "last_slot \<noteq> hex_of c" "hex_of c \<noteq> last_slot"
proof -
  have "last_slot ! 0 \<noteq> last_slot ! 63" "hex_of c ! 0 = hex_of c ! 63"
    by (simp_all add: last_slot_def hex_of_def nth_append)
  then show "last_slot \<noteq> hex_of c" "hex_of c \<noteq> last_slot" by metis+
qed

lemma spelled_frame: "is_digest j \<Longrightarrow> sha256_hex spelled [j] = j"
  by (simp add: sha256_hex_def spelled_def is_digest_def)

lemma slot_ids:
  "sev_id last_reservation = last_slot" "sev_id (reserve c ps) = hex_of c"
  by (simp_all add: last_reservation_def reserve_def)

lemma slot_text: "e \<in> slot_events \<Longrightarrow> sx_event full_codec e = sev_id e @ replicate (MAX_EVENT_BYTES - 64) CHR ''.''"
  by (simp add: full_codec_def)

lemma slot_id_length: "e \<in> slot_events \<Longrightarrow> length (sev_id e) = 64"
  by (auto simp: slot_events_def slot_ids hex_of_def)

lemma slot_text_length: "e \<in> slot_events \<Longrightarrow> length (sx_event full_codec e) = MAX_EVENT_BYTES"
  by (simp add: slot_text slot_id_length MAX_EVENT_BYTES_def)

lemma full_lossless: "lossless full_codec slot_events"
proof -
  have "sx_parse full_codec (sev_id e @ t) = Some e" if "e \<in> slot_events" for e t
  proof -
    have "sev_id e = last_slot \<and> e = last_reservation \<or> (\<exists>c. sev_id e = hex_of c \<and> e = reserve c [])"
      using that by (auto simp: slot_events_def slot_ids)
    moreover have "hd (hex_of c @ t) = c" for c by (simp add: hex_of_def hd_append)
    ultimately show ?thesis using slot_id_length [OF that] by (auto simp: full_codec_def)
  qed
  moreover have "sev_id e \<noteq> []" if "e \<in> slot_events" for e using slot_id_length [OF that] by auto
  ultimately show ?thesis by (simp add: lossless_def slot_text)
qed

lemma full_faithful: "faithful full_codec u sc"
proof -
  have "e \<in> slot_events" if "event_validate full_codec u sc e = Inr ()" for e
  proof (rule ccontr)
    assume "e \<notin> slot_events"
    then have "length (sx_event full_codec e) = Suc MAX_EVENT_BYTES" by (simp add: full_codec_def)
    with that show False by (auto simp: event_validate_def)
  qed
  then show ?thesis unfolding faithful_def by (intro lossless_mono [OF full_lossless]) auto
qed

lemma full_fields:
  "cx_hash (sx_codec full_codec) = spelled" "sx_body full_codec = sx_body peer_codec"
  "sx_verify full_codec = sx_verify peer_codec" "sx_grant full_codec = sx_grant peer_codec"
  by (simp_all add: full_codec_def)

lemma full_valid:
  assumes "e \<in> slot_events"
  shows "event_validate full_codec peer_user peer_scope e = Inr ()"
proof -
  have grant: "grant_validate full_codec (sy_grant (peer_identity d)) peer_user peer_scope = Inr ()" for d
    by (simp add: grant_validate_def full_fields) (simp add: peer_identity_def peer_codec_def ascending_def)
  have words: "\<not> blank ''epoch''" "\<not> blank ''renewed''"
    by (simp_all add: blank.simps ascii_ws_def ws2_def ws3_def)
  have body: "sx_body peer_codec (v, g, sc, ps, PL_Reservation j b t a) = j" for v g sc ps j b t a
    by (simp add: peer_codec_def)
  have order: "ascending (map hex_of slots)"
    unfolding ascending_def sorted_wrt_map
    by (rule sorted_wrt_mono_rel [OF _ slots_ascending]) (rule hex_of_less)
  have digests: "is_digest (hex_of c)" if "c \<in> set slots" for c
    using slots_lowhex [OF that] by (rule hex_of_digest)
  show ?thesis
  proof (cases "e = last_reservation")
    case True
    have "event_identity full_codec last_reservation = last_slot"
      by (simp add: event_identity_def full_fields last_reservation_def body spelled_frame last_slot_digest)
    moreover have "length (map hex_of slots) \<le> MAX_EVENTS" by (simp add: slots_def MAX_EVENTS_def)
    moreover have "list_all (\<lambda>p. p \<noteq> last_slot \<and> is_digest p) (map hex_of slots)"
      using digests by (simp add: list_all_iff)
    ultimately show ?thesis
      using grant words order last_slot_digest slot_text_length [OF assms]
      by (simp add: event_validate_def payload_validate_def True full_fields) 
        (simp add: last_reservation_def peer_codec_def peer_identity_def)
  next
    case False
    then obtain c where c: "c \<in> set slots" "e = reserve c []" using assms by (auto simp: slot_events_def)
    have "event_identity full_codec (reserve c []) = hex_of c"
      by (simp add: event_identity_def full_fields reserve_def body spelled_frame digests [OF c(1)])
    then show ?thesis
      using grant words digests [OF c(1)] slot_text_length [OF assms]
      by (simp add: event_validate_def payload_validate_def c full_fields)
        (simp add: reserve_def peer_codec_def peer_identity_def ascending_def)
  qed
qed

definition full_events :: "(string, signed_event) btree" where
  "full_events = map (\<lambda>c. (hex_of c, reserve c [])) slots"

definition full_store :: replica_store where
  "full_store = replica_store_new\<lparr>rs_rows := map (\<lambda>c. (hex_of c, event_row full_codec peer_user peer_scope (reserve c []))) slots\<rparr>"

lemma hex_of_order: "sorted_wrt (<) (map hex_of slots)"
  unfolding sorted_wrt_map by (rule sorted_wrt_mono_rel [OF _ slots_ascending]) (rule hex_of_less)

lemma slot_map_ok: "bt_ok (map (\<lambda>c. (hex_of c, f c)) slots)"
  using hex_of_order by (simp add: bt_ok_def comp_def)

lemma slot_map_get: "bt_get (map (\<lambda>c. (hex_of c, f c)) slots) k = Some x \<longleftrightarrow> (\<exists>c \<in> set slots. k = hex_of c \<and> x = f c)"
  by (auto simp: bt_get_iff_in_set [OF slot_map_ok])

lemma full_values: "set (bt_values full_events) = (\<lambda>c. reserve c []) ` set slots"
  by (auto simp: full_events_def bt_values_def)

lemma full_holds: "holds full_codec peer_user peer_scope full_store full_events"
proof (rule holdsI)
  have "c \<in> set slots \<Longrightarrow> validate_row (event_row full_codec peer_user peer_scope (reserve c [])) = Inr ()" for c
  proof (rule row_valid)
    assume c: "c \<in> set slots"
    then have e: "reserve c [] \<in> slot_events" by (simp add: slot_events_def)
    then show "event_validate full_codec peer_user peer_scope (reserve c []) = Inr ()" by (rule full_valid)
    show "is_digest (sev_id (reserve c []))" using slots_lowhex [OF c] by (simp add: slot_ids hex_of_digest)
    show "sx_event full_codec (reserve c []) \<noteq> []" using slot_text_length [OF e] by (auto simp: MAX_EVENT_BYTES_def)
  qed (rule peer_owner)
  then show inv: "replica_inv full_store"
    using slot_map_ok [of "\<lambda>c. event_row full_codec peer_user peer_scope (reserve c [])"]
    by (auto simp: replica_inv_def full_store_def replica_store_new_def slot_map_get)
      (auto simp: event_row_def slot_ids)
  show "owner_ok peer_user peer_scope" by (rule peer_owner)
  have valid: "event_validate full_codec peer_user peer_scope (reserve c []) = Inr ()" if "c \<in> set slots" for c
    using that by (intro full_valid) (simp add: slot_events_def)
  then show "entries_ok full_codec peer_user peer_scope full_events"
    using slot_map_ok [of "\<lambda>c. reserve c []"] by (auto simp: entries_ok_def full_events_def slot_ids)
  show "lossless full_codec (set (bt_values full_events))"
    by (rule lossless_mono [OF full_lossless]) (auto simp: full_values slot_events_def)
  show "set (scope_rows full_store peer_user peer_scope []) = event_row full_codec peer_user peer_scope ` set (bt_values full_events)"
  proof (rule set_eqI)
    fix r
    have get: "bt_get (rs_rows full_store) k = Some x
        \<longleftrightarrow> (\<exists>c \<in> set slots. k = hex_of c \<and> x = event_row full_codec peer_user peer_scope (reserve c []))" for k x
      by (simp add: full_store_def slot_map_get)
    show "r \<in> set (scope_rows full_store peer_user peer_scope [])
        \<longleftrightarrow> r \<in> event_row full_codec peer_user peer_scope ` set (bt_values full_events)"
      unfolding scope_rows_iff [OF inv] get full_values image_image by (auto simp: event_row_def slot_ids)
  qed
qed

lemma full_bytes: "event_bytes full_codec full_events = MAX_REPLICA_BYTES"
proof -
  have "map (\<lambda>e. length (sx_event full_codec e)) (bt_values full_events) = map (\<lambda>_. MAX_EVENT_BYTES) slots"
    by (simp add: full_events_def bt_values_def slot_text_length slot_events_def)
  then show ?thesis
    by (simp add: event_bytes_def comp_def sum_list_triv) (simp add: slots_def MAX_EVENT_BYTES_def MAX_REPLICA_BYTES_def)
qed

lemma full_fits: "fits full_codec full_events"
  using slot_map_ok [of "\<lambda>c. reserve c []"]
  by (simp add: fits_def full_bytes) (simp add: full_events_def slots_def MAX_EVENTS_def)

lemma last_overfills: "\<not> fits full_codec (bt_insert last_slot last_reservation full_events)"
proof -
  have "bt_get full_events last_slot = None"
    using slot_map_get [of "\<lambda>c. reserve c []" last_slot] by (cases "bt_get full_events last_slot") (auto simp: full_events_def)
  then have "event_bytes full_codec (bt_insert last_slot last_reservation full_events)
      = length (sx_event full_codec last_reservation) + event_bytes full_codec full_events"
    unfolding event_bytes_def by (simp add: sum_values_insert)
  then show ?thesis
    using slot_text_length [of last_reservation] by (simp add: fits_def full_bytes slot_events_def MAX_EVENT_BYTES_def)
qed

definition small_budget :: reconcile_budget where
  "small_budget = \<lparr>rb_epoch = ''renewed'', rb_requests = 1, rb_input_tokens = 2000, rb_max_jobs = 10, rb_retry = False\<rparr>"

definition silent_model :: worker_env where
  "silent_model = \<lparr>we_input = (\<lambda>_. []), we_ask = (\<lambda>_ _ _. None), we_nonce = (\<lambda>_. Some last_slot)\<rparr>"

definition some_job :: job where
  "some_job = \<lparr>jb_id = last_slot, jb_scope = peer_scope, jb_left = ''l'', jb_right = ''r'', jb_left_version = hex_of CHR ''1'',
     jb_right_version = hex_of CHR ''2'', jb_prior = [], jb_state = JNull\<rparr>"

lemma full_heads: "heads (replica_of full_codec peer_user peer_scope full_events) = map hex_of slots"
  by (simp add: heads_def Let_def full_events_def bt_values_def bt_keys_def comp_def reserve_def)

lemma full_spent:
  "reservations (replica_of full_codec peer_user peer_scope full_events) d ''renewed'' = []"
  by (simp add: reservations_def full_events_def bt_values_def comp_def reserve_def slots_def map_filter_simps)

lemma last_signed:
  "event_signed full_codec (peer_identity CHR ''2'') peer_scope (map hex_of slots) (PL_Reservation last_slot ''renewed'' 1024 last_slot)
     = Inr last_reservation"
proof -
  have "sorted (map hex_of slots)" "distinct (map hex_of slots)"
    using hex_of_order by (simp_all only: strict_sorted_iff)
  then have parents: "remdups_adj (sort (map hex_of slots)) = map hex_of slots"
    by (simp add: sort_key_id_if_sorted remdups_adj_distinct sorted_sort_id)
  have "event_validate full_codec (sg_user (sy_grant (peer_identity CHR ''2''))) peer_scope last_reservation = Inr ()"
    using full_valid [of last_reservation] by (simp add: slot_events_def) (simp add: peer_identity_def)
  moreover have "sha256_hex spelled [last_slot] = last_slot" by (rule spelled_frame [OF last_slot_digest])
  moreover have "sx_body full_codec (v, g, sc, ps, PL_Reservation j b t a) = j" for v g sc ps j b t a
    by (simp add: full_fields) (simp add: peer_codec_def)
  ultimately show ?thesis
    unfolding event_signed_def Let_def parents
    by (simp add: last_reservation_def peer_identity_def event_identity_def full_fields(1))
qed

theorem reservation_past_capacity_witness:
  "load_replica full_codec full_store peer_user peer_scope = Inr (replica_of full_codec peer_user peer_scope full_events)
   \<and> load_replica full_codec (fst (reserve_job full_codec plain_view silent_model (peer_identity CHR ''2'') peer_scope small_budget 0
        (replica_of full_codec peer_user peer_scope full_events) full_store some_job)) peer_user peer_scope = Inl over_capacity"
proof -
  have user: "sg_user (sy_grant (peer_identity CHR ''2'')) = peer_user" by (simp add: peer_identity_def)
  have tokens: "reserve_tokens silent_model small_budget [] some_job = Inr 1024"
    by (simp add: reserve_tokens_def Let_def silent_model_def small_budget_def estimate_tokens_def div_ceil_def checked_add_def
        word_less_nat_alt)
  have "bt_get (rs_rows full_store) last_slot = None"
    using slot_map_get [of "\<lambda>c. event_row full_codec peer_user peer_scope (reserve c [])" last_slot]
    by (cases "bt_get (rs_rows full_store) last_slot") (auto simp: full_store_def)
  then have "unclaimed full_codec peer_user peer_scope full_store {last_reservation}" by (simp add: unclaimed_def slot_ids)
  then show ?thesis
    using reservation_past_capacity [of full_codec "peer_identity CHR ''2''" peer_scope full_store full_events _ silent_model
        small_budget some_job 1024 0 last_slot last_reservation plain_view, OF _ full_fits full_faithful refl]
      full_holds last_overfills last_signed last_slot_digest tokens
    by (simp add: user full_heads slot_ids) (simp add: small_budget_def silent_model_def some_job_def full_spent)
qed

text \<open>Whatever a run on this scope does, it leaves at most the one permitted reservation.\<close>

theorem reconcile_within_budget_witness:
  "\<exists>m'. holds full_codec peer_user peer_scope
      (fst (reconcile full_codec plain_view silent_model (peer_identity CHR ''2'') peer_scope small_budget full_store)) m'
    \<and> fst (ledger m' (hex_of CHR ''2'') ''renewed'') \<le> 1 \<and> snd (ledger m' (hex_of CHR ''2'') ''renewed'') \<le> 2000"
proof -
  have id: "sg_user (sy_grant (peer_identity CHR ''2'')) = peer_user" "sg_device (sy_grant (peer_identity CHR ''2'')) = hex_of CHR ''2''"
    by (simp_all add: peer_identity_def)
  have start: "ledger full_events (hex_of CHR ''2'') ''renewed'' = (0, 0)"
    using ledger_reservations [of "replica_of full_codec peer_user peer_scope full_events"] by (simp add: full_spent)
  obtain st' res where
    run: "reconcile full_codec plain_view silent_model (peer_identity CHR ''2'') peer_scope small_budget full_store = (st', res)"
    by fastforce
  have budget: "rb_epoch small_budget = ''renewed''" "unat (rb_requests small_budget) = 1" "unat (rb_input_tokens small_budget) = 2000"
    by (simp_all add: small_budget_def)
  from reconcile_within_budget [of full_codec "peer_identity CHR ''2''" peer_scope full_store full_events, OF _ _ run refl]
  show ?thesis using full_holds full_faithful
    by (auto simp: id run budget start)
qed

end
