(* ===== verification/Materialization.thy ===== *)
theory Materialization
  imports Jev_Protocol Ingestion_Policy Memory_Store Results
begin

text \<open>
  What turns a stored answer into a decision: the thresholds and questions of
  \<^verbatim>\<open>crates/chaosbox/src/materialization.rs\<close> and the resolver of reusable answers of
  \<^verbatim>\<open>crates/chaosbox/src/reuse.rs\<close>.
\<close>

section \<open>Parameters and errors\<close>

text \<open>The digest, the JSON of questions and reuse inputs, and \<open>Display\<close> of a float.\<close>

record pipeline_codec =
  pc_hash :: "string \<Rightarrow> string"
  pc_questions :: "(string, question) btree \<Rightarrow> string"
  pc_question :: "question \<Rightarrow> string"
  pc_reuse :: "reuse_input \<Rightarrow> string"
  pc_float :: "f64 \<Rightarrow> string"

text \<open>
  \<open>PipelineError\<close>; the validation variant carries its message or the error it was made from,
  the store variant the store's error.
\<close>

datatype pipeline_error =
    PE_Validation string
  | PE_Value validation_error
  | PE_Model jev_error
  | PE_StoredInvalid string jev_error
  | PE_Store store_error
  | PE_InferenceLost
  | PE_NoFreeId

section \<open>Thresholds\<close>

record materialization =
  mt_rubric_version :: string
  mt_accept_noul :: f64
  mt_accept_confidence :: f64
  mt_accept_score :: f64
  mt_abstain_confidence :: f64

definition default_materialization :: materialization where
  "default_materialization =
     \<lparr>mt_rubric_version = ''rubric-v1'', mt_accept_noul = f64_lit (7 / 10),
      mt_accept_confidence = f64_lit (6 / 10), mt_accept_score = F64_Finite 1,
      mt_abstain_confidence = f64_lit (4 / 10)\<rparr>"

definition threshold_parts :: "pipeline_codec \<Rightarrow> materialization \<Rightarrow> string list" where
  "threshold_parts K m =
     [mt_rubric_version m, pc_float K (mt_accept_noul m), pc_float K (mt_accept_confidence m),
      pc_float K (mt_accept_score m), pc_float K (mt_abstain_confidence m)]"

definition mat_identity :: "pipeline_codec \<Rightarrow> materialization \<Rightarrow> string \<Rightarrow> string" where
  "mat_identity K m inputs = deterministic_id (pc_hash K) ''mat'' (threshold_parts K m @ [inputs])"

definition mat_digest :: "pipeline_codec \<Rightarrow> materialization \<Rightarrow> string" where
  "mat_digest K m = deterministic_id (pc_hash K) ''mat'' (threshold_parts K m)"

definition mat_validate :: "pipeline_codec \<Rightarrow> materialization \<Rightarrow> pipeline_error + unit" where
  "mat_validate K m =
     (if mt_accept_confidence m < mt_abstain_confidence m
      then Inl (PE_Validation (''abstain_confidence '' @ pc_float K (mt_abstain_confidence m)
             @ '' exceeds accept_confidence '' @ pc_float K (mt_accept_confidence m)))
      else check_all (\<lambda>(name, v). if f64_is_finite v then Inr () else Inl (PE_Validation (name @ '' non-finite'')))
        [(''accept_noul'', mt_accept_noul m), (''accept_confidence'', mt_accept_confidence m),
         (''accept_score'', mt_accept_score m), (''abstain_confidence'', mt_abstain_confidence m)])"

section \<open>Questions\<close>

definition question_id :: "candidate \<Rightarrow> string" where
  "question_id c = ''rel_'' @ cand_id c"

definition endpoint_text :: "entity \<Rightarrow> string" where
  "endpoint_text e = [CHR 0x27] @ ent_qualified_name e @ [CHR 0x27] @ '' ('' @ entity_kind_debug (ent_kind e) @ '', '' @ ent_file e @ '')''"

definition relation_question :: "candidate \<Rightarrow> entity \<Rightarrow> entity \<Rightarrow> question" where
  "relation_question c f t =
     (let rel = relation_type_debug (cand_rel_type c) in
      Q_Choice
        (''Given the source evidence, which relation holds from '' @ endpoint_text f @ '' to '' @ endpoint_text t
         @ ''? Answer only from the listed options. Option meanings: accept = evidence supports '' @ rel
         @ ''; reject = evidence contradicts; none = no finding (successful negative, do not retry). ''
         @ ''Entity descriptions are authoritative; the question id is arbitrary.'')
        (bt_extend []
          [(''accept'', Some (''Source shows '' @ rel @ '' from '' @ ent_qualified_name f @ '' to '' @ ent_qualified_name t)),
           (''reject'', Some ''Source contradicts the proposed relation''),
           (''none'', Some ''No finding in source; abstain from the relation'')]))"

definition questions_for :: "candidate \<Rightarrow> entity \<Rightarrow> entity \<Rightarrow> (string, question) btree" where
  "questions_for c f t = [(question_id c, relation_question c f t)]"

section \<open>The snapshot\<close>

record file_version =
  fv_path :: string
  fv_sha256 :: string
  fv_bytes :: u64

record source_snapshot =
  snap_id :: string
  snap_repo :: string
  snap_scope :: "string list"
  snap_files :: "file_version list"
  snap_contents :: "(string, string) btree"
  snap_unreadable :: "string list"

definition file_version_of :: "source_snapshot \<Rightarrow> string \<Rightarrow> file_version option" where
  "file_version_of s path = find (\<lambda>f. fv_path f = path) (snap_files s)"

definition snapshot_files :: "source_snapshot \<Rightarrow> snapshot_file list" where
  "snapshot_files s = map (\<lambda>f. \<lparr>sf_snapshot = snap_id s, sf_path = fv_path f, sf_sha256 = fv_sha256 f,
     sf_bytes = fv_bytes f\<rparr>) (snap_files s)"

definition file_hashes_for :: "source_snapshot \<Rightarrow> (string, string) btree" where
  "file_hashes_for s = bt_extend [] (map (\<lambda>f. (fv_path f, fv_sha256 f)) (snap_files s))"

section \<open>The reuse input\<close>

record reuse_context =
  rx_repo :: string
  rx_file_hashes :: "(string, string) btree"
  rx_model :: string
  rx_rubric_version :: string
  rx_policy_digest :: string

definition reuse_end :: "entity \<Rightarrow> string \<Rightarrow> reuse_endpoint" where
  "reuse_end e h = \<lparr>re_file = ent_file e, re_qualified = ent_qualified_name e,
     re_kind = entity_kind_name (ent_kind e), re_file_hash = h\<rparr>"

definition reuse_input_for ::
  "pipeline_codec \<Rightarrow> candidate \<Rightarrow> entity \<Rightarrow> entity \<Rightarrow> (string, question) btree \<Rightarrow> reuse_context \<Rightarrow> string
   \<Rightarrow> pipeline_error + reuse_input" where
  "reuse_input_for K c f t questions ctx snap =
     (if ent_repo f \<noteq> rx_repo ctx \<or> ent_repo t \<noteq> rx_repo ctx
      then Inl (PE_Validation (''endpoint repo mismatch: expected '' @ rx_repo ctx @ '', got '' @ ent_repo f @ ''/'' @ ent_repo t))
      else if ent_snapshot f \<noteq> snap \<or> ent_snapshot t \<noteq> snap
      then Inl (PE_Validation (''endpoint snapshot mismatch: expected '' @ snap @ '', got '' @ ent_snapshot f @ ''/'' @ ent_snapshot t))
      else if cand_from_entity c \<noteq> ent_id f \<or> cand_to_entity c \<noteq> ent_id t
      then Inl (PE_Validation ''candidate does not reference the given endpoints'')
      else (case (bt_get (rx_file_hashes ctx) (ent_file f), bt_get (rx_file_hashes ctx) (ent_file t)) of
          (None, _) \<Rightarrow> Inl (PE_Validation (''missing file hash for '' @ ent_file f))
        | (_, None) \<Rightarrow> Inl (PE_Validation (''missing file hash for '' @ ent_file t))
        | (Some fh, Some th) \<Rightarrow>
            Inr \<lparr>ri_version = REUSE_VERSION, ri_repo = rx_repo ctx, ri_rel_type = relation_type_name (cand_rel_type c),
                 ri_reason = cand_reason c, ri_from = reuse_end f fh, ri_to = reuse_end t th,
                 ri_excerpt = cand_state_excerpt c,
                 ri_canonical_questions = canonical_questions (pc_question K) questions, ri_model = rx_model ctx,
                 ri_rubric_version = rx_rubric_version ctx, ri_policy_digest = rx_policy_digest ctx\<rparr>))"

section \<open>From an answer to an outcome\<close>

type_synonym verdict4 = "decision_outcome \<times> evidence_class \<times> f64 option \<times> f64 option"

text \<open>Abstain first; then the option or the score decides.\<close>

definition noul_verdict :: "materialization \<Rightarrow> f64 \<Rightarrow> verdict4" where
  "noul_verdict m n =
     (if mt_accept_noul m \<le> n then (DO_Accepted, EC_Inferred, None, Some n)
      else (DO_Negative, EC_Ambiguous, None, Some n))"

definition choice_verdict :: "materialization \<Rightarrow> string \<Rightarrow> (string, f64) btree \<Rightarrow> f64 \<Rightarrow> verdict4" where
  "choice_verdict m c ps conf =
     (if conf < mt_abstain_confidence m then (DO_Abstained, EC_Ambiguous, Some conf, None)
      else if c = ''accept'' then (DO_Accepted, EC_Inferred, Some conf, bt_get ps ''accept'')
      else if c = ''reject'' then (DO_Rejected, EC_Ambiguous, Some conf, bt_get ps ''reject'')
      else (DO_Negative, EC_Ambiguous, Some conf, bt_get ps ''none''))"

definition score_verdict :: "materialization \<Rightarrow> f64 \<Rightarrow> f64 \<Rightarrow> verdict4" where
  "score_verdict m s conf =
     (if conf < mt_abstain_confidence m then (DO_Abstained, EC_Ambiguous, Some conf, None)
      else if mt_accept_score m \<le> s then (DO_Accepted, EC_Inferred, Some conf, None)
      else (DO_Negative, EC_Ambiguous, Some conf, None))"

definition upgraded :: "string \<Rightarrow> verdict4 \<Rightarrow> verdict4" where
  "upgraded reason v = (case v of (out, cls, conf, p) \<Rightarrow>
     (out, if cls = EC_Inferred \<and> reason = ''structural'' then EC_Extracted else cls, conf, p))"

fun raw_verdict :: "materialization \<Rightarrow> raw_answer \<Rightarrow> pipeline_error + verdict4" where
  "raw_verdict m (RA_Noul n) = map_sum PE_Value (\<lambda>_. noul_verdict m n) (check_probability n)"
| "raw_verdict m (RA_Choice c ps conf) =
     map_sum PE_Value (\<lambda>_. choice_verdict m c ps conf)
       (all_ok [check_confidence conf, check_all check_probability (bt_values ps)])"
| "raw_verdict m (RA_Score s ps conf rs) =
     (case check_confidence conf of
        Inl e \<Rightarrow> Inl (PE_Value e)
      | Inr _ \<Rightarrow>
          if \<not> f64_is_finite s then Inl (PE_Validation ''non-finite score'') else Inr (score_verdict m s conf))"

definition materialize_raw :: "raw_answer \<Rightarrow> materialization \<Rightarrow> string \<Rightarrow> pipeline_error + verdict4" where
  "materialize_raw raw m reason = map_sum id (upgraded reason) (raw_verdict m raw)"

section \<open>The resolver\<close>

definition valid_options_for :: "string \<Rightarrow> (string, string btset) btree" where
  "valid_options_for qid = [(qid, bs_of [''accept'', ''reject'', ''none''])]"

definition stored_response :: "string \<Rightarrow> inference_record \<Rightarrow> system_one_response" where
  "stored_response qid ir =
     \<lparr>srs_model = inf_model_returned ir, srs_answers = [(qid, answer_from_raw (inf_raw ir))],
      srs_usage = \<lparr>us_input_tokens = 0, us_output_tokens = 0\<rparr>\<rparr>"

definition validate_stored_inference ::
  "inference_record \<Rightarrow> string \<Rightarrow> string \<Rightarrow> (string, question) btree \<Rightarrow> string \<Rightarrow> pipeline_error + answer" where
  "validate_stored_inference ir key model questions qid =
     (if inf_reuse_key ir \<noteq> key
      then Inl (PE_Validation (''inference reuse-key mismatch: expected '' @ key @ '', got '' @ inf_reuse_key ir))
      else if inf_model_requested ir \<noteq> model
      then Inl (PE_Validation (''inference model_requested mismatch for '' @ key))
      else map_sum (PE_StoredInvalid key) (\<lambda>_. answer_from_raw (inf_raw ir))
        (validate_response_for_model (stored_response qid ir) questions (valid_options_for qid) model))"

record reuse_hit =
  rh_inference :: inference_record
  rh_outcome :: decision_outcome
  rh_class :: evidence_class
  rh_confidence :: "f64 option"
  rh_probability :: "f64 option"

record reuse_attempt =
  ra_reuse_key :: string
  ra_questions :: "(string, question) btree"
  ra_qid :: string
  ra_audit_cache_key :: string
  ra_mat_digest :: string
  ra_hit :: "reuse_hit option"

definition hit_of :: "inference_record \<Rightarrow> verdict4 \<Rightarrow> reuse_hit" where
  "hit_of ir v = (case v of (out, cls, conf, p) \<Rightarrow>
     \<lparr>rh_inference = ir, rh_outcome = out, rh_class = cls, rh_confidence = conf, rh_probability = p\<rparr>)"

text \<open>A recorded failure under the same reuse key always asks again.\<close>

definition blocked :: "memory_store \<Rightarrow> string \<Rightarrow> string \<Rightarrow> string \<Rightarrow> bool" where
  "blocked st c qid rkey =
     (case find_decision st c qid of
        None \<Rightarrow> False
      | Some d \<Rightarrow> is_failed (dec_outcome d) \<and> dec_reuse_key d = rkey)"

text \<open>The stored answer of a reuse key, validated and judged by the current thresholds.\<close>

definition reuse_lookup ::
  "memory_store \<Rightarrow> materialization \<Rightarrow> candidate \<Rightarrow> string \<Rightarrow> string \<Rightarrow> (string, question) btree \<Rightarrow> string
   \<Rightarrow> pipeline_error + reuse_hit option" where
  "reuse_lookup st m c rkey model questions qid =
     (case find_inference st rkey of
        None \<Rightarrow> Inr None
      | Some ir \<Rightarrow>
          (case validate_stored_inference ir rkey model questions qid of
             Inl e \<Rightarrow> Inl e
           | Inr _ \<Rightarrow>
               if blocked st (cand_id c) qid rkey then Inr None
               else map_sum id (\<lambda>v. Some (hit_of ir v)) (materialize_raw (inf_raw ir) m (cand_reason c))))"

definition resolve_reuse ::
  "pipeline_codec \<Rightarrow> candidate \<Rightarrow> entity \<Rightarrow> entity \<Rightarrow> string \<Rightarrow> reuse_context \<Rightarrow> materialization \<Rightarrow> string
   \<Rightarrow> memory_store \<Rightarrow> pipeline_error + reuse_attempt" where
  "resolve_reuse K c f t snap ctx m catalog st =
     (case validate_model_identity (rx_model ctx) (rx_model ctx) of
        Inl e \<Rightarrow> Inl (PE_Model e)
      | Inr _ \<Rightarrow>
          let questions = questions_for c f t;
              qid = fst (hd questions);
              old_key = cache_key (pc_hash K) (pc_questions K) (ent_snapshot f) catalog questions (rx_model ctx)
                (rx_rubric_version ctx) (rx_policy_digest ctx);
              audit = old_key @ '':'' @ mat_digest K m
          in if length questions \<noteq> 1 then Inl (PE_Validation ''expected exactly one question per candidate'')
             else (case reuse_input_for K c f t questions ctx snap of
               Inl e \<Rightarrow> Inl e
             | Inr input \<Rightarrow>
                 let rkey = reuse_key (pc_hash K) (pc_reuse K) input in
                 map_sum id (\<lambda>hit. \<lparr>ra_reuse_key = rkey, ra_questions = questions, ra_qid = qid,
                     ra_audit_cache_key = audit, ra_mat_digest = mat_digest K m, ra_hit = hit\<rparr>)
                   (reuse_lookup st m c rkey (rx_model ctx) questions qid)))"

end
