(* ===== verification/Decide.thy ===== *)
theory Decide
  imports Materialization
begin

text \<open>
  Bounded decisions over candidates: the preflight \<open>uncached_decisions\<close> and
  \<open>Pipeline::decide\<close> of \<^verbatim>\<open>crates/chaosbox/src/pipeline.rs\<close>, and \<open>decide_cached\<close>,
  \<open>assemble_evidence\<close> and \<open>decision_id_for\<close> of \<^verbatim>\<open>crates/chaosbox/src/lib.rs\<close>.

  The responder is a parameter: what it answers to its \<open>n\<close>-th call with these arguments.
  The state of a run is the store together with the number of calls made so far.
\<close>

section \<open>Identities and evidence\<close>

definition decision_id_for ::
  "pipeline_codec \<Rightarrow> string \<Rightarrow> string \<Rightarrow> string \<Rightarrow> string \<Rightarrow> string \<Rightarrow> string" where
  "decision_id_for K c q model rkey mat =
     deterministic_id (pc_hash K) ''dec'' [c, q, model, rkey, mat]"

definition assemble_evidence ::
  "pipeline_codec \<Rightarrow> decision \<Rightarrow> bool \<Rightarrow> string \<Rightarrow> source_span option \<Rightarrow> string \<Rightarrow> string \<Rightarrow> string \<Rightarrow> evidence" where
  "assemble_evidence K d supports body sp snap file suffix =
     \<lparr>ev_id = deterministic_id (pc_hash K) ''ev''
        [dec_id d, suffix, if supports then ''1'' else ''0'', evidence_class_name (dec_evidence_class d),
         snap, file, body],
      ev_class = dec_evidence_class d, ev_supports = supports, ev_text = body, ev_span = sp,
      ev_snapshot = snap, ev_source_file_version = file, ev_producer = None\<rparr>"

section \<open>Inputs of a run\<close>

type_synonym responder = "nat \<Rightarrow> json \<Rightarrow> (string, question) btree \<Rightarrow> string + system_one_response"

type_synonym decided = "candidate \<times> decision \<times> evidence"

record decision_run =
  dr_entities :: "(string, entity) btree"
  dr_snapshot :: source_snapshot
  dr_model :: string
  dr_mat :: materialization
  dr_policy :: effective_policy

definition run_context :: "pipeline_codec \<Rightarrow> decision_run \<Rightarrow> reuse_context" where
  "run_context K dr =
     \<lparr>rx_repo = snap_repo (dr_snapshot dr), rx_file_hashes = file_hashes_for (dr_snapshot dr),
      rx_model = dr_model dr, rx_rubric_version = mt_rubric_version (dr_mat dr),
      rx_policy_digest = policy_digest (pc_hash K) (dr_policy dr)\<rparr>"

definition endpoints :: "decision_run \<Rightarrow> candidate \<Rightarrow> pipeline_error + (entity \<times> entity)" where
  "endpoints dr c =
     (case bt_get (dr_entities dr) (cand_from_entity c) of
        None \<Rightarrow> Inl (PE_Validation ''missing from'')
      | Some f \<Rightarrow>
          (case bt_get (dr_entities dr) (cand_to_entity c) of
             None \<Rightarrow> Inl (PE_Validation ''missing to'')
           | Some t \<Rightarrow> Inr (f, t)))"

text \<open>What every loop over the candidates does first.\<close>

definition attempt ::
  "pipeline_codec \<Rightarrow> decision_run \<Rightarrow> string \<Rightarrow> memory_store \<Rightarrow> candidate
   \<Rightarrow> pipeline_error + (entity \<times> entity \<times> reuse_attempt)" where
  "attempt K dr catalog st c =
     (case endpoints dr c of
        Inl e \<Rightarrow> Inl e
      | Inr (f, t) \<Rightarrow>
          map_sum id (\<lambda>a. (f, t, a))
            (resolve_reuse K c f t (snap_id (dr_snapshot dr)) (run_context K dr) (dr_mat dr) catalog st))"

section \<open>The preflight\<close>

fun count_uncached ::
  "pipeline_codec \<Rightarrow> decision_run \<Rightarrow> string \<Rightarrow> memory_store \<Rightarrow> candidate list \<Rightarrow> nat \<Rightarrow> pipeline_error + nat" where
  "count_uncached K dr catalog st [] n = Inr n"
| "count_uncached K dr catalog st (c # cs) n =
     (case attempt K dr catalog st c of
        Inl e \<Rightarrow> Inl e
      | Inr (f, t, a) \<Rightarrow> count_uncached K dr catalog st cs (if ra_hit a = None then Suc n else n))"

definition uncached_decisions ::
  "pipeline_codec \<Rightarrow> decision_run \<Rightarrow> candidate list \<Rightarrow> memory_store \<Rightarrow> pipeline_error + nat" where
  "uncached_decisions K dr cs st =
     (case mat_validate K (dr_mat dr) of
        Inl e \<Rightarrow> Inl e
      | Inr _ \<Rightarrow> count_uncached K dr (catalog_digest (pc_hash K) cs) st cs 0)"

section \<open>One candidate\<close>

definition relation_text :: "candidate \<Rightarrow> entity \<Rightarrow> entity \<Rightarrow> string" where
  "relation_text c f t =
     ''['' @ cand_reason c @ ''] '' @ ent_qualified_name f @ '' -> '' @ ent_qualified_name t
     @ '' ('' @ relation_type_debug (cand_rel_type c) @ '')''"

definition request_state :: "candidate \<Rightarrow> entity \<Rightarrow> entity \<Rightarrow> json" where
  "request_state c f t =
     JObject
       [(''candidate'', JString (cand_id c)),
        (''rel_type'', JString (relation_type_debug (cand_rel_type c))),
        (''from'', JObject [(''qualified_name'', JString (ent_qualified_name f)),
           (''kind'', JString (entity_kind_debug (ent_kind f))), (''file'', JString (ent_file f))]),
        (''to'', JObject [(''qualified_name'', JString (ent_qualified_name t)),
           (''kind'', JString (entity_kind_debug (ent_kind t))), (''file'', JString (ent_file t))]),
        (''reason'', JString (cand_reason c)),
        (''excerpt'', JString (cand_state_excerpt c))]"

text \<open>The decision and the evidence that a validated answer gives, stored or fresh.\<close>

definition answered_decision ::
  "pipeline_codec \<Rightarrow> decision_run \<Rightarrow> candidate \<Rightarrow> reuse_attempt \<Rightarrow> string \<Rightarrow> reuse_hit \<Rightarrow> decision" where
  "answered_decision K dr c a q h =
     \<lparr>dec_id = decision_id_for K (cand_id c) q (dr_model dr) (ra_reuse_key a) (ra_mat_digest a),
      dec_candidate_id = cand_id c, dec_question_id = q, dec_outcome = rh_outcome h,
      dec_evidence_class = rh_class h, dec_model_requested = dr_model dr,
      dec_model_returned = inf_model_returned (rh_inference h), dec_confidence = rh_confidence h,
      dec_probability = rh_probability h, dec_cache_key = ra_audit_cache_key a,
      dec_reuse_key = ra_reuse_key a, dec_raw_answer = Some (inf_raw (rh_inference h))\<rparr>"

definition answered ::
  "pipeline_codec \<Rightarrow> decision_run \<Rightarrow> candidate \<Rightarrow> entity \<Rightarrow> entity \<Rightarrow> reuse_attempt \<Rightarrow> string \<Rightarrow> reuse_hit \<Rightarrow> decided" where
  "answered K dr c f t a q h =
     (let d = answered_decision K dr c a q h
      in (c, d, assemble_evidence K d (rh_outcome h = DO_Accepted) (relation_text c f t) (Some (ent_span f))
            (snap_id (dr_snapshot dr)) (ent_file f) ''support''))"

definition failed_decision ::
  "pipeline_codec \<Rightarrow> decision_run \<Rightarrow> candidate \<Rightarrow> reuse_attempt \<Rightarrow> decision" where
  "failed_decision K dr c a =
     \<lparr>dec_id = decision_id_for K (cand_id c) ''failed'' (dr_model dr) (ra_reuse_key a) (ra_mat_digest a),
      dec_candidate_id = cand_id c, dec_question_id = ra_qid a, dec_outcome = DO_Failed ''responder fault'',
      dec_evidence_class = EC_Ambiguous, dec_model_requested = dr_model dr, dec_model_returned = [],
      dec_confidence = None, dec_probability = None, dec_cache_key = ra_audit_cache_key a,
      dec_reuse_key = ra_reuse_key a, dec_raw_answer = None\<rparr>"

definition failed ::
  "pipeline_codec \<Rightarrow> decision_run \<Rightarrow> candidate \<Rightarrow> entity \<Rightarrow> reuse_attempt \<Rightarrow> decided" where
  "failed K dr c f a =
     (let d = failed_decision K dr c a
      in (c, d, assemble_evidence K d False ''decision attempt failed; see attempt accounting'' None
            (snap_id (dr_snapshot dr)) (ent_file f) ''failed''))"

text \<open>The decision is written before its evidence; a refused evidence leaves it behind.\<close>

definition persist_decided ::
  "memory_store \<Rightarrow> decided \<Rightarrow> (memory_store, pipeline_error, decided) outcome" where
  "persist_decided st x =
     (case x of (c, d, e) \<Rightarrow>
        (case put_decision st d of
           (st1, Inl er) \<Rightarrow> (st1, Inl (PE_Store er))
         | (st1, Inr _) \<Rightarrow>
             (case put_evidence st1 e of
                (st2, Inl er) \<Rightarrow> (st2, Inl (PE_Store er))
              | (st2, Inr _) \<Rightarrow> (st2, Inr x))))"

text \<open>The answer is validated, stored first-write-wins, read back and validated again.\<close>

definition take_answer ::
  "pipeline_codec \<Rightarrow> decision_run \<Rightarrow> candidate \<Rightarrow> entity \<Rightarrow> entity \<Rightarrow> reuse_attempt \<Rightarrow> memory_store
   \<Rightarrow> system_one_response \<Rightarrow> (memory_store, pipeline_error, decided) outcome" where
  "take_answer K dr c f t a st resp =
     (if length (ra_questions a) \<noteq> 1 \<or> length (srs_answers resp) \<noteq> 1
      then (st, Inl (PE_Validation ''expected exactly one answer for one question''))
      else case validate_response_for_model resp (ra_questions a) (valid_options_for (ra_qid a)) (dr_model dr) of
        Inl e \<Rightarrow> (st, Inl (PE_Model e))
      | Inr _ \<Rightarrow>
          let (q, ans) = hd (srs_answers resp);
              submitted = \<lparr>inf_reuse_key = ra_reuse_key a, inf_raw = raw_from_answer ans,
                 inf_model_requested = dr_model dr, inf_model_returned = srs_model resp\<rparr>
          in (case put_inference st submitted of
             (st1, Inl er) \<Rightarrow> (st1, Inl (PE_Store er))
           | (st1, Inr _) \<Rightarrow>
               (case find_inference st1 (ra_reuse_key a) of
                  None \<Rightarrow> (st1, Inl PE_InferenceLost)
                | Some winner \<Rightarrow>
                    (case validate_stored_inference winner (ra_reuse_key a) (dr_model dr) (ra_questions a) (ra_qid a) of
                       Inl e \<Rightarrow> (st1, Inl e)
                     | Inr _ \<Rightarrow>
                         (case materialize_raw (inf_raw winner) (dr_mat dr) (cand_reason c) of
                            Inl e \<Rightarrow> (st1, Inl e)
                          | Inr v \<Rightarrow> persist_decided st1 (answered K dr c f t a q (hit_of winner v)))))))"

definition decide_one ::
  "pipeline_codec \<Rightarrow> responder \<Rightarrow> decision_run \<Rightarrow> string \<Rightarrow> memory_store \<times> nat \<Rightarrow> candidate
   \<Rightarrow> (memory_store \<times> nat, pipeline_error, decided) outcome" where
  "decide_one K ask dr catalog sn c =
     (case sn of (st, n) \<Rightarrow>
        (case attempt K dr catalog st c of
           Inl e \<Rightarrow> (sn, Inl e)
         | Inr (f, t, a) \<Rightarrow>
             (case ra_hit a of
                Some h \<Rightarrow> map_prod (\<lambda>st'. (st', n)) id (persist_decided st (answered K dr c f t a (ra_qid a) h))
              | None \<Rightarrow>
                  map_prod (\<lambda>st'. (st', Suc n)) id
                    (case ask n (request_state c f t) (ra_questions a) of
                       Inl _ \<Rightarrow> persist_decided st (failed K dr c f a)
                     | Inr resp \<Rightarrow> take_answer K dr c f t a st resp))))"

section \<open>The loops\<close>

fun decide_all ::
  "pipeline_codec \<Rightarrow> responder \<Rightarrow> decision_run \<Rightarrow> string \<Rightarrow> memory_store \<times> nat \<Rightarrow> candidate list
   \<Rightarrow> decided list \<Rightarrow> (memory_store \<times> nat, pipeline_error, decided list) outcome" where
  "decide_all K ask dr catalog sn [] out = (sn, Inr out)"
| "decide_all K ask dr catalog sn (c # cs) out =
     (case decide_one K ask dr catalog sn c of
        (sn', Inl e) \<Rightarrow> (sn', Inl e)
      | (sn', Inr x) \<Rightarrow> decide_all K ask dr catalog sn' cs (out @ [x]))"

definition decide ::
  "pipeline_codec \<Rightarrow> responder \<Rightarrow> decision_run \<Rightarrow> memory_store \<times> nat \<Rightarrow> candidate list
   \<Rightarrow> (memory_store \<times> nat, pipeline_error, decided list) outcome" where
  "decide K ask dr sn cs =
     (case mat_validate K (dr_mat dr) of
        Inl e \<Rightarrow> (sn, Inl e)
      | Inr _ \<Rightarrow> decide_all K ask dr (catalog_digest (pc_hash K) cs) sn cs [])"

text \<open>The cache-only run skips what it would have to ask; it writes the evidence first.\<close>

fun cached_all ::
  "pipeline_codec \<Rightarrow> decision_run \<Rightarrow> string \<Rightarrow> memory_store \<Rightarrow> candidate list
   \<Rightarrow> decided list \<Rightarrow> (memory_store, pipeline_error, decided list) outcome" where
  "cached_all K dr catalog st [] out = (st, Inr out)"
| "cached_all K dr catalog st (c # cs) out =
     (case attempt K dr catalog st c of
        Inl e \<Rightarrow> (st, Inl e)
      | Inr (f, t, a) \<Rightarrow>
          (case ra_hit a of
             None \<Rightarrow> cached_all K dr catalog st cs out
           | Some h \<Rightarrow>
               (case answered K dr c f t a (ra_qid a) h of (c', d, e) \<Rightarrow>
                  (case put_evidence st e of
                     (st1, Inl er) \<Rightarrow> (st1, Inl (PE_Store er))
                   | (st1, Inr _) \<Rightarrow>
                       (case put_decision st1 d of
                          (st2, Inl er) \<Rightarrow> (st2, Inl (PE_Store er))
                        | (st2, Inr _) \<Rightarrow> cached_all K dr catalog st2 cs (out @ [(c', d, e)]))))))"

definition decide_cached ::
  "pipeline_codec \<Rightarrow> decision_run \<Rightarrow> memory_store \<Rightarrow> candidate list
   \<Rightarrow> (memory_store, pipeline_error, decided list) outcome" where
  "decide_cached K dr st cs =
     (case mat_validate K (dr_mat dr) of
        Inl e \<Rightarrow> (st, Inl e)
      | Inr _ \<Rightarrow> cached_all K dr (catalog_digest (pc_hash K) cs) st cs [])"

section \<open>Reports and guards\<close>

fun outcome_name :: "decision_outcome \<Rightarrow> string" where
  "outcome_name DO_Accepted = ''accepted''"
| "outcome_name DO_Rejected = ''rejected''"
| "outcome_name DO_Abstained = ''abstained''"
| "outcome_name DO_Negative = ''negative''"
| "outcome_name (DO_Failed _) = ''failed''"

definition summarize_outcomes :: "decided list \<Rightarrow> (string, nat) btree" where
  "summarize_outcomes xs = foldl (\<lambda>m (c, d, e). bt_alter (outcome_name (dec_outcome d)) 0 Suc m) [] xs"

definition capture_only_publishable :: "string + bool option \<Rightarrow> nat \<Rightarrow> nat \<Rightarrow> bool" where
  "capture_only_publishable active candidates reusable =
     (case active of
        Inr None \<Rightarrow> True
      | Inr (Some False) \<Rightarrow> True
      | Inr (Some True) \<Rightarrow> 0 < candidates \<and> candidates \<le> reusable
      | Inl _ \<Rightarrow> False)"

definition claim_survives_source_removal :: "claim \<Rightarrow> string \<Rightarrow> bool" where
  "claim_survives_source_removal c removed \<longleftrightarrow>
     filter (\<lambda>e. e \<noteq> removed) (cl_supporting c) \<noteq> []
     \<or> filter (\<lambda>e. e \<noteq> removed) (cl_contradicting c) \<noteq> [] \<or> cl_supporting c = []"

end
