(* ===== verification/Publish_Facts.thy ===== *)
theory Publish_Facts
  imports Decide
begin

text \<open>
  Certified observations become graph members without a model:
  \<^verbatim>\<open>crates/chaosbox/src/structural.rs\<close>, on the \<open>Extraction\<close> of
  \<^verbatim>\<open>crates/chaosbox-extract/src/extractors.rs\<close>.
\<close>

section \<open>The extraction\<close>

record structural_fact =
  fact_from :: string
  fact_to :: string
  fact_rel_type :: relation_type
  fact_span :: source_span
  fact_text :: string
  fact_producer :: string
  fact_resolved :: bool

record extraction =
  ext_entities :: "entity list"
  ext_explicit_refs :: "(string \<times> string \<times> string) list"
  ext_facts :: "structural_fact list"
  ext_coverage :: "file_coverage list"
  ext_compiler :: "compiler_coverage option"

section \<open>Validation of a batch\<close>

text \<open>\<open>str::get(a..b)\<close>: both ends in range, in order and on character boundaries.\<close>

definition char_boundary :: "string \<Rightarrow> nat \<Rightarrow> bool" where
  "char_boundary s i \<longleftrightarrow> i = 0 \<or> i = length s \<or> (i < length s \<and> \<not> continues_char (s ! i))"

definition str_slice :: "string \<Rightarrow> nat \<Rightarrow> nat \<Rightarrow> string option" where
  "str_slice s a b =
     (if a \<le> b \<and> char_boundary s a \<and> char_boundary s b then Some (take (b - a) (drop a s)) else None)"

definition count_facts :: "relation_type \<Rightarrow> structural_fact list \<Rightarrow> usize" where
  "count_facts ty fs = of_nat (length (filter (\<lambda>f. fact_rel_type f = ty) fs))"

definition compiler_agrees :: "extraction \<Rightarrow> bool" where
  "compiler_agrees x =
     (case ext_compiler x of
        None \<Rightarrow> True
      | Some cc \<Rightarrow>
          let fs = filter (\<lambda>f. fact_producer f = ac_producer (cc_context cc)) (ext_facts x)
          in of_nat (length fs) = compiler_relations cc
           \<and> count_facts RT_Defines fs = cc_definitions cc
           \<and> count_facts RT_References fs = cc_references cc
           \<and> count_facts RT_Implements fs = cc_implementations cc)"

definition is_declaration :: "entity \<Rightarrow> entity \<Rightarrow> structural_fact \<Rightarrow> bool" where
  "is_declaration f t fa \<longleftrightarrow>
     ent_kind f = EK_File \<and> ent_file f = ent_file t \<and> ent_span t = fact_span fa
     \<and> ((fact_rel_type fa = RT_Defines \<and> ent_kind t = EK_Definition)
        \<or> (fact_rel_type fa = RT_Contains \<and> ent_kind t = EK_Module))"

definition is_annotation :: "entity \<Rightarrow> entity \<Rightarrow> structural_fact \<Rightarrow> bool" where
  "is_annotation f t fa \<longleftrightarrow>
     ent_file f = ent_file t \<and> ent_span t = fact_span fa \<and> fact_rel_type fa = RT_Contains
     \<and> ((ent_kind f = EK_Definition \<and> ent_kind t = EK_Definition)
        \<or> (ent_kind f \<in> {EK_File, EK_Definition} \<and> ent_kind t = EK_Rationale))"

definition is_resolution_fact :: "entity \<Rightarrow> entity \<Rightarrow> structural_fact \<Rightarrow> bool" where
  "is_resolution_fact f t fa \<longleftrightarrow>
     sp_file (fact_span fa) = ent_file f
     \<and> ((fact_rel_type fa = RT_Calls \<and> ent_kind f \<in> {EK_File, EK_Definition} \<and> ent_kind t = EK_Definition)
        \<or> (fact_rel_type fa \<in> {RT_Implements, RT_Inherits} \<and> ent_kind f = EK_Definition
            \<and> ent_kind t = EK_Definition)
        \<or> (fact_rel_type fa = RT_References \<and> ent_kind f \<in> {EK_File, EK_Rationale} \<and> ent_kind t = EK_File))"

text \<open>Endpoints with compiler symbols stay inside the compiler's own context.\<close>

definition compiler_endpoints :: "entity \<Rightarrow> entity \<Rightarrow> structural_fact \<Rightarrow> compiler_coverage \<Rightarrow> symbol_identity \<Rightarrow> bool" where
  "compiler_endpoints f t fa cc tgt =
     (if sym_context tgt \<noteq> ac_id (cc_context cc) \<or> ent_kind t \<noteq> EK_Definition then False
      else if is_declaration f t fa then fact_rel_type fa = RT_Defines
      else (case ent_compiler f of
          None \<Rightarrow> False
        | Some src \<Rightarrow>
            sym_context src = ac_id (cc_context cc) \<and> ent_span f = fact_span fa
            \<and> (if fact_rel_type fa = RT_References then sym_anchor src = sym_anchor tgt \<and> ent_kind f = EK_Symbol
               else if fact_rel_type fa = RT_Implements then ent_kind f = EK_Definition
               else False)))"

definition valid_fact_endpoints :: "entity \<Rightarrow> entity \<Rightarrow> structural_fact \<Rightarrow> extraction \<Rightarrow> bool" where
  "valid_fact_endpoints f t fa x =
     (if ent_compiler f = None \<and> ent_compiler t = None
      then (if fact_resolved fa then is_resolution_fact f t fa
            else is_declaration f t fa \<or> is_annotation f t fa)
      else if fact_resolved fa then False
      else (case ext_compiler x of
          None \<Rightarrow> False
        | Some cc \<Rightarrow>
            if fact_producer fa \<noteq> ac_producer (cc_context cc) then False
            else (case ent_compiler t of
                None \<Rightarrow> False
              | Some tgt \<Rightarrow> compiler_endpoints f t fa cc tgt)))"

definition fact_ends :: "string \<Rightarrow> source_snapshot \<Rightarrow> (string, entity) btree \<Rightarrow> structural_fact \<Rightarrow> extraction \<Rightarrow> bool" where
  "fact_ends repo snap ents fa x =
     (case (bt_get ents (fact_from fa), bt_get ents (fact_to fa)) of
        (Some f, Some t) \<Rightarrow>
          ent_repo f = repo \<and> ent_repo t = repo \<and> ent_snapshot f = snap_id snap \<and> ent_snapshot t = snap_id snap
          \<and> valid_fact_endpoints f t fa x
      | _ \<Rightarrow> False)"

definition valid_version :: "(string \<Rightarrow> string) \<Rightarrow> source_snapshot \<Rightarrow> string \<Rightarrow> bool" where
  "valid_version H snap file =
     (case (bt_get (snap_contents snap) file, file_version_of snap file) of
        (Some body, Some v) \<Rightarrow> fv_sha256 v = sha256_hex H [body] \<and> fv_bytes v = of_nat (length body)
      | _ \<Rightarrow> False)"

definition valid_source :: "source_snapshot \<Rightarrow> structural_fact \<Rightarrow> bool" where
  "valid_source snap fa =
     (case bt_get (snap_contents snap) (sp_file (fact_span fa)) of
        None \<Rightarrow> False
      | Some body \<Rightarrow>
          str_slice body (unat (sp_byte_start (fact_span fa))) (unat (sp_byte_end (fact_span fa)))
            = Some (fact_text fa))"

text \<open>A file is hashed once per batch: the set holds the files already verified.\<close>

fun check_facts ::
  "(string \<Rightarrow> string) \<Rightarrow> string \<Rightarrow> source_snapshot \<Rightarrow> extraction \<Rightarrow> (string, entity) btree
   \<Rightarrow> string btset \<Rightarrow> structural_fact list \<Rightarrow> pipeline_error + unit" where
  "check_facts H repo snap x ents verified [] = Inr ()"
| "check_facts H repo snap x ents verified (fa # facts) =
     (let file = sp_file (fact_span fa) in
      if file \<notin> set verified \<and> \<not> valid_version H snap file
      then Inl (PE_Validation ''certified source content identity mismatch'')
      else if repo \<noteq> snap_repo snap \<or> \<not> fact_ends repo snap ents fa x \<or> \<not> valid_source snap fa
        \<or> fact_producer fa = []
      then Inl (PE_Validation ''invalid certified source observation'')
      else check_facts H repo snap x ents (bs_insert file verified) facts)"

definition validate_facts ::
  "(string \<Rightarrow> string) \<Rightarrow> string \<Rightarrow> source_snapshot \<Rightarrow> extraction \<Rightarrow> (string, entity) btree \<Rightarrow> pipeline_error + unit" where
  "validate_facts H repo snap x ents =
     (if \<not> compiler_agrees x then Inl (PE_Validation ''compiler coverage disagrees with facts'')
      else check_facts H repo snap x ents [] (ext_facts x))"

section \<open>Publication of the facts\<close>

definition same_file_scope :: "graph_build \<Rightarrow> string \<Rightarrow> string \<Rightarrow> relation_scope" where
  "same_file_scope b f t =
     (if map_option ent_file (bt_get (gb_nodes b) f) = map_option ent_file (bt_get (gb_nodes b) t)
      then RS_File else RS_CrossFile)"

definition fact_evidence_id :: "(string \<Rightarrow> string) \<Rightarrow> source_snapshot \<Rightarrow> structural_fact \<Rightarrow> string" where
  "fact_evidence_id H snap fa =
     deterministic_id H ''ev''
       [snap_id snap, fact_from fa, fact_to fa, relation_type_debug (fact_rel_type fa),
        fact_producer fa, fact_text fa]"

definition fact_relation :: "(string \<Rightarrow> string) \<Rightarrow> graph_build \<Rightarrow> source_snapshot \<Rightarrow> structural_fact \<Rightarrow> relation" where
  "fact_relation H b snap fa =
     (relation_new H (fact_rel_type fa) (fact_from fa) (fact_to fa)
        (same_file_scope b (fact_from fa) (fact_to fa)) (gb_id b))
       \<lparr>rel_evidence_ids := [fact_evidence_id H snap fa]\<rparr>"

text \<open>All memberships are checked before the first durable write.\<close>

fun add_facts ::
  "(string \<Rightarrow> string) \<Rightarrow> source_snapshot \<Rightarrow> graph_build \<Rightarrow> structural_fact list
   \<Rightarrow> (graph_build, pipeline_error, (string \<times> structural_fact) list) outcome" where
  "add_facts H snap b [] = (b, Inr [])"
| "add_facts H snap b (fa # facts) =
     (let r = fact_relation H b snap fa in
      case add_edge b r of
        (b1, Inl e) \<Rightarrow> (b1, Inl (PE_Value e))
      | (b1, Inr _) \<Rightarrow>
          (case add_facts H snap b1 facts of
             (b2, Inl e) \<Rightarrow> (b2, Inl e)
           | (b2, Inr obs) \<Rightarrow> (b2, Inr ((rel_id r, fa) # obs))))"

definition fact_evidence :: "(string \<Rightarrow> string) \<Rightarrow> source_snapshot \<Rightarrow> structural_fact \<Rightarrow> evidence" where
  "fact_evidence H snap fa =
     \<lparr>ev_id = fact_evidence_id H snap fa, ev_class = (if fact_resolved fa then EC_Inferred else EC_Extracted),
      ev_supports = True, ev_text = fact_text fa, ev_span = Some (fact_span fa), ev_snapshot = snap_id snap,
      ev_source_file_version = sp_file (fact_span fa), ev_producer = Some (fact_producer fa)\<rparr>"

definition relation_claim :: "(string \<Rightarrow> string) \<Rightarrow> string \<Rightarrow> string \<Rightarrow> string list \<Rightarrow> claim" where
  "relation_claim H rel ev contra =
     \<lparr>cl_id = deterministic_id H ''claim'' [rel], cl_relation_id = rel, cl_supporting = [ev],
      cl_contradicting = contra, cl_accepted = True\<rparr>"

fun put_facts ::
  "(string \<Rightarrow> string) \<Rightarrow> source_snapshot \<Rightarrow> memory_store \<Rightarrow> (string \<times> structural_fact) list
   \<Rightarrow> (memory_store, pipeline_error, unit) outcome" where
  "put_facts H snap st [] = (st, Inr ())"
| "put_facts H snap st ((rel, fa) # obs) =
     (let e = fact_evidence H snap fa in
      case put_evidence st e of
        (st1, Inl er) \<Rightarrow> (st1, Inl (PE_Store er))
      | (st1, Inr _) \<Rightarrow>
          (case put_claim st1 (relation_claim H rel (ev_id e) []) of
             (st2, Inl er) \<Rightarrow> (st2, Inl (PE_Store er))
           | (st2, Inr _) \<Rightarrow> put_facts H snap st2 obs))"

definition publish_facts ::
  "(string \<Rightarrow> string) \<Rightarrow> memory_store \<Rightarrow> graph_build \<Rightarrow> source_snapshot \<Rightarrow> extraction
   \<Rightarrow> memory_store \<times> graph_build \<times> (pipeline_error + unit)" where
  "publish_facts H st b snap x =
     (case validate_facts H (gb_repo b) snap x (gb_nodes b) of
        Inl e \<Rightarrow> (st, b, Inl e)
      | Inr _ \<Rightarrow>
          (case add_facts H snap b (ext_facts x) of
             (b1, Inl e) \<Rightarrow> (st, b1, Inl e)
           | (b1, Inr obs) \<Rightarrow>
               (case ensure_snapshot_files st (snap_id snap) (snapshot_files snap) of
                  (st1, Inl er) \<Rightarrow> (st1, b1, Inl (PE_Store er))
                | (st1, Inr _) \<Rightarrow> (case put_facts H snap st1 obs of (st2, r) \<Rightarrow> (st2, b1, r)))))"

end
