(* ===== verification/Publish_Build.thy ===== *)
theory Publish_Build
  imports Publish_Facts
begin

text \<open>
  \<open>Pipeline::build_and_publish\<close> and \<open>materialize_decisions\<close> of
  \<^verbatim>\<open>crates/chaosbox/src/pipeline.rs\<close>, with the guard against failed decisions and the
  chaining of publications of a fresh process.
\<close>

section \<open>The pipeline\<close>

record pipeline =
  pl_store :: memory_store
  pl_generation :: u64

definition pipeline_new :: pipeline where
  "pipeline_new = \<lparr>pl_store = memory_store_new, pl_generation = 0\<rparr>"

definition reject_failed :: "decided list \<Rightarrow> pipeline_error + unit" where
  "reject_failed xs =
     (let n = length (filter (\<lambda>(c, d, e). is_failed (dec_outcome d)) xs) in
      if 0 < n
      then Inl (PE_Validation (dec n @ '' failed decisions; refusing to publish (retry once the responder is healthy)''))
      else Inr ())"

text \<open>The live generation is an \<^verbatim>\<open>i64\<close> of the database.\<close>

definition chain_publication :: "(string \<times> int) option \<Rightarrow> pipeline_error + (string option \<times> u64)" where
  "chain_publication active =
     (case active of
        None \<Rightarrow> Inr (None, 0)
      | Some (i, g) \<Rightarrow>
          if g < 0 \<or> 2 ^ 64 \<le> g \<or> 2 ^ 64 \<le> g + 1
          then Inl (PE_Validation ''live generation out of range'')
          else Inr (Some i, of_int g))"

section \<open>Accepted decisions become edges\<close>

type_synonym triple = "string \<times> string \<times> string"

definition candidate_triple :: "candidate \<Rightarrow> triple" where
  "candidate_triple c = (cand_from_entity c, cand_to_entity c, relation_type_debug (cand_rel_type c))"

definition contradictions :: "decided list \<Rightarrow> (triple, string list) btree" where
  "contradictions xs =
     foldl (\<lambda>m (c, d, e). if dec_outcome d = DO_Rejected
        then bt_alter (candidate_triple c) [] (\<lambda>ids. ids @ [ev_id e]) m else m) [] xs"

definition meets :: "f64 option \<Rightarrow> f64 \<Rightarrow> bool" where
  "meets v threshold = (case v of None \<Rightarrow> True | Some x \<Rightarrow> threshold \<le> x)"

definition accepts :: "materialization \<Rightarrow> decision \<Rightarrow> bool" where
  "accepts m d \<longleftrightarrow> dec_outcome d = DO_Accepted
     \<and> meets (dec_confidence d) (mt_accept_confidence m) \<and> meets (dec_probability d) (mt_accept_noul m)"

definition decision_scope :: "graph_build \<Rightarrow> candidate \<Rightarrow> relation_scope" where
  "decision_scope b c =
     (let file = (\<lambda>i. case bt_get (gb_nodes b) i of None \<Rightarrow> [] | Some e \<Rightarrow> ent_file e)
      in if file (cand_from_entity c) = file (cand_to_entity c) then RS_File else RS_CrossFile)"

text \<open>
  The first free id \<open>base#n\<close> from \<open>n = 2\<close>. The counter is a \<^verbatim>\<open>u32\<close>; the fuel is one more
  than the number of edges, after which a free id has been met unless the counter wrapped.
\<close>

fun free_suffix :: "(string, relation) btree \<Rightarrow> string \<Rightarrow> nat \<Rightarrow> u32 \<Rightarrow> string option" where
  "free_suffix es base 0 n = None"
| "free_suffix es base (Suc fuel) n =
     (let i = base @ ''#'' @ dec (unat n) in
      if \<not> bt_contains es i then Some i else free_suffix es base fuel (n + 1))"

definition free_edge_id :: "(string, relation) btree \<Rightarrow> string \<Rightarrow> string option" where
  "free_edge_id es base =
     (if bt_contains es base then free_suffix es base (Suc (length es)) 2 else Some base)"

definition decision_relation ::
  "(string \<Rightarrow> string) \<Rightarrow> graph_build \<Rightarrow> candidate \<Rightarrow> evidence \<Rightarrow> relation option" where
  "decision_relation H b c e =
     (let r = (relation_new H (cand_rel_type c) (cand_from_entity c) (cand_to_entity c) (decision_scope b c) (gb_id b))
            \<lparr>rel_evidence_ids := [ev_id e]\<rparr>
      in map_option (\<lambda>i. r\<lparr>rel_id := i\<rparr>) (free_edge_id (gb_edges b) (rel_id r)))"

definition ids_of :: "(triple, string list) btree \<Rightarrow> triple \<Rightarrow> string list" where
  "ids_of m k = (case bt_get m k of None \<Rightarrow> [] | Some ids \<Rightarrow> ids)"

fun add_decisions ::
  "(string \<Rightarrow> string) \<Rightarrow> materialization \<Rightarrow> (triple, string list) btree \<Rightarrow> memory_store \<Rightarrow> graph_build
   \<Rightarrow> decided list \<Rightarrow> memory_store \<times> graph_build \<times> (pipeline_error + unit)" where
  "add_decisions H m contra st b [] = (st, b, Inr ())"
| "add_decisions H m contra st b ((c, d, e) # xs) =
     (if \<not> accepts m d then add_decisions H m contra st b xs
      else (case decision_relation H b c e of
          None \<Rightarrow> (st, b, Inl PE_NoFreeId)
        | Some r \<Rightarrow>
            (case add_edge b r of
               (b1, Inl er) \<Rightarrow> (st, b1, Inl (PE_Value er))
             | (b1, Inr _) \<Rightarrow>
                 (case put_claim st (relation_claim H (rel_id r) (ev_id e) (ids_of contra (candidate_triple c))) of
                    (st1, Inl er) \<Rightarrow> (st1, b1, Inl (PE_Store er))
                  | (st1, Inr _) \<Rightarrow> add_decisions H m contra st1 b1 xs))))"

definition materialize_decisions ::
  "(string \<Rightarrow> string) \<Rightarrow> materialization \<Rightarrow> memory_store \<Rightarrow> graph_build \<Rightarrow> decided list
   \<Rightarrow> memory_store \<times> graph_build \<times> (pipeline_error + unit)" where
  "materialize_decisions H m st b xs = add_decisions H m (contradictions xs) st b xs"

section \<open>Publication\<close>

definition staged_build ::
  "(string \<Rightarrow> string) \<Rightarrow> string \<Rightarrow> source_snapshot \<Rightarrow> extraction \<Rightarrow> u64 \<Rightarrow> string option \<Rightarrow> graph_build" where
  "staged_build H repo snap x generation expected =
     (let b = graph_build_new H repo [snap_id snap] generation in
      b\<lparr>gb_id := (case ext_compiler x of
            None \<Rightarrow> gb_id b
          | Some cc \<Rightarrow> deterministic_id H ''build'' [gb_id b, ac_id (cc_context cc)]),
        gb_predecessor := expected,
        gb_nodes := bt_extend [] (map (\<lambda>e. (ent_id e, e)) (ext_entities x))\<rparr>)"

definition build_coverage_of :: "extraction \<Rightarrow> usize \<Rightarrow> usize \<Rightarrow> build_coverage" where
  "build_coverage_of x direct_relations edges =
     (let resolved = of_nat (length (filter fact_resolved (ext_facts x))) in
      \<lparr>bc_files = ext_coverage x,
       bc_structural_relations = direct_relations - resolved
         - (case ext_compiler x of None \<Rightarrow> 0 | Some cc \<Rightarrow> compiler_relations cc),
       bc_decision_relations = edges - direct_relations, bc_resolved_relations = resolved,
       bc_compiler = ext_compiler x, bc_catalog = None\<rparr>)"

definition check_models :: "decided list \<Rightarrow> pipeline_error + unit" where
  "check_models xs =
     check_all (\<lambda>(c, d, e). map_sum PE_Model id
       (validate_model_identity (dec_model_requested d) (dec_model_returned d))) xs"

definition build_and_publish ::
  "pipeline_codec \<Rightarrow> (evidence_row list \<Rightarrow> string list) \<Rightarrow> pipeline \<Rightarrow> string \<Rightarrow> source_snapshot \<Rightarrow> extraction
   \<Rightarrow> decided list \<Rightarrow> materialization \<Rightarrow> string option \<Rightarrow> (pipeline, pipeline_error, graph_build) outcome" where
  "build_and_publish K chunks p repo snap x xs m expected =
     (case all_ok [reject_failed xs, check_models xs] of
        Inl e \<Rightarrow> (p, Inl e)
      | Inr _ \<Rightarrow>
          let generation = pl_generation p + 1;
              p1 = p\<lparr>pl_generation := generation\<rparr>;
              b = staged_build (pc_hash K) repo snap x generation expected
          in (case publish_facts (pc_hash K) (pl_store p) b snap x of
             (st1, b1, Inl e) \<Rightarrow> (p1\<lparr>pl_store := st1\<rparr>, Inl e)
           | (st1, b1, Inr _) \<Rightarrow>
               (case materialize_decisions (pc_hash K) m st1 b1 xs of
                  (st2, b2, Inl e) \<Rightarrow> (p1\<lparr>pl_store := st2\<rparr>, Inl e)
                | (st2, b2, Inr _) \<Rightarrow>
                    let b3 = b2\<lparr>gb_coverage := Some (build_coverage_of x (of_nat (length (gb_edges b1)))
                          (of_nat (length (gb_edges b2))))\<rparr>
                    in (case publish chunks st2 b3 expected of
                       (st3, Inl er) \<Rightarrow> (p1\<lparr>pl_store := st3\<rparr>, Inl (PE_Store er))
                     | (st3, Inr _) \<Rightarrow> (p1\<lparr>pl_store := st3\<rparr>, Inr b3)))))"

end
