(* ===== verification/Decide_Facts.thy ===== *)
theory Decide_Facts
  imports Decide
begin

text \<open>
  What one attempt reads of the store, what one decision writes to it, and why a reusable
  answer stays reusable while a run goes on.
\<close>

section \<open>Reading: the attempt\<close>

lemma decision_key_inj:
  "decision_key (cand_id c) (question_id c) = decision_key (cand_id c') (question_id c') \<longleftrightarrow> cand_id c = cand_id c'"
proof
  assume eq: "decision_key (cand_id c) (question_id c) = decision_key (cand_id c') (question_id c')"
  then have "length (decision_key (cand_id c) (question_id c)) = length (decision_key (cand_id c') (question_id c'))"
    by (rule arg_cong)
  then have "length (cand_id c) = length (cand_id c')"
    by (simp add: decision_key_def question_id_def)
  with eq show "cand_id c = cand_id c'"
    by (simp add: decision_key_def)
qed (simp add: question_id_def)

lemma lookup_hit:
  "reuse_lookup st m c rkey model qs qid = Inr (Some h) \<longleftrightarrow>
     (\<exists>ir v. find_inference st rkey = Some ir \<and> is_ok (validate_stored_inference ir rkey model qs qid)
        \<and> \<not> blocked st (cand_id c) qid rkey \<and> materialize_raw (inf_raw ir) m (cand_reason c) = Inr v
        \<and> h = hit_of ir v)"
  by (cases "materialize_raw (inf_raw (the (find_inference st rkey))) m (cand_reason c)")
    (auto simp: reuse_lookup_def split: option.splits sum.splits)

lemma lookup_miss:
  "reuse_lookup st m c rkey model qs qid = Inr None \<Longrightarrow>
     find_inference st rkey = None \<or> blocked st (cand_id c) qid rkey"
  by (cases "materialize_raw (inf_raw (the (find_inference st rkey))) m (cand_reason c)")
    (auto simp: reuse_lookup_def split: option.splits sum.splits if_splits)

lemma attempt_reads:
  assumes "attempt K dr catalog st c = Inr (f, t, a)"
  shows "endpoints dr c = Inr (f, t)" and "ra_qid a = question_id c" and "ra_questions a = questions_for c f t"
    and "reuse_lookup st (dr_mat dr) c (ra_reuse_key a) (dr_model dr) (questions_for c f t) (question_id c)
      = Inr (ra_hit a)"
  using assms
  by (auto simp: attempt_def resolve_reuse_def run_context_def questions_for_def map_sum_def Let_def
      split: sum.splits if_splits)

text \<open>The key under which an attempt looks is the one of the candidate's own question.\<close>

definition keyed_by :: "pipeline_codec \<Rightarrow> decision_run \<Rightarrow> candidate \<Rightarrow> entity \<Rightarrow> entity \<Rightarrow> string \<Rightarrow> bool" where
  "keyed_by K dr c f t key \<longleftrightarrow> endpoints dr c = Inr (f, t)
     \<and> (\<exists>input. reuse_input_for K c f t (questions_for c f t) (run_context K dr) (snap_id (dr_snapshot dr)) = Inr input
          \<and> key = reuse_key (pc_hash K) (pc_reuse K) input)"

lemma attempt_keyed:
  assumes "attempt K dr catalog st c = Inr (f, t, a)"
  shows "keyed_by K dr c f t (ra_reuse_key a)"
  using assms
  by (auto simp: keyed_by_def attempt_def resolve_reuse_def map_sum_def Let_def split: sum.splits if_splits)

text \<open>Another store changes nothing but the hit.\<close>

lemma attempt_transfer:
  assumes "attempt K dr catalog st c = Inr (f, t, a)"
    and "reuse_lookup st' (dr_mat dr) c (ra_reuse_key a) (dr_model dr) (questions_for c f t) (question_id c) = Inr h"
  shows "attempt K dr catalog st' c = Inr (f, t, a\<lparr>ra_hit := h\<rparr>)"
  using assms
  by (auto simp: attempt_def resolve_reuse_def run_context_def questions_for_def map_sum_def Let_def
      split: sum.splits if_splits)

section \<open>Writing: the decision\<close>

lemma put_decision_fields:
  assumes "put_decision st d = (st', r)"
  shows "r = Inr ()" and "ms_inferences st' = ms_inferences st" and "ms_files st' = ms_files st"
    and "ms_evidence st' = ms_evidence st"
  using assms by (auto simp: put_decision_def Let_def)

lemma put_decision_blocks:
  assumes "put_decision st d = (st', r)" and "blocked st' i q k"
  shows "blocked st i q k \<or> (is_failed (dec_outcome d) \<and> dec_reuse_key d = k
    \<and> decision_key (dec_candidate_id d) (dec_question_id d) = decision_key i q)"
  using assms by (auto simp: put_decision_def blocked_def find_decision_def Let_def split: if_splits option.splits)

lemma put_decision_frees:
  assumes "put_decision st d = (st', r)" and "\<not> is_failed (dec_outcome d)"
  shows "\<not> blocked st' (dec_candidate_id d) (dec_question_id d) k"
  using assms by (auto simp: put_decision_def blocked_def find_decision_def Let_def split: if_splits option.splits)

lemma put_evidence_fields:
  assumes "put_evidence st e = (st', r)"
  shows "ms_inferences st' = ms_inferences st" and "ms_files st' = ms_files st"
    and "ms_decisions st' = ms_decisions st"
    and "is_ok r \<longleftrightarrow> bt_contains (ms_files st) (ev_snapshot e, ev_source_file_version e)"
  using assms by (auto simp: put_evidence_def split: if_splits)

lemma blocked_cong: "ms_decisions st = ms_decisions st' \<Longrightarrow> blocked st = blocked st'"
  by (simp add: blocked_def find_decision_def fun_eq_iff)

lemma find_inference_cong: "ms_inferences st = ms_inferences st' \<Longrightarrow> find_inference st = find_inference st'"
  by (simp add: find_inference_def fun_eq_iff)

text \<open>The store after a decision and its evidence were written, accepted or not.\<close>

lemma persist_decided_writes:
  assumes "persist_decided st (c, d, e) = (st', r)"
  shows "ms_inferences st' = ms_inferences st" and "ms_files st' = ms_files st"
    and "blocked st' i q k \<Longrightarrow> blocked st i q k \<or> (is_failed (dec_outcome d) \<and> dec_reuse_key d = k
      \<and> decision_key (dec_candidate_id d) (dec_question_id d) = decision_key i q)"
    and "\<not> is_failed (dec_outcome d) \<Longrightarrow> \<not> blocked st' (dec_candidate_id d) (dec_question_id d) k"
    and "is_ok r \<longleftrightarrow> bt_contains (ms_files st) (ev_snapshot e, ev_source_file_version e)"
    and "r = Inr x \<Longrightarrow> x = (c, d, e)"
proof -
  obtain st1 where p1: "put_decision st d = (st1, Inr ())"
    using put_decision_fields(1) by (metis surj_pair)
  obtain r2 where p2: "put_evidence st1 e = (st', r2)" and r: "is_ok r \<longleftrightarrow> is_ok r2"
      "r = Inr x \<Longrightarrow> x = (c, d, e)"
    using assms p1 by (auto simp: persist_decided_def split: prod.splits sum.splits)
  note f1 = put_decision_fields [OF p1] and f2 = put_evidence_fields [OF p2]
  show "ms_inferences st' = ms_inferences st" "ms_files st' = ms_files st"
    using f1 f2 by simp_all
  show "is_ok r \<longleftrightarrow> bt_contains (ms_files st) (ev_snapshot e, ev_source_file_version e)"
    using r(1) f1 f2 by simp
  show "r = Inr x \<Longrightarrow> x = (c, d, e)" by (rule r(2))
  have "blocked st' = blocked st1" using f2(3) by (rule blocked_cong)
  then show "blocked st' i q k \<Longrightarrow> blocked st i q k \<or> (is_failed (dec_outcome d) \<and> dec_reuse_key d = k
      \<and> decision_key (dec_candidate_id d) (dec_question_id d) = decision_key i q)"
    and "\<not> is_failed (dec_outcome d) \<Longrightarrow> \<not> blocked st' (dec_candidate_id d) (dec_question_id d) k"
    using put_decision_blocks [OF p1] put_decision_frees [OF p1] by simp_all
qed

lemma counted [simp]: "map_prod (\<lambda>s. (s, n)) id p = ((s', n'), r) \<longleftrightarrow> p = (s', r) \<and> n' = n"
  by (cases p) auto

text \<open>The fresh answer before it is persisted.\<close>

lemma take_answer_cases:
  assumes "take_answer K dr c f t a st resp = (st', r)"
  obtains (refused) "isl r" and "ms_decisions st' = ms_decisions st" and "ms_files st' = ms_files st"
      and "\<And>k ir. find_inference st k = Some ir \<Longrightarrow> find_inference st' k = Some ir"
  | (taken) st1 ir v q where "persist_decided st1 (answered K dr c f t a q (hit_of ir v)) = (st', r)"
      and "ms_decisions st1 = ms_decisions st" and "ms_files st1 = ms_files st"
      and "\<And>k ir. find_inference st k = Some ir \<Longrightarrow> find_inference st1 k = Some ir"
      and "find_inference st1 (ra_reuse_key a) = Some ir"
      and "is_ok (validate_stored_inference ir (ra_reuse_key a) (dr_model dr) (ra_questions a) (ra_qid a))"
      and "materialize_raw (inf_raw ir) (dr_mat dr) (cand_reason c) = Inr v"
      and "length (srs_answers resp) = 1" and "q = fst (hd (srs_answers resp))"
      and "validate_response_for_model resp (ra_questions a) (valid_options_for (ra_qid a)) (dr_model dr) = Inr ()"
proof (cases "length (ra_questions a) \<noteq> 1 \<or> length (srs_answers resp) \<noteq> 1
    \<or> isl (validate_response_for_model resp (ra_questions a) (valid_options_for (ra_qid a)) (dr_model dr))")
  case True
  with assms refused show thesis
    by (auto simp: take_answer_def split: if_splits sum.splits)
next
  case False
  obtain q ans where hd: "hd (srs_answers resp) = (q, ans)" by (cases "hd (srs_answers resp)")
  define sub where "sub = \<lparr>inf_reuse_key = ra_reuse_key a, inf_raw = raw_from_answer ans,
     inf_model_requested = dr_model dr, inf_model_returned = srs_model resp\<rparr>"
  define st1 where "st1 = fst (put_inference st sub)"
  have put: "put_inference st sub = (st1, Inr ())" by (simp add: st1_def put_inference_def)
  have eqs: "ms_decisions st1 = ms_decisions st" "ms_files st1 = ms_files st"
    by (simp_all add: st1_def put_inference_def)
  have keep: "find_inference st k = Some ir \<Longrightarrow> find_inference st1 k = Some ir" for k ir
    by (auto simp: st1_def put_inference_def find_inference_def)
  have "find_inference st1 (ra_reuse_key a) \<noteq> None"
    by (simp add: st1_def put_inference_def find_inference_def sub_def)
  then obtain ir where ir: "find_inference st1 (ra_reuse_key a) = Some ir" by blast
  have body: "(st', r) =
      (case validate_stored_inference ir (ra_reuse_key a) (dr_model dr) (ra_questions a) (ra_qid a) of
         Inl e \<Rightarrow> (st1, Inl e)
       | Inr _ \<Rightarrow> (case materialize_raw (inf_raw ir) (dr_mat dr) (cand_reason c) of
            Inl e \<Rightarrow> (st1, Inl e)
          | Inr v \<Rightarrow> persist_decided st1 (answered K dr c f t a q (hit_of ir v))))"
    using False assms hd put ir
    by (auto simp: take_answer_def Let_def sub_def [symmetric] split: sum.splits)
  show thesis
  proof (cases "is_ok (validate_stored_inference ir (ra_reuse_key a) (dr_model dr) (ra_questions a) (ra_qid a))
      \<and> is_ok (materialize_raw (inf_raw ir) (dr_mat dr) (cand_reason c))")
    case True
    then obtain v where "materialize_raw (inf_raw ir) (dr_mat dr) (cand_reason c) = Inr v"
      by (auto simp: is_ok_iff simp del: sum.disc)
    moreover have "validate_response_for_model resp (ra_questions a) (valid_options_for (ra_qid a)) (dr_model dr) = Inr ()"
      using False by (cases rule: unit_result_cases) auto
    ultimately show thesis
      using True body False eqs keep ir hd by (intro taken [of st1 q ir v]) (auto split: sum.splits)
  next
    case False
    with body eqs keep show thesis
      by (intro refused) (auto split: sum.splits)
  qed
qed

text \<open>One accepted answer to one question answers that question.\<close>

lemma single_answer_qid:
  assumes "validate_response_for_model resp [(i, x)] options model = Inr ()" and "length (srs_answers resp) = 1"
  shows "fst (hd (srs_answers resp)) = i"
proof -
  from assms(2) obtain e where e: "srs_answers resp = [e]" by (auto simp: length_Suc_conv)
  with assms(1) show ?thesis
    by (auto simp: validate_response_for_model_def split: sum.splits if_splits option.splits)
qed

text \<open>A stored answer that validates against the question of a candidate is a choice among its
  three options, from the approved model that was requested.\<close>

definition stored_choice :: "inference_record \<Rightarrow> string \<Rightarrow> string \<Rightarrow> (string, f64) btree \<Rightarrow> f64 \<Rightarrow> bool" where
  "stored_choice ir model ch ps conf \<longleftrightarrow>
     inf_raw ir = RA_Choice ch ps conf \<and> inf_model_requested ir = model \<and> inf_model_returned ir = model
     \<and> model \<in> {JEV_MODEL_PINNED, FIXTURE_MODEL} \<and> ch \<in> {''accept'', ''reject'', ''none''}
     \<and> in_unit conf \<and> (\<forall>p \<in> set (bt_values ps). in_unit p)"

lemma stored_is_choice:
  assumes "is_ok (validate_stored_inference ir key model (questions_for c f t) (question_id c))"
  shows "\<exists>ch ps conf. stored_choice ir model ch ps conf"
proof -
  let ?options = "valid_options_for (question_id c)"
  from assms have req: "inf_model_requested ir = model"
    and ok: "validate_response_for_model (stored_response (question_id c) ir) (questions_for c f t) ?options model = Inr ()"
    by (auto simp: validate_stored_inference_def map_sum_def split: if_splits sum.splits)
  from ok have "response_ok (stored_response (question_id c) ir) (questions_for c f t) ?options model"
    by (subst (asm) validate_response_for_model_ok) (simp_all add: questions_for_def stored_response_def)
  then have m: "inf_model_returned ir = model" "model \<in> {JEV_MODEL_PINNED, FIXTURE_MODEL}"
    and a: "answer_ok (Some (bs_of [''accept'', ''reject'', ''none''])) (relation_question c f t) (answer_from_raw (inf_raw ir))"
    by (auto simp: response_ok_def questions_for_def stored_response_def valid_options_for_def
        dest!: spec [of _ "question_id c"])
  then show ?thesis
    using req by (cases "inf_raw ir")
      (auto simp: relation_question_def Let_def choice_ok_def stored_choice_def)
qed

section \<open>What a run keeps\<close>

text \<open>A hit of one store is the same hit in the other, and the same files are registered.\<close>

definition hits_kept ::
  "pipeline_codec \<Rightarrow> decision_run \<Rightarrow> string \<Rightarrow> memory_store \<Rightarrow> memory_store \<Rightarrow> bool" where
  "hits_kept K dr catalog st st' \<longleftrightarrow> ms_files st' = ms_files st
     \<and> (\<forall>c f t a. attempt K dr catalog st c = Inr (f, t, a) \<and> ra_hit a \<noteq> None
          \<longrightarrow> attempt K dr catalog st' c = Inr (f, t, a))"

lemma hits_kept_refl [simp]: "hits_kept K dr catalog st st"
  by (simp add: hits_kept_def)

lemma hits_kept_trans: "hits_kept K dr catalog s t \<Longrightarrow> hits_kept K dr catalog t u \<Longrightarrow> hits_kept K dr catalog s u"
  by (simp add: hits_kept_def)

lemma hits_keptD:
  "hits_kept K dr catalog st st' \<Longrightarrow> attempt K dr catalog st c = Inr (f, t, a) \<Longrightarrow> ra_hit a = Some h
     \<Longrightarrow> attempt K dr catalog st' c = Inr (f, t, a)"
  by (simp add: hits_kept_def)

lemma hits_keptI:
  assumes "ms_files st' = ms_files st"
    and inf: "\<And>k ir. find_inference st k = Some ir \<Longrightarrow> find_inference st' k = Some ir"
    and free: "\<And>c k. blocked st' (cand_id c) (question_id c) k \<Longrightarrow> find_inference st k \<noteq> None
       \<Longrightarrow> blocked st (cand_id c) (question_id c) k"
  shows "hits_kept K dr catalog st st'"
  unfolding hits_kept_def
proof (intro conjI allI impI)
  fix c f t a
  assume "attempt K dr catalog st c = Inr (f, t, a) \<and> ra_hit a \<noteq> None"
  then obtain h where at: "attempt K dr catalog st c = Inr (f, t, a)" and h: "ra_hit a = Some h" by blast
  have "reuse_lookup st (dr_mat dr) c (ra_reuse_key a) (dr_model dr) (questions_for c f t) (question_id c)
      = Inr (Some h)"
    using attempt_reads(4) [OF at] h by simp
  then have "reuse_lookup st' (dr_mat dr) c (ra_reuse_key a) (dr_model dr) (questions_for c f t) (question_id c)
      = Inr (Some h)"
    unfolding lookup_hit using inf free by blast
  from attempt_transfer [OF at this] h show "attempt K dr catalog st' c = Inr (f, t, a)" by simp
qed (rule assms(1))

text \<open>A decision that did not fail, or that failed on a miss, takes no hit away.\<close>

lemma persist_keeps_hits:
  assumes p: "persist_decided st x = (st', r)"
    and x: "x = (c, d, e)" "dec_candidate_id d = cand_id c" "dec_question_id d = question_id c"
    and miss: "is_failed (dec_outcome d) \<Longrightarrow>
       find_inference st (dec_reuse_key d) = None \<or> blocked st (cand_id c) (question_id c) (dec_reuse_key d)"
  shows "hits_kept K dr catalog st st'"
proof (rule hits_keptI)
  note w = persist_decided_writes [OF p [unfolded x(1)]]
  show "ms_files st' = ms_files st" by (rule w(2))
  show "find_inference st k = Some ir \<Longrightarrow> find_inference st' k = Some ir" for k ir
    using find_inference_cong [OF w(1)] by simp
  fix c' k
  assume b: "blocked st' (cand_id c') (question_id c') k" and i: "find_inference st k \<noteq> None"
  show "blocked st (cand_id c') (question_id c') k"
  proof (rule ccontr)
    assume "\<not> blocked st (cand_id c') (question_id c') k"
    with w(3) [OF b] have "is_failed (dec_outcome d)" "dec_reuse_key d = k" "cand_id c = cand_id c'"
      by (auto simp: x decision_key_inj)
    with miss i \<open>\<not> blocked st (cand_id c') (question_id c') k\<close> show False
      by (simp add: question_id_def)
  qed
qed

lemma answered_parts:
  assumes "answered K dr c f t a q h = (c', d, e)"
  shows "c' = c" and "dec_candidate_id d = cand_id c" and "dec_question_id d = q"
    and "dec_reuse_key d = ra_reuse_key a" and "dec_outcome d = rh_outcome h"
    and "ev_snapshot e = snap_id (dr_snapshot dr)" and "ev_source_file_version e = ent_file f"
    and "d = answered_decision K dr c a q h"
  using assms by (auto simp: answered_def answered_decision_def assemble_evidence_def Let_def)

lemma failed_parts:
  assumes "failed K dr c f a = (c', d, e)"
  shows "c' = c" and "dec_candidate_id d = cand_id c" and "dec_question_id d = ra_qid a"
    and "dec_reuse_key d = ra_reuse_key a" and "is_failed (dec_outcome d)"
    and "ev_snapshot e = snap_id (dr_snapshot dr)" and "ev_source_file_version e = ent_file f"
  using assms by (auto simp: failed_def failed_decision_def assemble_evidence_def Let_def)

text \<open>The outcome and the class of a choice.\<close>

definition choice_outcome :: "materialization \<Rightarrow> string \<Rightarrow> f64 \<Rightarrow> decision_outcome" where
  "choice_outcome m ch conf =
     (if conf < mt_abstain_confidence m then DO_Abstained else if ch = ''accept'' then DO_Accepted
      else if ch = ''reject'' then DO_Rejected else DO_Negative)"

definition outcome_class :: "decision_outcome \<Rightarrow> string \<Rightarrow> evidence_class" where
  "outcome_class out reason =
     (if out \<noteq> DO_Accepted then EC_Ambiguous else if reason = ''structural'' then EC_Extracted else EC_Inferred)"

lemma choice_materialized:
  assumes "materialize_raw (RA_Choice ch ps conf) m reason = Inr v"
  shows "rh_outcome (hit_of ir v) = choice_outcome m ch conf"
    and "rh_class (hit_of ir v) = outcome_class (choice_outcome m ch conf) reason"
    and "rh_confidence (hit_of ir v) = Some conf"
  using assms
  by (auto simp: materialize_raw_def hit_of_def upgraded_def choice_verdict_def choice_outcome_def
      outcome_class_def map_sum_def split: sum.splits if_splits)

text \<open>No verdict on an answer is a failure.\<close>

lemma verdict_not_failed:
  assumes "materialize_raw raw m reason = Inr v"
  shows "\<not> is_failed (rh_outcome (hit_of ir v))"
  using assms
  by (cases "(m, raw)" rule: raw_verdict.cases)
    (auto simp: materialize_raw_def hit_of_def upgraded_def noul_verdict_def choice_verdict_def
      score_verdict_def map_sum_def split: sum.splits if_splits)

lemma hit_not_failed:
  assumes "attempt K dr catalog st c = Inr (f, t, a)" and "ra_hit a = Some h"
  shows "\<not> is_failed (rh_outcome h)"
  using attempt_reads(4) [OF assms(1)] assms(2) verdict_not_failed by (auto simp: lookup_hit)

section \<open>Settled candidates\<close>

text \<open>A candidate whose answer the store holds: another run reads \<open>x\<close> from it.\<close>

definition settled ::
  "pipeline_codec \<Rightarrow> decision_run \<Rightarrow> string \<Rightarrow> memory_store \<Rightarrow> candidate \<Rightarrow> decided \<Rightarrow> bool" where
  "settled K dr catalog st c x \<longleftrightarrow>
     (\<exists>f t a h. attempt K dr catalog st c = Inr (f, t, a) \<and> ra_hit a = Some h
        \<and> x = answered K dr c f t a (ra_qid a) h
        \<and> bt_contains (ms_files st) (snap_id (dr_snapshot dr), ent_file f))"

lemma settled_kept: "settled K dr catalog st c x \<Longrightarrow> hits_kept K dr catalog st st' \<Longrightarrow> settled K dr catalog st' c x"
  unfolding settled_def using hits_keptD by (metis hits_kept_def)

lemma all_settled_kept:
  "list_all2 (settled K dr catalog st) cs xs \<Longrightarrow> hits_kept K dr catalog st st'
     \<Longrightarrow> list_all2 (settled K dr catalog st') cs xs"
  by (metis (mono_tags, lifting) list_all2_mono settled_kept)

end
