(* ===== verification/Decide_Properties.thy ===== *)
theory Decide_Properties
  imports Decide_Facts
begin

text \<open>
  The guarantees of a decision run: the preflight bounds what it spends, a clean run is
  free to repeat, and every decision restates an answer the store holds.
\<close>

section \<open>One step\<close>

text \<open>The cases of a candidate: an error, a reused answer, a failed call, a fresh answer.\<close>

lemma decide_one_attempt_error:
  assumes "attempt K dr catalog st c = Inl e"
  shows "decide_one K ask dr catalog (st, n) c = ((st, n), Inl e)"
  using assms by (simp add: decide_one_def)

lemma decide_one_keeps:
  assumes "decide_one K ask dr catalog (st, n) c = ((st', n'), r)"
  shows "hits_kept K dr catalog st st'"
    and "n \<le> n'" and "n' \<le> Suc n"
    and "attempt K dr catalog st c = Inr (f, t, a) \<Longrightarrow> ra_hit a \<noteq> None \<Longrightarrow> n' = n"
proof -
  have "hits_kept K dr catalog st st' \<and> n \<le> n' \<and> n' \<le> Suc n
     \<and> (\<forall>f t a. attempt K dr catalog st c = Inr (f, t, a) \<and> ra_hit a \<noteq> None \<longrightarrow> n' = n)"
  proof (cases "attempt K dr catalog st c")
    case (Inl e)
    with assms show ?thesis by (simp add: decide_one_def)
  next
    case (Inr fta)
    obtain f t a where fta: "fta = (f, t, a)" by (cases fta)
    note at = Inr [unfolded fta]
    note reads = attempt_reads [OF at]
    show ?thesis
    proof (cases "ra_hit a")
      case (Some h)
      obtain c' d e where x: "answered K dr c f t a (ra_qid a) h = (c', d, e)"
        by (cases "answered K dr c f t a (ra_qid a) h")
      from assms at Some have p: "persist_decided st (answered K dr c f t a (ra_qid a) h) = (st', r)" and n: "n' = n"
        by (auto simp: decide_one_def)
      note parts = answered_parts [OF x]
      have "hits_kept K dr catalog st st'"
        by (rule persist_keeps_hits [OF p x [unfolded parts(1)]])
          (use parts reads hit_not_failed [OF at Some] in simp_all)
      with n at Some show ?thesis by simp
    next
      case None
      show ?thesis
      proof (cases "ask n (request_state c f t) (ra_questions a)")
        case (Inl msg)
        obtain c' d e where x: "failed K dr c f a = (c', d, e)" by (cases "failed K dr c f a")
        from assms at None Inl have p: "persist_decided st (failed K dr c f a) = (st', r)" and n: "n' = Suc n"
          by (auto simp: decide_one_def)
        note parts = failed_parts [OF x]
        have "find_inference st (ra_reuse_key a) = None \<or> blocked st (cand_id c) (question_id c) (ra_reuse_key a)"
          using lookup_miss reads(4) None by simp
        then have "hits_kept K dr catalog st st'"
          by (intro persist_keeps_hits [OF p x [unfolded parts(1)]]) (use parts reads in simp_all)
        with n at None show ?thesis by simp
      next
        case (Inr resp)
        from assms at None Inr have p: "take_answer K dr c f t a st resp = (st', r)" and n: "n' = Suc n"
          by (auto simp: decide_one_def)
        from p have "hits_kept K dr catalog st st'"
        proof (cases rule: take_answer_cases)
          case refused
          then show ?thesis by (intro hits_keptI) (auto dest: blocked_cong)
        next
          case (taken st1 ir v q)
          obtain c' d e where x: "answered K dr c f t a q (hit_of ir v) = (c', d, e)"
            by (cases "answered K dr c f t a q (hit_of ir v)")
          note parts = answered_parts [OF x]
          have "q = question_id c"
            using single_answer_qid taken(8,9,10) reads by (simp add: questions_for_def)
          then have "hits_kept K dr catalog st1 st'"
            by (intro persist_keeps_hits [OF taken(1) x [unfolded parts(1)]])
              (use parts verdict_not_failed [OF taken(7)] in simp_all)
          moreover have "hits_kept K dr catalog st st1"
            using taken(2-4) by (intro hits_keptI) (auto dest: blocked_cong)
          ultimately show ?thesis by (rule hits_kept_trans [rotated])
        qed
        with n at None show ?thesis by simp
      qed
    qed
  qed
  then show "hits_kept K dr catalog st st'" "n \<le> n'" "n' \<le> Suc n"
    "attempt K dr catalog st c = Inr (f, t, a) \<Longrightarrow> ra_hit a \<noteq> None \<Longrightarrow> n' = n" by blast+
qed

text \<open>A candidate ends as a recorded failure, or its answer is stored.\<close>

lemma decide_one_settles:
  assumes "decide_one K ask dr catalog (st, n) c = ((st', n'), Inr x)"
  shows "(\<exists>f a. x = failed K dr c f a) \<or> settled K dr catalog st' c x"
proof (cases "attempt K dr catalog st c")
  case (Inl e)
  with assms show ?thesis by (simp add: decide_one_def)
next
  case (Inr fta)
  obtain f t a where fta: "fta = (f, t, a)" by (cases fta)
  note at = Inr [unfolded fta]
  note reads = attempt_reads [OF at]
  have kept: "hits_kept K dr catalog st st'" by (rule decide_one_keeps(1) [OF assms(1)])
  have done_: "settled K dr catalog st' c x"
    if p: "persist_decided s (answered K dr c f t a (question_id c) h) = (st', Inr x)"
      and now: "attempt K dr catalog st' c = Inr (f, t, a\<lparr>ra_hit := Some h\<rparr>)" for s h
  proof -
    obtain c' d e where y: "answered K dr c f t a (question_id c) h = (c', d, e)"
      by (cases "answered K dr c f t a (question_id c) h")
    note w = persist_decided_writes [OF p [unfolded y]] and parts = answered_parts [OF y]
    have "bt_contains (ms_files st') (snap_id (dr_snapshot dr), ent_file f)"
      using w(2,5) parts by simp
    moreover have "x = answered K dr c f t (a\<lparr>ra_hit := Some h\<rparr>) (question_id c) h"
      using w(6) y by (simp add: answered_def answered_decision_def)
    ultimately show ?thesis
      using now reads by (auto simp: settled_def)
  qed
  show ?thesis
  proof (cases "ra_hit a")
    case (Some h)
    then have "a\<lparr>ra_hit := Some h\<rparr> = a" by simp
    with assms at Some reads(2) done_ [of st h] hits_keptD [OF kept at Some] show ?thesis
      by (auto simp: decide_one_def)
  next
    case None
    show ?thesis
    proof (cases "ask n (request_state c f t) (ra_questions a)")
      case (Inl msg)
      obtain c' d e where y: "failed K dr c f a = (c', d, e)" by (cases "failed K dr c f a")
      from assms at None Inl have p: "persist_decided st (failed K dr c f a) = (st', Inr x)"
        by (auto simp: decide_one_def)
      have "x = (c', d, e)" using persist_decided_writes(6) [OF p [unfolded y]] by simp
      with y show ?thesis by metis
    next
      case (Inr resp)
      from assms at None Inr have p: "take_answer K dr c f t a st resp = (st', Inr x)"
        by (auto simp: decide_one_def)
      from p show ?thesis
      proof (cases rule: take_answer_cases)
        case (taken st1 ir v q)
        obtain c' d e where y: "answered K dr c f t a q (hit_of ir v) = (c', d, e)"
          by (cases "answered K dr c f t a q (hit_of ir v)")
        note parts = answered_parts [OF y] and w = persist_decided_writes [OF taken(1) [unfolded y]]
        have q: "q = question_id c"
          using single_answer_qid taken(8,9,10) reads by (simp add: questions_for_def)
        have "\<not> blocked st' (cand_id c) (question_id c) (ra_reuse_key a)"
          using w(4) parts q verdict_not_failed [OF taken(7)] by simp
        then have "reuse_lookup st' (dr_mat dr) c (ra_reuse_key a) (dr_model dr) (questions_for c f t) (question_id c)
            = Inr (Some (hit_of ir v))"
          unfolding lookup_hit using taken(5-7) reads find_inference_cong [OF w(1)]
          by (intro exI [of _ ir] exI [of _ v]) simp
        from done_ [OF taken(1) [unfolded q] attempt_transfer [OF at this]] show ?thesis ..
      qed simp
    qed
  qed
qed

section \<open>Runs\<close>

lemma decide_all_keeps:
  "decide_all K ask dr catalog (st, n) cs out = ((st', n'), r) \<Longrightarrow> hits_kept K dr catalog st st' \<and> n \<le> n'"
proof (induction cs arbitrary: st n out)
  case (Cons c cs)
  obtain st1 n1 r1 where one: "decide_one K ask dr catalog (st, n) c = ((st1, n1), r1)"
    by (metis surj_pair)
  note k = decide_one_keeps(1,2) [OF one]
  show ?case
  proof (cases r1)
    case (Inl e)
    with Cons.prems one k show ?thesis by simp
  next
    case (Inr x)
    with Cons.prems one Cons.IH [of st1 n1 "out @ [x]"] k show ?thesis
      by (auto intro: hits_kept_trans)
  qed
qed simp

lemma count_uncached_mono: "count_uncached K dr catalog st cs m = Inr N \<Longrightarrow> m \<le> N"
proof (induction cs arbitrary: m)
  case (Cons c cs)
  from Cons.prems obtain fta where "attempt K dr catalog st c = Inr fta" by (cases "attempt K dr catalog st c") auto
  with Cons show ?case by (cases fta) (auto split: if_splits dest: Cons.IH)
qed simp

lemma decide_all_spends:
  assumes "hits_kept K dr catalog st0 st"
    and "count_uncached K dr catalog st0 cs m = Inr N"
    and "decide_all K ask dr catalog (st, n) cs out = ((st', n'), r)"
  shows "m + n' \<le> N + n"
  using assms
proof (induction cs arbitrary: st n out m)
  case (Cons c cs)
  obtain st1 n1 r1 where one: "decide_one K ask dr catalog (st, n) c = ((st1, n1), r1)"
    by (metis surj_pair)
  from Cons.prems(2) obtain f t a where at: "attempt K dr catalog st0 c = Inr (f, t, a)"
    by (cases "attempt K dr catalog st0 c") auto
  define m1 where "m1 = (if ra_hit a = None then Suc m else m)"
  have cnt: "count_uncached K dr catalog st0 cs m1 = Inr N"
    using Cons.prems(2) at by (simp add: m1_def)
  have step: "m + n1 \<le> m1 + n"
    using decide_one_keeps(3) [OF one] decide_one_keeps(4) [OF one] hits_keptD [OF Cons.prems(1) at]
    by (auto simp: m1_def)
  have kept: "hits_kept K dr catalog st0 st1"
    using Cons.prems(1) decide_one_keeps(1) [OF one] by (rule hits_kept_trans)
  show ?case
  proof (cases r1)
    case (Inl e)
    with Cons.prems(3) one count_uncached_mono [OF cnt] step show ?thesis by simp
  next
    case (Inr x)
    with Cons.prems(3) one have "decide_all K ask dr catalog (st1, n1) cs (out @ [x]) = ((st', n'), r)" by simp
    from Cons.IH [OF kept cnt this] step show ?thesis by simp
  qed
qed simp

lemma decide_all_settles:
  assumes "decide_all K ask dr catalog (st, n) cs out = ((st', n'), Inr xs)"
  shows "\<exists>ys. xs = out @ ys \<and> list_all2 (\<lambda>c x. (\<exists>f a. x = failed K dr c f a) \<or> settled K dr catalog st' c x) cs ys"
  using assms
proof (induction cs arbitrary: st n out)
  case (Cons c cs)
  obtain st1 n1 r1 where one: "decide_one K ask dr catalog (st, n) c = ((st1, n1), r1)"
    by (metis surj_pair)
  with Cons.prems obtain x where x: "r1 = Inr x"
    and rest: "decide_all K ask dr catalog (st1, n1) cs (out @ [x]) = ((st', n'), Inr xs)"
    by (cases r1) auto
  from Cons.IH [OF rest] obtain ys where ys: "xs = (out @ [x]) @ ys"
    "list_all2 (\<lambda>c x. (\<exists>f a. x = failed K dr c f a) \<or> settled K dr catalog st' c x) cs ys" by blast
  have "hits_kept K dr catalog st1 st'" using decide_all_keeps [OF rest] by blast
  then have "(\<exists>f a. x = failed K dr c f a) \<or> settled K dr catalog st' c x"
    using decide_one_settles [OF one [unfolded x]] settled_kept by blast
  with ys show ?case by (intro exI [of _ "x # ys"]) simp
qed simp

section \<open>Repeating a settled run\<close>

lemma count_settled:
  "list_all2 (settled K dr catalog st) cs xs \<Longrightarrow> count_uncached K dr catalog st cs m = Inr m"
  by (induction cs xs rule: list_all2_induct) (auto simp: settled_def)

lemma persist_settled:
  assumes "attempt K dr catalog st c = Inr (f, t, a)" and "ra_hit a = Some h"
    and "bt_contains (ms_files st) (snap_id (dr_snapshot dr), ent_file f)"
  shows "\<exists>st'. persist_decided st (answered K dr c f t a (ra_qid a) h) = (st', Inr (answered K dr c f t a (ra_qid a) h))"
proof -
  obtain c' d e where x: "answered K dr c f t a (ra_qid a) h = (c', d, e)"
    by (cases "answered K dr c f t a (ra_qid a) h")
  obtain st' r where p: "persist_decided st (c', d, e) = (st', r)" by (metis surj_pair)
  note w = persist_decided_writes [OF p] and parts = answered_parts [OF x]
  from w(5) assms(3) parts have "is_ok r" by simp
  with w(6) x p show ?thesis by (auto simp: is_ok_iff simp del: sum.disc)
qed

lemma decide_settled:
  assumes "list_all2 (settled K dr catalog st) cs xs"
  shows "\<exists>st'. decide_all K ask dr catalog (st, n) cs out = ((st', n), Inr (out @ xs))"
  using assms
proof (induction cs arbitrary: st xs out)
  case (Cons c cs)
  from Cons.prems obtain x ys where xs: "xs = x # ys" "settled K dr catalog st c x"
    "list_all2 (settled K dr catalog st) cs ys" by (cases xs) auto
  from xs(2) obtain f t a h where at: "attempt K dr catalog st c = Inr (f, t, a)" and h: "ra_hit a = Some h"
    and x: "x = answered K dr c f t a (ra_qid a) h"
    and reg: "bt_contains (ms_files st) (snap_id (dr_snapshot dr), ent_file f)"
    by (auto simp: settled_def)
  from persist_settled [OF at h reg] x obtain st1 where "persist_decided st x = (st1, Inr x)" by blast
  with at h x have one: "decide_one K ask dr catalog (st, n) c = ((st1, n), Inr x)"
    by (simp add: decide_one_def)
  from Cons.IH [OF all_settled_kept [OF xs(3) decide_one_keeps(1) [OF one]], of "out @ [x]"] one xs(1)
  show ?case by simp
qed simp

lemma cached_step_kept:
  assumes at: "attempt K dr catalog st c = Inr (f, t, a)" and h: "ra_hit a = Some h"
    and reg: "bt_contains (ms_files st) (snap_id (dr_snapshot dr), ent_file f)"
    and x: "answered K dr c f t a (ra_qid a) h = (c', d, e)"
  shows "\<exists>st1 st2. put_evidence st e = (st1, Inr ()) \<and> put_decision st1 d = (st2, Inr ())
    \<and> hits_kept K dr catalog st st2"
proof -
  note parts = answered_parts [OF x] and reads = attempt_reads [OF at]
  obtain st1 r1 where e: "put_evidence st e = (st1, r1)" by (metis surj_pair)
  obtain st2 where d: "put_decision st1 d = (st2, Inr ())" using put_decision_fields(1) by (metis surj_pair)
  note fe = put_evidence_fields [OF e] and fd = put_decision_fields [OF d]
  have "r1 = Inr ()" using fe(4) reg parts by (cases r1) auto
  moreover have "hits_kept K dr catalog st st2"
  proof (rule hits_keptI)
    show "ms_files st2 = ms_files st" using fe fd by simp
    show "find_inference st k = Some ir \<Longrightarrow> find_inference st2 k = Some ir" for k ir
      using find_inference_cong [of st2 st] fe fd by simp
    show "blocked st2 (cand_id c'') (question_id c'') k \<Longrightarrow> blocked st (cand_id c'') (question_id c'') k" for c'' k
      using put_decision_blocks [OF d] blocked_cong [OF fe(3)] parts(5) hit_not_failed [OF at h] by auto
  qed
  ultimately show ?thesis using e d by blast
qed

lemma cached_settled:
  assumes "list_all2 (settled K dr catalog st) cs xs"
  shows "\<exists>st'. cached_all K dr catalog st cs out = (st', Inr (out @ xs))"
  using assms
proof (induction cs arbitrary: st xs out)
  case (Cons c cs)
  from Cons.prems obtain x ys where xs: "xs = x # ys" "settled K dr catalog st c x"
    "list_all2 (settled K dr catalog st) cs ys" by (cases xs) auto
  from xs(2) obtain f t a h where at: "attempt K dr catalog st c = Inr (f, t, a)" and h: "ra_hit a = Some h"
    and x: "x = answered K dr c f t a (ra_qid a) h"
    and reg: "bt_contains (ms_files st) (snap_id (dr_snapshot dr), ent_file f)"
    by (auto simp: settled_def)
  obtain c' d e where y: "x = (c', d, e)" by (cases x)
  have ans: "answered K dr c f t a (ra_qid a) h = (c', d, e)" using x y by simp
  obtain st1 st2 where
    st: "put_evidence st e = (st1, Inr ())" "put_decision st1 d = (st2, Inr ())" "hits_kept K dr catalog st st2"
    using cached_step_kept [OF at h reg ans] by blast
  have "cached_all K dr catalog st (c # cs) out = cached_all K dr catalog st2 cs (out @ [x])"
    unfolding y using at h ans st(1,2) by simp
  with Cons.IH [OF all_settled_kept [OF xs(3) st(3)], of "out @ [x]"] xs(1) show ?case by simp
qed simp

section \<open>What a decision restates\<close>

definition decision_ok :: "pipeline_codec \<Rightarrow> memory_store \<Rightarrow> decision_run \<Rightarrow> decided \<Rightarrow> bool" where
  "decision_ok K st dr x \<longleftrightarrow>
     (case x of (c, d, e) \<Rightarrow> ev_class e = dec_evidence_class d \<and> ev_snapshot e = snap_id (dr_snapshot dr)
        \<and> (ev_supports e \<longleftrightarrow> dec_outcome d = DO_Accepted) \<and> dec_candidate_id d = cand_id c
        \<and> (is_failed (dec_outcome d) \<and> dec_raw_answer d = None \<and> dec_evidence_class d = EC_Ambiguous
           \<or> (\<exists>f t ir ch ps conf. find_inference st (dec_reuse_key d) = Some ir
                \<and> keyed_by K dr c f t (dec_reuse_key d)
                \<and> is_ok (validate_stored_inference ir (dec_reuse_key d) (dr_model dr) (questions_for c f t) (question_id c))
                \<and> stored_choice ir (dr_model dr) ch ps conf \<and> dec_raw_answer d = Some (inf_raw ir)
                \<and> dec_model_returned d = dr_model dr \<and> dec_confidence d = Some conf
                \<and> dec_outcome d = choice_outcome (dr_mat dr) ch conf
                \<and> dec_evidence_class d = outcome_class (dec_outcome d) (cand_reason c))))"

section \<open>Properties\<close>

text \<open>C3. The preflight bounds the spend: when \<open>uncached_decisions\<close> reports \<open>N\<close> for a store,
  a decision run over the same candidates from that store calls the responder at most \<open>N\<close>
  times, whatever the responder answers and however the run ends, although every decision
  it records changes the store the later candidates are looked up in.\<close>

theorem preflight_bounds_calls:
  assumes "uncached_decisions K dr cs st = Inr N"
    and "decide K ask dr (st, n) cs = ((st', n'), r)"
  shows "n \<le> n' \<and> n' \<le> n + N"
proof (cases "mat_validate K (dr_mat dr)")
  case (Inl e)
  with assms show ?thesis by (simp add: uncached_decisions_def)
next
  case (Inr u)
  let ?cat = "catalog_digest (pc_hash K) cs"
  from Inr assms have "count_uncached K dr ?cat st cs 0 = Inr N"
    and all: "decide_all K ask dr ?cat (st, n) cs [] = ((st', n'), r)"
    by (simp_all add: uncached_decisions_def decide_def)
  with decide_all_spends [OF hits_kept_refl this(1) all] decide_all_keeps [OF all] show ?thesis by simp
qed

text \<open>C2. A clean run is never paid twice: after a run that returned its decisions with no
  failure among them, the preflight of the store it left reports zero, a repeated run
  returns the same decisions and the same evidence without one call to any responder,
  and the cache-only run of \<open>--no-decisions\<close> returns them too.\<close>

theorem clean_run_is_free_to_repeat:
  assumes "decide K ask dr (st, n) cs = ((st', n'), Inr xs)"
    and clean: "\<forall>(c, d, e) \<in> set xs. \<not> is_failed (dec_outcome d)"
  shows "uncached_decisions K dr cs st' = Inr 0
    \<and> (\<exists>st''. decide K ask' dr (st', k) cs = ((st'', k), Inr xs))
    \<and> (\<exists>st''. decide_cached K dr st' cs = (st'', Inr xs))"
proof (cases "mat_validate K (dr_mat dr)")
  case (Inl e)
  with assms show ?thesis by (simp add: decide_def)
next
  case (Inr u)
  let ?cat = "catalog_digest (pc_hash K) cs"
  from Inr assms(1) have all: "decide_all K ask dr ?cat (st, n) cs [] = ((st', n'), Inr xs)"
    by (simp add: decide_def)
  from decide_all_settles [OF all] have
    weak: "list_all2 (\<lambda>c x. (\<exists>f a. x = failed K dr c f a) \<or> settled K dr ?cat st' c x) cs xs" by simp
  have "x \<in> set xs \<Longrightarrow> x \<noteq> failed K dr c f a" for c f a x
    using clean failed_parts(5) by (cases "failed K dr c f a") fastforce
  then have "list_all2 (settled K dr ?cat st') cs xs"
    by (intro list.rel_mono_strong [OF weak]) blast
  with Inr show ?thesis
    using count_settled decide_settled [of K dr ?cat st' cs xs ask' k "[]"] cached_settled [of K dr ?cat st' cs xs "[]"]
    by (simp add: uncached_decisions_def decide_def decide_cached_def)
qed

lemma decisions_run_ok:
  assumes "decide K ask dr (st, n) cs = ((st', n'), Inr xs)"
  shows "map fst xs = cs \<and> (\<forall>x \<in> set xs. decision_ok K st' dr x)"
proof (cases "mat_validate K (dr_mat dr)")
  case (Inl e)
  with assms show ?thesis by (simp add: decide_def)
next
  case (Inr u)
  let ?cat = "catalog_digest (pc_hash K) cs"
  let ?P = "\<lambda>c x. (\<exists>f a. x = failed K dr c f a) \<or> settled K dr ?cat st' c x"
  let ?fst = "\<lambda>x. fst x"
  from Inr assms have all: "decide_all K ask dr ?cat (st, n) cs [] = ((st', n'), Inr xs)"
    by (simp add: decide_def)
  from decide_all_settles [OF all] have each: "list_all2 ?P cs xs" by simp
  have first: "fst x = c" if "?P c x" for c x
    using that by (auto simp: settled_def failed_def answered_def Let_def)
  from each have "map fst xs = cs"
    by (induction cs xs rule: list_all2_induct) (use first in auto)
  moreover have "decision_ok K st' dr (c, d, e)" if "?P c (c, d, e)" for c d e
    using that
  proof
    assume "\<exists>f a. (c, d, e) = failed K dr c f a"
    then show ?thesis
      by (auto simp: decision_ok_def failed_def failed_decision_def assemble_evidence_def Let_def)
  next
    assume "settled K dr ?cat st' c (c, d, e)"
    then obtain f t a h where at: "attempt K dr ?cat st' c = Inr (f, t, a)" and h: "ra_hit a = Some h"
      and x: "answered K dr c f t a (ra_qid a) h = (c, d, e)"
      by (auto simp: settled_def)
    note reads = attempt_reads [OF at]
    from reads(4) h obtain ir v where ir: "find_inference st' (ra_reuse_key a) = Some ir"
      and val: "is_ok (validate_stored_inference ir (ra_reuse_key a) (dr_model dr) (questions_for c f t) (question_id c))"
      and mv: "materialize_raw (inf_raw ir) (dr_mat dr) (cand_reason c) = Inr v" and hv: "h = hit_of ir v"
      by (auto simp: lookup_hit)
    from stored_is_choice [OF val] obtain ch ps conf where ch: "stored_choice ir (dr_model dr) ch ps conf" by blast
    then have raw: "inf_raw ir = RA_Choice ch ps conf" by (simp add: stored_choice_def)
    note v = choice_materialized [OF mv [unfolded raw], of ir]
    have "rh_inference h = ir" by (cases v) (simp add: hv hit_of_def)
    moreover have "inf_model_returned ir = dr_model dr" using ch by (simp add: stored_choice_def)
    moreover have "dec_outcome d = choice_outcome (dr_mat dr) ch conf" "dec_confidence d = Some conf"
      "dec_evidence_class d = outcome_class (dec_outcome d) (cand_reason c)" "dec_reuse_key d = ra_reuse_key a"
      "dec_candidate_id d = cand_id c"
      "ev_class e = dec_evidence_class d" "ev_snapshot e = snap_id (dr_snapshot dr)"
      "ev_supports e \<longleftrightarrow> dec_outcome d = DO_Accepted"
      using x v unfolding hv by (auto simp: answered_def answered_decision_def assemble_evidence_def Let_def)
    moreover have "dec_raw_answer d = Some (inf_raw (rh_inference h))"
      "dec_model_returned d = inf_model_returned (rh_inference h)"
      using x by (auto simp: answered_def answered_decision_def Let_def)
    ultimately show ?thesis
      unfolding decision_ok_def prod.case using ir ch val attempt_keyed [OF at] by metis
  qed
  ultimately show ?thesis
    using each by (fastforce simp: list_all2_conv_all_nth in_set_conv_nth)
qed

text \<open>C15. Every decision restates an answer that the store holds: a run that returns gives one
  decision per candidate in order, and each is either a recorded failure without an answer
  and without support, or the verdict of the thresholds on a stored choice among the three
  options, from the approved model that was requested, under the reuse key of the decision.
  Confidence below the floor abstains whatever was chosen, only the choice \<open>accept\<close> above it
  accepts, only an accepted decision has supporting evidence, and only the reason
  \<open>structural\<close> makes it certified evidence.\<close>

theorem decisions_restate_stored_answers:
  assumes "decide K ask dr (st, n) cs = ((st', n'), Inr xs)"
  shows "map fst xs = cs
    \<and> (\<forall>(c, d, e) \<in> set xs. ev_class e = dec_evidence_class d \<and> ev_snapshot e = snap_id (dr_snapshot dr)
        \<and> (ev_supports e \<longleftrightarrow> dec_outcome d = DO_Accepted)
        \<and> (is_failed (dec_outcome d) \<and> dec_raw_answer d = None \<and> dec_evidence_class d = EC_Ambiguous
           \<or> (\<exists>ir ch ps conf. find_inference st' (dec_reuse_key d) = Some ir
                \<and> stored_choice ir (dr_model dr) ch ps conf \<and> dec_raw_answer d = Some (inf_raw ir)
                \<and> dec_model_returned d = dr_model dr \<and> dec_confidence d = Some conf
                \<and> dec_outcome d = choice_outcome (dr_mat dr) ch conf
                \<and> dec_evidence_class d = outcome_class (dec_outcome d) (cand_reason c))))"
  using decisions_run_ok [OF assms] by (fastforce simp: decision_ok_def)

end
