(* ===== verification/Publish_Properties.thy ===== *)
theory Publish_Properties
  imports Publish_Build Decide_Properties Store_Properties
begin

text \<open>
  The guarantees of a publication: which edges a build has, what justifies each of them,
  and when nothing is published at all.
\<close>

section \<open>Adding edges\<close>

text \<open>\<open>b1\<close> is \<open>b\<close> with the relations \<open>rs\<close> added, each under an id that was free.\<close>

definition edges_added :: "graph_build \<Rightarrow> relation list \<Rightarrow> graph_build \<Rightarrow> bool" where
  "edges_added b rs b1 \<longleftrightarrow> wf_build b1 \<and> (\<exists>es. b1 = b\<lparr>gb_edges := es\<rparr>)
     \<and> set (bt_values (gb_edges b1)) = set (bt_values (gb_edges b)) \<union> set rs
     \<and> length (gb_edges b1) = length (gb_edges b) + length rs"

lemma edges_added_refl: "wf_build b \<Longrightarrow> edges_added b [] b"
  by (auto simp: edges_added_def intro: exI [of _ "gb_edges b"])

lemma edges_added_trans: "edges_added b rs b1 \<Longrightarrow> edges_added b1 rs' b2 \<Longrightarrow> edges_added b (rs @ rs') b2"
  by (auto simp: edges_added_def)

lemma edges_added_frame:
  assumes "edges_added b rs b1"
  shows "wf_build b1" "gb_id b1 = gb_id b" "gb_repo b1 = gb_repo b" "gb_nodes b1 = gb_nodes b"
    "gb_generation b1 = gb_generation b" "gb_predecessor b1 = gb_predecessor b"
  using assms by (auto simp: edges_added_def)

lemma bt_insert_fresh:
  assumes "bt_ok m" and "\<not> bt_contains m k"
  shows "length (bt_insert k v m) = Suc (length m)"
    and "set (bt_values (bt_insert k v m)) = insert v (set (bt_values m))"
proof -
  show "length (bt_insert k v m) = Suc (length m)"
    using assms(2) by (induction m) (auto simp: bt_contains_def split: if_splits)
  have "{e \<in> set m. fst e \<noteq> k} = set m" using assms(2) by (auto simp: bt_contains_keys)
  then show "set (bt_values (bt_insert k v m)) = insert v (set (bt_values m))"
    by (simp add: bt_values_def set_bt_insert [OF assms(1)])
qed

lemma add_edge_added:
  assumes "wf_build b" and "add_edge b r = (b1, Inr u)"
  shows "edges_added b [r] b1"
proof -
  from assms(2) have b1: "b1 = b\<lparr>gb_edges := bt_insert (rel_id r) r (gb_edges b)\<rparr>"
    and new: "\<not> bt_contains (gb_edges b) (rel_id r)"
    by (simp_all add: add_edge_def split: if_splits)
  have "bt_ok (gb_edges b)" using assms(1) by (simp add: wf_build_def)
  note new = bt_insert_fresh [OF this new]
  have "wf_build b1" using wf_add_edge [OF assms(1), of r] assms(2) by simp
  then show ?thesis
    unfolding edges_added_def by (auto simp: b1 new)
qed

lemma fact_relation_added: "edges_added b rs b1 \<Longrightarrow> fact_relation H b1 snap fa = fact_relation H b snap fa"
  by (simp add: fact_relation_def same_file_scope_def edges_added_frame)

lemma add_facts_added:
  assumes "wf_build b" and "add_facts H snap b fs = (b1, Inr obs)"
  shows "edges_added b (map (fact_relation H b snap) fs) b1"
  using assms
proof (induction fs arbitrary: b obs)
  case Nil
  then show ?case by (simp add: edges_added_refl)
next
  case (Cons fa fs)
  obtain b0 q where add: "add_edge b (fact_relation H b snap fa) = (b0, q)" by (metis surj_pair)
  with Cons.prems(2) obtain obs' where q: "q = Inr ()" and rest: "add_facts H snap b0 fs = (b1, Inr obs')"
    by (cases q) (auto simp: Let_def split: prod.splits sum.splits)
  have g: "edges_added b [fact_relation H b snap fa] b0"
    using add_edge_added [OF Cons.prems(1)] add q by simp
  then have "wf_build b0" by (simp add: edges_added_def)
  from edges_added_trans [OF g Cons.IH [OF this rest]] fact_relation_added [OF g] show ?case by simp
qed

text \<open>The edge of an accepted decision.\<close>

fun restates :: "decided \<Rightarrow> relation \<Rightarrow> bool" where
  "restates (c, d, e) r \<longleftrightarrow> rel_type r = cand_rel_type c \<and> rel_from r = cand_from_entity c
     \<and> rel_to r = cand_to_entity c \<and> rel_evidence_ids r = [ev_id e]"

fun accepted_by :: "materialization \<Rightarrow> decided \<Rightarrow> bool" where
  "accepted_by m (c, d, e) = accepts m d"

lemma decision_relation_restates: "decision_relation H b c e = Some r \<Longrightarrow> restates (c, d, e) r"
  by (auto simp: decision_relation_def relation_new_def Let_def)

lemma add_decisions_added:
  assumes "wf_build b" and "add_decisions H m contra st b xs = (st1, b1, Inr u)"
  shows "\<exists>rs. edges_added b rs b1 \<and> list_all2 restates (filter (accepted_by m) xs) rs"
  using assms
proof (induction xs arbitrary: st b)
  case Nil
  then show ?case using edges_added_refl by auto
next
  case (Cons x xs)
  obtain c d e where x: "x = (c, d, e)" by (cases x)
  show ?case
  proof (cases "accepts m d")
    case False
    with Cons x show ?thesis by simp
  next
    case True
    with Cons.prems(2) x obtain r where r: "decision_relation H b c e = Some r"
      by (auto split: option.splits)
    obtain b0 q where add: "add_edge b r = (b0, q)" by (metis surj_pair)
    with Cons.prems(2) x True r obtain st0 where q: "q = Inr ()"
      and rest: "add_decisions H m contra st0 b0 xs = (st1, b1, Inr u)"
      by (cases q) (auto split: prod.splits sum.splits)
    have g: "edges_added b [r] b0" using add_edge_added [OF Cons.prems(1)] add q by simp
    then have "wf_build b0" by (simp add: edges_added_def)
    from Cons.IH [OF this rest] obtain rs where
      rs: "edges_added b0 rs b1" "list_all2 restates (filter (accepted_by m) xs) rs" by blast
    have "list_all2 restates (filter (accepted_by m) (x # xs)) (r # rs)"
      using rs(2) True x decision_relation_restates [OF r] by simp
    with edges_added_trans [OF g rs(1)] show ?thesis by auto
  qed
qed

section \<open>The staged build\<close>

lemma staged_build_wf: "wf_build (staged_build H repo snap x g expected)"
proof -
  have "bt_get (bt_extend [] (map (\<lambda>e. (ent_id e, e)) es)) k = Some v \<Longrightarrow> ent_id v = k" for es k v
    by (auto simp: bt_get_extend split: option.splits dest!: map_of_SomeD)
  then show ?thesis
    by (auto simp: staged_build_def Let_def wf_build_def graph_build_new_def bt_ok_extend split: option.splits)
qed

lemma staged_build_fields [simp]:
  "gb_edges (staged_build H repo snap x g expected) = []"
  "gb_repo (staged_build H repo snap x g expected) = repo"
  "gb_generation (staged_build H repo snap x g expected) = g"
  "gb_predecessor (staged_build H repo snap x g expected) = expected"
  by (simp_all add: staged_build_def Let_def graph_build_new_def)

text \<open>The stages of a publication that succeeds.\<close>

lemma build_and_publish_stages:
  assumes "build_and_publish K chunks p repo snap x xs m expected = (p', Inr b)"
  obtains st1 b1 obs st2 st3 b2 where
      "reject_failed xs = Inr ()" and "check_models xs = Inr ()"
      and "validate_facts (pc_hash K) repo snap x
         (gb_nodes (staged_build (pc_hash K) repo snap x (pl_generation p + 1) expected)) = Inr ()"
      and "add_facts (pc_hash K) snap (staged_build (pc_hash K) repo snap x (pl_generation p + 1) expected)
         (ext_facts x) = (b1, Inr obs)"
      and "materialize_decisions (pc_hash K) m st1 b1 xs = (st2, b2, Inr ())"
      and "b = b2\<lparr>gb_coverage := Some (build_coverage_of x (of_nat (length (gb_edges b1)))
                (of_nat (length (gb_edges b2))))\<rparr>"
      and "publish chunks st2 b expected = (st3, Inr ())"
      and "p' = \<lparr>pl_store = st3, pl_generation = pl_generation p + 1\<rparr>"
proof -
  let ?b = "staged_build (pc_hash K) repo snap x (pl_generation p + 1) expected"
  from assms have ok: "reject_failed xs = Inr ()" "check_models xs = Inr ()"
    using all_ok_iff [of "[reject_failed xs, check_models xs]"]
    by (cases "all_ok [reject_failed xs, check_models xs]"; auto simp: build_and_publish_def)+
  obtain st1 b1 r1 where facts: "publish_facts (pc_hash K) (pl_store p) ?b snap x = (st1, b1, r1)"
    by (metis prod_cases3)
  have guard: "all_ok [reject_failed xs, check_models xs] = Inr ()" using ok by simp
  from assms guard facts have r1: "r1 = Inr ()"
    by (cases r1) (auto simp: build_and_publish_def Let_def)
  obtain st2 b2 r2 where dec: "materialize_decisions (pc_hash K) m st1 b1 xs = (st2, b2, r2)"
    by (metis prod_cases3)
  from assms guard facts r1 dec have r2: "r2 = Inr ()"
    by (cases r2) (auto simp: build_and_publish_def Let_def)
  let ?b3 = "b2\<lparr>gb_coverage := Some (build_coverage_of x (of_nat (length (gb_edges b1))) (of_nat (length (gb_edges b2))))\<rparr>"
  obtain st3 r3 where pub: "publish chunks st2 ?b3 expected = (st3, r3)" by (metis surj_pair)
  from assms guard facts r1 dec r2 pub have r3: "r3 = Inr ()"
    and out: "b = ?b3" "p' = p\<lparr>pl_generation := pl_generation p + 1, pl_store := st3\<rparr>"
    by (cases r3; auto simp: build_and_publish_def Let_def)+
  have val: "validate_facts (pc_hash K) repo snap x (gb_nodes ?b) = Inr ()"
    using facts r1 by (cases rule: unit_result_cases) (auto simp: publish_facts_def)
  with facts r1 obtain obs where "add_facts (pc_hash K) snap ?b (ext_facts x) = (b1, Inr obs)"
    by (auto simp: publish_facts_def split: prod.splits sum.splits)
  from that [OF ok val this dec [unfolded r2] out(1)] pub r3 out show thesis by (cases p) simp
qed

section \<open>Properties\<close>

lemma reject_failed_ok: "reject_failed xs = Inr () \<longleftrightarrow> (\<forall>(c, d, e) \<in> set xs. \<not> is_failed (dec_outcome d))"
  by (force simp: reject_failed_def Let_def filter_empty_conv)

lemma published_edges_exact_lemma:
  assumes "build_and_publish K chunks p repo snap x xs m expected = (p', Inr b)"
  shows "active_of (pl_store p') repo = Some b \<and> gb_repo b = repo \<and> wf_build b
    \<and> gb_generation b = pl_generation p + 1 \<and> pl_generation p' = pl_generation p + 1
    \<and> (\<exists>b0 rs. set (bt_values (gb_edges b)) = set (map (fact_relation (pc_hash K) b0 snap) (ext_facts x)) \<union> set rs
        \<and> length (gb_edges b) = length (ext_facts x) + length rs
        \<and> gb_id b0 = gb_id b \<and> gb_nodes b0 = gb_nodes b
        \<and> list_all2 restates (filter (accepted_by m) xs) rs)"
proof -
  let ?b = "staged_build (pc_hash K) repo snap x (pl_generation p + 1) expected"
  from assms obtain st1 b1 obs st2 st3 b2 where
    facts: "add_facts (pc_hash K) snap ?b (ext_facts x) = (b1, Inr obs)"
    and dec: "materialize_decisions (pc_hash K) m st1 b1 xs = (st2, b2, Inr ())"
    and b: "b = b2\<lparr>gb_coverage := Some (build_coverage_of x (of_nat (length (gb_edges b1)))
                (of_nat (length (gb_edges b2))))\<rparr>"
    and pub: "publish chunks st2 b expected = (st3, Inr ())"
    and p': "p' = \<lparr>pl_store = st3, pl_generation = pl_generation p + 1\<rparr>"
    by (rule build_and_publish_stages)
  have g1: "edges_added ?b (map (fact_relation (pc_hash K) ?b snap) (ext_facts x)) b1"
    by (rule add_facts_added [OF staged_build_wf facts])
  then have "wf_build b1" by (simp add: edges_added_def)
  from add_decisions_added [OF this dec [unfolded materialize_decisions_def]] obtain rs where
    g2: "edges_added b1 rs b2" and rs: "list_all2 restates (filter (accepted_by m) xs) rs" by blast
  note g = edges_added_trans [OF g1 g2]
  note fields = edges_added_frame [OF this]
  obtain cl where "st3 = st2\<lparr>ms_sealed := bt_extend (ms_sealed st2) cl,
      ms_active := bt_insert (gb_repo b) (gb_id b) (ms_active st2), ms_builds := bt_insert (gb_id b) b (ms_builds st2)\<rparr>"
    by (rule publish_accepted [OF pub])
  then have "active_of st3 (gb_repo b) = Some b" by (simp add: active_of_def get_build_def)
  moreover have "wf_build b" using g by (simp add: b wf_build_def edges_added_def)
  ultimately show ?thesis
    using g rs fields p' by (auto simp: b edges_added_def bt_values_def intro!: exI [of _ ?b] exI [of _ rs])
qed

text \<open>C4. The published graph is exactly what was certified or accepted: a publication that
  succeeds makes its build the active one of the repository, one generation above the
  pipeline's, well formed; its edges are the certified facts of the extraction and one edge
  for each decision that is accepted within the thresholds, with the candidate's relation
  and endpoints and its evidence, nothing else and none twice, so that rejected, negative,
  abstained and below-threshold decisions publish nothing and parallel relations survive.\<close>

theorem published_edges_exact:
  assumes "build_and_publish K chunks p repo snap x xs m expected = (p', Inr b)"
  shows "active_of (pl_store p') repo = Some b \<and> gb_repo b = repo \<and> wf_build b
    \<and> gb_generation b = pl_generation p + 1 \<and> pl_generation p' = pl_generation p + 1
    \<and> (\<exists>b0 rs. set (bt_values (gb_edges b)) = set (map (fact_relation (pc_hash K) b0 snap) (ext_facts x)) \<union> set rs
        \<and> length (gb_edges b) = length (ext_facts x) + length rs
        \<and> gb_id b0 = gb_id b \<and> gb_nodes b0 = gb_nodes b
        \<and> list_all2 restates (filter (accepted_by m) xs) rs)"
  using published_edges_exact_lemma [OF assms] .

text \<open>C17. A batch with a failed decision, or with an answer from a model that is not the
  approved one that was asked, publishes nothing: the publication is refused and the store,
  its active builds and the generation stay as they were.\<close>

theorem failed_batch_publishes_nothing:
  assumes "(c, d, e) \<in> set xs"
    and "is_failed (dec_outcome d) \<or> dec_model_returned d \<noteq> dec_model_requested d
      \<or> dec_model_requested d \<notin> {JEV_MODEL_PINNED, FIXTURE_MODEL}"
  shows "\<exists>er. build_and_publish K chunks p repo snap x xs m expected = (p, Inl er)"
proof -
  have "\<not> (reject_failed xs = Inr () \<and> check_models xs = Inr ())"
  proof
    assume ok: "reject_failed xs = Inr () \<and> check_models xs = Inr ()"
    with assms(1) have "\<not> is_failed (dec_outcome d)"
      and "map_sum PE_Model id (validate_model_identity (dec_model_requested d) (dec_model_returned d)) = Inr ()"
      by (auto simp: reject_failed_ok check_models_def)
    with assms(2) show False by (auto simp: validate_model_identity_def split: if_splits)
  qed
  then have "all_ok [reject_failed xs, check_models xs] \<noteq> Inr ()" by simp
  then show ?thesis
    by (cases "all_ok [reject_failed xs, check_models xs]") (auto simp: build_and_publish_def)
qed

lemma check_facts_ok:
  assumes "check_facts H repo snap x ents verified fs = Inr ()"
    and "\<forall>file \<in> set verified. valid_version H snap file"
  shows "\<forall>fa \<in> set fs. repo = snap_repo snap \<and> fact_ends repo snap ents fa x \<and> valid_source snap fa
    \<and> fact_producer fa \<noteq> [] \<and> valid_version H snap (sp_file (fact_span fa))"
  using assms
  by (induction fs arbitrary: verified) (auto simp: Let_def split: if_splits)

text \<open>C16. Certified facts cite the source they were read from: when a build with them is
  published, every fact lies in the repository and snapshot of the build, its file is
  pinned in the snapshot with the digest and the length of the very bytes it was read from,
  and its text is the slice of these bytes that its span names.\<close>

theorem published_facts_cite_source:
  assumes "build_and_publish K chunks p repo snap x xs m expected = (p', Inr b)" and "fa \<in> set (ext_facts x)"
  shows "\<exists>f t body v. bt_get (gb_nodes b) (fact_from fa) = Some f \<and> bt_get (gb_nodes b) (fact_to fa) = Some t
    \<and> ent_repo f = repo \<and> ent_repo t = repo \<and> ent_snapshot f = snap_id snap \<and> ent_snapshot t = snap_id snap
    \<and> valid_fact_endpoints f t fa x
    \<and> bt_get (snap_contents snap) (sp_file (fact_span fa)) = Some body
    \<and> file_version_of snap (sp_file (fact_span fa)) = Some v
    \<and> fv_sha256 v = sha256_hex (pc_hash K) [body] \<and> fv_bytes v = of_nat (length body)
    \<and> str_slice body (unat (sp_byte_start (fact_span fa))) (unat (sp_byte_end (fact_span fa))) = Some (fact_text fa)
    \<and> fact_producer fa \<noteq> []"
proof -
  let ?b = "staged_build (pc_hash K) repo snap x (pl_generation p + 1) expected"
  from assms(1) obtain st1 b1 obs st2 st3 b2 where
    val: "validate_facts (pc_hash K) repo snap x (gb_nodes ?b) = Inr ()"
    and facts: "add_facts (pc_hash K) snap ?b (ext_facts x) = (b1, Inr obs)"
    and dec: "materialize_decisions (pc_hash K) m st1 b1 xs = (st2, b2, Inr ())"
    and b: "b = b2\<lparr>gb_coverage := Some (build_coverage_of x (of_nat (length (gb_edges b1)))
                (of_nat (length (gb_edges b2))))\<rparr>"
    by (rule build_and_publish_stages)
  have g1: "edges_added ?b (map (fact_relation (pc_hash K) ?b snap) (ext_facts x)) b1"
    by (rule add_facts_added [OF staged_build_wf facts])
  then have "wf_build b1" by (simp add: edges_added_def)
  from add_decisions_added [OF this dec [unfolded materialize_decisions_def]] obtain rs where "edges_added b1 rs b2"
    by blast
  from edges_added_frame(4) [OF edges_added_trans [OF g1 this]] have nodes: "gb_nodes b = gb_nodes ?b" by (simp add: b)
  from val have "check_facts (pc_hash K) repo snap x (gb_nodes ?b) [] (ext_facts x) = Inr ()"
    by (auto simp: validate_facts_def split: if_splits)
  from check_facts_ok [OF this] assms(2) have "fact_ends repo snap (gb_nodes ?b) fa x" "valid_source snap fa"
    "valid_version (pc_hash K) snap (sp_file (fact_span fa))" "fact_producer fa \<noteq> []" by auto
  then show ?thesis
    by (auto simp: nodes fact_ends_def valid_source_def valid_version_def split: option.splits prod.splits)
qed


lemma free_suffix_new: "free_suffix es base fuel n = Some i \<Longrightarrow> \<not> bt_contains es i"
  by (induction fuel arbitrary: n) (auto simp: Let_def split: if_splits)

lemma free_suffix_None:
  "free_suffix es base fuel n = None \<Longrightarrow> k < fuel \<Longrightarrow> bt_contains es (base @ ''#'' @ dec (unat (n + of_nat k)))"
proof (induction fuel arbitrary: n k)
  case (Suc fuel)
  then have first: "bt_contains es (base @ ''#'' @ dec (unat n))" and rest: "free_suffix es base fuel (n + 1) = None"
    by (auto simp: Let_def split: if_splits)
  show ?case
  proof (cases k)
    case 0
    with first show ?thesis by simp
  next
    case (Suc j)
    with Suc.IH [OF rest, of j] Suc.prems(2) show ?thesis by (simp add: algebra_simps)
  qed
qed simp

text \<open>C35. Parallel relations always find an id of their own: with fewer than \<open>2^32\<close> edges in the
  build, the search for the first free \<open>base#n\<close> from \<open>n = 2\<close> ends before its \<^verbatim>\<open>u32\<close> counter
  comes round, with an id that no edge of the build has.\<close>

theorem parallel_edges_get_an_id:
  assumes "length es < 2 ^ 32"
  shows "\<exists>i. free_edge_id es base = Some i \<and> \<not> bt_contains es i"
proof (cases "bt_contains es base")
  case False
  then show ?thesis by (simp add: free_edge_id_def)
next
  case True
  define key where "key k = base @ ''#'' @ dec (unat ((2::u32) + of_nat k))" for k
  have "free_suffix es base (Suc (length es)) 2 \<noteq> None"
  proof
    assume "free_suffix es base (Suc (length es)) 2 = None"
    from free_suffix_None [OF this] have sub: "key ` {..<Suc (length es)} \<subseteq> fst ` set es"
      unfolding key_def bt_contains_keys [symmetric] image_subset_iff lessThan_iff mem_Collect_eq by blast
    have "inj_on key {..<Suc (length es)}"
      using assms by (intro inj_onI) (simp add: key_def dec_unat_inj word_of_nat_eq_iff take_bit_nat_eq_self)
    then have "Suc (length es) \<le> card (fst ` set es)"
      using card_mono [OF _ sub] by (simp add: card_image)
    also have "\<dots> \<le> length es" by (meson card_image_le card_length finite_set le_trans)
    finally show False by simp
  qed
  then show ?thesis using True by (auto simp: free_edge_id_def simp del: free_suffix.simps dest: free_suffix_new)
qed

end
