(* ===== verification/Pipeline_Examples.thy ===== *)
theory Pipeline_Examples
  imports Publish_Properties Store_Examples
begin

text \<open>
  A small run at which the pipeline's theorems apply: two entities of one file, one
  candidate, a responder that accepts with full confidence, and one certified fact.
\<close>

definition plain_codec :: pipeline_codec where
  "plain_codec = \<lparr>pc_hash = (\<lambda>m. m), pc_questions = (\<lambda>_. ''qs''), pc_question = (\<lambda>_. ''q''),
     pc_reuse = ri_excerpt, pc_float = (\<lambda>_. ''f'')\<rparr>"

definition plain_snapshot :: source_snapshot where
  "plain_snapshot = \<lparr>snap_id = ''s'', snap_repo = ''r'', snap_scope = [],
     snap_files = [\<lparr>fv_path = ''a.rs'', fv_sha256 = ''fn a'' @ [NUL], fv_bytes = 4\<rparr>],
     snap_contents = [(''a.rs'', ''fn a'')], snap_unreadable = []\<rparr>"

definition plain_mat :: materialization where
  "plain_mat = \<lparr>mt_rubric_version = ''v1'', mt_accept_noul = F64_Finite (1 / 2),
     mt_accept_confidence = F64_Finite (1 / 2), mt_accept_score = F64_Finite 1,
     mt_abstain_confidence = F64_Finite (1 / 4)\<rparr>"

definition plain_run :: decision_run where
  "plain_run = \<lparr>dr_entities = [(''a'', sample_entity ''a''), (''b'', sample_entity ''b'')],
     dr_snapshot = plain_snapshot, dr_model = FIXTURE_MODEL, dr_mat = plain_mat,
     dr_policy = sample_policy [''src'']\<rparr>"

definition plain_store :: memory_store where
  "plain_store = memory_store_new\<lparr>ms_files := [((''s'', ''a.rs''), (''fn a'' @ [NUL], 4))]\<rparr>"

definition accepting :: responder where
  "accepting n state qs = Inr \<lparr>srs_model = FIXTURE_MODEL,
     srs_answers = map (\<lambda>(i, q). (i, A_Choice \<lparr>ca_choice = ''accept'',
        ca_probabilities = [(''accept'', F64_Finite 1)], ca_confidence = F64_Finite 1\<rparr>)) qs,
     srs_usage = \<lparr>us_input_tokens = 1, us_output_tokens = 0\<rparr>\<rparr>"

abbreviation plain_candidates :: "candidate list" where
  "plain_candidates \<equiv> [sample_candidate ''c1'']"

section \<open>The run\<close>

lemma plain_preflight: "uncached_decisions plain_codec plain_run plain_candidates plain_store = Inr 1"
  by code_simp

text \<open>The first attempt is a miss.\<close>

lemma plain_attempt:
  "\<exists>a. attempt plain_codec plain_run (catalog_digest (pc_hash plain_codec) plain_candidates) plain_store
     (sample_candidate ''c1'') = Inr (sample_entity ''a'', sample_entity ''b'', a) \<and> ra_hit a = None"
proof -
  let ?at = "attempt plain_codec plain_run (catalog_digest (pc_hash plain_codec) plain_candidates) plain_store
     (sample_candidate ''c1'')"
  from plain_preflight obtain fta where at: "?at = Inr fta"
    by (cases ?at) (auto simp: uncached_decisions_def split: sum.splits)
  obtain f t a where fta: "fta = (f, t, a)" by (cases fta)
  with plain_preflight at have "ra_hit a = None"
    by (auto simp: uncached_decisions_def split: sum.splits if_splits)
  moreover have "endpoints plain_run (sample_candidate ''c1'') = Inr (sample_entity ''a'', sample_entity ''b'')"
    by (simp add: endpoints_def plain_run_def sample_candidate_def)
  with attempt_reads(1) [OF at [unfolded fta]] have "f = sample_entity ''a''" "t = sample_entity ''b''" by simp_all
  ultimately show ?thesis using at fta by blast
qed

definition accepting_answer :: answer where
  "accepting_answer = A_Choice \<lparr>ca_choice = ''accept'', ca_probabilities = [(''accept'', F64_Finite 1)],
     ca_confidence = F64_Finite 1\<rparr>"

lemma accepting_sum: "f64_sum [F64_Finite 1] = F64_Finite 1"
  by code_simp

lemma accepting_margin: "\<not> f64_lit (5 / 100) < f64_abs (f64_sub (F64_Finite 1) (F64_Finite 1))"
  by code_simp

lemma accepting_ok: "answer_ok (Some (bs_of [''accept'', ''reject'', ''none''])) (relation_question c f t) accepting_answer"
  using accepting_sum accepting_margin
  by (simp add: accepting_answer_def relation_question_def Let_def choice_ok_def in_unit_def bt_values_def bt_keys_def)

lemma accepting_valid:
  "validate_response_for_model
     \<lparr>srs_model = FIXTURE_MODEL, srs_answers = [(question_id c, accepting_answer)], srs_usage = u\<rparr>
     (questions_for c f t) (valid_options_for (question_id c)) FIXTURE_MODEL = Inr ()"
  using accepting_ok [of c f t]
  by (subst validate_response_for_model_ok)
    (auto simp: questions_for_def response_ok_def valid_options_for_def bt_keys_def)

lemma accepting_verdict:
  "materialize_raw (raw_from_answer accepting_answer) plain_mat ''structural''
     = Inr (DO_Accepted, EC_Extracted, Some (F64_Finite 1), Some (F64_Finite 1))"
  by (simp add: accepting_answer_def materialize_raw_def choice_verdict_def upgraded_def plain_mat_def
      check_confidence_def check_probability_def bt_values_def check_all_def all_ok.simps)

text \<open>What the accepted decision leaves in the store.\<close>

definition plain_left :: "memory_store \<Rightarrow> decision \<Rightarrow> evidence \<Rightarrow> bool" where
  "plain_left st d e \<longleftrightarrow> dec_outcome d = DO_Accepted \<and> dec_confidence d = Some (F64_Finite 1)
     \<and> dec_probability d = Some (F64_Finite 1) \<and> dec_model_requested d = FIXTURE_MODEL
     \<and> dec_model_returned d = FIXTURE_MODEL \<and> ev_producer e = None \<and> ev_supports e
     \<and> ev_snapshot e = ''s'' \<and> ev_source_file_version e = ''a.rs'' \<and> length (ev_id e) \<le> 15
     \<and> ms_evidence st = [(ev_id e, e)] \<and> ms_files st = ms_files plain_store \<and> ms_claims st = []
     \<and> ms_builds st = [] \<and> ms_active st = [] \<and> ms_sealed st = []"

lemma plain_one:
  "\<exists>st d e. decide_one plain_codec accepting plain_run (catalog_digest (pc_hash plain_codec) plain_candidates)
       (plain_store, 0) (sample_candidate ''c1'') = ((st, 1), Inr (sample_candidate ''c1'', d, e))
     \<and> plain_left st d e"
proof -
  let ?c = "sample_candidate ''c1''" and ?f = "sample_entity ''a''" and ?t = "sample_entity ''b''"
  let ?cat = "catalog_digest (pc_hash plain_codec) plain_candidates"
  obtain a where at: "attempt plain_codec plain_run ?cat plain_store ?c = Inr (?f, ?t, a)" and miss: "ra_hit a = None"
    using plain_attempt by blast
  note reads = attempt_reads [OF at]
  let ?resp = "\<lparr>srs_model = FIXTURE_MODEL, srs_answers = [(question_id ?c, accepting_answer)],
     srs_usage = \<lparr>us_input_tokens = 1, us_output_tokens = 0\<rparr>\<rparr>"
  have ask: "accepting 0 (request_state ?c ?f ?t) (ra_questions a) = Inr ?resp"
    using reads(3) by (simp add: accepting_def questions_for_def accepting_answer_def)
  let ?ir = "\<lparr>inf_reuse_key = ra_reuse_key a, inf_raw = raw_from_answer accepting_answer,
     inf_model_requested = FIXTURE_MODEL, inf_model_returned = FIXTURE_MODEL\<rparr>"
  let ?st = "plain_store\<lparr>ms_inferences := [(ra_reuse_key a, ?ir)]\<rparr>"
  have put: "put_inference plain_store ?ir = (?st, Inr ())"
    by (simp add: put_inference_def plain_store_def memory_store_new_def bt_or_insert_def)
  have stored: "validate_stored_inference ?ir (ra_reuse_key a) FIXTURE_MODEL (questions_for ?c ?f ?t) (question_id ?c)
      = Inr accepting_answer"
    using accepting_valid
    by (simp add: validate_stored_inference_def stored_response_def) (simp add: accepting_answer_def)
  let ?v = "(DO_Accepted, EC_Extracted, Some (F64_Finite 1), Some (F64_Finite 1))"
  obtain d e where x: "answered plain_codec plain_run ?c ?f ?t a (question_id ?c) (hit_of ?ir ?v) = (?c, d, e)"
    by (simp add: answered_def Let_def)
  note parts = answered_parts [OF x]
  have taken: "take_answer plain_codec plain_run ?c ?f ?t a plain_store ?resp = persist_decided ?st (?c, d, e)"
    using reads put stored accepting_valid [of ?c] x accepting_verdict
    by (simp add: take_answer_def questions_for_def plain_run_def find_inference_def sample_candidate_def)
  obtain st' r where p: "persist_decided ?st (?c, d, e) = (st', r)" by (metis surj_pair)
  note w = persist_decided_writes [OF p]
  have "is_ok r" using w(5) parts(6,7)
    by (simp add: plain_store_def plain_run_def plain_snapshot_def sample_entity_def bt_contains_def)
  with w(6) have r: "r = Inr (?c, d, e)" by (auto simp: is_ok_iff simp del: sum.disc)
  have one: "decide_one plain_codec accepting plain_run ?cat (plain_store, 0) ?c = ((st', 1), Inr (?c, d, e))"
    using at miss ask taken p r by (simp add: decide_one_def)
  have dec: "dec_outcome d = DO_Accepted" "dec_confidence d = Some (F64_Finite 1)"
    "dec_probability d = Some (F64_Finite 1)" "dec_model_requested d = FIXTURE_MODEL"
    "dec_model_returned d = FIXTURE_MODEL"
    using parts(5,8) by (simp_all add: hit_of_def answered_decision_def plain_run_def)
  have ev: "ev_producer e = None" "ev_supports e" "length (ev_id e) \<le> 15"
    using x by (auto simp: answered_def assemble_evidence_def hit_of_def Let_def deterministic_id_def)
  have at_file: "ev_snapshot e = ''s''" "ev_source_file_version e = ''a.rs''"
    using parts(6,7) by (simp_all add: plain_run_def plain_snapshot_def sample_entity_def)
  then have "ms_evidence st' = [(ev_id e, e)]" "ms_claims st' = []" "ms_builds st' = []" "ms_active st' = []"
    "ms_sealed st' = []" "ms_files st' = ms_files plain_store"
    using p by (auto simp: persist_decided_def put_decision_def put_evidence_def plain_store_def
        memory_store_new_def Let_def bt_contains_def bt_or_insert_def)
  with dec ev at_file have "plain_left st' d e" by (simp add: plain_left_def)
  with one show ?thesis by blast
qed

lemma plain_decide:
  "\<exists>st d e. decide plain_codec accepting plain_run (plain_store, 0) plain_candidates
       = ((st, 1), Inr [(sample_candidate ''c1'', d, e)]) \<and> plain_left st d e"
proof -
  have "mat_validate plain_codec (dr_mat plain_run) = Inr ()"
    by (simp add: mat_validate_def plain_run_def plain_mat_def)
  with plain_one show ?thesis by (fastforce simp: decide_def)
qed

section \<open>The publication\<close>

definition plain_extraction :: extraction where
  "plain_extraction = \<lparr>ext_entities = [sample_entity ''a'', sample_entity ''b''], ext_explicit_refs = [],
     ext_facts = [], ext_coverage = [], ext_compiler = None\<rparr>"

lemma plain_staged:
  "gb_nodes (staged_build H ''r'' plain_snapshot plain_extraction g None)
     = [(''a'', sample_entity ''a''), (''b'', sample_entity ''b'')]"
  by (simp add: staged_build_def Let_def plain_extraction_def graph_build_new_def sample_entity_def)

lemma plain_facts:
  assumes "plain_left st d e"
  shows "publish_facts H st (staged_build H ''r'' plain_snapshot plain_extraction g None) plain_snapshot plain_extraction
    = (st, staged_build H ''r'' plain_snapshot plain_extraction g None, Inr ())"
proof -
  have "st\<lparr>ms_files := ms_files st\<rparr> = st" by simp
  with assms show ?thesis
    by (simp add: publish_facts_def validate_facts_def plain_extraction_def compiler_agrees_def
        snapshot_files_def plain_snapshot_def plain_left_def plain_store_def)
qed

lemma plain_materialized:
  assumes left: "plain_left st d e" and b: "b = staged_build H ''r'' plain_snapshot plain_extraction g None"
  shows "\<exists>r cl. materialize_decisions H plain_mat st b [(sample_candidate ''c1'', d, e)]
      = (st\<lparr>ms_claims := [(cl_id cl, cl)]\<rparr>, b\<lparr>gb_edges := [(rel_id r, r)]\<rparr>, Inr ())
    \<and> rel_evidence_ids r = [ev_id e] \<and> rel_from r = ''a'' \<and> rel_to r = ''b'' \<and> cl_relation_id cl = rel_id r
    \<and> cl_supporting cl = [ev_id e] \<and> cl_contradicting cl = []"
proof -
  have nodes: "bt_contains (gb_nodes b) ''a''" "bt_contains (gb_nodes b) ''b''" and edges: "gb_edges b = []"
    by (simp_all add: b plain_staged bt_contains_def)
  have ac: "accepts plain_mat d"
    using left by (simp add: plain_left_def accepts_def meets_def plain_mat_def)
  obtain r where r: "decision_relation H b (sample_candidate ''c1'') e = Some r"
    by (simp add: decision_relation_def edges free_edge_id_def Let_def)
  from decision_relation_restates [OF r] have fields: "rel_from r = ''a''" "rel_to r = ''b''" "rel_evidence_ids r = [ev_id e]"
    by (simp_all add: sample_candidate_def)
  let ?cl = "relation_claim H (rel_id r) (ev_id e) []"
  have none: "contradictions [(sample_candidate ''c1'', d, e)] = []"
    using left by (simp add: contradictions_def plain_left_def)
  have add: "add_edge b r = (b\<lparr>gb_edges := [(rel_id r, r)]\<rparr>, Inr ())"
    using nodes by (simp add: add_edge_def fields edges)
  have put: "put_claim st ?cl = (st\<lparr>ms_claims := [(cl_id ?cl, ?cl)]\<rparr>, Inr ())"
    using left by (simp add: put_claim_def validate_claim_def relation_claim_def plain_left_def bt_contains_def
        bt_or_insert_def)
  have "materialize_decisions H plain_mat st b [(sample_candidate ''c1'', d, e)]
      = (st\<lparr>ms_claims := [(cl_id ?cl, ?cl)]\<rparr>, b\<lparr>gb_edges := [(rel_id r, r)]\<rparr>, Inr ())"
    by (simp add: materialize_decisions_def none ids_of_def ac r add put)
  with fields show ?thesis
    by (intro exI [of _ r] exI [of _ ?cl]) (simp add: relation_claim_def)
qed

lemma plain_publish:
  assumes run: "plain_left st d e"
  shows "\<exists>p' b r. build_and_publish plain_codec plain_chunks \<lparr>pl_store = st, pl_generation = 0\<rparr> ''r'' plain_snapshot
      plain_extraction [(sample_candidate ''c1'', d, e)] plain_mat None = (p', Inr b)
    \<and> gb_edges b = [(rel_id r, r)] \<and> rel_evidence_ids r = [ev_id e]"
proof -
  let ?xs = "[(sample_candidate ''c1'', d, e)]"
  let ?b = "staged_build (pc_hash plain_codec) ''r'' plain_snapshot plain_extraction 1 None"
  have guard: "all_ok [reject_failed ?xs, check_models ?xs] = Inr ()"
    using run by (simp add: reject_failed_ok check_models_def plain_left_def validate_model_identity_def)
  from plain_materialized [OF run refl] obtain r cl where
    mat: "materialize_decisions (pc_hash plain_codec) plain_mat st ?b ?xs
      = (st\<lparr>ms_claims := [(cl_id cl, cl)]\<rparr>, ?b\<lparr>gb_edges := [(rel_id r, r)]\<rparr>, Inr ())"
    and r: "rel_evidence_ids r = [ev_id e]" "rel_from r = ''a''" "rel_to r = ''b''"
    and cl: "cl_relation_id cl = rel_id r" "cl_supporting cl = [ev_id e]" "cl_contradicting cl = []" by blast
  let ?st = "st\<lparr>ms_claims := [(cl_id cl, cl)]\<rparr>"
  let ?b3 = "?b\<lparr>gb_edges := [(rel_id r, r)],
     gb_coverage := Some (build_coverage_of plain_extraction 0 1)\<rparr>"
  have "\<not> coverage_disagrees ?st ?b3 (build_coverage_of plain_extraction 0 1)"
    using run r by (simp add: coverage_disagrees_def direct_def backed_def plain_left_def bt_values_def
        build_coverage_of_def plain_extraction_def Let_def)
  moreover have "edge_outside ?b3 (bt_values (gb_edges ?b3)) = None"
    by (simp add: bt_values_def r plain_staged bt_contains_def)
  moreover have "predecessor_refused ?st ?b3 None = None"
    using run by (simp add: predecessor_refused_def plain_left_def)
  moreover have "\<exists>c. evidence_closure plain_chunks ?st ?b3 = Inr c"
    using run r cl by (simp add: evidence_closure_def bt_values_def evidence_rows_def claims_by_relation_def
        claims_of_def bt_alter_def validate_claim_def bt_contains_def plain_left_def plain_chunks_def
        evidence_row_of_def counter_write_def SEALED_EVIDENCE_BYTES_MAX_def plain_store_def)
  ultimately obtain st3 where pub: "publish plain_chunks ?st ?b3 None = (st3, Inr ())"
    using run by (auto simp: publish_def seal_build_def plain_left_def)
  have "build_and_publish plain_codec plain_chunks \<lparr>pl_store = st, pl_generation = 0\<rparr> ''r'' plain_snapshot
      plain_extraction ?xs plain_mat None = (\<lparr>pl_store = st3, pl_generation = 1\<rparr>, Inr ?b3)"
    using guard plain_facts [OF run, of "pc_hash plain_codec" 1] mat pub
    by (simp add: build_and_publish_def Let_def all_ok.simps)
  then show ?thesis using r(1) by (intro exI [of _ "\<lparr>pl_store = st3, pl_generation = 1\<rparr>"] exI [of _ ?b3] exI [of _ r]) simp
qed

section \<open>Witnesses\<close>

theorem preflight_bounds_calls_witness:
  "\<exists>sn r. decide plain_codec accepting plain_run (plain_store, 0) plain_candidates = (sn, r) \<and> snd sn = 1 \<and> snd sn \<le> 0 + 1"
proof -
  obtain st xs where run: "decide plain_codec accepting plain_run (plain_store, 0) plain_candidates = ((st, 1), Inr xs)"
    using plain_decide by blast
  from preflight_bounds_calls [OF plain_preflight run] run show ?thesis by auto
qed

theorem clean_run_is_free_to_repeat_witness:
  "\<exists>st xs. snd (decide plain_codec accepting plain_run (plain_store, 0) plain_candidates) = Inr xs
     \<and> xs \<noteq> [] \<and> uncached_decisions plain_codec plain_run plain_candidates st = Inr 0"
proof -
  obtain st d e where run: "decide plain_codec accepting plain_run (plain_store, 0) plain_candidates
      = ((st, 1), Inr [(sample_candidate ''c1'', d, e)])" and d: "dec_outcome d = DO_Accepted"
    using plain_decide unfolding plain_left_def by blast
  have "uncached_decisions plain_codec plain_run plain_candidates st = Inr 0"
    using clean_run_is_free_to_repeat [OF run, of accepting 0] d by simp
  with run show ?thesis by auto
qed

theorem decisions_restate_stored_answers_witness:
  "\<exists>st d e ir. decide plain_codec accepting plain_run (plain_store, 0) plain_candidates
       = ((st, 1), Inr [(sample_candidate ''c1'', d, e)])
     \<and> find_inference st (dec_reuse_key d) = Some ir \<and> ev_supports e"
proof -
  obtain st d e where run: "decide plain_codec accepting plain_run (plain_store, 0) plain_candidates
      = ((st, 1), Inr [(sample_candidate ''c1'', d, e)])" and d: "dec_outcome d = DO_Accepted"
    using plain_decide unfolding plain_left_def by blast
  from decisions_restate_stored_answers [OF run] d show ?thesis using run by auto
qed

lemma plain_end_to_end:
  "\<exists>st d e p' b r. decide plain_codec accepting plain_run (plain_store, 0) plain_candidates
       = ((st, 1), Inr [(sample_candidate ''c1'', d, e)])
     \<and> build_and_publish plain_codec plain_chunks \<lparr>pl_store = st, pl_generation = 0\<rparr> ''r'' plain_snapshot
         plain_extraction [(sample_candidate ''c1'', d, e)] plain_mat None = (p', Inr b)
     \<and> r \<in> set (bt_values (gb_edges b))"
  using plain_decide plain_publish by (fastforce simp: bt_values_def)

theorem published_edges_exact_witness:
  "\<exists>p xs p' b. build_and_publish plain_codec plain_chunks p ''r'' plain_snapshot plain_extraction xs plain_mat None = (p', Inr b)
     \<and> gb_edges b \<noteq> [] \<and> active_of (pl_store p') ''r'' = Some b"
proof -
  from plain_end_to_end obtain p xs p' b r where
    pub: "build_and_publish plain_codec plain_chunks p ''r'' plain_snapshot plain_extraction xs plain_mat None = (p', Inr b)"
    and "r \<in> set (bt_values (gb_edges b))" by blast
  then have "gb_edges b \<noteq> []" by (auto simp: bt_values_def)
  moreover have "active_of (pl_store p') ''r'' = Some b" using published_edges_exact [OF pub] by blast
  ultimately show ?thesis using pub by blast
qed


theorem failed_batch_publishes_nothing_witness:
  "\<exists>er d e. dec_outcome d = DO_Failed ''responder fault''
     \<and> build_and_publish plain_codec plain_chunks pipeline_new ''r'' plain_snapshot plain_extraction
         [(sample_candidate ''c1'', d, e)] plain_mat None = (pipeline_new, Inl er)"
proof -
  define x where "x = failed plain_codec plain_run (sample_candidate ''c1'') (sample_entity ''a'')
    \<lparr>ra_reuse_key = [], ra_questions = [], ra_qid = [], ra_audit_cache_key = [], ra_mat_digest = [], ra_hit = None\<rparr>"
  obtain c d e where x': "x = (c, d, e)" by (cases x)
  then have "dec_outcome d = DO_Failed ''responder fault''" "c = sample_candidate ''c1''"
    by (auto simp: x_def failed_def failed_decision_def Let_def)
  then show ?thesis
    using failed_batch_publishes_nothing [of c d e "[(c, d, e)]" plain_codec plain_chunks pipeline_new "''r''"
        plain_snapshot plain_extraction plain_mat None] by auto
qed

theorem parallel_edges_get_an_id_witness:
  "free_edge_id [(''e'', sample_relation ''e'' ''a'' ''b''), (''e#2'', sample_relation ''e#2'' ''a'' ''b'')] ''e''
     = Some ''e#3''
   \<and> (\<exists>i. free_edge_id [(''e'', sample_relation ''e'' ''a'' ''b'')] ''e'' = Some i)"
proof
  show "free_edge_id [(''e'', sample_relation ''e'' ''a'' ''b''), (''e#2'', sample_relation ''e#2'' ''a'' ''b'')] ''e''
     = Some ''e#3''" by code_simp
  show "\<exists>i. free_edge_id [(''e'', sample_relation ''e'' ''a'' ''b'')] ''e'' = Some i"
    using parallel_edges_get_an_id [of "[(''e'', sample_relation ''e'' ''a'' ''b'')]" "''e''"] by auto
qed

text \<open>A file that certifies one definition of its own.\<close>

definition def_span :: source_span where
  "def_span = (span_point ''a.rs'' 1 1 0)\<lparr>sp_end_col := 5, sp_byte_end := 4\<rparr>"

definition def_fact :: structural_fact where
  "def_fact = \<lparr>fact_from = ''f'', fact_to = ''d'', fact_rel_type = RT_Defines, fact_span = def_span,
     fact_text = ''fn a'', fact_producer = ''syn-v1'', fact_resolved = False\<rparr>"

definition def_extraction :: extraction where
  "def_extraction = \<lparr>ext_entities = [(sample_entity ''f'')\<lparr>ent_kind := EK_File\<rparr>,
       (sample_entity ''d'')\<lparr>ent_kind := EK_Definition, ent_span := def_span\<rparr>],
     ext_explicit_refs = [], ext_facts = [def_fact],
     ext_coverage = [\<lparr>fc_file = ''a.rs'', fc_producer = ''syn-v1'', fc_status = SS_Parsed, fc_facts = 1\<rparr>],
     ext_compiler = None\<rparr>"

definition def_build :: graph_build where
  "def_build = staged_build (pc_hash plain_codec) ''r'' plain_snapshot def_extraction 1 None"

lemma def_build_nodes:
  "gb_nodes def_build = [(''d'', (sample_entity ''d'')\<lparr>ent_kind := EK_Definition, ent_span := def_span\<rparr>),
     (''f'', (sample_entity ''f'')\<lparr>ent_kind := EK_File\<rparr>)]"
  by (simp add: def_build_def staged_build_def Let_def def_extraction_def graph_build_new_def sample_entity_def)

lemma def_facts_valid:
  "validate_facts (pc_hash plain_codec) ''r'' plain_snapshot def_extraction (gb_nodes def_build) = Inr ()"
  by (simp add: validate_facts_def compiler_agrees_def def_build_nodes)
    (simp add: def_extraction_def def_fact_def fact_ends_def valid_fact_endpoints_def is_declaration_def
      valid_version_def valid_source_def file_version_of_def plain_snapshot_def plain_codec_def sha256_hex_def
      str_slice_def char_boundary_def sample_entity_def def_span_def span_point_def Let_def)

lemma def_added:
  "\<exists>r. add_facts (pc_hash plain_codec) plain_snapshot def_build [def_fact]
     = (def_build\<lparr>gb_edges := [(rel_id r, r)]\<rparr>, Inr [(rel_id r, def_fact)])
   \<and> rel_evidence_ids r = [fact_evidence_id (pc_hash plain_codec) plain_snapshot def_fact]
   \<and> rel_from r = ''f'' \<and> rel_to r = ''d''"
proof -
  let ?r = "fact_relation (pc_hash plain_codec) def_build plain_snapshot def_fact"
  have ends: "rel_from ?r = ''f''" "rel_to ?r = ''d''"
    "rel_evidence_ids ?r = [fact_evidence_id (pc_hash plain_codec) plain_snapshot def_fact]"
    by (simp_all add: fact_relation_def relation_new_def def_fact_def)
  then have "add_edge def_build ?r = (def_build\<lparr>gb_edges := [(rel_id ?r, ?r)]\<rparr>, Inr ())"
    by (simp add: add_edge_def def_build_nodes bt_contains_def) (simp add: def_build_def)
  with ends show ?thesis by (intro exI [of _ ?r]) (simp add: Let_def)
qed

lemma def_publish:
  "is_ok (snd (build_and_publish plain_codec plain_chunks pipeline_new ''r'' plain_snapshot def_extraction [] plain_mat None))"
proof -
  let ?H = "pc_hash plain_codec" and ?e = "fact_evidence (pc_hash plain_codec) plain_snapshot def_fact"
  obtain r where add: "add_facts ?H plain_snapshot def_build [def_fact]
       = (def_build\<lparr>gb_edges := [(rel_id r, r)]\<rparr>, Inr [(rel_id r, def_fact)])"
    and r: "rel_evidence_ids r = [ev_id ?e]" "rel_from r = ''f''" "rel_to r = ''d''"
    using def_added by (auto simp: fact_evidence_def)
  let ?cl = "relation_claim ?H (rel_id r) (ev_id ?e) []"
  let ?st = "memory_store_new\<lparr>ms_files := [((''s'', ''a.rs''), (''fn a'' @ [NUL], 4))],
     ms_evidence := [(ev_id ?e, ?e)], ms_claims := [(cl_id ?cl, ?cl)]\<rparr>"
  have e: "ev_snapshot ?e = ''s''" "ev_source_file_version ?e = ''a.rs''" "ev_producer ?e = Some ''syn-v1''"
    "ev_supports ?e" "ev_class ?e = EC_Extracted" "length (ev_id ?e) \<le> 15"
    by (simp_all add: fact_evidence_def fact_evidence_id_def deterministic_id_def def_fact_def plain_snapshot_def
        def_span_def span_point_def)
  have facts: "publish_facts ?H memory_store_new def_build plain_snapshot def_extraction
      = (?st, def_build\<lparr>gb_edges := [(rel_id r, r)]\<rparr>, Inr ())"
  proof -
    have reg: "ensure_snapshot_files memory_store_new (snap_id plain_snapshot) (snapshot_files plain_snapshot)
        = (memory_store_new\<lparr>ms_files := [((''s'', ''a.rs''), (''fn a'' @ [NUL], 4))]\<rparr>, Inr ())"
      by (simp add: snapshot_files_def plain_snapshot_def memory_store_new_def)
    have one: "ext_facts def_extraction = [def_fact]" by (simp add: def_extraction_def)
    have repo: "gb_repo def_build = ''r''" by (simp add: def_build_def)
    show ?thesis
      using e(1,2) by (simp add: publish_facts_def repo one def_facts_valid add reg del: add_facts.simps put_facts.simps)
        (simp add: Let_def put_evidence_def bt_contains_def memory_store_new_def put_claim_def validate_claim_def relation_claim_def bt_or_insert_def)
  qed
  let ?b = "def_build\<lparr>gb_edges := [(rel_id r, r)], gb_coverage := Some (build_coverage_of def_extraction 1 1)\<rparr>"
  have "\<not> coverage_disagrees ?st ?b (build_coverage_of def_extraction 1 1)"
    using e r by (simp add: coverage_disagrees_def direct_def backed_def bt_values_def
        build_coverage_of_def def_extraction_def def_fact_def Let_def)
  moreover have "edge_outside ?b (bt_values (gb_edges ?b)) = None"
    by (simp add: bt_values_def r def_build_nodes bt_contains_def)
  moreover have "predecessor_refused ?st ?b None = None"
    by (simp add: predecessor_refused_def memory_store_new_def)
  moreover have "\<exists>c. evidence_closure plain_chunks ?st ?b = Inr c"
    using e r by (simp add: evidence_closure_def bt_values_def evidence_rows_def claims_by_relation_def
        claims_of_def bt_alter_def validate_claim_def bt_contains_def plain_chunks_def relation_claim_def
        evidence_row_of_def counter_write_def SEALED_EVIDENCE_BYTES_MAX_def)
  ultimately obtain st3 where pub: "publish plain_chunks ?st ?b None = (st3, Inr ())"
    by (auto simp: publish_def seal_build_def memory_store_new_def)
  have "staged_build ?H ''r'' plain_snapshot def_extraction 1 None = def_build" by (simp add: def_build_def)
  then show ?thesis
    using facts pub by (simp add: build_and_publish_def reject_failed_def check_models_def check_all_def all_ok.simps
        pipeline_new_def Let_def materialize_decisions_def)
qed

theorem published_facts_cite_source_witness:
  "\<exists>p' b f. build_and_publish plain_codec plain_chunks pipeline_new ''r'' plain_snapshot def_extraction [] plain_mat None
      = (p', Inr b) \<and> bt_get (gb_nodes b) ''f'' = Some f
    \<and> str_slice ''fn a'' 0 4 = Some (fact_text def_fact)"
proof -
  obtain p' r where run: "build_and_publish plain_codec plain_chunks pipeline_new ''r'' plain_snapshot def_extraction [] plain_mat None
      = (p', r)" by (metis surj_pair)
  with def_publish obtain b where r: "r = Inr b" by (auto simp: is_ok_iff simp del: sum.disc)
  have mem: "def_fact \<in> set (ext_facts def_extraction)" by (simp add: def_extraction_def)
  from published_facts_cite_source [OF run [unfolded r] mem] show ?thesis
    using run r by (auto simp: def_fact_def plain_snapshot_def def_span_def span_point_def)
qed

end
