(* ===== verification/Responders.thy ===== *)
theory Responders
  imports Pipeline_Examples Jev_Client
begin

text \<open>
  Who answers the questions of a run: the deterministic fixture and the adapter of the HTTP
  client in \<^verbatim>\<open>crates/chaosbox/src/responder.rs\<close>.
\<close>

section \<open>The fixture\<close>

record fixture_responder =
  fx_accept_all :: bool
  fx_model :: string

definition fixture_new :: "bool \<Rightarrow> fixture_responder" where
  "fixture_new accept_all = \<lparr>fx_accept_all = accept_all, fx_model = JEV_MODEL_PINNED\<rparr>"

fun fixture_answer :: "bool \<Rightarrow> question \<Rightarrow> answer" where
  "fixture_answer acc (Q_Choice _ _) = A_Choice
     \<lparr>ca_choice = (if acc then ''accept'' else ''none''),
      ca_probabilities = bt_extend []
        [(''accept'', f64_lit (if acc then 9 / 10 else 1 / 10)), (''reject'', f64_lit (5 / 100)),
         (''none'', f64_lit (if acc then 5 / 100 else 85 / 100))],
      ca_confidence = f64_lit (85 / 100)\<rparr>"
| "fixture_answer acc (Q_Noul _ _) = A_Noul \<lparr>na_noul = f64_lit (8 / 10)\<rparr>"
| "fixture_answer acc (Q_Score _ _) = A_Score
     \<lparr>sa_score = F64_Finite 1, sa_probabilities = [(''0'', f64_lit (1 / 10)), (''1'', f64_lit (9 / 10))],
      sa_confidence = f64_lit (8 / 10), sa_results = [f64_lit (1 / 10), f64_lit (9 / 10)]\<rparr>"

definition fixture_respond ::
  "fixture_responder \<Rightarrow> json \<Rightarrow> (string, question) btree \<Rightarrow> string + system_one_response" where
  "fixture_respond fx state qs =
     Inr \<lparr>srs_model = fx_model fx,
          srs_answers = foldl (\<lambda>m (i, q). bt_insert i (fixture_answer (fx_accept_all fx) q) m) [] qs,
          srs_usage = \<lparr>us_input_tokens = 100, us_output_tokens = 0\<rparr>\<rparr>"

section \<open>The live client\<close>

text \<open>The valid options of a question are the keys of its own criteria.\<close>

fun criteria_options :: "question \<Rightarrow> string btset" where
  "criteria_options (Q_Choice _ criteria) = bs_of (bt_keys criteria)"
| "criteria_options _ = []"

definition live_options :: "(string, question) btree \<Rightarrow> (string, string btset) btree" where
  "live_options qs = bt_extend [] (map (\<lambda>(i, q). (i, criteria_options q)) qs)"

definition live_respond ::
  "(question \<Rightarrow> string) \<Rightarrow> (json \<Rightarrow> string) \<Rightarrow> (string \<Rightarrow> string + system_one_response)
   \<Rightarrow> jev_error + string \<Rightarrow> (nat \<Rightarrow> exchange) \<Rightarrow> (jev_error \<Rightarrow> string) \<Rightarrow> jev_client \<Rightarrow> json
   \<Rightarrow> (string, question) btree \<Rightarrow> (jev_client \<times> (string + system_one_response)) option" where
  "live_respond qjson render parse key net display client state qs =
     map_option (map_prod id (map_sum display id))
       (evaluate qjson render parse key net state qs (live_options qs) client)"

definition live_usage :: "jev_client \<Rightarrow> u32 \<times> u64" where
  "live_usage c = (jc_sent_requests c, jc_spent_tokens c)"

section \<open>Properties\<close>

lemma raw_from_answer_inverse: "answer_from_raw (raw_from_answer a) = a"
  by (cases a) simp_all

lemma live_options_relation: "live_options (questions_for c f t) = valid_options_for (question_id c)"
  by (simp add: live_options_def questions_for_def valid_options_for_def relation_question_def Let_def bt_keys_def)

text \<open>C34. What the live client returns is what a decision run takes: an answer of the client to
  the question of a candidate, whose valid options the adapter reads off the question
  itself, passes the run's own validation and the validation of stored answers, so a live
  run never stops at an answer it has just paid for.\<close>

theorem live_answers_are_taken:
  assumes live: "live_respond qjson render parse key net display client state (questions_for c f t) = Some (client', Inr resp)"
    and json: "\<And>bytes r. parse bytes = Inr r \<Longrightarrow> bt_ok (srs_answers r)"
  shows "validate_response_for_model resp (questions_for c f t) (valid_options_for (question_id c)) JEV_MODEL_PINNED = Inr ()
    \<and> (\<exists>a. srs_answers resp = [(question_id c, a)]
        \<and> validate_stored_inference
            \<lparr>inf_reuse_key = k, inf_raw = raw_from_answer a, inf_model_requested = JEV_MODEL_PINNED,
             inf_model_returned = srs_model resp\<rparr> k JEV_MODEL_PINNED (questions_for c f t) (question_id c) = Inr a)"
proof -
  from live have ev: "evaluate qjson render parse key net state (questions_for c f t)
      (valid_options_for (question_id c)) client = Some (client', Inr resp)"
    by (auto simp: live_respond_def live_options_relation map_sum_def split: sum.splits)
      (metis Inr_not_Inl sum.exhaust)+
  have asked: "bt_ok (questions_for c f t)" by (simp add: questions_for_def)
  from ev have "evaluate_loop parse net (questions_for c f t) (valid_options_for (question_id c)) 0 0 client = Some (client', Inr resp)"
    by (auto simp: evaluate_def split: if_splits sum.splits)
  from evaluate_loop_validated [OF this] json have ok: "bt_ok (srs_answers resp)"
    and val: "validate_response_for_model resp (questions_for c f t) (valid_options_for (question_id c)) JEV_MODEL_PINNED = Inr ()"
    by (auto simp: validate_response_def)
  then have len: "length (srs_answers resp) = 1"
    by (auto simp: validate_response_for_model_def questions_for_def split: sum.splits if_splits)
  then obtain e where e: "srs_answers resp = [e]" by (auto simp: length_Suc_conv)
  obtain a where a: "srs_answers resp = [(question_id c, a)]"
    using single_answer_qid [OF val [unfolded questions_for_def] len] e by (cases e) auto
  have model: "srs_model resp = JEV_MODEL_PINNED"
    using val by (auto simp: validate_response_for_model_def validate_model_identity_def split: sum.splits if_splits)
  let ?ir = "\<lparr>inf_reuse_key = k, inf_raw = raw_from_answer a, inf_model_requested = JEV_MODEL_PINNED,
             inf_model_returned = srs_model resp\<rparr>"
  have "validate_response_for_model (stored_response (question_id c) ?ir) (questions_for c f t)
      (valid_options_for (question_id c)) JEV_MODEL_PINNED
    = validate_response_for_model resp (questions_for c f t) (valid_options_for (question_id c)) JEV_MODEL_PINNED"
    by (simp add: validate_response_for_model_def stored_response_def a raw_from_answer_inverse model questions_for_def split: sum.split)
  with val a show ?thesis
    by (simp add: validate_stored_inference_def raw_from_answer_inverse)
qed

section \<open>Witness\<close>

definition live_response :: system_one_response where
  "live_response = \<lparr>srs_model = JEV_MODEL_PINNED, srs_answers = [(''rel_c1'', accepting_answer)],
     srs_usage = \<lparr>us_input_tokens = 5, us_output_tokens = 1\<rparr>\<rparr>"

lemma live_response_valid:
  "validate_response live_response (questions_for (sample_candidate ''c1'') f t)
     (valid_options_for (question_id (sample_candidate ''c1''))) = Inr ()"
  using accepting_ok [of "sample_candidate ''c1''" f t] unfolding validate_response_def
  by (subst validate_response_for_model_ok)
    (auto simp: questions_for_def response_ok_def valid_options_for_def bt_keys_def live_response_def
      question_id_def sample_candidate_def)

theorem live_answers_are_taken_witness:
  "\<exists>client'. live_respond (\<lambda>_. ''q'') (\<lambda>_. ''s'') (\<lambda>_. Inr live_response) (Inr ''key'') (\<lambda>_. X_Response ok_reply)
       (\<lambda>_. []) sample_client JNull (questions_for (sample_candidate ''c1'') (sample_entity ''a'') (sample_entity ''b'')) = Some (client', Inr live_response)
     \<and> validate_response_for_model live_response (questions_for (sample_candidate ''c1'') (sample_entity ''a'') (sample_entity ''b''))
         (valid_options_for (question_id (sample_candidate ''c1''))) JEV_MODEL_PINNED = Inr ()"
proof -
  have "check_context_limits (\<lambda>_. ''q'') ''s'' (questions_for (sample_candidate ''c1'') (sample_entity ''a'') (sample_entity ''b'')) = Inr ()"
    by (simp add: check_context_limits_def Let_def bt_values_def estimate_tokens_def div_ceil_def questions_for_def
        CTX_TOTAL_MAX_def CTX_STATE_PLUS_LONGEST_MAX_def)
  then have "\<exists>client'. evaluate (\<lambda>_. ''q'') (\<lambda>_. ''s'') (\<lambda>_. Inr live_response) (Inr ''key'') (\<lambda>_. X_Response ok_reply)
       JNull (questions_for (sample_candidate ''c1'') (sample_entity ''a'') (sample_entity ''b'')) (live_options (questions_for (sample_candidate ''c1'') (sample_entity ''a'') (sample_entity ''b'')))
       sample_client = Some (client', Inr live_response)"
    using live_response_valid [of "sample_entity ''a''" "sample_entity ''b''"]
    by (simp add: evaluate_def evaluate_loop.simps sample_client_def default_policy_def live_options_relation
        handle_exchange_def handle_response_def accept_response_def ok_reply_def
        log_attempt_def MAX_RESPONSE_BYTES_def Let_def)
      (simp add: live_response_def questions_for_def word_le_nat_alt)
  then obtain client' where run: "live_respond (\<lambda>_. ''q'') (\<lambda>_. ''s'') (\<lambda>_. Inr live_response) (Inr ''key'')
       (\<lambda>_. X_Response ok_reply) (\<lambda>_. []) sample_client JNull (questions_for (sample_candidate ''c1'') (sample_entity ''a'') (sample_entity ''b''))
       = Some (client', Inr live_response)"
    by (auto simp: live_respond_def)
  have "bt_ok (srs_answers r)" if "(Inr live_response :: string + system_one_response) = Inr r" for r
    using that by (auto simp: live_response_def)
  with live_answers_are_taken [OF run] run show ?thesis by blast
qed

end
